(* ===== verification/Prelude.thy ===== *)
theory Prelude
  imports Main "HOL-Library.Word"
begin

text \<open>
  Shared vocabulary of the development: the machine integer types, the error values by which
  the model represents every way the C code can stop (tcc_error, expect, a failed assert, an
  access outside a buffer), sequencing of fallible steps, and the generic word and list lemmas
  the component theories rest on.
\<close>

unbundle bit_operations_syntax

section \<open>Machine integers\<close>

type_synonym u8 = "8 word"
type_synonym u16 = "16 word"
type_synonym u32 = "32 word"
type_synonym u64 = "64 word"

named_theorems insn_defs \<open>definitions of the instruction emitters\<close>
named_theorems fits \<open>width bounds of the fields of an instruction word\<close>

section \<open>Errors\<close>

text \<open>
  \<open>TccError\<close> is tcc_error (it reports and leaves through longjmp), \<open>Expected\<close> is expect,
  \<open>InternalError\<close> is tcc_internal_error, \<open>AssertFail\<close> a failed assert, and \<open>MemFault\<close> what C
  leaves undefined: an access outside the allocated bytes, a null pointer followed, a shift by
  the width of the operand or more. \<open>NoReturn\<close> is a loop that used up the fuel it was given.
\<close>

datatype err =
    TccError string
  | Expected string
  | InternalError string
  | AssertFail
  | MemFault
  | NoReturn

type_synonym 'a res = "err + 'a"

definition bindR :: "'a res \<Rightarrow> ('a \<Rightarrow> 'b res) \<Rightarrow> 'b res" where
  "bindR m f = (case m of Inl e \<Rightarrow> Inl e | Inr x \<Rightarrow> f x)"

lemma bindR_simps [simp]:
  "bindR (Inl e) f = Inl e"
  "bindR (Inr x) f = f x"
  by (simp_all add: bindR_def)

lemma bindR_Inr_iff: "bindR m f = Inr y \<longleftrightarrow> (\<exists>x. m = Inr x \<and> f x = Inr y)"
  by (cases m) auto

lemma bindR_Inl_iff: "bindR m f = Inl e \<longleftrightarrow> m = Inl e \<or> (\<exists>x. m = Inr x \<and> f x = Inl e)"
  by (cases m) auto

lemma bindR_InrE:
  assumes "bindR m f = Inr y"
  obtains x where "m = Inr x" and "f x = Inr y"
  using assms by (auto simp: bindR_Inr_iff)

lemma bindR_not_Inl:
  "m \<noteq> Inl e \<Longrightarrow> (\<And>x. m = Inr x \<Longrightarrow> f x \<noteq> Inl e) \<Longrightarrow> bindR m f \<noteq> Inl e"
  by (cases m) simp_all

definition assertR :: "bool \<Rightarrow> unit res" where
  "assertR b = (if b then Inr () else Inl AssertFail)"

lemma assertR_simps [simp]:
  "assertR True = Inr ()"
  "assertR False = Inl AssertFail"
  by (simp_all add: assertR_def)

definition is_ok :: "'a res \<Rightarrow> bool" where
  "is_ok r = (case r of Inl _ \<Rightarrow> False | Inr _ \<Rightarrow> True)"

lemma is_ok_simps [simp]: "is_ok (Inr x)" "\<not> is_ok (Inl e)"
  by (simp_all add: is_ok_def)

lemma is_ok_bindR: "is_ok (bindR m f) \<longleftrightarrow> (\<exists>x. m = Inr x \<and> is_ok (f x))"
  by (cases m) auto

section \<open>Bits of bounded words\<close>

text \<open>
  Two default rules turn shifts by one and the lowest bit into arithmetic, which hides them from
  the rules on bits; they are switched off throughout.
\<close>

declare push_bit_Suc [simp del] take_bit_Suc_0 [simp del]

text \<open>
  \<open>fits_in n x\<close>: the value of the word \<open>x\<close> has no bit at position \<open>n\<close> or above, as the
  \<open>n\<close>-bit fields of an instruction word must not.
\<close>

definition fits_in :: "nat \<Rightarrow> 'a::len word \<Rightarrow> bool" where
  "fits_in n x \<longleftrightarrow> take_bit n x = x"

lemma fits_in_iff: "fits_in n x \<longleftrightarrow> (\<forall>m. bit x m \<longrightarrow> m < n)" for x :: "'a::len word"
  by (auto simp: fits_in_def bit_eq_iff bit_take_bit_iff dest: bit_imp_le_length)

lemma fits_inD: "fits_in n x \<Longrightarrow> bit x m \<Longrightarrow> m < n" for x :: "'a::len word"
  by (simp add: fits_in_iff)

lemma fits_in_take_bit [fits]: "fits_in n (take_bit n (x :: 'a::len word))"
  by (simp add: fits_in_def)

lemma fits_in_mono: "fits_in m x \<Longrightarrow> m \<le> n \<Longrightarrow> fits_in n x" for x :: "'a::len word"
  by (auto simp: fits_in_iff)

lemma fits_in_less: "unat x < 2 ^ n \<Longrightarrow> fits_in n x" for x :: "'a::len word"
  unfolding fits_in_def by (metis take_bit_nat_eq_self unsigned_take_bit_eq word_unat_eq_iff)

lemma fits_in_unat: "fits_in n x \<Longrightarrow> unat x < 2 ^ n" for x :: "'a::len word"
  unfolding fits_in_def by (metis take_bit_nat_less_exp unsigned_take_bit_eq)

lemma fits_in_uint: "fits_in n x \<Longrightarrow> uint x < 2 ^ n" for x :: "'a::len word"
  unfolding fits_in_def by (metis take_bit_int_less_exp unsigned_take_bit_eq)

lemma fits_in_uint_iff: "fits_in n x \<longleftrightarrow> uint x < 2 ^ n" for x :: "'a::len word"
proof
  assume "uint x < 2 ^ n"
  then have "take_bit n (uint x) = uint x" by (simp add: take_bit_int_eq_self)
  then show "fits_in n x" by (simp add: fits_in_def word_uint_eq_iff unsigned_take_bit_eq)
qed (rule fits_in_uint)

lemma sint_small: "uint x < 2 ^ (LENGTH('a) - 1) \<Longrightarrow> sint x = uint x" for x :: "'a::len word"
proof -
  assume lt: "uint x < 2 ^ (LENGTH('a) - 1)"
  have "- (2 ^ (LENGTH('a) - 1)) \<le> (0 :: int)" by simp
  also have "0 \<le> uint x" by simp
  finally show ?thesis using lt by (simp add: sint_uint signed_take_bit_int_eq_self_iff)
qed

lemma sint_nonneg: "0 \<le> sint x \<Longrightarrow> uint x = sint x" for x :: u32
proof -
  assume "0 \<le> sint x"
  moreover have "sint x < 2147483648" using sint_lt [of x] by simp
  ultimately have "sint x mod 4294967296 = sint x" by simp
  moreover have "uint (word_of_int (sint x) :: u32) = sint x mod 4294967296"
    by (simp only: uint_word_of_int) simp
  ultimately show ?thesis by simp
qed

lemma sint_unat: "unat x < 2147483648 \<Longrightarrow> sint x = int (unat x)" for x :: u32
proof -
  assume lt: "unat x < 2147483648"
  have "uint x = int (unat x)" by simp
  moreover from this lt have "uint x < 2147483648" by linarith
  then have "sint x = uint x" by (intro sint_small) simp
  ultimately show ?thesis by linarith
qed

lemma bit_0_unat: "bit x 0 \<longleftrightarrow> odd (unat x)" for x :: "'a::len word"
proof -
  have "bit (unat x) 0 \<longleftrightarrow> bit x 0" by (simp only: bit_unsigned_iff) (simp add: bit_imp_le_length)
  then show ?thesis by (simp only: bit_0)
qed

lemma range_check_bits:
  fixes x :: "'a::len word"
  shows "x AND NOT (push_bit 1 (mask k)) = 0 \<longleftrightarrow> \<not> bit x 0 \<and> fits_in (Suc k) x"
proof -
  have "bit (x AND NOT (push_bit 1 (mask k))) n \<longleftrightarrow> bit x n \<and> (n = 0 \<or> Suc k \<le> n)" for n
    by (cases "bit x n") (auto simp: bit_simps dest: bit_imp_le_length)
  moreover have "v = 0 \<longleftrightarrow> (\<forall>n. \<not> bit v n)" for v :: "'a word"
    using bit_word_eqI [of v 0] by auto
  ultimately have "x AND NOT (push_bit 1 (mask k)) = 0 \<longleftrightarrow>
      (\<forall>n. \<not> (bit x n \<and> (n = 0 \<or> Suc k \<le> n)))"
    by blast
  then show ?thesis by (auto simp: fits_in_iff not_le)
qed

section \<open>Slices\<close>

text \<open>Bits \<open>k\<close> to \<open>k + n - 1\<close> of a word, in place.\<close>

lemma bit_slice:
  fixes x :: "'a::len word"
  shows "bit (push_bit k (take_bit n (drop_bit k x))) i \<longleftrightarrow> k \<le> i \<and> i < k + n \<and> bit x i"
  by (auto simp: bit_simps dest: bit_imp_le_length)

lemma slice_glue:
  fixes x :: "'a::len word"
  shows "push_bit k (take_bit m (drop_bit k x)) OR push_bit (k + m) (take_bit n (drop_bit (k + m) x))
     = push_bit k (take_bit (m + n) (drop_bit k x))"
  by (rule bit_word_eqI) (simp only: bit_or_iff bit_slice, auto)

section \<open>Masks\<close>

text \<open>
  Conjunction with a literal of the form \<open>2 ^ n - 1\<close> keeps the low \<open>n\<close> bits. Each literal
  mask of the source gets its instance, so that \<open>simp add: and_masks bit_simps\<close> sees through it.
\<close>

named_theorems and_masks \<open>conjunction with literal masks\<close>

lemma and_mask_take_bit: "x AND mask n = take_bit n x" for x :: "'a::len word"
  by (simp add: take_bit_eq_mask)

lemma and_mask_word [and_masks]:
  fixes x :: "'a::len word"
  shows "x AND 1 = take_bit 1 x" "x AND 3 = take_bit 2 x" "x AND 7 = take_bit 3 x"
    "x AND 15 = take_bit 4 x" "x AND 31 = take_bit 5 x" "x AND 63 = take_bit 6 x"
    "x AND 127 = take_bit 7 x" "x AND 255 = take_bit 8 x" "x AND 1023 = take_bit 10 x"
    "x AND 4095 = take_bit 12 x" "x AND 1048575 = take_bit 20 x"
  by (simp_all add: take_bit_eq_mask mask_eq_exp_minus_1)

lemma mask_and_word [and_masks]:
  fixes x :: "'a::len word"
  shows "1 AND x = take_bit 1 x" "31 AND x = take_bit 5 x" "127 AND x = take_bit 7 x"
    "15 AND x = take_bit 4 x"
  by (simp_all add: and.commute [of _ x] and_masks)

section \<open>Truncation to 32 bits\<close>

lemma down_of_int: "(ucast (word_of_int k :: u64) :: u32) = word_of_int k"
  by (rule bit_word_eqI) (simp add: bit_simps)

lemma down_arith:
  fixes x y :: u64
  shows "(ucast (x + y) :: u32) = ucast x + ucast y"
    and "(ucast (x - y) :: u32) = ucast x - ucast y"
    and "(ucast (x * y) :: u32) = ucast x * ucast y"
proof -
  have u: "(ucast z :: u32) = word_of_int (uint z)" for z :: u64 by simp
  have "(ucast (x + y) :: u32) = ucast (word_of_int (uint x + uint y) :: u64)" by simp
  also have "\<dots> = word_of_int (uint x + uint y)" by (rule down_of_int)
  finally show "(ucast (x + y) :: u32) = ucast x + ucast y" by (simp only: of_int_add u)
  have "(ucast (x - y) :: u32) = ucast (word_of_int (uint x - uint y) :: u64)" by simp
  also have "\<dots> = word_of_int (uint x - uint y)" by (rule down_of_int)
  finally show "(ucast (x - y) :: u32) = ucast x - ucast y" by (simp only: of_int_diff u)
  have "(ucast (x * y) :: u32) = ucast (word_of_int (uint x * uint y) :: u64)" by simp
  also have "\<dots> = word_of_int (uint x * uint y)" by (rule down_of_int)
  finally show "(ucast (x * y) :: u32) = ucast x * ucast y" by (simp only: of_int_mult u)
qed

lemma down_of_nat: "(ucast (of_nat n :: u64) :: u32) = of_nat n"
  using down_of_int [of "int n"] by simp

section \<open>Lists\<close>

lemma find_SomeD: "find P xs = Some x \<Longrightarrow> x \<in> set xs \<and> P x"
  by (induction xs) (auto split: if_splits)

lemma find_append: "find P (xs @ ys) = (case find P xs of None \<Rightarrow> find P ys | Some z \<Rightarrow> Some z)"
  by (induction xs) auto

end
