(* ===== verification/Bytes.thy ===== *)
theory Bytes
  imports Prelude
begin

text \<open>
  Little-endian access to section contents (read16le, write32le and their kin in tcc.h) and
  growth of a section's buffer (section_realloc, section_add, section_ptr_add in tccelf.c).
  A buffer is the list of its allocated bytes, so its length is the C field data_allocated.
  The locale \<open>code_mem\<close> states what code that patches words in place relies on, and proves
  once how lists threaded through the words of a buffer behave; it is interpreted on read32le
  and write32le at the end.
\<close>

section \<open>Little-endian access\<close>

definition read16le :: "u8 list \<Rightarrow> nat \<Rightarrow> u16" where
  "read16le d p = ucast (d ! p) OR push_bit 8 (ucast (d ! (p + 1)))"

definition write16le :: "u8 list \<Rightarrow> nat \<Rightarrow> u16 \<Rightarrow> u8 list" where
  "write16le d p x = d[p := ucast (x AND 255), p + 1 := ucast (drop_bit 8 x AND 255)]"

definition read32le :: "u8 list \<Rightarrow> nat \<Rightarrow> u32" where
  "read32le d p = ucast (read16le d p) OR push_bit 16 (ucast (read16le d (p + 2)))"

definition write32le :: "u8 list \<Rightarrow> nat \<Rightarrow> u32 \<Rightarrow> u8 list" where
  "write32le d p x = write16le (write16le d p (ucast x)) (p + 2) (ucast (drop_bit 16 x))"

definition add32le :: "u8 list \<Rightarrow> nat \<Rightarrow> u32 \<Rightarrow> u8 list" where
  "add32le d p x = write32le d p (read32le d p + x)"

definition read64le :: "u8 list \<Rightarrow> nat \<Rightarrow> u64" where
  "read64le d p = ucast (read32le d p) OR push_bit 32 (ucast (read32le d (p + 4)))"

definition write64le :: "u8 list \<Rightarrow> nat \<Rightarrow> u64 \<Rightarrow> u8 list" where
  "write64le d p x = write32le (write32le d p (ucast x)) (p + 4) (ucast (drop_bit 32 x))"

lemma length_write16le [simp]: "length (write16le d p x) = length d"
  by (simp add: write16le_def)

lemma length_write32le [simp]: "length (write32le d p x) = length d"
  by (simp add: write32le_def)

lemma length_write64le [simp]: "length (write64le d p x) = length d"
  by (simp add: write64le_def)

lemma nth_write16le:
  "p + 2 \<le> length d \<Longrightarrow> write16le d p x ! i =
     (if i = p then ucast x else if i = p + 1 then ucast (drop_bit 8 x) else d ! i)"
  by (auto simp: write16le_def nth_list_update bit_simps and_masks intro!: bit_eqI)

lemma read16le_write16le [simp]:
  "p + 2 \<le> length d \<Longrightarrow> read16le (write16le d p x) p = x"
  by (auto intro!: bit_eqI simp: read16le_def nth_write16le bit_simps)

lemma read16le_write16le_other:
  "p + 2 \<le> length d \<Longrightarrow> q + 2 \<le> p \<or> p + 2 \<le> q \<Longrightarrow>
   read16le (write16le d p x) q = read16le d q"
  by (auto simp: read16le_def nth_write16le)

lemma nth_write32le:
  "p + 4 \<le> length d \<Longrightarrow> i < p \<or> p + 4 \<le> i \<Longrightarrow> write32le d p x ! i = d ! i"
  by (auto simp: write32le_def nth_write16le)

lemma read32le_write32le [simp]:
  "p + 4 \<le> length d \<Longrightarrow> read32le (write32le d p x) p = x"
  by (auto intro!: bit_eqI simp: read32le_def write32le_def read16le_write16le_other bit_simps)

lemma read32le_write32le_other:
  assumes "p + 4 \<le> length d" and "q + 4 \<le> p \<or> p + 4 \<le> q"
  shows "read32le (write32le d p x) q = read32le d q"
  using assms
  by (auto simp: read32le_def read16le_def nth_write32le)

lemma read32le_add32le:
  "p + 4 \<le> length d \<Longrightarrow> read32le (add32le d p x) p = read32le d p + x"
  by (simp add: add32le_def)

lemma read64le_write64le:
  "p + 8 \<le> length d \<Longrightarrow> read64le (write64le d p x) p = x"
  by (auto intro!: bit_eqI simp: read64le_def write64le_def read32le_write32le_other bit_simps)

lemma read32le_append:
  "p + 4 \<le> length d \<Longrightarrow> read32le (d @ e) p = read32le d p"
  by (simp add: read32le_def read16le_def nth_append)

text \<open>The four bytes of a word.\<close>

definition le32 :: "u32 \<Rightarrow> u8 list" where
  "le32 w = [ucast w, ucast (drop_bit 8 w), ucast (drop_bit 16 w), ucast (drop_bit 24 w)]"

lemma nth_write32le_in:
  assumes "p + 4 \<le> length d"
  shows "write32le d p w ! p = ucast w" "write32le d p w ! (p + 1) = ucast (drop_bit 8 w)"
    "write32le d p w ! (p + 2) = ucast (drop_bit 16 w)" "write32le d p w ! (p + 3) = ucast (drop_bit 24 w)"
  using assms by (auto simp: write32le_def nth_write16le bit_simps eval_nat_numeral intro!: bit_word_eqI)

lemma write32le_end:
  assumes "length d \<ge> n + 4"
  shows "take (n + 4) (write32le d n w) = take n d @ le32 w"
proof (rule nth_equalityI)
  fix i assume "i < length (take (n + 4) (write32le d n w))"
  then have "i < n + 4" by simp
  then consider "i < n" | "i = n" | "i = n + 1" | "i = n + 2" | "i = n + 3" by linarith
  then show "take (n + 4) (write32le d n w) ! i = (take n d @ le32 w) ! i"
    using assms nth_write32le_in [OF assms] nth_write32le [OF assms]
    by cases (simp_all add: le32_def nth_append)
qed (use assms in \<open>simp add: le32_def\<close>)

lemma read32le_le32:
  "read32le (le32 w @ r) 0 = w" "read32le (le32 w @ r) (p + 4) = read32le r p"
proof -
  have "le32 w = write32le [0, 0, 0, 0] 0 w" using write32le_end [of 0 "[0, 0, 0, 0]" w] by simp
  then have "read32le (le32 w) 0 = w" by simp
  then show "read32le (le32 w @ r) 0 = w" using read32le_append [of 0 "le32 w" r] by (simp add: le32_def)
  show "read32le (le32 w @ r) (p + 4) = read32le r p"
    by (simp add: le32_def read32le_def read16le_def eval_nat_numeral)
qed

section \<open>Sections\<close>

record Section =
  sdata :: "u8 list"
  data_offset :: nat
  sh_num :: nat
  sh_addr :: u32
  sh_addralign :: nat

abbreviation data_allocated :: "Section \<Rightarrow> nat" where
  "data_allocated sec \<equiv> length (sdata sec)"

text \<open>The doubling loop of section_realloc, from a non-zero sz.\<close>

function grow :: "nat \<Rightarrow> nat \<Rightarrow> nat" where
  "grow sz new_size = (if 0 < sz \<and> sz < new_size then grow (sz * 2) new_size else sz)"
  by pat_completeness auto
termination
  by (relation "measure (\<lambda>(sz, new_size). new_size - sz)") auto

declare grow.simps [simp del]

definition section_realloc :: "Section \<Rightarrow> nat \<Rightarrow> Section" where
  "section_realloc sec new_size =
     (let sz = grow (if data_allocated sec = 0 then 1 else data_allocated sec) new_size
      in sec\<lparr>sdata := sdata sec @ replicate (sz - data_allocated sec) 0\<rparr>)"

definition section_add :: "Section \<Rightarrow> nat \<Rightarrow> nat \<Rightarrow> Section \<times> nat" where
  "section_add sec sz align =
     (let offset = nat ((int (data_offset sec) + int align - 1) AND (- int align));
          offset1 = offset + sz;
          sec1 = (if offset1 > data_allocated sec then section_realloc sec offset1 else sec);
          sec2 = sec1\<lparr>data_offset := offset1\<rparr>
      in ((if align > sh_addralign sec2 then sec2\<lparr>sh_addralign := align\<rparr> else sec2), offset))"

definition section_ptr_add :: "Section \<Rightarrow> nat \<Rightarrow> Section \<times> nat" where
  "section_ptr_add sec sz = section_add sec sz 1"

lemma grow_ge: "0 < sz \<Longrightarrow> new_size \<le> grow sz new_size \<and> sz \<le> grow sz new_size"
proof (induction sz new_size rule: grow.induct)
  case (1 sz new_size)
  then show ?case by (subst (1 2) grow.simps) auto
qed

lemma grow_bound: "0 < sz \<Longrightarrow> sz < new_size \<Longrightarrow> grow sz new_size < 2 * new_size"
proof (induction sz new_size rule: grow.induct)
  case (1 sz new_size)
  show ?case
  proof (cases "sz * 2 < new_size")
    case True
    with 1 show ?thesis by (subst grow.simps) simp
  next
    case False
    with "1.prems" have "grow sz new_size = sz * 2"
      by (subst grow.simps, subst grow.simps) simp
    with "1.prems" show ?thesis by simp
  qed
qed

lemma grow_power2: "\<exists>k. sz = 2 ^ k \<Longrightarrow> \<exists>k. grow sz new_size = 2 ^ k"
proof (induction sz new_size rule: grow.induct)
  case (1 sz new_size)
  from "1.prems" have "\<exists>k. sz * 2 = 2 ^ k" by (metis power_Suc2)
  with 1 show ?case by (subst grow.simps) auto
qed

lemma section_realloc_enough: "new_size \<le> data_allocated (section_realloc sec new_size)"
  using grow_ge [of "if data_allocated sec = 0 then 1 else data_allocated sec" new_size]
  by (auto simp: section_realloc_def Let_def split: if_splits)

lemma section_realloc_prefix:
  "\<exists>k. sdata (section_realloc sec n) = sdata sec @ replicate k 0"
  by (auto simp: section_realloc_def Let_def)

lemma section_realloc_fields [simp]:
  "data_offset (section_realloc sec n) = data_offset sec"
  "sh_num (section_realloc sec n) = sh_num sec"
  "sh_addr (section_realloc sec n) = sh_addr sec"
  "sh_addralign (section_realloc sec n) = sh_addralign sec"
  by (simp_all add: section_realloc_def Let_def)

section \<open>Lists threaded through the words of a buffer\<close>

text \<open>
  The back end keeps the places of the jumps that still lack a target as a list inside the code:
  the word at a place is the offset of the next one, and 0 ends the list. \<open>linked rd lim n ps\<close>
  says that following the words from the head \<open>n\<close> visits the places \<open>ps\<close>; \<open>rd\<close> reads a word
  and \<open>lim\<close> is the size of the buffer.
\<close>

fun linked :: "(nat \<Rightarrow> u32) \<Rightarrow> nat \<Rightarrow> u32 \<Rightarrow> nat list \<Rightarrow> bool" where
  "linked rd lim n [] = (n = 0)"
| "linked rd lim n (p # ps) =
     (n = of_nat p \<and> 0 < p \<and> p < 2 ^ 31 \<and> p + 4 \<le> lim \<and> linked rd lim (rd p) ps)"

definition apart :: "nat \<Rightarrow> nat \<Rightarrow> bool" where
  "apart p q \<longleftrightarrow> p + 4 \<le> q \<or> q + 4 \<le> p"

definition all_apart :: "nat list \<Rightarrow> bool" where
  "all_apart ps = sorted_wrt apart ps"

lemma apart_sym: "apart p q \<longleftrightarrow> apart q p"
  by (auto simp: apart_def)

lemma all_apart_simps [simp]:
  "all_apart []"
  "all_apart (p # ps) \<longleftrightarrow> (\<forall>q \<in> set ps. apart p q) \<and> all_apart ps"
  "all_apart (ps @ qs) \<longleftrightarrow> all_apart ps \<and> all_apart qs \<and> (\<forall>p \<in> set ps. \<forall>q \<in> set qs. apart p q)"
  by (simp_all add: all_apart_def sorted_wrt_append)

lemma linked_cong:
  "(\<And>p. p \<in> set ps \<Longrightarrow> rd p = rd' p) \<Longrightarrow> linked rd lim n ps \<longleftrightarrow> linked rd' lim n ps"
  by (induction ps arbitrary: n) auto

lemma linked_bound: "linked rd lim n ps \<Longrightarrow> p \<in> set ps \<Longrightarrow> 0 < p \<and> p < 2 ^ 31 \<and> p + 4 \<le> lim"
  by (induction ps arbitrary: n) auto

locale code_mem =
  fixes rd :: "'m \<Rightarrow> nat \<Rightarrow> u32"
    and wr :: "'m \<Rightarrow> nat \<Rightarrow> u32 \<Rightarrow> 'm"
    and lim :: "'m \<Rightarrow> nat"
  assumes lim_wr [simp]: "lim (wr m p x) = lim m"
    and rd_wr: "p + 4 \<le> lim m \<Longrightarrow> rd (wr m p x) p = x"
    and rd_wr_apart: "p + 4 \<le> lim m \<Longrightarrow> apart p q \<Longrightarrow> rd (wr m p x) q = rd m q"
begin

lemma linked_wr:
  "p + 4 \<le> lim m \<Longrightarrow> \<forall>q \<in> set ps. apart p q \<Longrightarrow>
   linked (rd (wr m p x)) (lim m) n ps \<longleftrightarrow> linked (rd m) (lim m) n ps"
  by (rule linked_cong) (simp add: rd_wr_apart)

text \<open>Writing the head of a list over the end of another one appends it.\<close>

lemma linked_append:
  assumes "linked (rd m) (lim m) n (ps @ [p])" and "linked (rd m) (lim m) t qs"
    and "all_apart (ps @ [p])" and "\<forall>q \<in> set qs. apart p q"
  shows "linked (rd (wr m p t)) (lim m) n (ps @ [p] @ qs)"
  using assms(1,3)
proof (induction ps arbitrary: n)
  case Nil
  then show ?case using assms(2,4) by (simp add: rd_wr linked_wr)
next
  case (Cons a ps)
  then have "apart p a" and "p + 4 \<le> lim m"
    using linked_bound [of "rd m" "lim m" n "a # ps @ [p]" p] by (simp_all add: apart_sym)
  with Cons show ?case by (simp add: rd_wr_apart)
qed

lemma lim_fold [simp]: "lim (fold (\<lambda>p m. wr m p (f p)) ps m) = lim m"
  by (induction ps arbitrary: m) simp_all

lemma rd_fold_apart:
  "\<forall>p \<in> set ps. p + 4 \<le> lim m \<and> apart p q \<Longrightarrow> rd (fold (\<lambda>p m. wr m p (f p)) ps m) q = rd m q"
  by (induction ps arbitrary: m) (simp_all add: rd_wr_apart)

lemma rd_fold:
  "\<forall>p \<in> set ps. p + 4 \<le> lim m \<Longrightarrow> all_apart ps \<Longrightarrow> p \<in> set ps \<Longrightarrow>
   rd (fold (\<lambda>p m. wr m p (f p)) ps m) p = f p"
proof (induction ps arbitrary: m)
  case Nil
  then show ?case by simp
next
  case (Cons a ps)
  show ?case
  proof (cases "p \<in> set ps")
    case True
    with Cons show ?thesis by simp
  next
    case False
    with Cons.prems show ?thesis by (simp add: rd_fold_apart rd_wr apart_sym)
  qed
qed

end

interpretation code: code_mem read32le write32le length
  by unfold_locales (simp_all add: read32le_write32le_other apart_def disj_commute)

lemma nth_patch:
  "\<forall>p \<in> set ps. p + 4 \<le> length d \<and> \<not> (p \<le> i \<and> i < p + 4) \<Longrightarrow>
   fold (\<lambda>p d. write32le d p (f p)) ps d ! i = d ! i"
  by (induction ps arbitrary: d) (auto simp: nth_write32le not_le not_less)

end
