(* ===== verification/RV32_Isa.thy ===== *)
theory RV32_Isa
  imports Prelude
begin

text \<open>
  The abstract specification the RISC-V back end is measured against: the RV32IM instruction
  set as a datatype, the decoder of a 32-bit instruction word, and the effect of an instruction
  on registers, memory and program counter. It follows the ISA manual, not the C code, so no
  definition of this theory is mapped to source lines.
\<close>

section \<open>Instructions\<close>

datatype alu_op =
    Add | Sub | Sll | Slt | Sltu | Xor | Srl | Sra | Or | And
  | Mul | Mulh | Mulhsu | Mulhu | Div | Divu | Rem | Remu

datatype branch_op = Beq | Bne | Blt | Bge | Bltu | Bgeu

datatype load_op = Lb | Lh | Lw | Lbu | Lhu

datatype store_op = Sb | Sh | Sw

datatype csr_op = Csrrw | Csrrs | Csrrc | Csrrwi | Csrrsi | Csrrci

text \<open>Register numbers and immediates are 32-bit words; immediates are already sign extended.\<close>

datatype insn =
    Lui u32 u32 | Auipc u32 u32 | Jal u32 u32 | Jalr u32 u32 u32
  | Branch branch_op u32 u32 u32
  | Load load_op u32 u32 u32
  | Store store_op u32 u32 u32
  | OpImm alu_op u32 u32 u32
  | Op alu_op u32 u32 u32
  | Fence u32 u32 u32 | Ecall | Ebreak
  | Csr csr_op u32 u32 u32

section \<open>Fields of an instruction word\<close>

definition f_opcode :: "u32 \<Rightarrow> u32" where "f_opcode w = take_bit 7 w"
definition f_rd :: "u32 \<Rightarrow> u32" where "f_rd w = take_bit 5 (drop_bit 7 w)"
definition f_funct3 :: "u32 \<Rightarrow> u32" where "f_funct3 w = take_bit 3 (drop_bit 12 w)"
definition f_rs1 :: "u32 \<Rightarrow> u32" where "f_rs1 w = take_bit 5 (drop_bit 15 w)"
definition f_rs2 :: "u32 \<Rightarrow> u32" where "f_rs2 w = take_bit 5 (drop_bit 20 w)"
definition f_funct7 :: "u32 \<Rightarrow> u32" where "f_funct7 w = take_bit 7 (drop_bit 25 w)"

definition imm_I :: "u32 \<Rightarrow> u32" where
  "imm_I w = signed_take_bit 11 (take_bit 12 (drop_bit 20 w))"

definition imm_S :: "u32 \<Rightarrow> u32" where
  "imm_S w = signed_take_bit 11 (push_bit 5 (take_bit 7 (drop_bit 25 w)) OR take_bit 5 (drop_bit 7 w))"

definition imm_B :: "u32 \<Rightarrow> u32" where
  "imm_B w = signed_take_bit 12
     (push_bit 12 (take_bit 1 (drop_bit 31 w)) OR push_bit 11 (take_bit 1 (drop_bit 7 w)) OR
      push_bit 5 (take_bit 6 (drop_bit 25 w)) OR push_bit 1 (take_bit 4 (drop_bit 8 w)))"

definition imm_U :: "u32 \<Rightarrow> u32" where
  "imm_U w = take_bit 20 (drop_bit 12 w)"

definition imm_J :: "u32 \<Rightarrow> u32" where
  "imm_J w = signed_take_bit 20
     (push_bit 20 (take_bit 1 (drop_bit 31 w)) OR push_bit 12 (take_bit 8 (drop_bit 12 w)) OR
      push_bit 11 (take_bit 1 (drop_bit 20 w)) OR push_bit 1 (take_bit 10 (drop_bit 21 w)))"

lemmas field_defs = f_opcode_def f_rd_def f_funct3_def f_rs1_def f_rs2_def f_funct7_def
  imm_I_def imm_S_def imm_B_def imm_U_def imm_J_def

section \<open>Decoder\<close>

definition decode_branch :: "u32 \<Rightarrow> branch_op option" where
  "decode_branch f3 =
     (if f3 = 0 then Some Beq else if f3 = 1 then Some Bne
      else if f3 = 4 then Some Blt else if f3 = 5 then Some Bge
      else if f3 = 6 then Some Bltu else if f3 = 7 then Some Bgeu else None)"

definition decode_load :: "u32 \<Rightarrow> load_op option" where
  "decode_load f3 =
     (if f3 = 0 then Some Lb else if f3 = 1 then Some Lh else if f3 = 2 then Some Lw
      else if f3 = 4 then Some Lbu else if f3 = 5 then Some Lhu else None)"

definition decode_store :: "u32 \<Rightarrow> store_op option" where
  "decode_store f3 =
     (if f3 = 0 then Some Sb else if f3 = 1 then Some Sh else if f3 = 2 then Some Sw else None)"

definition decode_csr :: "u32 \<Rightarrow> csr_op option" where
  "decode_csr f3 =
     (if f3 = 1 then Some Csrrw else if f3 = 2 then Some Csrrs else if f3 = 3 then Some Csrrc
      else if f3 = 5 then Some Csrrwi else if f3 = 6 then Some Csrrsi
      else if f3 = 7 then Some Csrrci else None)"

definition decode_op :: "u32 \<Rightarrow> u32 \<Rightarrow> alu_op option" where
  "decode_op f7 f3 =
     (if f7 = 0 then
        (if f3 = 0 then Some Add else if f3 = 1 then Some Sll else if f3 = 2 then Some Slt
         else if f3 = 3 then Some Sltu else if f3 = 4 then Some Xor else if f3 = 5 then Some Srl
         else if f3 = 6 then Some Or else Some And)
      else if f7 = 32 then
        (if f3 = 0 then Some Sub else if f3 = 5 then Some Sra else None)
      else if f7 = 1 then
        (if f3 = 0 then Some Mul else if f3 = 1 then Some Mulh else if f3 = 2 then Some Mulhsu
         else if f3 = 3 then Some Mulhu else if f3 = 4 then Some Div else if f3 = 5 then Some Divu
         else if f3 = 6 then Some Rem else Some Remu)
      else None)"

definition decode_op_imm :: "u32 \<Rightarrow> insn option" where
  "decode_op_imm w =
     (let f3 = f_funct3 w; rd = f_rd w; rs1 = f_rs1 w in
      if f3 = 0 then Some (OpImm Add rd rs1 (imm_I w))
      else if f3 = 2 then Some (OpImm Slt rd rs1 (imm_I w))
      else if f3 = 3 then Some (OpImm Sltu rd rs1 (imm_I w))
      else if f3 = 4 then Some (OpImm Xor rd rs1 (imm_I w))
      else if f3 = 6 then Some (OpImm Or rd rs1 (imm_I w))
      else if f3 = 7 then Some (OpImm And rd rs1 (imm_I w))
      else if f3 = 1 then (if f_funct7 w = 0 then Some (OpImm Sll rd rs1 (f_rs2 w)) else None)
      else if f_funct7 w = 0 then Some (OpImm Srl rd rs1 (f_rs2 w))
      else if f_funct7 w = 32 then Some (OpImm Sra rd rs1 (f_rs2 w))
      else None)"

definition decode_system :: "u32 \<Rightarrow> insn option" where
  "decode_system w =
     (if f_funct3 w = 0 then
        (if w = 0x73 then Some Ecall else if w = 0x100073 then Some Ebreak else None)
      else map_option (\<lambda>op. Csr op (f_rd w) (f_rs1 w) (take_bit 12 (drop_bit 20 w)))
             (decode_csr (f_funct3 w)))"

definition decode :: "u32 \<Rightarrow> insn option" where
  "decode w =
     (let op = f_opcode w in
      if op = 0x37 then Some (Lui (f_rd w) (imm_U w))
      else if op = 0x17 then Some (Auipc (f_rd w) (imm_U w))
      else if op = 0x6f then Some (Jal (f_rd w) (imm_J w))
      else if op = 0x67 then
        (if f_funct3 w = 0 then Some (Jalr (f_rd w) (f_rs1 w) (imm_I w)) else None)
      else if op = 0x63 then
        map_option (\<lambda>b. Branch b (f_rs1 w) (f_rs2 w) (imm_B w)) (decode_branch (f_funct3 w))
      else if op = 0x03 then
        map_option (\<lambda>l. Load l (f_rd w) (f_rs1 w) (imm_I w)) (decode_load (f_funct3 w))
      else if op = 0x23 then
        map_option (\<lambda>t. Store t (f_rs1 w) (f_rs2 w) (imm_S w)) (decode_store (f_funct3 w))
      else if op = 0x13 then decode_op_imm w
      else if op = 0x33 then
        map_option (\<lambda>a. Op a (f_rd w) (f_rs1 w) (f_rs2 w)) (decode_op (f_funct7 w) (f_funct3 w))
      else if op = 0x0f then
        (if f_funct3 w = 0 then Some (Fence (f_rd w) (f_rs1 w) (take_bit 12 (drop_bit 20 w)))
         else None)
      else if op = 0x73 then decode_system w
      else None)"

section \<open>Execution\<close>

record cpu =
  pc :: u32
  regs :: "u32 \<Rightarrow> u32"
  mem :: "u32 \<Rightarrow> u8"

text \<open>Register x0 reads as zero and ignores writes.\<close>

definition rreg :: "cpu \<Rightarrow> u32 \<Rightarrow> u32" where
  "rreg c r = (if r = 0 then 0 else regs c r)"

definition wreg :: "u32 \<Rightarrow> u32 \<Rightarrow> cpu \<Rightarrow> cpu" where
  "wreg r v c = (if r = 0 then c else c\<lparr>regs := (regs c)(r := v)\<rparr>)"

definition shift_amount :: "u32 \<Rightarrow> nat" where
  "shift_amount x = unat (take_bit 5 x)"

definition bool32 :: "bool \<Rightarrow> u32" where
  "bool32 b = (if b then 1 else 0)"

text \<open>Division rounds towards zero; by zero it gives all ones and the dividend as remainder.\<close>

definition sdiv32 :: "u32 \<Rightarrow> u32 \<Rightarrow> u32" where
  "sdiv32 a b =
     (if b = 0 then - 1
      else word_of_int (sgn (sint a) * sgn (sint b) * (\<bar>sint a\<bar> div \<bar>sint b\<bar>)))"

definition srem32 :: "u32 \<Rightarrow> u32 \<Rightarrow> u32" where
  "srem32 a b = (if b = 0 then a else word_of_int (sgn (sint a) * (\<bar>sint a\<bar> mod \<bar>sint b\<bar>)))"

definition alu :: "alu_op \<Rightarrow> u32 \<Rightarrow> u32 \<Rightarrow> u32" where
  "alu op a b = (case op of
     Add \<Rightarrow> a + b | Sub \<Rightarrow> a - b
   | Sll \<Rightarrow> push_bit (shift_amount b) a | Srl \<Rightarrow> drop_bit (shift_amount b) a
   | Sra \<Rightarrow> signed_drop_bit (shift_amount b) a
   | Slt \<Rightarrow> bool32 (sint a < sint b) | Sltu \<Rightarrow> bool32 (a < b)
   | Xor \<Rightarrow> a XOR b | Or \<Rightarrow> a OR b | And \<Rightarrow> a AND b
   | Mul \<Rightarrow> a * b
   | Mulh \<Rightarrow> word_of_int (sint a * sint b div 2 ^ 32)
   | Mulhsu \<Rightarrow> word_of_int (sint a * uint b div 2 ^ 32)
   | Mulhu \<Rightarrow> word_of_int (uint a * uint b div 2 ^ 32)
   | Div \<Rightarrow> sdiv32 a b | Divu \<Rightarrow> (if b = 0 then - 1 else a div b)
   | Rem \<Rightarrow> srem32 a b | Remu \<Rightarrow> (if b = 0 then a else a mod b))"

definition branch_taken :: "branch_op \<Rightarrow> u32 \<Rightarrow> u32 \<Rightarrow> bool" where
  "branch_taken op a b = (case op of
     Beq \<Rightarrow> a = b | Bne \<Rightarrow> a \<noteq> b
   | Blt \<Rightarrow> sint a < sint b | Bge \<Rightarrow> sint b \<le> sint a
   | Bltu \<Rightarrow> a < b | Bgeu \<Rightarrow> b \<le> a)"

definition mem_half :: "(u32 \<Rightarrow> u8) \<Rightarrow> u32 \<Rightarrow> u16" where
  "mem_half m a = ucast (m a) OR push_bit 8 (ucast (m (a + 1)))"

definition mem_word :: "(u32 \<Rightarrow> u8) \<Rightarrow> u32 \<Rightarrow> u32" where
  "mem_word m a = ucast (mem_half m a) OR push_bit 16 (ucast (mem_half m (a + 2)))"

definition load_val :: "load_op \<Rightarrow> (u32 \<Rightarrow> u8) \<Rightarrow> u32 \<Rightarrow> u32" where
  "load_val op m a = (case op of
     Lb \<Rightarrow> scast (m a) | Lbu \<Rightarrow> ucast (m a)
   | Lh \<Rightarrow> scast (mem_half m a) | Lhu \<Rightarrow> ucast (mem_half m a)
   | Lw \<Rightarrow> mem_word m a)"

definition store_val :: "store_op \<Rightarrow> u32 \<Rightarrow> u32 \<Rightarrow> (u32 \<Rightarrow> u8) \<Rightarrow> (u32 \<Rightarrow> u8)" where
  "store_val op a v m = (case op of
     Sb \<Rightarrow> m(a := ucast v)
   | Sh \<Rightarrow> m(a := ucast v, a + 1 := ucast (drop_bit 8 v))
   | Sw \<Rightarrow> m(a := ucast v, a + 1 := ucast (drop_bit 8 v),
             a + 2 := ucast (drop_bit 16 v), a + 3 := ucast (drop_bit 24 v)))"

abbreviation next_pc :: "cpu \<Rightarrow> cpu" where
  "next_pc c \<equiv> c\<lparr>pc := pc c + 4\<rparr>"

definition exec :: "insn \<Rightarrow> cpu \<Rightarrow> cpu option" where
  "exec i c = (case i of
     Lui rd imm \<Rightarrow> Some (next_pc (wreg rd (push_bit 12 imm) c))
   | Auipc rd imm \<Rightarrow> Some (next_pc (wreg rd (pc c + push_bit 12 imm) c))
   | Jal rd imm \<Rightarrow> Some (wreg rd (pc c + 4) c\<lparr>pc := pc c + imm\<rparr>)
   | Jalr rd rs1 imm \<Rightarrow>
       Some (wreg rd (pc c + 4) c\<lparr>pc := (rreg c rs1 + imm) AND NOT 1\<rparr>)
   | Branch op rs1 rs2 imm \<Rightarrow>
       Some (if branch_taken op (rreg c rs1) (rreg c rs2) then c\<lparr>pc := pc c + imm\<rparr> else next_pc c)
   | Load op rd rs1 imm \<Rightarrow> Some (next_pc (wreg rd (load_val op (mem c) (rreg c rs1 + imm)) c))
   | Store op rs1 rs2 imm \<Rightarrow>
       Some (next_pc (c\<lparr>mem := store_val op (rreg c rs1 + imm) (rreg c rs2) (mem c)\<rparr>))
   | OpImm op rd rs1 imm \<Rightarrow> Some (next_pc (wreg rd (alu op (rreg c rs1) imm) c))
   | Op op rd rs1 rs2 \<Rightarrow> Some (next_pc (wreg rd (alu op (rreg c rs1) (rreg c rs2)) c))
   | Fence _ _ _ \<Rightarrow> Some (next_pc c)
   | _ \<Rightarrow> None)"

text \<open>Running instruction words one after the other, as straight-line code does.\<close>

fun run :: "u32 list \<Rightarrow> cpu \<Rightarrow> cpu option" where
  "run [] c = Some c"
| "run (w # ws) c = (case decode w of None \<Rightarrow> None
     | Some i \<Rightarrow> (case exec i c of None \<Rightarrow> None | Some c' \<Rightarrow> run ws c'))"

lemma run_append: "run (us @ vs) c = (case run us c of None \<Rightarrow> None | Some c' \<Rightarrow> run vs c')"
  by (induction us arbitrary: c) (auto split: option.splits)

declare run.simps(2) [simp del]

lemma rreg_wreg [simp]: "rreg (wreg r v c) q = (if q = r \<and> r \<noteq> 0 then v else rreg c q)"
  by (simp add: rreg_def wreg_def)

lemma wreg_fields [simp]: "pc (wreg r v c) = pc c" "mem (wreg r v c) = mem c"
  by (simp_all add: wreg_def)

lemma rreg_pc [simp]: "rreg (c\<lparr>pc := p\<rparr>) q = rreg c q" "rreg (c\<lparr>mem := m\<rparr>) q = rreg c q"
  by (simp_all add: rreg_def)

lemma rreg_0 [simp]: "rreg c 0 = 0"
  by (simp add: rreg_def)

lemma wreg_pc: "wreg r v (c\<lparr>pc := p\<rparr>) = (wreg r v c)\<lparr>pc := p\<rparr>"
  by (simp add: wreg_def)

lemma wreg_wreg [simp]: "wreg r v (wreg r u c) = wreg r v c"
  by (simp add: wreg_def)

end
