(* ===== verification/Riscv_Emit.thy ===== *)
theory Riscv_Emit
  imports Bytes RV32_Isa
begin

text \<open>
  The instruction emitters of the RISC-V back end: the byte and word writers g, gen_le16,
  gen_le32 (riscv32-asm.c) and o (riscv32-gen.c) that append to the current text section, the
  six format encoders emit_R, emit_I, emit_S, emit_B, emit_U, emit_J (riscv32-asm.c), EIu, ER, EI,
  ES (riscv32-gen.c) and the mnemonic macros of riscv_utils.h. Every encoder is split into the
  instruction word it builds (\<open>insn_R\<close> and so on) and the call of \<open>o_insn\<close> that writes it.
  The lemmas relate the words to the decoder of \<open>RV32_Isa\<close>.
\<close>

section \<open>Emission state\<close>

text \<open>
  The globals every emitter touches: cur_text_section, ind and nocode_wanted. Components that
  need more state extend this record.
\<close>

record emit_state =
  text_sec :: Section
  ind :: nat
  nocode_wanted :: u32

definition reserve :: "nat \<Rightarrow> 'a emit_state_scheme \<Rightarrow> 'a emit_state_scheme" where
  "reserve ind1 s =
     (if ind1 > data_allocated (text_sec s)
      then s\<lparr>text_sec := section_realloc (text_sec s) ind1\<rparr> else s)"

definition set_text :: "(u8 list \<Rightarrow> u8 list) \<Rightarrow> 'a emit_state_scheme \<Rightarrow> 'a emit_state_scheme" where
  "set_text f s = s\<lparr>text_sec := (text_sec s)\<lparr>sdata := f (sdata (text_sec s))\<rparr>\<rparr>"

definition o_insn :: "u32 \<Rightarrow> 'a emit_state_scheme \<Rightarrow> 'a emit_state_scheme" where
  "o_insn opcode s =
     (let ind1 = ind s + 4 in
      if nocode_wanted s \<noteq> 0 then s
      else (set_text (\<lambda>d. write32le d (ind s) opcode) (reserve ind1 s))\<lparr>ind := ind1\<rparr>)"

definition g :: "u32 \<Rightarrow> 'a emit_state_scheme \<Rightarrow> 'a emit_state_scheme" where
  "g i s =
     (if nocode_wanted s \<noteq> 0 then s
      else let ind1 = ind s + 1 in
        (set_text (\<lambda>d. d[ind s := ucast i]) (reserve ind1 s))\<lparr>ind := ind1\<rparr>)"

definition gen_le16 :: "u32 \<Rightarrow> 'a emit_state_scheme \<Rightarrow> 'a emit_state_scheme" where
  "gen_le16 i s =
     (if nocode_wanted s \<noteq> 0 then s
      else let ind1 = ind s + 4 in
        (set_text (\<lambda>d. d[ind s := ucast (i AND 0xFF),
                         ind s + 1 := ucast (signed_drop_bit 8 i AND 0xFF)])
           (reserve ind1 s))\<lparr>ind := ind s + 2\<rparr>)"

definition gen_le32 :: "u32 \<Rightarrow> 'a emit_state_scheme \<Rightarrow> 'a emit_state_scheme" where
  "gen_le32 i s =
     (if nocode_wanted s \<noteq> 0 then s
      else let ind1 = ind s + 4 in
        (set_text (\<lambda>d. d[ind s := ucast (i AND 0xFF),
                         ind s + 1 := ucast (signed_drop_bit 8 i AND 0xFF),
                         ind s + 2 := ucast (signed_drop_bit 16 i AND 0xFF),
                         ind s + 3 := ucast (signed_drop_bit 24 i AND 0xFF)])
           (reserve ind1 s))\<lparr>ind := ind s + 4\<rparr>)"

section \<open>Format encoders\<close>

definition insn_R :: "u32 \<Rightarrow> u32 \<Rightarrow> u32 \<Rightarrow> u32 \<Rightarrow> u32 \<Rightarrow> u32 \<Rightarrow> u32" where
  "insn_R funct7 rs2 rs1 funct3 rd opcode =
     push_bit 25 funct7 OR push_bit 20 rs2 OR push_bit 15 rs1 OR push_bit 12 funct3 OR
     push_bit 7 rd OR opcode"

definition emit_R :: "u32 \<Rightarrow> u32 \<Rightarrow> u32 \<Rightarrow> u32 \<Rightarrow> u32 \<Rightarrow> u32 \<Rightarrow>
    'a emit_state_scheme \<Rightarrow> 'a emit_state_scheme" where
  "emit_R funct7 rs2 rs1 funct3 rd opcode = o_insn (insn_R funct7 rs2 rs1 funct3 rd opcode)"

definition insn_I :: "u32 \<Rightarrow> u32 \<Rightarrow> u32 \<Rightarrow> u32 \<Rightarrow> u32 \<Rightarrow> u32" where
  "insn_I imm rs1 funct3 rd opcode =
     push_bit 20 imm OR push_bit 15 rs1 OR push_bit 12 funct3 OR push_bit 7 rd OR opcode"

definition emit_I :: "u32 \<Rightarrow> u32 \<Rightarrow> u32 \<Rightarrow> u32 \<Rightarrow> u32 \<Rightarrow>
    'a emit_state_scheme \<Rightarrow> 'a emit_state_scheme" where
  "emit_I imm rs1 funct3 rd opcode = o_insn (insn_I imm rs1 funct3 rd opcode)"

definition insn_S :: "u32 \<Rightarrow> u32 \<Rightarrow> u32 \<Rightarrow> u32 \<Rightarrow> u32 \<Rightarrow> u32" where
  "insn_S imm rs2 rs1 funct3 opcode =
     (let imm_h = 0x7f AND drop_bit 5 imm;
          imm_l = 0x1f AND imm
      in push_bit 25 imm_h OR push_bit 20 rs2 OR push_bit 15 rs1 OR push_bit 12 funct3 OR
         push_bit 7 imm_l OR opcode)"

definition emit_S :: "u32 \<Rightarrow> u32 \<Rightarrow> u32 \<Rightarrow> u32 \<Rightarrow> u32 \<Rightarrow>
    'a emit_state_scheme \<Rightarrow> 'a emit_state_scheme" where
  "emit_S imm rs2 rs1 funct3 opcode = o_insn (insn_S imm rs2 rs1 funct3 opcode)"

definition insn_B :: "u32 \<Rightarrow> u32 \<Rightarrow> u32 \<Rightarrow> u32 \<Rightarrow> u32 \<Rightarrow> u32" where
  "insn_B imm rs2 rs1 funct3 opcode =
     (let imm_h = 0x7f AND drop_bit 5 (drop_bit 1 (0x800 AND imm) OR (0x7e0 AND imm));
          imm_l = (0x1e AND imm) OR (0x1 AND drop_bit 11 imm)
      in push_bit 25 imm_h OR push_bit 20 rs2 OR push_bit 15 rs1 OR push_bit 12 funct3 OR
         push_bit 7 imm_l OR opcode)"

definition emit_B :: "u32 \<Rightarrow> u32 \<Rightarrow> u32 \<Rightarrow> u32 \<Rightarrow> u32 \<Rightarrow>
    'a emit_state_scheme \<Rightarrow> 'a emit_state_scheme" where
  "emit_B imm rs2 rs1 funct3 opcode = o_insn (insn_B imm rs2 rs1 funct3 opcode)"

definition insn_U :: "u32 \<Rightarrow> u32 \<Rightarrow> u32 \<Rightarrow> u32" where
  "insn_U imm rd opcode = push_bit 12 imm OR push_bit 7 rd OR opcode"

definition emit_U :: "u32 \<Rightarrow> u32 \<Rightarrow> u32 \<Rightarrow> 'a emit_state_scheme \<Rightarrow> 'a emit_state_scheme" where
  "emit_U imm rd opcode = o_insn (insn_U imm rd opcode)"

definition insn_J :: "u32 \<Rightarrow> u32 \<Rightarrow> u32 \<Rightarrow> u32" where
  "insn_J imm rd opcode =
     (let immediate = push_bit 12 (drop_bit 12 imm AND 0xff) OR
                      push_bit 20 (drop_bit 11 imm AND 1) OR
                      push_bit 21 (drop_bit 1 imm AND 0x3ff) OR
                      push_bit 31 (drop_bit 20 imm AND 1)
      in immediate OR push_bit 7 rd OR opcode)"

definition emit_J :: "u32 \<Rightarrow> u32 \<Rightarrow> u32 \<Rightarrow> 'a emit_state_scheme \<Rightarrow> 'a emit_state_scheme" where
  "emit_J imm rd opcode = o_insn (insn_J imm rd opcode)"

text \<open>The encoders of riscv32-gen.c; EI and ES assert that the immediate fits.\<close>

definition EIu :: "u32 \<Rightarrow> u32 \<Rightarrow> u32 \<Rightarrow> u32 \<Rightarrow> u32 \<Rightarrow>
    'a emit_state_scheme \<Rightarrow> 'a emit_state_scheme" where
  "EIu opcode func3 rd rs1 imm =
     o_insn (opcode OR push_bit 12 func3 OR push_bit 7 rd OR push_bit 15 rs1 OR push_bit 20 imm)"

definition ER :: "u32 \<Rightarrow> u32 \<Rightarrow> u32 \<Rightarrow> u32 \<Rightarrow> u32 \<Rightarrow> u32 \<Rightarrow>
    'a emit_state_scheme \<Rightarrow> 'a emit_state_scheme" where
  "ER opcode func3 rd rs1 rs2 func7 =
     o_insn (opcode OR push_bit 12 func3 OR push_bit 7 rd OR push_bit 15 rs1 OR
             push_bit 20 rs2 OR push_bit 25 func7)"

definition imm12_ok :: "u32 \<Rightarrow> bool" where
  "imm12_ok imm = (drop_bit 12 (imm + push_bit 11 1) = 0)"

definition EI :: "u32 \<Rightarrow> u32 \<Rightarrow> u32 \<Rightarrow> u32 \<Rightarrow> u32 \<Rightarrow>
    'a emit_state_scheme \<Rightarrow> 'a emit_state_scheme res" where
  "EI opcode func3 rd rs1 imm s =
     bindR (assertR (imm12_ok imm)) (\<lambda>_. Inr (EIu opcode func3 rd rs1 imm s))"

definition ES :: "u32 \<Rightarrow> u32 \<Rightarrow> u32 \<Rightarrow> u32 \<Rightarrow> u32 \<Rightarrow>
    'a emit_state_scheme \<Rightarrow> 'a emit_state_scheme res" where
  "ES opcode func3 rs1 rs2 imm s =
     bindR (assertR (imm12_ok imm)) (\<lambda>_. Inr (o_insn
       (opcode OR push_bit 12 func3 OR push_bit 7 (imm AND 0x1f) OR push_bit 15 rs1 OR
        push_bit 20 rs2 OR push_bit 25 (drop_bit 5 imm)) s))"

section \<open>Mnemonics\<close>

definition IMM_LOW :: "u32 \<Rightarrow> u32" where "IMM_LOW imm = imm AND 0x00000FFF"
definition IMM_HIGH :: "u32 \<Rightarrow> u32" where "IMM_HIGH imm = drop_bit 12 (imm AND 0xFFFFF000)"
definition LARGE_IMM :: "u32 \<Rightarrow> bool" where "LARGE_IMM imm = (IMM_HIGH (imm + 0x800) \<noteq> 0)"

definition emit_LUI :: "u32 \<Rightarrow> u32 \<Rightarrow> 'a emit_state_scheme \<Rightarrow> 'a emit_state_scheme" where
  "emit_LUI rd imm = emit_U imm rd 0x37"

definition emit_AUIPC :: "u32 \<Rightarrow> u32 \<Rightarrow> 'a emit_state_scheme \<Rightarrow> 'a emit_state_scheme" where
  "emit_AUIPC rd imm = emit_U imm rd 0x17"

definition emit_JAL :: "u32 \<Rightarrow> u32 \<Rightarrow> 'a emit_state_scheme \<Rightarrow> 'a emit_state_scheme" where
  "emit_JAL rd imm = emit_J imm rd 0x6f"

definition emit_JALR :: "u32 \<Rightarrow> u32 \<Rightarrow> u32 \<Rightarrow> 'a emit_state_scheme \<Rightarrow> 'a emit_state_scheme" where
  "emit_JALR rd rs1 imm = emit_I imm rs1 0x0 rd 0x67"

definition emit_BEQ :: "u32 \<Rightarrow> u32 \<Rightarrow> u32 \<Rightarrow> 'a emit_state_scheme \<Rightarrow> 'a emit_state_scheme" where
  "emit_BEQ rs1 rs2 imm = emit_B imm rs2 rs1 0x0 0x63"

definition emit_BNE :: "u32 \<Rightarrow> u32 \<Rightarrow> u32 \<Rightarrow> 'a emit_state_scheme \<Rightarrow> 'a emit_state_scheme" where
  "emit_BNE rs1 rs2 imm = emit_B imm rs2 rs1 0x1 0x63"

definition emit_BLT :: "u32 \<Rightarrow> u32 \<Rightarrow> u32 \<Rightarrow> 'a emit_state_scheme \<Rightarrow> 'a emit_state_scheme" where
  "emit_BLT rs1 rs2 imm = emit_B imm rs2 rs1 0x4 0x63"

definition emit_BGE :: "u32 \<Rightarrow> u32 \<Rightarrow> u32 \<Rightarrow> 'a emit_state_scheme \<Rightarrow> 'a emit_state_scheme" where
  "emit_BGE rs1 rs2 imm = emit_B imm rs2 rs1 0x5 0x63"

definition emit_BLTU :: "u32 \<Rightarrow> u32 \<Rightarrow> u32 \<Rightarrow> 'a emit_state_scheme \<Rightarrow> 'a emit_state_scheme" where
  "emit_BLTU rs1 rs2 imm = emit_B imm rs2 rs1 0x6 0x63"

definition emit_BGEU :: "u32 \<Rightarrow> u32 \<Rightarrow> u32 \<Rightarrow> 'a emit_state_scheme \<Rightarrow> 'a emit_state_scheme" where
  "emit_BGEU rs1 rs2 imm = emit_B imm rs2 rs1 0x7 0x63"

definition emit_LB :: "u32 \<Rightarrow> u32 \<Rightarrow> u32 \<Rightarrow> 'a emit_state_scheme \<Rightarrow> 'a emit_state_scheme" where
  "emit_LB rd rs1 imm = emit_I imm rs1 0x0 rd 0x03"

definition emit_LH :: "u32 \<Rightarrow> u32 \<Rightarrow> u32 \<Rightarrow> 'a emit_state_scheme \<Rightarrow> 'a emit_state_scheme" where
  "emit_LH rd rs1 imm = emit_I imm rs1 0x1 rd 0x03"

definition emit_LW :: "u32 \<Rightarrow> u32 \<Rightarrow> u32 \<Rightarrow> 'a emit_state_scheme \<Rightarrow> 'a emit_state_scheme" where
  "emit_LW rd rs1 imm = emit_I imm rs1 0x2 rd 0x03"

definition emit_LBU :: "u32 \<Rightarrow> u32 \<Rightarrow> u32 \<Rightarrow> 'a emit_state_scheme \<Rightarrow> 'a emit_state_scheme" where
  "emit_LBU rd rs1 imm = emit_I imm rs1 0x4 rd 0x03"

definition emit_LHU :: "u32 \<Rightarrow> u32 \<Rightarrow> u32 \<Rightarrow> 'a emit_state_scheme \<Rightarrow> 'a emit_state_scheme" where
  "emit_LHU rd rs1 imm = emit_I imm rs1 0x5 rd 0x03"

definition emit_SB :: "u32 \<Rightarrow> u32 \<Rightarrow> u32 \<Rightarrow> 'a emit_state_scheme \<Rightarrow> 'a emit_state_scheme" where
  "emit_SB rs1 rs2 imm = emit_S imm rs2 rs1 0x0 0x23"

definition emit_SH :: "u32 \<Rightarrow> u32 \<Rightarrow> u32 \<Rightarrow> 'a emit_state_scheme \<Rightarrow> 'a emit_state_scheme" where
  "emit_SH rs1 rs2 imm = emit_S imm rs2 rs1 0x1 0x23"

definition emit_SW :: "u32 \<Rightarrow> u32 \<Rightarrow> u32 \<Rightarrow> 'a emit_state_scheme \<Rightarrow> 'a emit_state_scheme" where
  "emit_SW rs1 rs2 imm = emit_S imm rs2 rs1 0x2 0x23"

definition emit_ADDI :: "u32 \<Rightarrow> u32 \<Rightarrow> u32 \<Rightarrow> 'a emit_state_scheme \<Rightarrow> 'a emit_state_scheme" where
  "emit_ADDI rd rs1 imm = emit_I imm rs1 0x0 rd 0x13"

definition emit_SLTI :: "u32 \<Rightarrow> u32 \<Rightarrow> u32 \<Rightarrow> 'a emit_state_scheme \<Rightarrow> 'a emit_state_scheme" where
  "emit_SLTI rd rs1 imm = emit_I imm rs1 0x2 rd 0x13"

definition emit_SLTIU :: "u32 \<Rightarrow> u32 \<Rightarrow> u32 \<Rightarrow> 'a emit_state_scheme \<Rightarrow> 'a emit_state_scheme" where
  "emit_SLTIU rd rs1 imm = emit_I imm rs1 0x3 rd 0x13"

definition emit_XORI :: "u32 \<Rightarrow> u32 \<Rightarrow> u32 \<Rightarrow> 'a emit_state_scheme \<Rightarrow> 'a emit_state_scheme" where
  "emit_XORI rd rs1 imm = emit_I imm rs1 0x4 rd 0x13"

definition emit_ORI :: "u32 \<Rightarrow> u32 \<Rightarrow> u32 \<Rightarrow> 'a emit_state_scheme \<Rightarrow> 'a emit_state_scheme" where
  "emit_ORI rd rs1 imm = emit_I imm rs1 0x6 rd 0x13"

definition emit_ANDI :: "u32 \<Rightarrow> u32 \<Rightarrow> u32 \<Rightarrow> 'a emit_state_scheme \<Rightarrow> 'a emit_state_scheme" where
  "emit_ANDI rd rs1 imm = emit_I imm rs1 0x7 rd 0x13"

definition emit_SLLI :: "u32 \<Rightarrow> u32 \<Rightarrow> u32 \<Rightarrow> 'a emit_state_scheme \<Rightarrow> 'a emit_state_scheme" where
  "emit_SLLI rd rs1 shamt = emit_R 0x00 shamt rs1 0x1 rd 0x13"

definition emit_SRLI :: "u32 \<Rightarrow> u32 \<Rightarrow> u32 \<Rightarrow> 'a emit_state_scheme \<Rightarrow> 'a emit_state_scheme" where
  "emit_SRLI rd rs1 shamt = emit_R 0x00 shamt rs1 0x5 rd 0x13"

definition emit_SRAI :: "u32 \<Rightarrow> u32 \<Rightarrow> u32 \<Rightarrow> 'a emit_state_scheme \<Rightarrow> 'a emit_state_scheme" where
  "emit_SRAI rd rs1 shamt = emit_R 0x20 shamt rs1 0x5 rd 0x13"

definition emit_ADD :: "u32 \<Rightarrow> u32 \<Rightarrow> u32 \<Rightarrow> 'a emit_state_scheme \<Rightarrow> 'a emit_state_scheme" where
  "emit_ADD rd rs1 rs2 = emit_R 0x00 rs2 rs1 0x0 rd 0x33"

definition emit_SUB :: "u32 \<Rightarrow> u32 \<Rightarrow> u32 \<Rightarrow> 'a emit_state_scheme \<Rightarrow> 'a emit_state_scheme" where
  "emit_SUB rd rs1 rs2 = emit_R 0x20 rs2 rs1 0x0 rd 0x33"

definition emit_SLL :: "u32 \<Rightarrow> u32 \<Rightarrow> u32 \<Rightarrow> 'a emit_state_scheme \<Rightarrow> 'a emit_state_scheme" where
  "emit_SLL rd rs1 rs2 = emit_R 0x00 rs2 rs1 0x1 rd 0x33"

definition emit_SLT :: "u32 \<Rightarrow> u32 \<Rightarrow> u32 \<Rightarrow> 'a emit_state_scheme \<Rightarrow> 'a emit_state_scheme" where
  "emit_SLT rd rs1 rs2 = emit_R 0x00 rs2 rs1 0x2 rd 0x33"

definition emit_SLTU :: "u32 \<Rightarrow> u32 \<Rightarrow> u32 \<Rightarrow> 'a emit_state_scheme \<Rightarrow> 'a emit_state_scheme" where
  "emit_SLTU rd rs1 rs2 = emit_R 0x00 rs2 rs1 0x3 rd 0x33"

definition emit_XOR :: "u32 \<Rightarrow> u32 \<Rightarrow> u32 \<Rightarrow> 'a emit_state_scheme \<Rightarrow> 'a emit_state_scheme" where
  "emit_XOR rd rs1 rs2 = emit_R 0x00 rs2 rs1 0x4 rd 0x33"

definition emit_SRL :: "u32 \<Rightarrow> u32 \<Rightarrow> u32 \<Rightarrow> 'a emit_state_scheme \<Rightarrow> 'a emit_state_scheme" where
  "emit_SRL rd rs1 rs2 = emit_R 0x00 rs2 rs1 0x5 rd 0x33"

definition emit_SRA :: "u32 \<Rightarrow> u32 \<Rightarrow> u32 \<Rightarrow> 'a emit_state_scheme \<Rightarrow> 'a emit_state_scheme" where
  "emit_SRA rd rs1 rs2 = emit_R 0x20 rs2 rs1 0x5 rd 0x33"

definition emit_OR :: "u32 \<Rightarrow> u32 \<Rightarrow> u32 \<Rightarrow> 'a emit_state_scheme \<Rightarrow> 'a emit_state_scheme" where
  "emit_OR rd rs1 rs2 = emit_R 0x00 rs2 rs1 0x6 rd 0x33"

definition emit_AND :: "u32 \<Rightarrow> u32 \<Rightarrow> u32 \<Rightarrow> 'a emit_state_scheme \<Rightarrow> 'a emit_state_scheme" where
  "emit_AND rd rs1 rs2 = emit_R 0x00 rs2 rs1 0x7 rd 0x33"

definition emit_FENCE :: "u32 \<Rightarrow> u32 \<Rightarrow> u32 \<Rightarrow> 'a emit_state_scheme \<Rightarrow> 'a emit_state_scheme" where
  "emit_FENCE succ pred fm =
     emit_I ((0xf AND push_bit 8 fm) OR (0xf AND push_bit 4 pred) OR (0xf AND succ)) 0 0 0 0x0f"

definition emit_ECALL :: "'a emit_state_scheme \<Rightarrow> 'a emit_state_scheme" where
  "emit_ECALL = emit_I 0x000 0x00 0x0 0x00 0x73"

definition emit_EBREAK :: "'a emit_state_scheme \<Rightarrow> 'a emit_state_scheme" where
  "emit_EBREAK = emit_I 0x001 0x00 0x0 0x00 0x73"

definition emit_MUL :: "u32 \<Rightarrow> u32 \<Rightarrow> u32 \<Rightarrow> 'a emit_state_scheme \<Rightarrow> 'a emit_state_scheme" where
  "emit_MUL rd rs1 rs2 = emit_R 0x01 rs2 rs1 0x0 rd 0x33"

definition emit_MULH :: "u32 \<Rightarrow> u32 \<Rightarrow> u32 \<Rightarrow> 'a emit_state_scheme \<Rightarrow> 'a emit_state_scheme" where
  "emit_MULH rd rs1 rs2 = emit_R 0x01 rs2 rs1 0x1 rd 0x33"

definition emit_MULHSU :: "u32 \<Rightarrow> u32 \<Rightarrow> u32 \<Rightarrow> 'a emit_state_scheme \<Rightarrow> 'a emit_state_scheme" where
  "emit_MULHSU rd rs1 rs2 = emit_R 0x01 rs2 rs1 0x2 rd 0x33"

definition emit_MULHU :: "u32 \<Rightarrow> u32 \<Rightarrow> u32 \<Rightarrow> 'a emit_state_scheme \<Rightarrow> 'a emit_state_scheme" where
  "emit_MULHU rd rs1 rs2 = emit_R 0x01 rs2 rs1 0x3 rd 0x33"

definition emit_DIV :: "u32 \<Rightarrow> u32 \<Rightarrow> u32 \<Rightarrow> 'a emit_state_scheme \<Rightarrow> 'a emit_state_scheme" where
  "emit_DIV rd rs1 rs2 = emit_R 0x01 rs2 rs1 0x4 rd 0x33"

definition emit_DIVU :: "u32 \<Rightarrow> u32 \<Rightarrow> u32 \<Rightarrow> 'a emit_state_scheme \<Rightarrow> 'a emit_state_scheme" where
  "emit_DIVU rd rs1 rs2 = emit_R 0x01 rs2 rs1 0x5 rd 0x33"

definition emit_REM :: "u32 \<Rightarrow> u32 \<Rightarrow> u32 \<Rightarrow> 'a emit_state_scheme \<Rightarrow> 'a emit_state_scheme" where
  "emit_REM rd rs1 rs2 = emit_R 0x01 rs2 rs1 0x6 rd 0x33"

definition emit_REMU :: "u32 \<Rightarrow> u32 \<Rightarrow> u32 \<Rightarrow> 'a emit_state_scheme \<Rightarrow> 'a emit_state_scheme" where
  "emit_REMU rd rs1 rs2 = emit_R 0x01 rs2 rs1 0x7 rd 0x33"

definition emit_NOP :: "'a emit_state_scheme \<Rightarrow> 'a emit_state_scheme" where
  "emit_NOP = emit_ADDI 0 0 0"

definition emit_LI :: "u32 \<Rightarrow> u32 \<Rightarrow> 'a emit_state_scheme \<Rightarrow> 'a emit_state_scheme" where
  "emit_LI rd imm = emit_ADDI rd rd (IMM_LOW imm) \<circ> emit_LUI rd (IMM_HIGH (imm + 0x800))"

definition emit_LLA :: "u32 \<Rightarrow> u32 \<Rightarrow> 'a emit_state_scheme \<Rightarrow> 'a emit_state_scheme" where
  "emit_LLA rd imm = emit_ADDI rd rd (IMM_LOW imm) \<circ> emit_AUIPC rd (IMM_HIGH imm)"

definition emit_RET :: "'a emit_state_scheme \<Rightarrow> 'a emit_state_scheme" where
  "emit_RET = emit_JALR 0 1 0"

definition emit_MV :: "u32 \<Rightarrow> u32 \<Rightarrow> 'a emit_state_scheme \<Rightarrow> 'a emit_state_scheme" where
  "emit_MV rd rs = emit_ADDI rd rs 0"

definition emit_BEQZ :: "u32 \<Rightarrow> u32 \<Rightarrow> 'a emit_state_scheme \<Rightarrow> 'a emit_state_scheme" where
  "emit_BEQZ rs offset = emit_BEQ rs 0 offset"

definition emit_BNEZ :: "u32 \<Rightarrow> u32 \<Rightarrow> 'a emit_state_scheme \<Rightarrow> 'a emit_state_scheme" where
  "emit_BNEZ rs offset = emit_BNE rs 0 offset"

definition emit_BLEZ :: "u32 \<Rightarrow> u32 \<Rightarrow> 'a emit_state_scheme \<Rightarrow> 'a emit_state_scheme" where
  "emit_BLEZ rs offset = emit_BGE 0 rs offset"

definition emit_BGEZ :: "u32 \<Rightarrow> u32 \<Rightarrow> 'a emit_state_scheme \<Rightarrow> 'a emit_state_scheme" where
  "emit_BGEZ rs offset = emit_BGE rs 0 offset"

definition emit_BLTZ :: "u32 \<Rightarrow> u32 \<Rightarrow> 'a emit_state_scheme \<Rightarrow> 'a emit_state_scheme" where
  "emit_BLTZ rs offset = emit_BLT rs 0 offset"

definition emit_BGTZ :: "u32 \<Rightarrow> u32 \<Rightarrow> 'a emit_state_scheme \<Rightarrow> 'a emit_state_scheme" where
  "emit_BGTZ rs offset = emit_BLT 0 rs offset"

definition emit_BGT :: "u32 \<Rightarrow> u32 \<Rightarrow> u32 \<Rightarrow> 'a emit_state_scheme \<Rightarrow> 'a emit_state_scheme" where
  "emit_BGT rs rt offset = emit_BLT rt rs offset"

definition emit_BLE :: "u32 \<Rightarrow> u32 \<Rightarrow> u32 \<Rightarrow> 'a emit_state_scheme \<Rightarrow> 'a emit_state_scheme" where
  "emit_BLE rs rt offset = emit_BGE rs rt offset"

definition emit_BGTU :: "u32 \<Rightarrow> u32 \<Rightarrow> u32 \<Rightarrow> 'a emit_state_scheme \<Rightarrow> 'a emit_state_scheme" where
  "emit_BGTU rs rt offset = emit_BLTU rt rs offset"

definition emit_BLEU :: "u32 \<Rightarrow> u32 \<Rightarrow> u32 \<Rightarrow> 'a emit_state_scheme \<Rightarrow> 'a emit_state_scheme" where
  "emit_BLEU rs rt offset = emit_BGEU rt rs offset"

definition emit_SEQZ :: "u32 \<Rightarrow> u32 \<Rightarrow> 'a emit_state_scheme \<Rightarrow> 'a emit_state_scheme" where
  "emit_SEQZ rd rs = emit_SLTIU rd rs 1"

definition emit_SNEZ :: "u32 \<Rightarrow> u32 \<Rightarrow> 'a emit_state_scheme \<Rightarrow> 'a emit_state_scheme" where
  "emit_SNEZ rd rs = emit_SLTU rd 0 rs"

definition emit_SLTZ :: "u32 \<Rightarrow> u32 \<Rightarrow> 'a emit_state_scheme \<Rightarrow> 'a emit_state_scheme" where
  "emit_SLTZ rd rs = emit_SLT rd rs 0"

definition emit_SGTZ :: "u32 \<Rightarrow> u32 \<Rightarrow> 'a emit_state_scheme \<Rightarrow> 'a emit_state_scheme" where
  "emit_SGTZ rd rs = emit_SLT rd 0 rs"

definition emit_J_inst :: "u32 \<Rightarrow> 'a emit_state_scheme \<Rightarrow> 'a emit_state_scheme" where
  "emit_J_inst offset = emit_JAL 0 offset"

definition emit_JAL_x1 :: "u32 \<Rightarrow> 'a emit_state_scheme \<Rightarrow> 'a emit_state_scheme" where
  "emit_JAL_x1 offset = emit_JAL 1 offset"

definition emit_JR :: "u32 \<Rightarrow> 'a emit_state_scheme \<Rightarrow> 'a emit_state_scheme" where
  "emit_JR rs = emit_JALR 0 rs 0"

definition emit_JALR_x1 :: "u32 \<Rightarrow> 'a emit_state_scheme \<Rightarrow> 'a emit_state_scheme" where
  "emit_JALR_x1 rs = emit_JALR 1 rs 0"

definition emit_CALL :: "u32 \<Rightarrow> 'a emit_state_scheme \<Rightarrow> 'a emit_state_scheme" where
  "emit_CALL offset = emit_JALR 1 6 (IMM_LOW offset) \<circ> emit_AUIPC 6 (IMM_HIGH offset)"

definition emit_TAIL :: "u32 \<Rightarrow> 'a emit_state_scheme \<Rightarrow> 'a emit_state_scheme" where
  "emit_TAIL offset = emit_JALR 0 6 (IMM_LOW offset) \<circ> emit_AUIPC 6 (IMM_HIGH offset)"

definition emit_NOT :: "u32 \<Rightarrow> u32 \<Rightarrow> 'a emit_state_scheme \<Rightarrow> 'a emit_state_scheme" where
  "emit_NOT rd rs = emit_XORI rd rs (- 1)"

definition emit_NEG :: "u32 \<Rightarrow> u32 \<Rightarrow> 'a emit_state_scheme \<Rightarrow> 'a emit_state_scheme" where
  "emit_NEG rd rs = emit_SUB rd 0 rs"

definition emit_FENCE_ALL :: "'a emit_state_scheme \<Rightarrow> 'a emit_state_scheme" where
  "emit_FENCE_ALL = emit_FENCE 0xf 0xf 0x0"

definition emit_FENCE_DEFAULT :: "'a emit_state_scheme \<Rightarrow> 'a emit_state_scheme" where
  "emit_FENCE_DEFAULT = emit_FENCE 0x0 0x0 0x0"

definition emit_CSRRW :: "u32 \<Rightarrow> u32 \<Rightarrow> u32 \<Rightarrow> 'a emit_state_scheme \<Rightarrow> 'a emit_state_scheme" where
  "emit_CSRRW rd csr rs1 = emit_I csr rs1 0x1 rd 0x73"

definition emit_CSRRS :: "u32 \<Rightarrow> u32 \<Rightarrow> u32 \<Rightarrow> 'a emit_state_scheme \<Rightarrow> 'a emit_state_scheme" where
  "emit_CSRRS rd csr rs1 = emit_I csr rs1 0x2 rd 0x73"

definition emit_CSRRC :: "u32 \<Rightarrow> u32 \<Rightarrow> u32 \<Rightarrow> 'a emit_state_scheme \<Rightarrow> 'a emit_state_scheme" where
  "emit_CSRRC rd csr rs1 = emit_I csr rs1 0x3 rd 0x73"

definition emit_CSRRWI :: "u32 \<Rightarrow> u32 \<Rightarrow> u32 \<Rightarrow> 'a emit_state_scheme \<Rightarrow> 'a emit_state_scheme" where
  "emit_CSRRWI rd csr uimm = emit_I csr uimm 0x5 rd 0x73"

definition emit_CSRRSI :: "u32 \<Rightarrow> u32 \<Rightarrow> u32 \<Rightarrow> 'a emit_state_scheme \<Rightarrow> 'a emit_state_scheme" where
  "emit_CSRRSI rd csr uimm = emit_I csr uimm 0x6 rd 0x73"

definition emit_CSRRCI :: "u32 \<Rightarrow> u32 \<Rightarrow> u32 \<Rightarrow> 'a emit_state_scheme \<Rightarrow> 'a emit_state_scheme" where
  "emit_CSRRCI rd csr uimm = emit_I csr uimm 0x7 rd 0x73"

definition emit_CSRR :: "u32 \<Rightarrow> u32 \<Rightarrow> 'a emit_state_scheme \<Rightarrow> 'a emit_state_scheme" where
  "emit_CSRR rd csr = emit_CSRRS rd csr 0"

definition emit_CSRW :: "u32 \<Rightarrow> u32 \<Rightarrow> 'a emit_state_scheme \<Rightarrow> 'a emit_state_scheme" where
  "emit_CSRW csr rs = emit_CSRRW 0 csr rs"

definition emit_CSRS :: "u32 \<Rightarrow> u32 \<Rightarrow> 'a emit_state_scheme \<Rightarrow> 'a emit_state_scheme" where
  "emit_CSRS csr rs = emit_CSRRS 0 csr rs"

definition emit_CSRC :: "u32 \<Rightarrow> u32 \<Rightarrow> 'a emit_state_scheme \<Rightarrow> 'a emit_state_scheme" where
  "emit_CSRC csr rs = emit_CSRRC 0 csr rs"

definition emit_CSRWI :: "u32 \<Rightarrow> u32 \<Rightarrow> 'a emit_state_scheme \<Rightarrow> 'a emit_state_scheme" where
  "emit_CSRWI csr imm = emit_CSRRWI 0 csr imm"

definition emit_CSRSI :: "u32 \<Rightarrow> u32 \<Rightarrow> 'a emit_state_scheme \<Rightarrow> 'a emit_state_scheme" where
  "emit_CSRSI csr imm = emit_CSRRSI 0 csr imm"

definition emit_CSRCI :: "u32 \<Rightarrow> u32 \<Rightarrow> 'a emit_state_scheme \<Rightarrow> 'a emit_state_scheme" where
  "emit_CSRCI csr imm = emit_CSRRCI 0 csr imm"

definition emit_RDCYCLE :: "u32 \<Rightarrow> 'a emit_state_scheme \<Rightarrow> 'a emit_state_scheme" where
  "emit_RDCYCLE rd = emit_CSRRS rd 0xc00 0"

definition emit_RDCYCLEH :: "u32 \<Rightarrow> 'a emit_state_scheme \<Rightarrow> 'a emit_state_scheme" where
  "emit_RDCYCLEH rd = emit_CSRRS rd 0xc80 0"

definition emit_RDTIME :: "u32 \<Rightarrow> 'a emit_state_scheme \<Rightarrow> 'a emit_state_scheme" where
  "emit_RDTIME rd = emit_CSRRS rd 0xc01 0"

definition emit_RDTIMEH :: "u32 \<Rightarrow> 'a emit_state_scheme \<Rightarrow> 'a emit_state_scheme" where
  "emit_RDTIMEH rd = emit_CSRRS rd 0xc81 0"

definition emit_RDINSTRET :: "u32 \<Rightarrow> 'a emit_state_scheme \<Rightarrow> 'a emit_state_scheme" where
  "emit_RDINSTRET rd = emit_CSRRS rd 0xc02 0"

definition emit_RDINSTRETH :: "u32 \<Rightarrow> 'a emit_state_scheme \<Rightarrow> 'a emit_state_scheme" where
  "emit_RDINSTRETH rd = emit_CSRRS rd 0xc82 0"

definition emit_LA :: "u32 \<Rightarrow> u32 \<Rightarrow> 'a emit_state_scheme \<Rightarrow> 'a emit_state_scheme" where
  "emit_LA rd symbol = emit_LLA rd symbol"

lemmas mnemonic_defs [insn_defs] =
  emit_LUI_def emit_AUIPC_def emit_JAL_def emit_JALR_def emit_BEQ_def emit_BNE_def emit_BLT_def
  emit_BGE_def emit_BLTU_def emit_BGEU_def emit_LB_def emit_LH_def emit_LW_def emit_LBU_def
  emit_LHU_def emit_SB_def emit_SH_def emit_SW_def emit_ADDI_def emit_SLTI_def emit_SLTIU_def
  emit_XORI_def emit_ORI_def emit_ANDI_def emit_SLLI_def emit_SRLI_def emit_SRAI_def
  emit_ADD_def emit_SUB_def emit_SLL_def emit_SLT_def emit_SLTU_def emit_XOR_def emit_SRL_def
  emit_SRA_def emit_OR_def emit_AND_def emit_FENCE_def emit_ECALL_def emit_EBREAK_def
  emit_MUL_def emit_MULH_def emit_MULHSU_def emit_MULHU_def emit_DIV_def emit_DIVU_def
  emit_REM_def emit_REMU_def emit_NOP_def emit_LI_def emit_LLA_def emit_RET_def emit_MV_def
  emit_BEQZ_def emit_BNEZ_def emit_BLEZ_def emit_BGEZ_def emit_BLTZ_def emit_BGTZ_def
  emit_BGT_def emit_BLE_def emit_BGTU_def emit_BLEU_def emit_SEQZ_def emit_SNEZ_def
  emit_SLTZ_def emit_SGTZ_def emit_J_inst_def emit_JAL_x1_def emit_JR_def emit_JALR_x1_def
  emit_CALL_def emit_TAIL_def emit_NOT_def emit_NEG_def emit_FENCE_ALL_def
  emit_FENCE_DEFAULT_def emit_CSRRW_def emit_CSRRS_def emit_CSRRC_def emit_CSRRWI_def
  emit_CSRRSI_def emit_CSRRCI_def emit_CSRR_def emit_CSRW_def emit_CSRS_def emit_CSRC_def
  emit_CSRWI_def emit_CSRSI_def emit_CSRCI_def emit_RDCYCLE_def emit_RDCYCLEH_def
  emit_RDTIME_def emit_RDTIMEH_def emit_RDINSTRET_def emit_RDINSTRETH_def emit_LA_def

end
