(* ===== verification/Riscv_Encode.thy ===== *)
theory Riscv_Encode
  imports Riscv_Emit
begin

text \<open>
  Correctness of the format encoders against the decoder of \<open>RV32_Isa\<close>: every field of an
  encoded word reads back, so each mnemonic decodes to the instruction it names.
\<close>

section \<open>Fields of a disjunction of shifted values\<close>

named_theorems field_simps_w \<open>extraction of a bit field from an instruction word\<close>

lemma field_or [field_simps_w]:
  fixes a b :: "'a::len word"
  shows "take_bit n (drop_bit k (a OR b)) = take_bit n (drop_bit k a) OR take_bit n (drop_bit k b)"
    "take_bit n (a OR b) = take_bit n a OR take_bit n b"
  by simp_all

lemma field_below [field_simps_w]:
  fixes x :: "'a::len word"
  shows "m + s \<le> k \<Longrightarrow> take_bit n (drop_bit k (push_bit s (take_bit m x))) = 0"
    "m \<le> k \<Longrightarrow> take_bit n (drop_bit k (take_bit m x)) = 0"
  by (auto intro!: bit_word_eqI simp: bit_simps)

lemma field_above [field_simps_w]:
  fixes x :: "'a::len word"
  shows "k + n \<le> s \<Longrightarrow> take_bit n (drop_bit k (push_bit s x)) = 0"
    "n \<le> s \<Longrightarrow> take_bit n (push_bit s x) = 0"
  by (auto intro!: bit_word_eqI simp: bit_simps)

lemma field_same [field_simps_w]:
  fixes x :: "'a::len word"
  shows "k + n \<le> LENGTH('a) \<Longrightarrow> take_bit n (drop_bit k (push_bit k x)) = take_bit n x"
    "m \<le> n \<Longrightarrow> take_bit n (take_bit m x) = take_bit m x"
  by (auto intro!: bit_word_eqI simp: bit_simps)

section \<open>Fields read back\<close>

lemma insn_R_raw:
  "f_opcode (insn_R (take_bit 7 f7) (take_bit 5 rs2) (take_bit 5 rs1) (take_bit 3 f3)
      (take_bit 5 rd) (take_bit 7 opc)) = take_bit 7 opc"
  "f_rd (insn_R (take_bit 7 f7) (take_bit 5 rs2) (take_bit 5 rs1) (take_bit 3 f3)
      (take_bit 5 rd) (take_bit 7 opc)) = take_bit 5 rd"
  "f_funct3 (insn_R (take_bit 7 f7) (take_bit 5 rs2) (take_bit 5 rs1) (take_bit 3 f3)
      (take_bit 5 rd) (take_bit 7 opc)) = take_bit 3 f3"
  "f_rs1 (insn_R (take_bit 7 f7) (take_bit 5 rs2) (take_bit 5 rs1) (take_bit 3 f3)
      (take_bit 5 rd) (take_bit 7 opc)) = take_bit 5 rs1"
  "f_rs2 (insn_R (take_bit 7 f7) (take_bit 5 rs2) (take_bit 5 rs1) (take_bit 3 f3)
      (take_bit 5 rd) (take_bit 7 opc)) = take_bit 5 rs2"
  "f_funct7 (insn_R (take_bit 7 f7) (take_bit 5 rs2) (take_bit 5 rs1) (take_bit 3 f3)
      (take_bit 5 rd) (take_bit 7 opc)) = take_bit 7 f7"
  unfolding field_defs insn_R_def
  by (simp_all add: field_simps_w del: take_bit_or drop_bit_or)

lemma insn_R_fields:
  assumes "fits_in 5 rs2" "fits_in 5 rs1" "fits_in 3 f3" "fits_in 5 rd" "fits_in 7 opc"
    "fits_in 7 f7"
  shows "f_opcode (insn_R f7 rs2 rs1 f3 rd opc) = opc"
    "f_rd (insn_R f7 rs2 rs1 f3 rd opc) = rd"
    "f_funct3 (insn_R f7 rs2 rs1 f3 rd opc) = f3"
    "f_rs1 (insn_R f7 rs2 rs1 f3 rd opc) = rs1"
    "f_rs2 (insn_R f7 rs2 rs1 f3 rd opc) = rs2"
    "f_funct7 (insn_R f7 rs2 rs1 f3 rd opc) = f7"
  using insn_R_raw [of f7 rs2 rs1 f3 rd opc] assms by (simp_all add: fits_in_def)

text \<open>The 12-bit immediate of I- and S-type instructions, sign extended.\<close>

definition sext12 :: "u32 \<Rightarrow> u32" where
  "sext12 x = signed_take_bit 11 x"

lemma sext12_take_bit: "signed_take_bit 11 (take_bit 12 x) = sext12 x"
  by (simp add: sext12_def signed_take_bit_take_bit)

lemma insn_I_raw:
  "f_opcode (insn_I imm (take_bit 5 rs1) (take_bit 3 f3) (take_bit 5 rd) (take_bit 7 opc)) =
     take_bit 7 opc"
  "f_rd (insn_I imm (take_bit 5 rs1) (take_bit 3 f3) (take_bit 5 rd) (take_bit 7 opc)) =
     take_bit 5 rd"
  "f_funct3 (insn_I imm (take_bit 5 rs1) (take_bit 3 f3) (take_bit 5 rd) (take_bit 7 opc)) =
     take_bit 3 f3"
  "f_rs1 (insn_I imm (take_bit 5 rs1) (take_bit 3 f3) (take_bit 5 rd) (take_bit 7 opc)) =
     take_bit 5 rs1"
  "take_bit 12 (drop_bit 20 (insn_I imm (take_bit 5 rs1) (take_bit 3 f3) (take_bit 5 rd)
     (take_bit 7 opc))) = take_bit 12 imm"
  unfolding field_defs insn_I_def
  by (simp_all add: field_simps_w del: take_bit_or drop_bit_or)

lemma insn_I_fields:
  assumes "fits_in 5 rs1" "fits_in 3 f3" "fits_in 5 rd" "fits_in 7 opc"
  shows "f_opcode (insn_I imm rs1 f3 rd opc) = opc"
    "f_rd (insn_I imm rs1 f3 rd opc) = rd"
    "f_funct3 (insn_I imm rs1 f3 rd opc) = f3"
    "f_rs1 (insn_I imm rs1 f3 rd opc) = rs1"
    "take_bit 12 (drop_bit 20 (insn_I imm rs1 f3 rd opc)) = take_bit 12 imm"
    "imm_I (insn_I imm rs1 f3 rd opc) = sext12 imm"
  using insn_I_raw [of imm rs1 f3 rd opc] assms
  by (simp_all add: fits_in_def imm_I_def sext12_take_bit)

lemma insn_U_raw:
  "f_opcode (insn_U imm (take_bit 5 rd) (take_bit 7 opc)) = take_bit 7 opc"
  "f_rd (insn_U imm (take_bit 5 rd) (take_bit 7 opc)) = take_bit 5 rd"
  "imm_U (insn_U imm (take_bit 5 rd) (take_bit 7 opc)) = take_bit 20 imm"
  unfolding field_defs insn_U_def
  by (simp_all add: field_simps_w del: take_bit_or drop_bit_or)

lemma insn_U_fields:
  assumes "fits_in 5 rd" "fits_in 7 opc"
  shows "f_opcode (insn_U imm rd opc) = opc" "f_rd (insn_U imm rd opc) = rd"
    "imm_U (insn_U imm rd opc) = take_bit 20 imm"
  using insn_U_raw [of imm rd opc] assms by (simp_all add: fits_in_def)

text \<open>The split immediates: first the packed word, then its reassembly.\<close>

lemma insn_S_alt:
  "insn_S imm rs2 rs1 f3 opc =
     insn_R (take_bit 7 (drop_bit 5 imm)) rs2 rs1 f3 (take_bit 5 imm) opc"
  by (simp add: insn_S_def insn_R_def Let_def and_masks)

lemma insn_S_fields:
  assumes "fits_in 5 rs2" "fits_in 5 rs1" "fits_in 3 f3" "fits_in 7 opc"
  shows "f_opcode (insn_S imm rs2 rs1 f3 opc) = opc"
    "f_funct3 (insn_S imm rs2 rs1 f3 opc) = f3"
    "f_rs1 (insn_S imm rs2 rs1 f3 opc) = rs1"
    "f_rs2 (insn_S imm rs2 rs1 f3 opc) = rs2"
    "f_rd (insn_S imm rs2 rs1 f3 opc) = take_bit 5 imm"
    "f_funct7 (insn_S imm rs2 rs1 f3 opc) = take_bit 7 (drop_bit 5 imm)"
  using assms by (simp_all add: insn_S_alt insn_R_fields fits)

lemma and_push_mask:
  fixes x :: "'a::len word"
  shows "push_bit k (mask n) AND x = push_bit k (take_bit n (drop_bit k x))"
    "x AND push_bit k (mask n) = push_bit k (take_bit n (drop_bit k x))"
  by (auto intro!: bit_word_eqI simp: bit_simps)

lemma literal_masks:
  "(0x800 :: u32) = push_bit 11 (mask 1)" "(0x7e0 :: u32) = push_bit 5 (mask 6)"
  "(0x1e :: u32) = push_bit 1 (mask 4)" "(0xFFFFF000 :: u32) = push_bit 12 (mask 20)"
  by (simp_all add: mask_eq_exp_minus_1 push_bit_eq_mult)

lemma and_literal_masks [and_masks]:
  fixes x :: u32
  shows "0x800 AND x = push_bit 11 (take_bit 1 (drop_bit 11 x))"
    "0x7e0 AND x = push_bit 5 (take_bit 6 (drop_bit 5 x))"
    "0x1e AND x = push_bit 1 (take_bit 4 (drop_bit 1 x))"
    "x AND 0xFFFFF000 = push_bit 12 (take_bit 20 (drop_bit 12 x))"
  by (simp_all only: literal_masks and_push_mask)

text \<open>
  emit_B packs bit 11 of the immediate twice, into its own place and, shifted, into the place
  of bit 10, and never packs bit 12: the decoded offset is exact when bit 11 is clear.
\<close>

lemma insn_B_alt:
  "insn_B imm rs2 rs1 f3 opc =
     insn_R (take_bit 6 (drop_bit 5 imm OR push_bit 5 (take_bit 1 (drop_bit 11 imm)))) rs2 rs1 f3
       (push_bit 1 (take_bit 4 (drop_bit 1 imm)) OR take_bit 1 (drop_bit 11 imm)) opc"
proof -
  have "(0x7f AND drop_bit 5 (drop_bit 1 (0x800 AND imm) OR (0x7e0 AND imm)) :: u32) =
      take_bit 6 (drop_bit 5 imm OR push_bit 5 (take_bit 1 (drop_bit 11 imm)))"
    unfolding and_masks by (rule bit_word_eqI) (auto simp: bit_simps)
  moreover have "(0x1e AND imm) OR (0x1 AND drop_bit 11 imm) =
      push_bit 1 (take_bit 4 (drop_bit 1 imm)) OR take_bit 1 (drop_bit 11 imm)"
    by (simp only: and_masks)
  ultimately show ?thesis by (simp only: insn_B_def insn_R_def Let_def)
qed

lemma insn_B_fields:
  assumes "fits_in 5 rs2" "fits_in 5 rs1" "fits_in 3 f3" "fits_in 7 opc"
  shows "f_opcode (insn_B imm rs2 rs1 f3 opc) = opc"
    "f_funct3 (insn_B imm rs2 rs1 f3 opc) = f3"
    "f_rs1 (insn_B imm rs2 rs1 f3 opc) = rs1"
    "f_rs2 (insn_B imm rs2 rs1 f3 opc) = rs2"
    "f_rd (insn_B imm rs2 rs1 f3 opc) =
       push_bit 1 (take_bit 4 (drop_bit 1 imm)) OR take_bit 1 (drop_bit 11 imm)"
    "f_funct7 (insn_B imm rs2 rs1 f3 opc) =
       take_bit 6 (drop_bit 5 imm OR push_bit 5 (take_bit 1 (drop_bit 11 imm)))"
proof -
  have 1: "fits_in 5 (push_bit 1 (take_bit 4 (drop_bit 1 imm)) OR take_bit 1 (drop_bit 11 imm))"
    by (auto simp: fits_in_iff bit_simps)
  have 2: "fits_in 7 (take_bit 6 (drop_bit 5 imm OR push_bit 5 (take_bit 1 (drop_bit 11 imm))))"
    by (auto simp: fits_in_iff bit_simps)
  show "f_opcode (insn_B imm rs2 rs1 f3 opc) = opc"
    "f_funct3 (insn_B imm rs2 rs1 f3 opc) = f3"
    "f_rs1 (insn_B imm rs2 rs1 f3 opc) = rs1"
    "f_rs2 (insn_B imm rs2 rs1 f3 opc) = rs2"
    "f_rd (insn_B imm rs2 rs1 f3 opc) =
       push_bit 1 (take_bit 4 (drop_bit 1 imm)) OR take_bit 1 (drop_bit 11 imm)"
    "f_funct7 (insn_B imm rs2 rs1 f3 opc) =
       take_bit 6 (drop_bit 5 imm OR push_bit 5 (take_bit 1 (drop_bit 11 imm)))"
    unfolding insn_B_alt by (simp_all only: insn_R_fields [OF assms(1-3) 1 assms(4) 2])
qed

lemma insn_J_alt:
  "insn_J imm rd opc =
     push_bit 12 (take_bit 8 (drop_bit 12 imm)) OR push_bit 20 (take_bit 1 (drop_bit 11 imm)) OR
     push_bit 21 (take_bit 10 (drop_bit 1 imm)) OR push_bit 31 (take_bit 1 (drop_bit 20 imm)) OR
     push_bit 7 rd OR opc"
  by (simp only: insn_J_def Let_def and_masks or.assoc)

lemma insn_J_raw:
  "f_opcode (insn_J imm (take_bit 5 rd) (take_bit 7 opc)) = take_bit 7 opc"
  "f_rd (insn_J imm (take_bit 5 rd) (take_bit 7 opc)) = take_bit 5 rd"
  "take_bit 1 (drop_bit 31 (insn_J imm (take_bit 5 rd) (take_bit 7 opc))) =
     take_bit 1 (drop_bit 20 imm)"
  "take_bit 8 (drop_bit 12 (insn_J imm (take_bit 5 rd) (take_bit 7 opc))) =
     take_bit 8 (drop_bit 12 imm)"
  "take_bit 1 (drop_bit 20 (insn_J imm (take_bit 5 rd) (take_bit 7 opc))) =
     take_bit 1 (drop_bit 11 imm)"
  "take_bit 10 (drop_bit 21 (insn_J imm (take_bit 5 rd) (take_bit 7 opc))) =
     take_bit 10 (drop_bit 1 imm)"
  unfolding field_defs insn_J_alt
  by (simp_all add: field_simps_w del: take_bit_or drop_bit_or)

lemma insn_J_fields:
  assumes "fits_in 5 rd" "fits_in 7 opc"
  shows "f_opcode (insn_J imm rd opc) = opc" "f_rd (insn_J imm rd opc) = rd"
    "imm_J (insn_J imm rd opc) = signed_take_bit 20 (push_bit 1 (take_bit 20 (drop_bit 1 imm)))"
proof -
  show "f_opcode (insn_J imm rd opc) = opc" "f_rd (insn_J imm rd opc) = rd"
    using insn_J_raw [of imm rd opc] assms by (simp_all add: fits_in_def)
  have "push_bit 20 (take_bit 1 (drop_bit 20 imm)) OR push_bit 12 (take_bit 8 (drop_bit 12 imm)) OR
      push_bit 11 (take_bit 1 (drop_bit 11 imm)) OR push_bit 1 (take_bit 10 (drop_bit 1 imm)) =
      push_bit 1 (take_bit 20 (drop_bit 1 imm))"
    by (rule bit_word_eqI) (simp only: bit_or_iff bit_slice, auto)
  then show "imm_J (insn_J imm rd opc) =
      signed_take_bit 20 (push_bit 1 (take_bit 20 (drop_bit 1 imm)))"
    using insn_J_raw [of imm rd opc] assms by (simp add: imm_J_def fits_in_def)
qed

section \<open>Decoding of each format\<close>

lemma decode_insn_R:
  assumes "fits_in 5 rs2" "fits_in 5 rs1" "fits_in 3 f3" "fits_in 5 rd" "fits_in 7 f7"
  shows "decode (insn_R f7 rs2 rs1 f3 rd 0x33) =
    map_option (\<lambda>a. Op a rd rs1 rs2) (decode_op f7 f3)"
proof -
  have "fits_in 7 (0x33 :: u32)" by (simp add: fits_in_def)
  from insn_R_fields [OF assms(1-4) this assms(5)] show ?thesis by (simp add: decode_def)
qed

lemma decode_shift_imm:
  assumes "fits_in 5 sh" "fits_in 5 rs1" "fits_in 5 rd"
  shows "decode (insn_R 0 sh rs1 1 rd 0x13) = Some (OpImm Sll rd rs1 sh)"
    "decode (insn_R 0 sh rs1 5 rd 0x13) = Some (OpImm Srl rd rs1 sh)"
    "decode (insn_R 32 sh rs1 5 rd 0x13) = Some (OpImm Sra rd rs1 sh)"
proof -
  have f: "fits_in 7 (0x13 :: u32)" "fits_in 3 (1 :: u32)" "fits_in 3 (5 :: u32)"
    "fits_in 7 (0 :: u32)" "fits_in 7 (32 :: u32)" by (simp_all add: fits_in_def)
  show "decode (insn_R 0 sh rs1 1 rd 0x13) = Some (OpImm Sll rd rs1 sh)"
    using insn_R_fields [OF assms(1,2) f(2) assms(3) f(1) f(4)]
    by (simp add: decode_def decode_op_imm_def)
  show "decode (insn_R 0 sh rs1 5 rd 0x13) = Some (OpImm Srl rd rs1 sh)"
    using insn_R_fields [OF assms(1,2) f(3) assms(3) f(1) f(4)]
    by (simp add: decode_def decode_op_imm_def)
  show "decode (insn_R 32 sh rs1 5 rd 0x13) = Some (OpImm Sra rd rs1 sh)"
    using insn_R_fields [OF assms(1,2) f(3) assms(3) f(1) f(5)]
    by (simp add: decode_def decode_op_imm_def)
qed

lemma decode_insn_I_load:
  assumes "fits_in 5 rs1" "fits_in 3 f3" "fits_in 5 rd"
  shows "decode (insn_I imm rs1 f3 rd 0x03) =
    map_option (\<lambda>l. Load l rd rs1 (sext12 imm)) (decode_load f3)"
proof -
  have "fits_in 7 (0x03 :: u32)" by (simp add: fits_in_def)
  from insn_I_fields [OF assms this] show ?thesis by (simp add: decode_def)
qed

lemma decode_insn_I_jalr:
  assumes "fits_in 5 rs1" "fits_in 5 rd"
  shows "decode (insn_I imm rs1 0 rd 0x67) = Some (Jalr rd rs1 (sext12 imm))"
proof -
  have f: "fits_in 7 (0x67 :: u32)" "fits_in 3 (0 :: u32)" by (simp_all add: fits_in_def)
  from insn_I_fields [OF assms(1) f(2) assms(2) f(1)] show ?thesis
    by (simp add: decode_def)
qed

definition op_imm_funct3 :: "alu_op \<Rightarrow> u32 option" where
  "op_imm_funct3 op = (case op of Add \<Rightarrow> Some 0 | Slt \<Rightarrow> Some 2 | Sltu \<Rightarrow> Some 3
     | Xor \<Rightarrow> Some 4 | Or \<Rightarrow> Some 6 | And \<Rightarrow> Some 7 | _ \<Rightarrow> None)"

lemma decode_insn_I_op:
  assumes "fits_in 5 rs1" "fits_in 5 rd" and op: "op_imm_funct3 op = Some f3"
  shows "decode (insn_I imm rs1 f3 rd 0x13) = Some (OpImm op rd rs1 (sext12 imm))"
proof -
  have f: "fits_in 7 (0x13 :: u32)" by (simp add: fits_in_def)
  have f3: "fits_in 3 f3"
    using op by (cases op) (auto simp: op_imm_funct3_def fits_in_def)
  from op have "decode_op_imm w = Some (OpImm op (f_rd w) (f_rs1 w) (imm_I w))"
    if "f_funct3 w = f3" for w
    using that by (cases op) (auto simp: op_imm_funct3_def decode_op_imm_def Let_def)
  with insn_I_fields [OF assms(1) f3 assms(2) f, of imm]
  show ?thesis by (simp add: decode_def)
qed

lemma decode_insn_I_csr:
  assumes "fits_in 5 rs1" "fits_in 5 rd" "fits_in 3 f3" "f3 \<noteq> 0"
  shows "decode (insn_I imm rs1 f3 rd 0x73) =
    map_option (\<lambda>op. Csr op rd rs1 (take_bit 12 imm)) (decode_csr f3)"
proof -
  have f: "fits_in 7 (0x73 :: u32)" by (simp add: fits_in_def)
  from insn_I_fields [OF assms(1,3,2) f] assms(4) show ?thesis
    by (simp add: decode_def decode_system_def)
qed

lemma decode_insn_S:
  assumes "fits_in 5 rs2" "fits_in 5 rs1" "fits_in 3 f3"
  shows "decode (insn_S imm rs2 rs1 f3 0x23) =
    map_option (\<lambda>t. Store t rs1 rs2 (sext12 imm)) (decode_store f3)"
proof -
  have f: "fits_in 7 (0x23 :: u32)" by (simp add: fits_in_def)
  note fld = insn_S_fields [OF assms f, of imm]
  have "push_bit 5 (take_bit 7 (drop_bit 5 imm)) OR take_bit 5 imm = take_bit 12 imm"
    by (rule bit_word_eqI) (auto simp: bit_simps)
  then have "imm_S (insn_S imm rs2 rs1 f3 0x23) = sext12 imm"
    using fld(5,6) by (simp add: imm_S_def f_rd_def f_funct7_def sext12_take_bit)
  with fld show ?thesis by (simp add: decode_def)
qed

lemma decode_insn_U:
  assumes "fits_in 5 rd"
  shows "decode (insn_U imm rd 0x37) = Some (Lui rd (take_bit 20 imm))"
    "decode (insn_U imm rd 0x17) = Some (Auipc rd (take_bit 20 imm))"
proof -
  have f: "fits_in 7 (0x37 :: u32)" "fits_in 7 (0x17 :: u32)" by (simp_all add: fits_in_def)
  show "decode (insn_U imm rd 0x37) = Some (Lui rd (take_bit 20 imm))"
    using insn_U_fields [OF assms f(1)] by (simp add: decode_def)
  show "decode (insn_U imm rd 0x17) = Some (Auipc rd (take_bit 20 imm))"
    using insn_U_fields [OF assms f(2)] by (simp add: decode_def)
qed

text \<open>The offset a jump word carries: bits 20 to 1 of the immediate, sign extended.\<close>

definition sext21 :: "u32 \<Rightarrow> u32" where
  "sext21 x = signed_take_bit 20 (push_bit 1 (take_bit 20 (drop_bit 1 x)))"

lemma decode_insn_J:
  assumes "fits_in 5 rd"
  shows "decode (insn_J imm rd 0x6f) = Some (Jal rd (sext21 imm))"
proof -
  have f: "fits_in 7 (0x6f :: u32)" by (simp add: fits_in_def)
  from insn_J_fields [OF assms f] show ?thesis by (simp add: decode_def sext21_def)
qed

text \<open>
  What emit_B makes of an offset: bits 11 to 1 survive, bit 11 also lands in bit 10, and the
  sign is lost.
\<close>

definition B_offset :: "u32 \<Rightarrow> u32" where
  "B_offset imm =
     push_bit 1 (take_bit 11 (drop_bit 1 imm)) OR push_bit 10 (take_bit 1 (drop_bit 11 imm))"

lemma decode_insn_B:
  assumes "fits_in 5 rs2" "fits_in 5 rs1" "fits_in 3 f3"
  shows "decode (insn_B imm rs2 rs1 f3 0x63) =
    map_option (\<lambda>b. Branch b rs1 rs2 (B_offset imm)) (decode_branch f3)"
proof -
  have f: "fits_in 7 (0x63 :: u32)" by (simp add: fits_in_def)
  note fld = insn_B_fields [OF assms f, of imm]
  let ?w = "insn_B imm rs2 rs1 f3 0x63"
  have b31: "take_bit 1 (drop_bit 31 ?w) = drop_bit 6 (f_funct7 ?w)"
    and b25: "take_bit 6 (drop_bit 25 ?w) = take_bit 6 (f_funct7 ?w)"
    and b7: "take_bit 1 (drop_bit 7 ?w) = take_bit 1 (f_rd ?w)"
    and b8: "take_bit 4 (drop_bit 8 ?w) = drop_bit 1 (f_rd ?w)"
    unfolding f_funct7_def f_rd_def
    by (auto intro!: bit_word_eqI simp: bit_simps)
  have f31: "drop_bit 6 (f_funct7 ?w) = 0"
    and f25: "take_bit 6 (f_funct7 ?w) =
      take_bit 6 (drop_bit 5 imm) OR push_bit 5 (take_bit 1 (drop_bit 11 imm))"
    and f7: "take_bit 1 (f_rd ?w) = take_bit 1 (drop_bit 11 imm)"
    and f8: "drop_bit 1 (f_rd ?w) = take_bit 4 (drop_bit 1 imm)"
    unfolding fld by (auto intro!: bit_word_eqI simp: bit_simps)
  have "push_bit 11 (take_bit 1 (drop_bit 11 imm)) OR (push_bit 5 (take_bit 6 (drop_bit 5 imm)) OR
      push_bit 10 (take_bit 1 (drop_bit 11 imm))) OR push_bit 1 (take_bit 4 (drop_bit 1 imm)) =
      B_offset imm"
    unfolding B_offset_def by (rule bit_word_eqI) (simp only: bit_or_iff bit_slice, auto)
  then have "imm_B ?w = signed_take_bit 12 (B_offset imm)"
    unfolding imm_B_def b31 b25 b7 b8 f31 f25 f7 f8 by (simp add: or.assoc)
  also have "\<dots> = B_offset imm"
    unfolding B_offset_def by (rule bit_word_eqI) (auto simp: bit_simps)
  finally show ?thesis using fld by (simp add: decode_def)
qed

lemma B_offset_exact:
  assumes "fits_in 11 imm" and "\<not> bit imm 0"
  shows "B_offset imm = imm"
proof -
  have "\<not> bit imm 11" using fits_inD [OF assms(1)] by blast
  then have 11: "take_bit 1 (drop_bit 11 imm) = 0"
    by (auto intro!: bit_word_eqI simp: bit_simps)
  show ?thesis
  proof (rule bit_word_eqI)
    fix n assume "n < LENGTH(32)"
    have "1 \<le> n \<and> n < 11" if "bit imm n"
      using that assms fits_inD [OF assms(1) that] by (cases n) auto
    then show "bit (B_offset imm) n = bit imm n"
      unfolding B_offset_def 11 by (simp only: bit_or_iff bit_slice, auto)
  qed
qed

end
