(* ===== verification/Riscv_Sink.thy ===== *)
theory Riscv_Sink
  imports Riscv_Encode
begin

text \<open>
  The interface between whoever produces instruction words and the text section that receives
  them. The locale \<open>insn_sink\<close> states what the emitters rely on; its lemmas lift the one-word
  laws to sequences. It is interpreted on \<open>o_insn\<close>, the model of the C function o.
\<close>

section \<open>The interface\<close>

locale insn_sink =
  fixes put :: "u32 \<Rightarrow> 's \<Rightarrow> 's"
    and pos :: "'s \<Rightarrow> nat"
    and word_at :: "'s \<Rightarrow> nat \<Rightarrow> u32"
    and active :: "'s \<Rightarrow> bool"
  assumes active_put: "active s \<Longrightarrow> active (put w s)"
    and pos_put: "active s \<Longrightarrow> pos (put w s) = pos s + 4"
    and word_put: "active s \<Longrightarrow> word_at (put w s) (pos s) = w"
    and word_put_old: "active s \<Longrightarrow> p + 4 \<le> pos s \<Longrightarrow> word_at (put w s) p = word_at s p"
begin

lemma active_fold: "active s \<Longrightarrow> active (fold put ws s)"
  by (induction ws arbitrary: s) (simp_all add: active_put)

lemma pos_fold: "active s \<Longrightarrow> pos (fold put ws s) = pos s + 4 * length ws"
  by (induction ws arbitrary: s) (simp_all add: active_put pos_put)

lemma word_fold_old:
  "active s \<Longrightarrow> p + 4 \<le> pos s \<Longrightarrow> word_at (fold put ws s) p = word_at s p"
  by (induction ws arbitrary: s) (simp_all add: active_put pos_put word_put_old)

lemma word_fold:
  "active s \<Longrightarrow> i < length ws \<Longrightarrow> word_at (fold put ws s) (pos s + 4 * i) = ws ! i"
proof (induction ws arbitrary: s i)
  case Nil
  then show ?case by simp
next
  case (Cons w ws)
  show ?case
  proof (cases i)
    case 0
    with Cons.prems show ?thesis
      by (simp add: word_fold_old active_put pos_put word_put)
  next
    case (Suc j)
    with Cons.prems Cons.IH [of "put w s" j] show ?thesis
      by (simp add: active_put pos_put algebra_simps)
  qed
qed

lemma words_fold:
  "active s \<Longrightarrow> map (\<lambda>i. word_at (fold put ws s) (pos s + 4 * i)) [0..<length ws] = ws"
  by (rule nth_equalityI) (simp_all add: word_fold)

end

section \<open>The text section as a sink\<close>

text \<open>The instruction word stored at a byte offset, and \<open>n\<close> consecutive words.\<close>

definition code_word :: "'a emit_state_scheme \<Rightarrow> nat \<Rightarrow> u32" where
  "code_word s p = read32le (sdata (text_sec s)) p"

definition code_words :: "'a emit_state_scheme \<Rightarrow> nat \<Rightarrow> nat \<Rightarrow> u32 list" where
  "code_words s p n = map (\<lambda>i. code_word s (p + 4 * i)) [0..<n]"

text \<open>Code generation is on and the write position lies inside the buffer or at its end.\<close>

definition emitting :: "'a emit_state_scheme \<Rightarrow> bool" where
  "emitting s \<longleftrightarrow> nocode_wanted s = 0 \<and> ind s \<le> data_allocated (text_sec s)"

lemma reserve_enough: "n \<le> data_allocated (text_sec (reserve n s))"
  by (auto simp: reserve_def section_realloc_enough)

lemma reserve_prefix: "\<exists>k. sdata (text_sec (reserve n s)) = sdata (text_sec s) @ replicate k 0"
  using section_realloc_prefix [of "text_sec s" n] by (auto simp: reserve_def intro: exI [of _ 0])

lemma reserve_fields [simp]: "ind (reserve n s) = ind s" "nocode_wanted (reserve n s) = nocode_wanted s"
  by (simp_all add: reserve_def)

lemma set_text_fields [simp]:
  "ind (set_text f s) = ind s" "nocode_wanted (set_text f s) = nocode_wanted s"
  "sdata (text_sec (set_text f s)) = f (sdata (text_sec s))"
  by (simp_all add: set_text_def)

lemma o_insn_active:
  assumes "nocode_wanted s = 0"
  obtains k where "ind (o_insn w s) = ind s + 4" "nocode_wanted (o_insn w s) = 0"
    "sdata (text_sec (o_insn w s)) = write32le (sdata (text_sec s) @ replicate k 0) (ind s) w"
    "ind s + 4 \<le> data_allocated (text_sec s) + k"
proof -
  obtain k where k: "sdata (text_sec (reserve (ind s + 4) s)) = sdata (text_sec s) @ replicate k 0"
    using reserve_prefix by blast
  have "ind s + 4 \<le> length (sdata (text_sec s) @ replicate k 0)"
    using reserve_enough [of "ind s + 4" s] by (simp only: k)
  then show ?thesis
    using assms that [of k] by (simp add: o_insn_def Let_def k)
qed

lemma o_insn_off: "nocode_wanted s \<noteq> 0 \<Longrightarrow> o_insn w s = s"
  by (simp add: o_insn_def Let_def)

interpretation tsink: insn_sink o_insn ind code_word emitting
proof
  fix s :: "'a emit_state_scheme" and w and p
  assume "emitting s"
  then have nc: "nocode_wanted s = 0" and le: "ind s \<le> data_allocated (text_sec s)"
    by (simp_all add: emitting_def)
  from nc obtain k where k: "ind (o_insn w s) = ind s + 4" "nocode_wanted (o_insn w s) = 0"
    "sdata (text_sec (o_insn w s)) = write32le (sdata (text_sec s) @ replicate k 0) (ind s) w"
    "ind s + 4 \<le> data_allocated (text_sec s) + k"
    by (rule o_insn_active)
  show "emitting (o_insn w s)" using k by (simp add: emitting_def)
  show "ind (o_insn w s) = ind s + 4" by (rule k)
  show "code_word (o_insn w s) (ind s) = w" using k by (simp add: code_word_def)
  show "code_word (o_insn w s) p = code_word s p" if "p + 4 \<le> ind s"
    using k le that by (simp add: code_word_def read32le_write32le_other read32le_append)
qed

text \<open>A step of the generator that appends exactly the words \<open>ws\<close>.\<close>

definition appends :: "'a emit_state_scheme \<Rightarrow> u32 list \<Rightarrow> 'a emit_state_scheme \<Rightarrow> bool" where
  "appends s ws s' \<longleftrightarrow> s' = fold o_insn ws s"

lemma appends_o_insn: "appends s [w] (o_insn w s)"
  by (simp add: appends_def)

lemma appends_trans: "appends s us t \<Longrightarrow> appends t vs r \<Longrightarrow> appends s (us @ vs) r"
  by (simp add: appends_def)

lemma appends_words:
  assumes "appends s ws s'" and "emitting s"
  shows "code_words s' (ind s) (length ws) = ws"
    and "ind s' = ind s + 4 * length ws" and "emitting s'"
  using assms tsink.words_fold [of s ws] tsink.pos_fold [of s ws] tsink.active_fold [of s ws]
  by (simp_all add: appends_def code_words_def)

lemma appends_pair:
  "appends s [a, b] s' \<Longrightarrow> emitting s \<Longrightarrow> code_words s' (ind s) 2 = [a, b]"
  using appends_words(1) [of s "[a, b]" s'] by (simp add: numeral_2_eq_2)

end
