(* ===== verification/Riscv_Imm.thy ===== *)
theory Riscv_Imm
  imports Riscv_Encode
begin

text \<open>
  Arithmetic of the immediates: sign extension as an offset subtraction, and the splitting of a
  32-bit value into the upper 20 bits for LUI or AUIPC and the low 12 bits that the following
  instruction adds sign extended (IMM_HIGH, IMM_LOW of riscv_utils.h).
\<close>

lemma word_of_int_signed_take_bit:
  "word_of_int (signed_take_bit n (uint x)) = signed_take_bit n (x :: 'a::len word)"
  if "n < LENGTH('a)"
  using that by (intro bit_word_eqI) (simp add: bit_signed_take_bit_iff bit_uint_iff min_def bit_simps)

lemma signed_take_bit_shift_word:
  fixes x :: "'a::len word"
  assumes "n < LENGTH('a)"
  shows "signed_take_bit n x = take_bit (Suc n) (x + 2 ^ n) - 2 ^ n"
proof -
  have tb: "word_of_int (take_bit (Suc n) k) = take_bit (Suc n) (word_of_int k :: 'a word)" for k
    by (rule bit_word_eqI) (simp add: bit_simps)
  have "signed_take_bit n x = word_of_int (take_bit (Suc n) (uint x + 2 ^ n) - 2 ^ n)"
    by (simp only: word_of_int_signed_take_bit [OF assms, symmetric]
        signed_take_bit_eq_take_bit_shift)
  also have "\<dots> = take_bit (Suc n) (x + 2 ^ n) - 2 ^ n"
    by (simp add: tb)
  finally show ?thesis .
qed

lemma sext12_shift: "sext12 x = take_bit 12 (x + 0x800) - 0x800"
  using signed_take_bit_shift_word [of 11 x] by (simp add: sext12_def)

lemma IMM_HIGH_eq: "IMM_HIGH x = take_bit 20 (drop_bit 12 x)"
  unfolding IMM_HIGH_def and_masks by (rule bit_word_eqI) (auto simp: bit_simps)

lemma IMM_HIGH_drop: "IMM_HIGH x = drop_bit 12 x"
  unfolding IMM_HIGH_eq by (rule bit_word_eqI) (auto simp: bit_simps dest: bit_imp_le_length)

lemma IMM_LOW_eq: "IMM_LOW x = take_bit 12 x"
  by (simp add: IMM_LOW_def and_masks)

lemma take_20_IMM_HIGH [simp]: "take_bit 20 (IMM_HIGH x) = IMM_HIGH x"
  by (simp add: IMM_HIGH_eq)

lemma sext12_IMM_LOW [simp]: "sext12 (IMM_LOW x) = sext12 x"
  by (simp add: IMM_LOW_eq sext12_def signed_take_bit_take_bit)

lemma push_IMM_HIGH: "push_bit 12 (IMM_HIGH x) = x - take_bit 12 x"
  using bits_ident [of 12 x] by (simp add: IMM_HIGH_drop eq_diff_eq)

text \<open>The rounded upper part and the sign-extended lower part add up to the value.\<close>

theorem hi_lo_sum: "push_bit 12 (IMM_HIGH (x + 0x800)) + sext12 x = x"
  by (simp add: push_IMM_HIGH sext12_shift)

lemma hi_lo_sum' : "sext12 x + push_bit 12 (IMM_HIGH (x + 0x800)) = x"
  using hi_lo_sum by (simp add: add.commute)

text \<open>Without the rounding the sum is off by 4096 whenever bit 11 of the value is set.\<close>

lemma sext12_alt: "sext12 x = take_bit 12 x - (if bit x 11 then 4096 else 0)"
proof -
  have tb: "take_bit 12 x = take_bit 11 x + 2048 * of_bool (bit x 11)"
  proof -
    have "take_bit 11 x AND push_bit 11 (of_bool (bit x 11)) = 0"
      by (rule bit_word_eqI) (auto simp: bit_simps)
    moreover have "take_bit 12 x = take_bit 11 x OR push_bit 11 (of_bool (bit x 11))"
      by (rule bit_word_eqI) (auto simp: bit_simps less_Suc_eq numeral_eq_Suc)
    ultimately show ?thesis
      by (simp add: disjunctive_add_eq_or [symmetric] push_bit_eq_mult)
  qed
  have "take_bit 11 x AND NOT (mask 11) = 0"
    by (rule bit_word_eqI) (simp add: bit_simps)
  then have "take_bit 11 x OR NOT (mask 11) = take_bit 11 x + NOT (mask 11)"
    by (simp add: disjunctive_add_eq_or)
  then have "take_bit 11 x OR NOT (mask 11) = take_bit 11 x - 2048"
    by (simp add: minus_exp_eq_not_mask [symmetric])
  with tb show ?thesis
    by (simp add: sext12_def signed_take_bit_eq_if_positive signed_take_bit_eq_if_negative)
qed

lemma unrounded_sum:
  "push_bit 12 (IMM_HIGH x) + sext12 x = x - (if bit x 11 then 4096 else 0)"
  by (simp add: push_IMM_HIGH sext12_alt)

lemma imm12_ok_sext12: "imm12_ok x \<Longrightarrow> sext12 x = x"
proof -
  assume "imm12_ok x"
  then have "drop_bit 12 (x + 0x800) = 0" by (simp add: imm12_ok_def)
  then have "take_bit 12 (x + 0x800) = x + 0x800"
    using bits_ident [of 12 "x + 0x800"] by simp
  then show ?thesis by (simp add: sext12_shift)
qed

lemma LARGE_IMM_iff: "LARGE_IMM x \<longleftrightarrow> \<not> imm12_ok x"
  by (simp add: LARGE_IMM_def imm12_ok_def IMM_HIGH_drop)

lemma sint_shift_range:
  fixes x :: u32
  assumes "n < 31"
  shows "uint (x + 2 ^ n) < 2 ^ Suc n \<longleftrightarrow> - (2 ^ n) \<le> sint x \<and> sint x < 2 ^ n"
proof -
  have r: "- 2147483648 \<le> sint x" "sint x < 2147483648"
    using sint_ge [of x] sint_lt [of x] by simp_all
  have "(2 :: int) ^ n < 2 ^ 31" using assms by (intro power_strict_increasing) simp_all
  then have n: "(2 :: int) ^ n < 2147483648" by simp
  have pos: "0 < (2 :: int) ^ n" by simp
  have "x + 2 ^ n = word_of_int (sint x + 2 ^ n)" by simp
  then have u: "uint (x + 2 ^ n) = (sint x + 2 ^ n) mod 4294967296"
    by (simp only: uint_word_of_int) simp
  show ?thesis
  proof (cases "sint x + 2 ^ n < 0")
    case True
    then have "(sint x + 2 ^ n) mod 4294967296 = (sint x + 2 ^ n + 4294967296) mod 4294967296"
      by (simp only: mod_add_self2)
    also have "\<dots> = sint x + 2 ^ n + 4294967296"
      by (rule mod_pos_pos_trivial) (use True r pos in linarith)+
    finally show ?thesis using True r n u by simp
  next
    case False
    then have "(sint x + 2 ^ n) mod 4294967296 = sint x + 2 ^ n"
      by (intro mod_pos_pos_trivial) (use r n in linarith)+
    with False r n show ?thesis using u by auto
  qed
qed

lemma imm12_ok_iff: "imm12_ok x \<longleftrightarrow> - 2048 \<le> sint x \<and> sint x < 2048"
proof -
  have "drop_bit 12 y = 0 \<longleftrightarrow> uint y < 4096" for y :: u32
    by (auto simp: drop_bit_eq_div word_uint_eq_iff uint_div zdiv_eq_0_iff)
  then show ?thesis using sint_shift_range [of 11 x] by (simp add: imm12_ok_def)
qed

text \<open>The displacement a jump word carries, for an even value.\<close>

lemma sext21_int:
  fixes x :: u32
  assumes "\<not> bit x 0"
  shows "sext21 x = word_of_int ((sint x + 2 ^ 20) mod 2 ^ 21 - 2 ^ 20)"
proof -
  have "push_bit 1 (take_bit 20 (drop_bit 1 x)) = take_bit 21 x"
  proof (rule bit_word_eqI)
    fix n assume "n < LENGTH(32)"
    show "bit (push_bit 1 (take_bit 20 (drop_bit 1 x))) n = bit (take_bit 21 x) n"
      using assms by (cases n) (auto simp only: bit_slice bit_simps, auto)
  qed
  then have "sext21 x = signed_take_bit 20 x"
    unfolding sext21_def by (simp add: signed_take_bit_take_bit)
  also have "\<dots> = word_of_int (signed_take_bit 20 (uint x))"
    by (rule word_of_int_signed_take_bit [symmetric]) simp
  also have "signed_take_bit 20 (uint x) = signed_take_bit 20 (sint x)"
  proof -
    have "take_bit 21 (uint x) = take_bit 21 (sint x)"
      by (rule bit_eqI) (auto simp: bit_simps bit_sint_iff min_def)
    then show ?thesis by (simp add: signed_take_bit_eq_iff_take_bit_eq)
  qed
  also have "\<dots> = (sint x + 2 ^ 20) mod 2 ^ 21 - 2 ^ 20"
    by (simp add: signed_take_bit_eq_take_bit_shift take_bit_eq_mod)
  finally show ?thesis .
qed

lemma sext21_near:
  "\<not> bit x 0 \<Longrightarrow> - (2 ^ 20) \<le> sint x \<Longrightarrow> sint x < 2 ^ 20 \<Longrightarrow> sext21 x = x"
  by (simp add: sext21_int)

lemma sext21_beyond:
  "\<not> bit x 0 \<Longrightarrow> 2 ^ 20 \<le> sint x \<Longrightarrow> sint x < 2 ^ 21 \<Longrightarrow> sext21 x = x - 2 ^ 21"
  "\<not> bit x 0 \<Longrightarrow> - (2 ^ 21) \<le> sint x \<Longrightarrow> sint x < - (2 ^ 20) \<Longrightarrow> sext21 x = x + 2 ^ 21"
proof -
  assume "\<not> bit x 0" "2 ^ 20 \<le> sint x" "sint x < 2 ^ 21"
  moreover from this have "(sint x + 2 ^ 20) mod 2 ^ 21 = sint x + 2 ^ 20 - 2 ^ 21"
    by (subst mod_pos_geq) simp_all
  ultimately show "sext21 x = x - 2 ^ 21" by (simp add: sext21_int)
next
  assume "\<not> bit x 0" "- (2 ^ 21) \<le> sint x" "sint x < - (2 ^ 20)"
  moreover from this have "(sint x + 2 ^ 20) mod 2 ^ 21 = (sint x + 2 ^ 20 + 2 ^ 21) mod 2 ^ 21"
    by (simp only: mod_add_self2)
  ultimately show "sext21 x = x + 2 ^ 21" by (simp add: sext21_int)
qed

end
