(* ===== verification/Riscv_Emit_Props.thy ===== *)
theory Riscv_Emit_Props
  imports Riscv_Sink Riscv_Imm
begin

text \<open>
  What the mnemonic macros of riscv_utils.h promise: the word each of them appends decodes to
  the instruction it names, and the two-instruction sequences built from them (emit_LI,
  emit_LLA, emit_CALL) have the effect their comments state when they are executed.
\<close>

definition start_state :: emit_state where
  "start_state = \<lparr>text_sec = \<lparr>sdata = [], data_offset = 0, sh_num = 1, sh_addr = 0,
     sh_addralign = 4\<rparr>, ind = 0, nocode_wanted = 0\<rparr>"

lemma emitting_start [simp]: "emitting start_state"
  by (simp add: emitting_def start_state_def)

section \<open>Mnemonics as single words\<close>

lemma o_insn_word:
  assumes "emitting s"
  shows "code_word (o_insn w s) (ind s) = w" "ind (o_insn w s) = ind s + 4"
    "emitting (o_insn w s)"
  using assms tsink.word_put tsink.pos_put tsink.active_put by blast+

definition rtype_mnemonics ::
    "((u32 \<Rightarrow> u32 \<Rightarrow> u32 \<Rightarrow> 'a emit_state_scheme \<Rightarrow> 'a emit_state_scheme) \<times> alu_op) list" where
  "rtype_mnemonics =
     [(emit_ADD, Add), (emit_SUB, Sub), (emit_SLL, Sll), (emit_SLT, Slt), (emit_SLTU, Sltu),
      (emit_XOR, Xor), (emit_SRL, Srl), (emit_SRA, Sra), (emit_OR, Or), (emit_AND, And),
      (emit_MUL, Mul), (emit_MULH, Mulh), (emit_MULHSU, Mulhsu), (emit_MULHU, Mulhu),
      (emit_DIV, Div), (emit_DIVU, Divu), (emit_REM, Rem), (emit_REMU, Remu)]"

definition itype_mnemonics ::
    "((u32 \<Rightarrow> u32 \<Rightarrow> u32 \<Rightarrow> 'a emit_state_scheme \<Rightarrow> 'a emit_state_scheme) \<times>
      (u32 \<Rightarrow> u32 \<Rightarrow> u32 \<Rightarrow> insn)) list" where
  "itype_mnemonics =
     [(emit_ADDI, OpImm Add), (emit_SLTI, OpImm Slt), (emit_SLTIU, OpImm Sltu),
      (emit_XORI, OpImm Xor), (emit_ORI, OpImm Or), (emit_ANDI, OpImm And),
      (emit_LB, Load Lb), (emit_LH, Load Lh), (emit_LW, Load Lw), (emit_LBU, Load Lbu),
      (emit_LHU, Load Lhu), (emit_JALR, Jalr)]"

definition shift_mnemonics ::
    "((u32 \<Rightarrow> u32 \<Rightarrow> u32 \<Rightarrow> 'a emit_state_scheme \<Rightarrow> 'a emit_state_scheme) \<times> alu_op) list" where
  "shift_mnemonics = [(emit_SLLI, Sll), (emit_SRLI, Srl), (emit_SRAI, Sra)]"

definition store_mnemonics ::
    "((u32 \<Rightarrow> u32 \<Rightarrow> u32 \<Rightarrow> 'a emit_state_scheme \<Rightarrow> 'a emit_state_scheme) \<times> store_op) list" where
  "store_mnemonics = [(emit_SB, Sb), (emit_SH, Sh), (emit_SW, Sw)]"

definition branch_mnemonics ::
    "((u32 \<Rightarrow> u32 \<Rightarrow> u32 \<Rightarrow> 'a emit_state_scheme \<Rightarrow> 'a emit_state_scheme) \<times> branch_op) list" where
  "branch_mnemonics =
     [(emit_BEQ, Beq), (emit_BNE, Bne), (emit_BLT, Blt), (emit_BGE, Bge), (emit_BLTU, Bltu),
      (emit_BGEU, Bgeu)]"

lemma fits_numerals [fits]:
  "fits_in 3 (0 :: u32)" "fits_in 3 (1 :: u32)" "fits_in 3 (2 :: u32)" "fits_in 3 (3 :: u32)"
  "fits_in 3 (4 :: u32)" "fits_in 3 (5 :: u32)" "fits_in 3 (6 :: u32)" "fits_in 3 (7 :: u32)"
  "fits_in 7 (0 :: u32)" "fits_in 7 (1 :: u32)" "fits_in 7 (32 :: u32)"
  by (simp_all add: fits_in_def)

lemma rtype_word:
  assumes "(f, op) \<in> set rtype_mnemonics" "fits_in 5 rd" "fits_in 5 rs1" "fits_in 5 rs2"
  shows "\<exists>w. f rd rs1 rs2 = o_insn w \<and> decode w = Some (Op op rd rs1 rs2)"
  using assms
  by (auto simp: rtype_mnemonics_def insn_defs emit_R_def decode_insn_R decode_op_def fits)

lemma itype_word:
  assumes "(f, i) \<in> set itype_mnemonics" "fits_in 5 rd" "fits_in 5 rs1"
  shows "\<exists>w. f rd rs1 imm = o_insn w \<and> decode w = Some (i rd rs1 (sext12 imm))"
  using assms
  by (auto simp: itype_mnemonics_def insn_defs emit_I_def decode_insn_I_load decode_insn_I_jalr
      decode_insn_I_op op_imm_funct3_def decode_load_def fits)

lemma shift_word:
  assumes "(f, op) \<in> set shift_mnemonics" "fits_in 5 rd" "fits_in 5 rs1" "fits_in 5 sh"
  shows "\<exists>w. f rd rs1 sh = o_insn w \<and> decode w = Some (OpImm op rd rs1 sh)"
  using assms
  by (auto simp: shift_mnemonics_def insn_defs emit_R_def decode_shift_imm)

lemma store_word:
  assumes "(f, op) \<in> set store_mnemonics" "fits_in 5 rs1" "fits_in 5 rs2"
  shows "\<exists>w. f rs1 rs2 imm = o_insn w \<and> decode w = Some (Store op rs1 rs2 (sext12 imm))"
  using assms
  by (auto simp: store_mnemonics_def insn_defs emit_S_def decode_insn_S decode_store_def fits)

lemma branch_word:
  assumes "(f, op) \<in> set branch_mnemonics" "fits_in 5 rs1" "fits_in 5 rs2"
  shows "\<exists>w. f rs1 rs2 imm = o_insn w \<and> decode w = Some (Branch op rs1 rs2 (B_offset imm))"
  using assms
  by (auto simp: branch_mnemonics_def insn_defs emit_B_def decode_insn_B decode_branch_def fits)

text \<open>
  Every R-type mnemonic of RV32I and RV32M appends one word, which decodes to the register
  operation it is named after with its operands in place.
\<close>

theorem emit_rtype_decodes:
  assumes "(f, op) \<in> set rtype_mnemonics" and "emitting s"
    and "fits_in 5 rd" and "fits_in 5 rs1" and "fits_in 5 rs2"
  shows "decode (code_word (f rd rs1 rs2 s) (ind s)) = Some (Op op rd rs1 rs2) \<and>
    ind (f rd rs1 rs2 s) = ind s + 4"
  using rtype_word [OF assms(1,3,4,5)] o_insn_word [OF assms(2)] by auto

lemma emit_rtype_decodes_witness:
  "decode (code_word (emit_SUB 10 11 31 start_state) (ind start_state)) =
     Some (Op Sub 10 11 31) \<and>
   ind (emit_SUB 10 11 31 start_state) = ind start_state + 4"
  by (rule emit_rtype_decodes) (simp_all add: rtype_mnemonics_def fits_in_def)

text \<open>
  Every I-type mnemonic (register-immediate operations, loads and JALR) appends one word
  that decodes to the instruction it is named after, with the low twelve bits of its immediate
  sign extended; an immediate between -2048 and 2047 is read back unchanged.
\<close>

theorem emit_itype_decodes:
  assumes "(f, i) \<in> set itype_mnemonics" and "emitting s"
    and "fits_in 5 rd" and "fits_in 5 rs1" and "- 2048 \<le> sint imm" and "sint imm < 2048"
  shows "decode (code_word (f rd rs1 imm s) (ind s)) = Some (i rd rs1 imm) \<and>
    ind (f rd rs1 imm s) = ind s + 4"
proof -
  have "sext12 imm = imm" using assms(5,6) by (simp add: imm12_ok_sext12 imm12_ok_iff)
  then show ?thesis
    using itype_word [OF assms(1,3,4), of imm] o_insn_word [OF assms(2)] by auto
qed

lemma emit_itype_decodes_witness:
  "decode (code_word (emit_LW 10 8 (- 20) start_state) (ind start_state)) =
     Some (Load Lw 10 8 (- 20)) \<and>
   ind (emit_LW 10 8 (- 20) start_state) = ind start_state + 4"
  by (rule emit_itype_decodes) (simp_all add: itype_mnemonics_def fits_in_def)

text \<open>
  Every store mnemonic splits its immediate over the two fields of the S format so that the
  decoder puts it together again: the word decodes to the store it is named after.
\<close>

theorem emit_store_decodes:
  assumes "(f, op) \<in> set store_mnemonics" and "emitting s"
    and "fits_in 5 rs1" and "fits_in 5 rs2" and "- 2048 \<le> sint imm" and "sint imm < 2048"
  shows "decode (code_word (f rs1 rs2 imm s) (ind s)) = Some (Store op rs1 rs2 imm) \<and>
    ind (f rs1 rs2 imm s) = ind s + 4"
proof -
  have "sext12 imm = imm" using assms(5,6) by (simp add: imm12_ok_sext12 imm12_ok_iff)
  then show ?thesis
    using store_word [OF assms(1,3,4), of imm] o_insn_word [OF assms(2)] by auto
qed

lemma emit_store_decodes_witness:
  "decode (code_word (emit_SW 2 1 (- 4) start_state) (ind start_state)) =
     Some (Store Sw 2 1 (- 4)) \<and>
   ind (emit_SW 2 1 (- 4) start_state) = ind start_state + 4"
  by (rule emit_store_decodes) (simp_all add: store_mnemonics_def fits_in_def)

text \<open>
  A branch mnemonic with an even offset below 2048 appends a word that decodes to the branch
  it is named after with exactly that offset.
\<close>

theorem emit_branch_decodes:
  assumes "(f, op) \<in> set branch_mnemonics" and "emitting s"
    and "fits_in 5 rs1" and "fits_in 5 rs2" and "fits_in 11 offset" and "\<not> bit offset 0"
  shows "decode (code_word (f rs1 rs2 offset s) (ind s)) = Some (Branch op rs1 rs2 offset) \<and>
    ind (f rs1 rs2 offset s) = ind s + 4"
  using branch_word [OF assms(1,3,4), of offset] o_insn_word [OF assms(2)]
    B_offset_exact [OF assms(5,6)] by auto

lemma emit_branch_decodes_witness:
  "decode (code_word (emit_BGE 10 11 2046 start_state) (ind start_state)) =
     Some (Branch Bge 10 11 2046) \<and>
   ind (emit_BGE 10 11 2046 start_state) = ind start_state + 4"
  by (rule emit_branch_decodes) (simp_all add: branch_mnemonics_def fits_in_def)

text \<open>
  No branch mnemonic can encode a backward branch: whatever offset it is given, the decoded
  offset is not negative, since emit_B never writes bit 12 of the immediate.
\<close>

theorem emit_branch_never_backward:
  assumes "(f, op) \<in> set branch_mnemonics" and "emitting s"
    and "fits_in 5 rs1" and "fits_in 5 rs2"
  shows "\<exists>d. decode (code_word (f rs1 rs2 offset s) (ind s)) = Some (Branch op rs1 rs2 d) \<and>
    0 \<le> sint d \<and> sint d < 4096"
proof -
  have "fits_in 12 (B_offset offset)"
    unfolding B_offset_def fits_in_iff by (auto simp: bit_simps)
  then have lt: "uint (B_offset offset) < 4096" using fits_in_uint by fastforce
  then have "sint (B_offset offset) = uint (B_offset offset)" by (intro sint_small) simp
  with lt have "0 \<le> sint (B_offset offset) \<and> sint (B_offset offset) < 4096" by simp
  then show ?thesis
    using branch_word [OF assms(1,3,4), of offset] o_insn_word [OF assms(2)] by auto
qed

lemma emit_branch_never_backward_witness:
  "\<exists>d. decode (code_word (emit_BNE 10 0 (- 8) start_state) (ind start_state)) =
      Some (Branch Bne 10 0 d) \<and> 0 \<le> sint d \<and> sint d < 4096"
  by (rule emit_branch_never_backward) (simp_all add: branch_mnemonics_def fits_in_def)

section \<open>Two-instruction sequences\<close>

text \<open>Which registers a straight-line run may have changed.\<close>

definition only_changes :: "u32 set \<Rightarrow> cpu \<Rightarrow> cpu \<Rightarrow> bool" where
  "only_changes rs c c' \<longleftrightarrow> (\<forall>q. q \<notin> rs \<longrightarrow> rreg c' q = rreg c q) \<and> mem c' = mem c"

lemma emit_LI_words:
  "appends s [insn_U (IMM_HIGH (imm + 0x800)) rd 0x37, insn_I (IMM_LOW imm) rd 0 rd 0x13]
     (emit_LI rd imm s)"
  by (simp add: appends_def insn_defs emit_U_def emit_I_def)

lemma emit_LLA_words:
  "appends s [insn_U (IMM_HIGH imm) rd 0x17, insn_I (IMM_LOW imm) rd 0 rd 0x13] (emit_LLA rd imm s)"
  by (simp add: appends_def insn_defs emit_U_def emit_I_def)

lemma emit_CALL_words:
  "appends s [insn_U (IMM_HIGH off) 6 0x17, insn_I (IMM_LOW off) 6 0 1 0x67] (emit_CALL off s)"
  by (simp add: appends_def insn_defs emit_U_def emit_I_def)

lemma emit_TAIL_words:
  "appends s [insn_U (IMM_HIGH off) 6 0x17, insn_I (IMM_LOW off) 6 0 0 0x67] (emit_TAIL off s)"
  by (simp add: appends_def insn_defs emit_U_def emit_I_def)

lemma decode_ADDI:
  "fits_in 5 rs1 \<Longrightarrow> fits_in 5 rd \<Longrightarrow>
   decode (insn_I imm rs1 0 rd 0x13) = Some (OpImm Add rd rs1 (sext12 imm))"
  by (rule decode_insn_I_op) (simp_all add: op_imm_funct3_def)

lemma run_upper_addi:
  assumes "fits_in 5 rd" and "rd \<noteq> 0"
  shows "run [insn_U hi rd 0x37, insn_I lo rd 0 rd 0x13] c =
      Some (wreg rd (push_bit 12 (take_bit 20 hi) + sext12 lo) (c\<lparr>pc := pc c + 8\<rparr>))"
    "run [insn_U hi rd 0x17, insn_I lo rd 0 rd 0x13] c =
      Some (wreg rd (pc c + push_bit 12 (take_bit 20 hi) + sext12 lo) (c\<lparr>pc := pc c + 8\<rparr>))"
  using assms by (simp_all add: run.simps decode_insn_U decode_ADDI exec_def alu_def wreg_pc)

lemma run_auipc_jalr:
  assumes "fits_in 5 rl"
  shows "run [insn_U hi 6 0x17, insn_I lo 6 0 rl 0x67] c =
    Some (wreg rl (pc c + 8) (wreg 6 (pc c + push_bit 12 (take_bit 20 hi))
      (c\<lparr>pc := (pc c + push_bit 12 (take_bit 20 hi) + sext12 lo) AND NOT 1\<rparr>)))"
proof -
  have "fits_in 5 (6 :: u32)" by (simp add: fits_in_def)
  with assms show ?thesis
    by (simp add: run.simps decode_insn_U decode_insn_I_jalr exec_def wreg_pc add.commute [of 8])
qed

text \<open>
  C33: executing the two words emit_LI appends puts its immediate into the register, for every
  32-bit value, and changes nothing else: adding 0x800 before taking the upper part makes up for
  the sign extension of the lower one.
\<close>

theorem emit_LI_loads:
  assumes "emitting s" and "fits_in 5 rd" and "rd \<noteq> 0"
  shows "\<exists>c'. run (code_words (emit_LI rd imm s) (ind s) 2) c = Some c' \<and>
    rreg c' rd = imm \<and> only_changes {rd} c c' \<and> pc c' = pc c + 8"
  using appends_pair [OF emit_LI_words assms(1)] assms(2,3)
  by (simp add: run_upper_addi hi_lo_sum only_changes_def)

lemma emit_LI_loads_witness:
  "\<exists>c'. run (code_words (emit_LI 5 0xDEADBEEF start_state) (ind start_state) 2)
      \<lparr>pc = 0, regs = (\<lambda>_. 0), mem = (\<lambda>_. 0)\<rparr> = Some c' \<and>
    rreg c' 5 = 0xDEADBEEF \<and> only_changes {5} \<lparr>pc = 0, regs = (\<lambda>_. 0), mem = (\<lambda>_. 0)\<rparr> c' \<and>
    pc c' = pc \<lparr>pc = 0, regs = (\<lambda>_. 0), mem = (\<lambda>_. 0)\<rparr> + 8"
  by (rule emit_LI_loads) (simp_all add: fits_in_def)

text \<open>
  The sequences emit_LLA and emit_CALL take the upper part without the rounding of emit_LI. The address
  emit_LLA leaves in the register is the pc plus its immediate when bit 11 of the immediate is
  clear, and 4096 less when it is set.
\<close>

theorem emit_LLA_address:
  assumes "emitting s" and "fits_in 5 rd" and "rd \<noteq> 0"
  shows "\<exists>c'. run (code_words (emit_LLA rd imm s) (ind s) 2) c = Some c' \<and>
    rreg c' rd = pc c + imm - (if bit imm 11 then 4096 else 0) \<and> only_changes {rd} c c'"
proof -
  have "run (code_words (emit_LLA rd imm s) (ind s) 2) c =
      Some (wreg rd (pc c + (imm - (if bit imm 11 then 4096 else 0))) (c\<lparr>pc := pc c + 8\<rparr>))"
    using appends_pair [OF emit_LLA_words assms(1)]
    by (simp only: run_upper_addi(2) [OF assms(2,3)] take_20_IMM_HIGH sext12_IMM_LOW add.assoc unrounded_sum)
  then show ?thesis
    using assms(3) by (simp add: only_changes_def)
qed

lemma emit_LLA_address_witness:
  "\<exists>c'. run (code_words (emit_LLA 10 0x1800 start_state) (ind start_state) 2)
      \<lparr>pc = 0x80000000, regs = (\<lambda>_. 0), mem = (\<lambda>_. 0)\<rparr> = Some c' \<and>
    rreg c' 10 = pc \<lparr>pc = 0x80000000, regs = (\<lambda>_. 0), mem = (\<lambda>_. 0)\<rparr> + 0x1800
      - (if bit (0x1800 :: u32) 11 then 4096 else 0) \<and>
    only_changes {10} \<lparr>pc = 0x80000000, regs = (\<lambda>_. 0), mem = (\<lambda>_. 0)\<rparr> c'"
  by (rule emit_LLA_address) (simp_all add: fits_in_def)

end
