(* ===== verification/Riscv_Link.thy ===== *)
theory Riscv_Link
  imports Riscv_Emit
begin

text \<open>
  riscv32-link.c: classification of relocation types, application of one relocation
  (relocate), of a section's relocations (relocate_section of tccelf.c), and creation and
  relocation of the procedure linkage table.

  A place to patch is an offset into the bytes of the section; reading or writing beyond the
  allocated bytes is \<open>MemFault\<close>. Addresses (addr_t) are 32 bits wide, as Elf32_Addr is, and the
  displacements the code widens to uint64_t are widened here as well.
\<close>

section \<open>Relocation types\<close>

type_synonym reloc_type = nat

abbreviation (input) R_RISCV_32 :: reloc_type where "R_RISCV_32 \<equiv> 1"
abbreviation (input) R_RISCV_64 :: reloc_type where "R_RISCV_64 \<equiv> 2"
abbreviation (input) R_RISCV_RELATIVE :: reloc_type where "R_RISCV_RELATIVE \<equiv> 3"
abbreviation (input) R_RISCV_COPY :: reloc_type where "R_RISCV_COPY \<equiv> 4"
abbreviation (input) R_RISCV_JUMP_SLOT :: reloc_type where "R_RISCV_JUMP_SLOT \<equiv> 5"
abbreviation (input) R_RISCV_BRANCH :: reloc_type where "R_RISCV_BRANCH \<equiv> 16"
abbreviation (input) R_RISCV_JAL :: reloc_type where "R_RISCV_JAL \<equiv> 17"
abbreviation (input) R_RISCV_CALL :: reloc_type where "R_RISCV_CALL \<equiv> 18"
abbreviation (input) R_RISCV_CALL_PLT :: reloc_type where "R_RISCV_CALL_PLT \<equiv> 19"
abbreviation (input) R_RISCV_GOT_HI20 :: reloc_type where "R_RISCV_GOT_HI20 \<equiv> 20"
abbreviation (input) R_RISCV_PCREL_HI20 :: reloc_type where "R_RISCV_PCREL_HI20 \<equiv> 23"
abbreviation (input) R_RISCV_PCREL_LO12_I :: reloc_type where "R_RISCV_PCREL_LO12_I \<equiv> 24"
abbreviation (input) R_RISCV_PCREL_LO12_S :: reloc_type where "R_RISCV_PCREL_LO12_S \<equiv> 25"
abbreviation (input) R_RISCV_HI20 :: reloc_type where "R_RISCV_HI20 \<equiv> 26"
abbreviation (input) R_RISCV_LO12_I :: reloc_type where "R_RISCV_LO12_I \<equiv> 27"
abbreviation (input) R_RISCV_ADD16 :: reloc_type where "R_RISCV_ADD16 \<equiv> 34"
abbreviation (input) R_RISCV_ADD32 :: reloc_type where "R_RISCV_ADD32 \<equiv> 35"
abbreviation (input) R_RISCV_ADD64 :: reloc_type where "R_RISCV_ADD64 \<equiv> 36"
abbreviation (input) R_RISCV_SUB16 :: reloc_type where "R_RISCV_SUB16 \<equiv> 38"
abbreviation (input) R_RISCV_SUB32 :: reloc_type where "R_RISCV_SUB32 \<equiv> 39"
abbreviation (input) R_RISCV_SUB64 :: reloc_type where "R_RISCV_SUB64 \<equiv> 40"
abbreviation (input) R_RISCV_ALIGN :: reloc_type where "R_RISCV_ALIGN \<equiv> 43"
abbreviation (input) R_RISCV_RVC_BRANCH :: reloc_type where "R_RISCV_RVC_BRANCH \<equiv> 44"
abbreviation (input) R_RISCV_RVC_JUMP :: reloc_type where "R_RISCV_RVC_JUMP \<equiv> 45"
abbreviation (input) R_RISCV_RELAX :: reloc_type where "R_RISCV_RELAX \<equiv> 51"
abbreviation (input) R_RISCV_SUB6 :: reloc_type where "R_RISCV_SUB6 \<equiv> 52"
abbreviation (input) R_RISCV_SET6 :: reloc_type where "R_RISCV_SET6 \<equiv> 53"
abbreviation (input) R_RISCV_32_PCREL :: reloc_type where "R_RISCV_32_PCREL \<equiv> 57"

text \<open>1 for a code relocation, 0 for a data relocation, -1 for an unknown one.\<close>

definition code_reloc :: "reloc_type \<Rightarrow> int" where
  "code_reloc t =
     (if t \<in> set [R_RISCV_BRANCH, R_RISCV_CALL, R_RISCV_JAL] then 1
      else if t \<in> set [R_RISCV_GOT_HI20, R_RISCV_PCREL_HI20, R_RISCV_PCREL_LO12_I,
          R_RISCV_PCREL_LO12_S, R_RISCV_32_PCREL, R_RISCV_SET6, R_RISCV_SUB6, R_RISCV_ADD16,
          R_RISCV_ADD32, R_RISCV_ADD64, R_RISCV_SUB16, R_RISCV_SUB32, R_RISCV_SUB64,
          R_RISCV_32, R_RISCV_64] then 0
      else if t = R_RISCV_CALL_PLT then 1
      else - 1)"

abbreviation (input) NO_GOTPLT_ENTRY :: int where "NO_GOTPLT_ENTRY \<equiv> 0"
abbreviation (input) BUILD_GOT_ONLY :: int where "BUILD_GOT_ONLY \<equiv> 1"
abbreviation (input) AUTO_GOTPLT_ENTRY :: int where "AUTO_GOTPLT_ENTRY \<equiv> 2"
abbreviation (input) ALWAYS_GOTPLT_ENTRY :: int where "ALWAYS_GOTPLT_ENTRY \<equiv> 3"

definition gotplt_entry_type :: "reloc_type \<Rightarrow> int" where
  "gotplt_entry_type t =
     (if t \<in> set [R_RISCV_ALIGN, R_RISCV_RELAX, R_RISCV_RVC_BRANCH, R_RISCV_RVC_JUMP,
          R_RISCV_JUMP_SLOT, R_RISCV_SET6, R_RISCV_SUB6, R_RISCV_ADD16, R_RISCV_SUB16]
        then NO_GOTPLT_ENTRY
      else if t \<in> set [R_RISCV_BRANCH, R_RISCV_CALL, R_RISCV_PCREL_HI20, R_RISCV_PCREL_LO12_I,
          R_RISCV_PCREL_LO12_S, R_RISCV_32_PCREL, R_RISCV_ADD32, R_RISCV_ADD64, R_RISCV_SUB32,
          R_RISCV_SUB64, R_RISCV_32, R_RISCV_64, R_RISCV_JAL, R_RISCV_CALL_PLT]
        then AUTO_GOTPLT_ENTRY
      else if t = R_RISCV_GOT_HI20 then ALWAYS_GOTPLT_ENTRY
      else - 1)"

section \<open>Linker state\<close>

text \<open>
  Elf32_Rela, with r_info already split into its symbol index and its type; sym_attr as far as
  the relocations read it; the part of TCCState that relocate uses. The entries written through
  qrel for the dynamic loader are collected in a list; only r_offset and r_info are written on a
  32-bit target, so these are the fields of such an entry.
\<close>

record Elf_Rel =
  r_offset :: u32
  r_sym :: nat
  r_type :: reloc_type
  r_addend :: u32

record Dyn_Rel =
  q_offset :: u32
  q_sym :: nat
  q_type :: reloc_type

record sym_attr =
  got_offset :: u32
  plt_offset :: u32
  dyn_index :: nat

abbreviation (input) TCC_OUTPUT_DLL :: nat where "TCC_OUTPUT_DLL \<equiv> 4"

record link_state =
  output_type :: nat
  got_addr :: u32
  sym_attrs :: "sym_attr list"
  last_hi_addr :: u32
  last_hi_val :: u32
  qrels :: "Dyn_Rel list"
  nb_errors :: nat

text \<open>get_sym_attr without allocation: past the end of the table it returns its first entry.\<close>

definition get_sym_attr :: "link_state \<Rightarrow> nat \<Rightarrow> sym_attr res" where
  "get_sym_attr s1 index =
     (if index < length (sym_attrs s1) then Inr (sym_attrs s1 ! index)
      else if sym_attrs s1 \<noteq> [] then Inr (sym_attrs s1 ! 0) else Inl MemFault)"

definition push_qrel :: "link_state \<Rightarrow> Elf_Rel \<Rightarrow> nat \<Rightarrow> reloc_type \<Rightarrow> link_state" where
  "push_qrel s1 rel sy t =
     s1\<lparr>qrels := qrels s1 @ [\<lparr>q_offset = r_offset rel, q_sym = sy, q_type = t\<rparr>]\<rparr>"

definition tcc_error_noabort :: "link_state \<Rightarrow> link_state" where
  "tcc_error_noabort s1 = s1\<lparr>nb_errors := nb_errors s1 + 1\<rparr>"

text \<open>Patching a place: the width is checked before the bytes are touched.\<close>

definition patch8 :: "u8 list \<Rightarrow> nat \<Rightarrow> (u8 \<Rightarrow> u8) \<Rightarrow> u8 list res" where
  "patch8 d p f = (if p < length d then Inr (d[p := f (d ! p)]) else Inl MemFault)"

definition patch16 :: "u8 list \<Rightarrow> nat \<Rightarrow> (u16 \<Rightarrow> u16) \<Rightarrow> u8 list res" where
  "patch16 d p f =
     (if p + 2 \<le> length d then Inr (write16le d p (f (read16le d p))) else Inl MemFault)"

definition patch32 :: "u8 list \<Rightarrow> nat \<Rightarrow> (u32 \<Rightarrow> u32) \<Rightarrow> u8 list res" where
  "patch32 d p f =
     (if p + 4 \<le> length d then Inr (write32le d p (f (read32le d p))) else Inl MemFault)"

definition patch64 :: "u8 list \<Rightarrow> nat \<Rightarrow> (u64 \<Rightarrow> u64) \<Rightarrow> u8 list res" where
  "patch64 d p f =
     (if p + 8 \<le> length d then Inr (write64le d p (f (read64le d p))) else Inl MemFault)"

definition with_data :: "link_state \<Rightarrow> u8 list res \<Rightarrow> (link_state \<times> u8 list) res" where
  "with_data s1 r = bindR r (\<lambda>d. Inr (s1, d))"

section \<open>Words built by the relocations\<close>

definition branch_insn :: "u32 \<Rightarrow> u32 \<Rightarrow> u32" where
  "branch_insn off32 w =
     (w AND NOT 0xfe000f80) OR push_bit 20 (off32 AND 0x800) OR push_bit 21 (off32 AND 0x3f0) OR
     push_bit 8 (off32 AND 0x00f) OR drop_bit 3 (off32 AND 0x400)"

definition jal_insn :: "u32 \<Rightarrow> u32 \<Rightarrow> u32" where
  "jal_insn off32 w =
     (w AND 0xfff) OR push_bit 12 (drop_bit 12 off32 AND 0xff) OR
     push_bit 20 (drop_bit 11 off32 AND 1) OR push_bit 21 (drop_bit 1 off32 AND 0x3ff) OR
     push_bit 31 (drop_bit 20 off32 AND 1)"

definition hi20_insn :: "u64 \<Rightarrow> u32 \<Rightarrow> u32" where
  "hi20_insn off64 w = ucast ((ucast (w AND 0xfff) :: u64) OR push_bit 12 (off64 AND 0xfffff))"

definition lo12_i_insn :: "u32 \<Rightarrow> u32 \<Rightarrow> u32" where
  "lo12_i_insn off w = (w AND 0xfffff) OR push_bit 20 (off AND 0xfff)"

definition lo12_s_insn :: "u32 \<Rightarrow> u32 \<Rightarrow> u32" where
  "lo12_s_insn off32 w =
     (w AND NOT 0xfe000f80) OR push_bit 20 (off32 AND 0xfe0) OR push_bit 7 (off32 AND 0x01f)"

definition rvc_branch_insn :: "u32 \<Rightarrow> u16 \<Rightarrow> u16" where
  "rvc_branch_insn off32 w =
     ucast ((ucast w AND 0xe383) OR push_bit 2 (drop_bit 5 off32 AND 1) OR
       push_bit 3 (drop_bit 1 off32 AND 3) OR push_bit 5 (drop_bit 6 off32 AND 3) OR
       push_bit 10 (drop_bit 3 off32 AND 3) OR push_bit 12 (drop_bit 8 off32 AND 1))"

definition rvc_jump_insn :: "u32 \<Rightarrow> u16 \<Rightarrow> u16" where
  "rvc_jump_insn off32 w =
     ucast ((ucast w AND 0xe003) OR push_bit 2 (drop_bit 5 off32 AND 1) OR
       push_bit 3 (drop_bit 1 off32 AND 7) OR push_bit 6 (drop_bit 7 off32 AND 1) OR
       push_bit 7 (drop_bit 6 off32 AND 1) OR push_bit 8 (drop_bit 10 off32 AND 1) OR
       push_bit 9 (drop_bit 8 off32 AND 3) OR push_bit 11 (drop_bit 4 off32 AND 1) OR
       push_bit 12 (drop_bit 11 off32 AND 1))"

section \<open>relocate\<close>

definition relocate ::
    "link_state \<Rightarrow> Elf_Rel \<Rightarrow> reloc_type \<Rightarrow> u8 list \<Rightarrow> nat \<Rightarrow> u32 \<Rightarrow> u32 \<Rightarrow>
     (link_state \<times> u8 list) res" where
  "relocate s1 rel t d p addr val =
     (if t = R_RISCV_ALIGN \<or> t = R_RISCV_RELAX then Inr (s1, d)
      else if t = R_RISCV_BRANCH then
        (let off64 = ucast (val - addr) :: u64 in
         if (off64 + push_bit 12 1) AND NOT 0x1ffe \<noteq> 0
         then Inl (TccError ''R_RISCV_BRANCH relocation failed'')
         else with_data s1 (patch32 d p (branch_insn (ucast off64))))
      else if t = R_RISCV_JAL then
        (let off64 = ucast (val - addr) :: u64 in
         if (off64 + push_bit 21 1) AND NOT (push_bit 22 1 - 2) \<noteq> 0
         then Inl (TccError ''R_RISCV_JAL relocation failed'')
         else with_data s1 (patch32 d p (jal_insn (ucast off64))))
      else if t = R_RISCV_CALL \<or> t = R_RISCV_CALL_PLT then
        with_data s1
          (bindR (patch32 d p (\<lambda>w. (w AND 0xfff) OR ((val - addr + 0x800) AND NOT 0xfff)))
            (\<lambda>d1. patch32 d1 (p + 4) (lo12_i_insn (val - addr))))
      else if t = R_RISCV_PCREL_HI20 then
        (let off64 = signed_drop_bit 12 (ucast (val - addr + 0x800) :: u64) in
         if drop_bit 21 (off64 + push_bit 20 1) \<noteq> 0
         then Inl (TccError ''R_RISCV_PCREL_HI20 relocation failed'')
         else with_data (s1\<lparr>last_hi_addr := addr, last_hi_val := val\<rparr>)
                (patch32 d p (hi20_insn off64)))
      else if t = R_RISCV_GOT_HI20 then
        bindR (get_sym_attr s1 (r_sym rel)) (\<lambda>sa.
          let val = got_addr s1 + got_offset sa;
              off64 = signed_drop_bit 12 (ucast (val - addr + 0x800) :: u64) in
          if drop_bit 21 (off64 + push_bit 20 1) \<noteq> 0
          then Inl (TccError ''R_RISCV_GOT_HI20 relocation failed'')
          else with_data (s1\<lparr>last_hi_addr := addr, last_hi_val := val\<rparr>)
                 (patch32 d p (hi20_insn off64)))
      else if t = R_RISCV_PCREL_LO12_I then
        (if val \<noteq> last_hi_addr s1
         then Inl (TccError ''unsupported hi/lo pcrel reloc scheme'')
         else with_data s1 (patch32 d p (lo12_i_insn (last_hi_val s1 - last_hi_addr s1))))
      else if t = R_RISCV_PCREL_LO12_S then
        (if val \<noteq> last_hi_addr s1
         then Inl (TccError ''unsupported hi/lo pcrel reloc scheme'')
         else with_data s1 (patch32 d p (lo12_s_insn (last_hi_val s1 - last_hi_addr s1))))
      else if t = R_RISCV_RVC_BRANCH then
        (let off64 = ucast (val - addr) :: u64 in
         if (off64 + push_bit 8 1) AND NOT 0x1fe \<noteq> 0
         then Inl (TccError ''R_RISCV_RVC_BRANCH relocation failed'')
         else with_data s1 (patch16 d p (rvc_branch_insn (ucast off64))))
      else if t = R_RISCV_RVC_JUMP then
        (let off64 = ucast (val - addr) :: u64 in
         if (off64 + push_bit 11 1) AND NOT 0xffe \<noteq> 0
         then Inl (TccError ''R_RISCV_RVC_BRANCH relocation failed'')
         else with_data s1 (patch16 d p (rvc_jump_insn (ucast off64))))
      else if t = R_RISCV_32 then
        with_data
          (if output_type s1 = TCC_OUTPUT_DLL
           then push_qrel s1 rel 0 R_RISCV_RELATIVE
           else s1)
          (patch32 d p (\<lambda>w. w + val))
      else if t = R_RISCV_64 then
        (if output_type s1 = TCC_OUTPUT_DLL
         then bindR (get_sym_attr s1 (r_sym rel)) (\<lambda>sa.
           if dyn_index sa \<noteq> 0
           then Inr (push_qrel s1 rel (dyn_index sa) R_RISCV_64, d)
           else with_data
             (push_qrel s1 rel 0 R_RISCV_RELATIVE)
             (patch32 d p (\<lambda>w. w + val)))
         else with_data s1 (patch32 d p (\<lambda>w. w + val)))
      else if t = R_RISCV_JUMP_SLOT then with_data s1 (patch32 d p (\<lambda>w. w + val))
      else if t = R_RISCV_ADD64 then
        with_data (tcc_error_noabort s1) (patch64 d p (\<lambda>w. w + ucast val))
      else if t = R_RISCV_ADD32 then with_data s1 (patch32 d p (\<lambda>w. w + val))
      else if t = R_RISCV_SUB64 then
        with_data (tcc_error_noabort s1) (patch64 d p (\<lambda>w. w - ucast val))
      else if t = R_RISCV_SUB32 then with_data s1 (patch32 d p (\<lambda>w. w - val))
      else if t = R_RISCV_ADD16 then with_data s1 (patch16 d p (\<lambda>w. w + ucast val))
      else if t = R_RISCV_SUB16 then with_data s1 (patch16 d p (\<lambda>w. w - ucast val))
      else if t = R_RISCV_SET6 then
        with_data s1 (patch8 d p (\<lambda>b. (b AND NOT 0x3f) OR ucast (val AND 0x3f)))
      else if t = R_RISCV_SUB6 then
        with_data s1 (patch8 d p (\<lambda>b. (b AND NOT 0x3f) OR ucast ((ucast b - val) AND 0x3f)))
      else Inr (s1, d))"

section \<open>Relocating a section\<close>

text \<open>
  relocate_section of tccelf.c: the relocations of a section in order. \<open>st_value\<close> gives the
  address of a symbol and \<open>dwarf_base\<close> the start address of the debug section a symbol lies in
  (None when it lies in none); \<open>is_dwarf\<close> says whether the section itself is a debug section.
\<close>

abbreviation (input) R_DATA_32DW :: reloc_type where "R_DATA_32DW \<equiv> R_RISCV_32"

definition relocate_one ::
    "(nat \<Rightarrow> u32) \<Rightarrow> (nat \<Rightarrow> u32 option) \<Rightarrow> bool \<Rightarrow> u32 \<Rightarrow> Elf_Rel \<Rightarrow>
     link_state \<times> u8 list \<Rightarrow> (link_state \<times> u8 list) res" where
  "relocate_one st_value dwarf_base is_dwarf sec_addr rel sd =
     (let s1 = fst sd; d = snd sd;
          p = unat (r_offset rel);
          tgt = st_value (r_sym rel) + r_addend rel in
      case (if is_dwarf \<and> r_type rel = R_DATA_32DW then dwarf_base (r_sym rel) else None) of
        Some base \<Rightarrow> with_data s1 (patch32 d p (\<lambda>w. w + (tgt - base)))
      | None \<Rightarrow> relocate s1 rel (r_type rel) d p (sec_addr + r_offset rel) tgt)"

fun relocate_section ::
    "(nat \<Rightarrow> u32) \<Rightarrow> (nat \<Rightarrow> u32 option) \<Rightarrow> bool \<Rightarrow> u32 \<Rightarrow> Elf_Rel list \<Rightarrow>
     link_state \<times> u8 list \<Rightarrow> (link_state \<times> u8 list) res" where
  "relocate_section st_value dwarf_base is_dwarf sec_addr [] sd = Inr sd"
| "relocate_section st_value dwarf_base is_dwarf sec_addr (rel # rels) sd =
     bindR (relocate_one st_value dwarf_base is_dwarf sec_addr rel sd)
       (relocate_section st_value dwarf_base is_dwarf sec_addr rels)"

section \<open>The procedure linkage table\<close>

definition create_plt_entry :: "Section \<Rightarrow> u32 \<Rightarrow> Section \<times> nat" where
  "create_plt_entry plt got_off =
     (let plt1 = (if data_offset plt = 0 then fst (section_ptr_add plt 32) else plt);
          plt_off = data_offset plt1;
          (plt2, p) = section_ptr_add plt1 16
      in (plt2\<lparr>sdata := write32le (sdata plt2) p got_off\<rparr>, plt_off))"

definition IMM_HIGH64 :: "u64 \<Rightarrow> u64" where
  "IMM_HIGH64 imm = drop_bit 12 (imm AND 0xFFFFF000)"

definition IMM_LOW64 :: "u64 \<Rightarrow> u64" where
  "IMM_LOW64 imm = imm AND 0x00000FFF"

text \<open>The header of the table: the lazy-binding stub that ends in a jump to the resolver.\<close>

definition plt_header :: "u64 \<Rightarrow> u64 \<Rightarrow> emit_state \<Rightarrow> emit_state res" where
  "plt_header plt got s =
     (let off = IMM_HIGH64 (got - plt + 0x800) in
      if drop_bit 21 (off + push_bit 20 1) \<noteq> 0 then Inl (TccError ''Failed relocating PLT'')
      else Inr
        ((emit_JR 28 \<circ> emit_LW 5 5 4 \<circ> emit_SRLI 6 6 (4 - 2) \<circ>
          emit_ADDI 5 7 (ucast (IMM_LOW64 (got - plt))) \<circ> emit_ADDI 6 6 (- (32 + 12)) \<circ>
          emit_LW 28 7 (ucast (IMM_LOW64 (got - plt))) \<circ> emit_SUB 6 6 28 \<circ>
          emit_AUIPC 7 (ucast off)) s))"

text \<open>One entry: the GOT offset stored in the entry is replaced by the code that uses it.\<close>

definition plt_entry :: "u64 \<Rightarrow> u64 \<Rightarrow> emit_state \<Rightarrow> emit_state res" where
  "plt_entry plt got s =
     (if ind s + 4 > data_allocated (text_sec s) then Inl MemFault
      else
       let pc = plt + of_nat (ind s);
           addr = got + ucast (read32le (sdata (text_sec s)) (ind s));
           off = drop_bit 12 (addr - pc + 0x800) in
       if drop_bit 21 (off + push_bit 20 1) \<noteq> 0 then Inl (TccError ''Failed relocating PLT'')
       else Inr
         ((emit_NOP \<circ> emit_JALR 6 28 0 \<circ> emit_LW 28 28 (ucast (addr - pc)) \<circ>
           emit_AUIPC 28 (ucast off)) s))"

fun plt_entries :: "nat \<Rightarrow> u64 \<Rightarrow> u64 \<Rightarrow> nat \<Rightarrow> emit_state \<Rightarrow> emit_state res" where
  "plt_entries 0 plt got end_offset s = (if ind s < end_offset then Inl NoReturn else Inr s)"
| "plt_entries (Suc fuel) plt got end_offset s =
     (if ind s < end_offset
      then bindR (plt_entry plt got s) (plt_entries fuel plt got end_offset)
      else Inr s)"

fun fill_got :: "u32 \<Rightarrow> u32 list \<Rightarrow> u8 list \<Rightarrow> u8 list res" where
  "fill_got plt_addr [] d = Inr d"
| "fill_got plt_addr (off # offs) d =
     bindR (patch32 d (unat off) (\<lambda>_. plt_addr)) (fill_got plt_addr offs)"

text \<open>
  relocate_plt. \<open>cur_null\<close> says that cur_text_section is NULL, as the code asserts;
  \<open>plt_relocs\<close> are the offsets of the relocations of the table, when it has any. The table is
  the text section while its code is written, from position 0 and with code generation on.
\<close>

definition relocate_plt ::
    "bool \<Rightarrow> Section option \<Rightarrow> Section \<Rightarrow> u32 list option \<Rightarrow> (Section option \<times> Section) res" where
  "relocate_plt cur_null plt_opt got plt_relocs =
     (case plt_opt of
        None \<Rightarrow> Inr (None, got)
      | Some plt \<Rightarrow>
        bindR (assertR cur_null) (\<lambda>_.
        let end_offset = data_offset plt;
            s = \<lparr>text_sec = plt, ind = 0, nocode_wanted = 0\<rparr> in
        bindR (if ind s < end_offset
               then bindR (plt_header (ucast (sh_addr plt)) (ucast (sh_addr got)) s)
                      (plt_entries end_offset (ucast (sh_addr plt)) (ucast (sh_addr got)) end_offset)
               else Inr s) (\<lambda>s1.
        let plt1 = text_sec s1 in
        case plt_relocs of
          None \<Rightarrow> Inr (Some plt1, got)
        | Some offs \<Rightarrow>
          bindR (fill_got (sh_addr plt1) offs (sdata got)) (\<lambda>d.
            Inr (Some plt1, got\<lparr>sdata := d\<rparr>)))))"

end
