(* ===== verification/Riscv_Link_Props.thy ===== *)
theory Riscv_Link_Props
  imports Riscv_Link Riscv_Emit_Props
begin

text \<open>
  What relocate achieves: patched instruction pairs reach the symbol they refer to when they
  are executed, the range checks accept exactly the displacements stated here, and no relocation
  touches bytes outside its place.
\<close>

section \<open>Patched words are encoded words\<close>

lemma take_bit_push_fits:
  fixes x :: "'a::len word"
  shows "fits_in m x \<Longrightarrow> s + m \<le> n \<Longrightarrow> take_bit n (push_bit s x) = push_bit s x"
  by (rule bit_word_eqI) (auto simp: bit_simps dest: fits_inD)

lemma take_bit_fits:
  fixes x :: "'a::len word"
  shows "fits_in m x \<Longrightarrow> m \<le> n \<Longrightarrow> take_bit n x = x"
  by (rule bit_word_eqI) (auto simp: bit_simps dest: fits_inD)

lemma lo12_i_insn_I:
  assumes "fits_in 5 rs1" "fits_in 3 f3" "fits_in 5 rd" "fits_in 7 opc"
  shows "lo12_i_insn off (insn_I imm rs1 f3 rd opc) = insn_I off rs1 f3 rd opc"
proof -
  have "insn_I imm rs1 f3 rd opc AND 0xfffff = push_bit 15 rs1 OR push_bit 12 f3 OR push_bit 7 rd OR opc"
    using take_bit_push_fits [OF assms(1), of 15 20] take_bit_push_fits [OF assms(2), of 12 20]
      take_bit_push_fits [OF assms(3), of 7 20] take_bit_fits [OF assms(4), of 20]
    by (simp add: insn_I_def and_masks field_above(2))
  moreover have "push_bit 20 (off AND 0xfff) = push_bit 20 off"
    unfolding and_masks by (rule bit_word_eqI) (auto simp: bit_simps)
  ultimately show ?thesis
    by (simp only: lo12_i_insn_def) (simp add: insn_I_def or.assoc or.commute or.left_commute)
qed

lemma insn_U_low:
  assumes "fits_in 5 rd" "fits_in 7 opc"
  shows "insn_U imm rd opc AND 0xfff = push_bit 7 rd OR opc"
  using take_bit_push_fits [OF assms(1), of 7 12] take_bit_fits [OF assms(2), of 12]
  by (simp add: insn_U_def and_masks field_above(2))

lemma clear_low12: "v AND NOT 0xfff = push_bit 12 (IMM_HIGH v)" for v :: u32
proof -
  have "(0xfff :: u32) = mask 12" by (simp add: mask_eq_exp_minus_1)
  then have "v AND NOT 0xfff = v AND NOT (mask 12)" by simp
  also have "\<dots> = push_bit 12 (IMM_HIGH v)"
    unfolding IMM_HIGH_drop by (rule bit_word_eqI) (auto simp: bit_simps)
  finally show ?thesis .
qed

lemma call_hi_insn_U:
  assumes "fits_in 5 rd" "fits_in 7 opc"
  shows "(insn_U imm rd opc AND 0xfff) OR (v AND NOT 0xfff) = insn_U (IMM_HIGH v) rd opc"
  by (simp only: insn_U_low [OF assms] clear_low12)
    (simp add: insn_U_def or.commute or.left_commute)

lemma sdrop_u64: "signed_drop_bit 12 (ucast (v :: u32) :: u64) = ucast (IMM_HIGH v)"
proof -
  have "\<not> bit (ucast v :: u64) 63"
    using bit_imp_le_length [of v 63] by (auto simp: bit_simps)
  then show ?thesis
    unfolding IMM_HIGH_drop
    by (intro bit_word_eqI) (auto simp: bit_simps bit_signed_drop_bit_iff dest: bit_imp_le_length)
qed

lemma hi20_insn_U:
  assumes "fits_in 5 rd" "fits_in 7 opc"
  shows "hi20_insn (signed_drop_bit 12 (ucast v)) (insn_U imm rd opc) = insn_U (IMM_HIGH v) rd opc"
proof -
  have hi: "hi20_insn (ucast (IMM_HIGH v)) w = (w AND 0xfff) OR push_bit 12 (IMM_HIGH v)" for w
    unfolding hi20_insn_def and_masks IMM_HIGH_eq
    by (rule bit_word_eqI) (auto simp: bit_simps)
  show ?thesis
    by (simp only: sdrop_u64 hi insn_U_low [OF assms])
      (simp add: insn_U_def or.commute or.left_commute)
qed

lemma hi20_check: "drop_bit 21 (signed_drop_bit 12 (ucast (v :: u32)) + push_bit 20 1 :: u64) = 0"
proof -
  have "fits_in 20 (ucast (IMM_HIGH v) :: u64)"
    unfolding IMM_HIGH_eq by (auto simp: fits_in_iff bit_simps)
  then have "unat (ucast (IMM_HIGH v) :: u64) < 2 ^ 20" by (rule fits_in_unat)
  then have "unat (ucast (IMM_HIGH v) + push_bit 20 1 :: u64) < 2 ^ 21"
    by (simp add: unat_word_ariths)
  then show ?thesis
    unfolding sdrop_u64 by (simp add: word_unat_eq_iff unat_drop_bit_eq drop_bit_nat_def)
qed

section \<open>Places\<close>

text \<open>Two buffers that agree outside \<open>n\<close> bytes from \<open>p\<close>.\<close>

definition same_outside :: "nat \<Rightarrow> nat \<Rightarrow> u8 list \<Rightarrow> u8 list \<Rightarrow> bool" where
  "same_outside p n d d' \<longleftrightarrow>
     length d' = length d \<and> (\<forall>i. i < p \<or> p + n \<le> i \<longrightarrow> d' ! i = d ! i)"

lemma same_outside_refl [simp]: "same_outside p n d d"
  by (simp add: same_outside_def)

lemma same_outside_mono:
  "same_outside p n d d' \<Longrightarrow> q \<le> p \<Longrightarrow> p + n \<le> q + m \<Longrightarrow> same_outside q m d d'"
  by (auto simp: same_outside_def)

lemma same_outside_trans:
  "same_outside p n d d' \<Longrightarrow> same_outside p n d' d'' \<Longrightarrow> same_outside p n d d''"
  by (auto simp: same_outside_def)

lemma patch8_ok: "patch8 d p f = Inr d' \<Longrightarrow> same_outside p 1 d d'"
  by (auto simp: patch8_def same_outside_def split: if_splits)

lemma patch16_ok: "patch16 d p f = Inr d' \<Longrightarrow> same_outside p 2 d d'"
  by (auto simp: patch16_def same_outside_def nth_write16le split: if_splits)

lemma patch32_ok: "patch32 d p f = Inr d' \<Longrightarrow> same_outside p 4 d d'"
  by (auto simp: patch32_def same_outside_def nth_write32le split: if_splits)

lemma patch64_ok: "patch64 d p f = Inr d' \<Longrightarrow> same_outside p 8 d d'"
  by (auto simp: patch64_def same_outside_def write64le_def nth_write32le split: if_splits)

lemma patch32_twice_ok:
  "bindR (patch32 d p f) (\<lambda>d1. patch32 d1 (p + 4) f2) = Inr d' \<Longrightarrow> same_outside p 8 d d'"
  by (auto simp: bindR_Inr_iff same_outside_def dest!: patch32_ok)

lemma with_data_ok: "with_data s r = Inr (s', d') \<longleftrightarrow> s' = s \<and> r = Inr d'"
  by (cases r) (auto simp: with_data_def)

lemma is_ok_with_data [simp]: "is_ok (with_data s r) \<longleftrightarrow> is_ok r"
  by (cases r) (simp_all add: with_data_def)

lemma is_ok_patch [simp]:
  "is_ok (patch32 d p f) \<longleftrightarrow> p + 4 \<le> length d" "is_ok (patch16 d p f2) \<longleftrightarrow> p + 2 \<le> length d"
  by (simp_all add: patch32_def patch16_def)

text \<open>How many bytes a relocation may write.\<close>

definition reloc_width :: "reloc_type \<Rightarrow> nat" where
  "reloc_width t =
     (if t = R_RISCV_ALIGN \<or> t = R_RISCV_RELAX then 0
      else if t = R_RISCV_SET6 \<or> t = R_RISCV_SUB6 then 1
      else if t \<in> set [R_RISCV_RVC_BRANCH, R_RISCV_RVC_JUMP, R_RISCV_ADD16, R_RISCV_SUB16] then 2
      else if t \<in> set [R_RISCV_CALL, R_RISCV_CALL_PLT, R_RISCV_ADD64, R_RISCV_SUB64] then 8
      else 4)"

lemma relocate_frame:
  "relocate s1 rel t d p addr val = Inr (s2, d') \<Longrightarrow> same_outside p (reloc_width t) d d'"
  by (auto simp: relocate_def Let_def with_data_ok bindR_Inr_iff [of "get_sym_attr s1 i" for i]
      reloc_width_def split: if_splits
      dest: patch8_ok patch16_ok patch32_ok patch64_ok patch32_twice_ok)

lemma relocate_one_frame:
  assumes "relocate_one st_value dwarf_base is_dwarf sec_addr rel (s1, d) = Inr (s2, d')"
  shows "same_outside (unat (r_offset rel)) (reloc_width (r_type rel)) d d'"
  using assms
  by (auto simp: relocate_one_def Let_def with_data_ok reloc_width_def split: option.splits if_splits
      dest: relocate_frame [unfolded reloc_width_def] patch32_ok)

text \<open>
  C36: relocating a section keeps its length and changes only bytes inside the places its
  relocations name, each as wide as its type says.
\<close>

theorem relocate_section_frame:
  assumes "relocate_section st_value dwarf_base is_dwarf sec_addr rels (s1, d) = Inr (s2, d')"
    and "\<forall>rel \<in> set rels. i < unat (r_offset rel) \<or>
      unat (r_offset rel) + reloc_width (r_type rel) \<le> i"
  shows "length d' = length d \<and> d' ! i = d ! i"
  using assms
proof (induction rels arbitrary: s1 d)
  case Nil
  then show ?case by simp
next
  case (Cons rel rels)
  then obtain s3 d3 where
    one: "relocate_one st_value dwarf_base is_dwarf sec_addr rel (s1, d) = Inr (s3, d3)" and
    rest: "relocate_section st_value dwarf_base is_dwarf sec_addr rels (s3, d3) = Inr (s2, d')"
    by (auto simp: bindR_Inr_iff)
  from Cons.IH [OF rest] Cons.prems(2) have "length d' = length d3 \<and> d' ! i = d3 ! i" by simp
  with relocate_one_frame [OF one] Cons.prems(2) show ?case by (auto simp: same_outside_def)
qed

lemma relocate_section_frame_witness:
  "\<exists>s2 d'. relocate_section (\<lambda>_. 0x1000) (\<lambda>_. None) False 0
      [\<lparr>r_offset = 4, r_sym = 1, r_type = 1, r_addend = 0\<rparr>]
      (\<lparr>output_type = 1, got_addr = 0, sym_attrs = [], last_hi_addr = 0, last_hi_val = 0,
        qrels = [], nb_errors = 0\<rparr>, replicate 12 7) = Inr (s2, d') \<and>
    length d' = length (replicate 12 (7 :: u8)) \<and> d' ! 3 = replicate 12 7 ! 3"
proof -
  let ?s1 = "\<lparr>output_type = 1, got_addr = 0, sym_attrs = [], last_hi_addr = 0, last_hi_val = 0,
    qrels = [], nb_errors = 0\<rparr> :: link_state"
  let ?rel = "\<lparr>r_offset = 4, r_sym = 1, r_type = 1, r_addend = 0\<rparr> :: Elf_Rel"
  obtain d' where run: "relocate_section (\<lambda>_. 0x1000) (\<lambda>_. None) False 0 [?rel] (?s1, replicate 12 7)
      = Inr (?s1, d')"
    by (simp add: relocate_one_def relocate_def Let_def patch32_def with_data_def)
  from relocate_section_frame [OF run, of 3] have
    "length d' = length (replicate 12 (7 :: u8)) \<and> d' ! 3 = replicate 12 7 ! 3" by simp
  with run show ?thesis by blast
qed

section \<open>Range checks\<close>

lemma range_check:
  fixes y :: u32
  assumes "0 < k" "k < 32"
  shows "((ucast y :: u64) + push_bit k 1) AND NOT (push_bit (Suc k) 1 - 2) = 0 \<longleftrightarrow>
    unat y < 2 ^ k \<and> even (unat y)"
proof -
  let ?x = "(ucast y :: u64) + push_bit k 1"
  have mask: "push_bit (Suc k) 1 - 2 = (push_bit 1 (mask k) :: u64)"
    by (simp add: mask_eq_exp_minus_1 push_bit_eq_mult algebra_simps)
  have one: "unat (push_bit k 1 :: u64) = 2 ^ k"
    using assms
    by (simp only: unsigned_push_bit_eq) (simp add: take_bit_nat_eq_self push_bit_eq_mult)
  have "unat y < 2 ^ 32" using unsigned_less [of y, where 'a = nat] by simp
  moreover have "(2 :: nat) ^ k < 2 ^ 32" using assms by (intro power_strict_increasing) auto
  ultimately have ux: "unat ?x = unat y + 2 ^ k"
    using one by (simp only: unat_word_ariths)
      (simp add: unsigned_ucast_eq take_bit_nat_eq_self)
  have "?x AND NOT (push_bit 1 (mask k)) = 0 \<longleftrightarrow> \<not> bit ?x 0 \<and> fits_in (Suc k) ?x"
    by (rule range_check_bits)
  also have "fits_in (Suc k) ?x \<longleftrightarrow> unat ?x < 2 ^ Suc k"
    using fits_in_less fits_in_unat by blast
  also have "\<not> bit ?x 0 \<longleftrightarrow> even (unat ?x)"
    by (simp add: bit_0_unat)
  finally show ?thesis unfolding mask ux using assms by auto
qed

section \<open>Direct jumps and branches\<close>

lemma branch_mask:
  "(0xfe000f80 :: u32) = push_bit 7 (mask 5) OR push_bit 25 (mask 7)"
  "(0x3f0 :: u32) = push_bit 4 (mask 6)" "(0x800 :: u32) = push_bit 11 (mask 1)"
  "(0xf :: u32) = mask 4" "(0x400 :: u32) = push_bit 10 (mask 1)"
  by (simp_all add: mask_eq_exp_minus_1)

lemma branch_insn_R:
  "branch_insn off w =
     insn_R (push_bit 6 (take_bit 1 (drop_bit 11 off)) OR take_bit 6 (drop_bit 4 off))
       (f_rs2 w) (f_rs1 w) (f_funct3 w)
       (push_bit 1 (take_bit 4 off) OR take_bit 1 (drop_bit 10 off)) (f_opcode w)"
proof -
  have "w AND NOT 0xfe000f80 =
      push_bit 20 (f_rs2 w) OR push_bit 15 (f_rs1 w) OR push_bit 12 (f_funct3 w) OR f_opcode w"
  proof (rule bit_word_eqI)
    fix n
    have "bit (w AND NOT 0xfe000f80) n \<longleftrightarrow> bit w n \<and> \<not> (7 \<le> n \<and> n < 12) \<and> n < 25"
      unfolding branch_mask by (auto simp: bit_simps dest: bit_imp_le_length)
    moreover have "f_opcode w = push_bit 0 (take_bit 7 (drop_bit 0 w))" by (simp add: f_opcode_def)
    ultimately show "bit (w AND NOT 0xfe000f80) n = bit (push_bit 20 (f_rs2 w) OR
        push_bit 15 (f_rs1 w) OR push_bit 12 (f_funct3 w) OR f_opcode w) n"
      by (simp only: field_defs bit_or_iff bit_slice) auto
  qed
  moreover have "push_bit 20 (off AND 0x800) = push_bit 25 (push_bit 6 (take_bit 1 (drop_bit 11 off)))"
    "push_bit 21 (off AND 0x3f0) = push_bit 25 (take_bit 6 (drop_bit 4 off))"
    "push_bit 8 (off AND 0xf) = push_bit 7 (push_bit 1 (take_bit 4 off))"
    "drop_bit 3 (off AND 0x400) = push_bit 7 (take_bit 1 (drop_bit 10 off))"
    by (simp_all only: branch_mask and_push_mask and_mask_take_bit push_bit_push_bit)
      (auto intro!: bit_word_eqI simp: bit_simps)
  ultimately show ?thesis
    by (simp only: branch_insn_def insn_R_def push_bit_or)
      (simp only: or.assoc or.commute or.left_commute)
qed

lemma fits_fields [fits]:
  "fits_in 5 (f_rd w)" "fits_in 5 (f_rs1 w)" "fits_in 5 (f_rs2 w)" "fits_in 3 (f_funct3 w)"
  "fits_in 7 (f_opcode w)" "fits_in 7 (f_funct7 w)"
  by (simp_all add: field_defs fits)

lemma branch_insn_fields:
  "f_opcode (branch_insn off w) = f_opcode w" "f_funct3 (branch_insn off w) = f_funct3 w"
  "f_rs1 (branch_insn off w) = f_rs1 w" "f_rs2 (branch_insn off w) = f_rs2 w"
  "f_rd (branch_insn off w) = push_bit 1 (take_bit 4 off) OR take_bit 1 (drop_bit 10 off)"
  "f_funct7 (branch_insn off w) =
     push_bit 6 (take_bit 1 (drop_bit 11 off)) OR take_bit 6 (drop_bit 4 off)"
proof -
  have "fits_in 7 (push_bit 6 (take_bit 1 (drop_bit 11 off)) OR take_bit 6 (drop_bit 4 off))"
    "fits_in 5 (push_bit 1 (take_bit 4 off) OR take_bit 1 (drop_bit 10 off))"
    by (auto simp: fits_in_iff bit_simps)
  note insn_R_fields [OF fits_fields(3) fits_fields(2) fits_fields(4) this(2) fits_fields(5) this(1),
      of w w w w]
  then show "f_opcode (branch_insn off w) = f_opcode w" "f_funct3 (branch_insn off w) = f_funct3 w"
    "f_rs1 (branch_insn off w) = f_rs1 w" "f_rs2 (branch_insn off w) = f_rs2 w"
    "f_rd (branch_insn off w) = push_bit 1 (take_bit 4 off) OR take_bit 1 (drop_bit 10 off)"
    "f_funct7 (branch_insn off w) =
       push_bit 6 (take_bit 1 (drop_bit 11 off)) OR take_bit 6 (drop_bit 4 off)"
    by (simp_all only: branch_insn_R)
qed

lemma branch_insn_slices:
  "take_bit 1 (drop_bit 31 (branch_insn off w)) = take_bit 1 (drop_bit 11 off)"
  "take_bit 1 (drop_bit 7 (branch_insn off w)) = take_bit 1 (drop_bit 10 off)"
  "take_bit 6 (drop_bit 25 (branch_insn off w)) = take_bit 6 (drop_bit 4 off)"
  "take_bit 4 (drop_bit 8 (branch_insn off w)) = take_bit 4 off"
proof -
  let ?w = "branch_insn off w"
  have "take_bit 1 (drop_bit 31 ?w) = drop_bit 6 (f_funct7 ?w)"
    "take_bit 1 (drop_bit 7 ?w) = take_bit 1 (f_rd ?w)"
    "take_bit 6 (drop_bit 25 ?w) = take_bit 6 (f_funct7 ?w)"
    "take_bit 4 (drop_bit 8 ?w) = drop_bit 1 (f_rd ?w)"
    unfolding f_funct7_def f_rd_def by (auto intro!: bit_word_eqI simp: bit_simps)
  then show "take_bit 1 (drop_bit 31 ?w) = take_bit 1 (drop_bit 11 off)"
    "take_bit 1 (drop_bit 7 ?w) = take_bit 1 (drop_bit 10 off)"
    "take_bit 6 (drop_bit 25 ?w) = take_bit 6 (drop_bit 4 off)"
    "take_bit 4 (drop_bit 8 ?w) = take_bit 4 off"
    unfolding branch_insn_fields by (auto intro!: bit_word_eqI simp: bit_simps)
qed

text \<open>The field holds the displacement itself where the format wants half of it.\<close>

lemma branch_insn_imm:
  "imm_B (branch_insn off w) = signed_take_bit 12 (push_bit 1 (take_bit 12 off))"
proof -
  have push: "push_bit 12 x = push_bit 1 (push_bit 11 x)" "push_bit 11 x = push_bit 1 (push_bit 10 x)"
    "push_bit 5 x = push_bit 1 (push_bit 4 x)" for x :: u32
    by (simp_all add: push_bit_push_bit)
  have "push_bit 11 (take_bit 1 (drop_bit 11 off)) OR push_bit 10 (take_bit 1 (drop_bit 10 off)) OR
      push_bit 4 (take_bit 6 (drop_bit 4 off)) OR push_bit 0 (take_bit 4 (drop_bit 0 off)) =
      push_bit 0 (take_bit 12 (drop_bit 0 off))"
    by (rule bit_word_eqI) (simp only: bit_or_iff bit_slice, auto)
  moreover have "push_bit 12 (take_bit 1 (drop_bit 11 off)) OR push_bit 11 (take_bit 1 (drop_bit 10 off)) OR
      push_bit 5 (take_bit 6 (drop_bit 4 off)) OR push_bit 1 (take_bit 4 off) =
      push_bit 1 (push_bit 11 (take_bit 1 (drop_bit 11 off)) OR push_bit 10 (take_bit 1 (drop_bit 10 off)) OR
      push_bit 4 (take_bit 6 (drop_bit 4 off)) OR push_bit 0 (take_bit 4 (drop_bit 0 off)))"
    by (simp add: push_bit_or push_bit_push_bit)
  ultimately show ?thesis
    unfolding imm_B_def branch_insn_slices by simp
qed

lemma decode_branch_insn:
  assumes "f_opcode w = 0x63" and "decode_branch (f_funct3 w) = Some b"
  shows "decode (branch_insn off w) =
    Some (Branch b (f_rs1 w) (f_rs2 w) (signed_take_bit 12 (push_bit 1 (take_bit 12 off))))"
  using assms by (simp add: decode_def branch_insn_fields branch_insn_imm)

lemma jal_insn_J: "jal_insn off w = insn_J off (f_rd w) (f_opcode w)"
proof -
  have "w AND 0xfff = push_bit 7 (f_rd w) OR f_opcode w"
    unfolding field_defs and_masks by (rule bit_word_eqI) (auto simp: bit_simps)
  then show ?thesis
    by (simp only: jal_insn_def insn_J_def Let_def) (simp only: or.assoc or.commute or.left_commute)
qed

lemma decode_jal_insn:
  "f_opcode w = 0x6f \<Longrightarrow> decode (jal_insn off w) = Some (Jal (f_rd w) (sext21 off))"
  by (simp add: jal_insn_J decode_insn_J fits)

text \<open>Sign extension of a displacement that fits the unsigned field.\<close>

lemma signed_take_bit_double:
  assumes "fits_in 11 off"
  shows "signed_take_bit 12 (push_bit 1 (take_bit 12 off)) = push_bit 1 (off :: u32)"
proof -
  have "take_bit 12 off = off" by (rule take_bit_fits [OF assms]) simp
  moreover have "\<not> bit (push_bit 1 off) 12" using fits_inD [OF assms, of 11] by (auto simp: bit_simps)
  moreover have "take_bit 12 (push_bit 1 off) = push_bit 1 off"
    by (rule take_bit_push_fits [OF assms]) simp
  ultimately show ?thesis by (simp add: signed_take_bit_eq_if_positive)
qed

lemma drop_push_even: "\<not> bit x 0 \<Longrightarrow> push_bit 1 (drop_bit 1 x) = x" for x :: u32
proof (rule bit_word_eqI)
  fix n assume "\<not> bit x 0" "n < LENGTH(32)"
  then show "bit (push_bit 1 (drop_bit 1 x)) n = bit x n"
    by (cases n) (auto simp: bit_simps)
qed

lemma sext21_even:
  assumes "fits_in 21 off" and "\<not> bit off 0"
  shows "sext21 off = off - (if bit off 20 then 0x200000 else 0)"
proof -
  have "push_bit 1 (take_bit 20 (drop_bit 1 off)) = take_bit 21 (push_bit 1 (drop_bit 1 off))"
    by (rule bit_word_eqI) (auto simp: bit_simps)
  then have e: "push_bit 1 (take_bit 20 (drop_bit 1 off)) = off"
    using drop_push_even [OF assms(2)] assms(1) by (simp only: fits_in_def)
  have "sext21 off = take_bit 21 (off + 2 ^ 20) - 2 ^ 20"
    unfolding sext21_def e using signed_take_bit_shift_word [of 20 off] by simp
  moreover have "take_bit 21 (off + 2 ^ 20) = off + 2 ^ 20 - (if bit off 20 then 0x200000 else 0)"
  proof -
    have u: "unat off < 2 ^ 21" using fits_in_unat [OF assms(1)] .
    have b: "bit off 20 \<longleftrightarrow> 2 ^ 20 \<le> unat off"
    proof -
      have "bit off 20 \<longleftrightarrow> bit (unat off) 20" by (simp add: bit_unsigned_iff bit_imp_le_length)
      also have "\<dots> \<longleftrightarrow> odd (unat off div 2 ^ 20)" by (simp add: bit_iff_odd)
      also have "unat off div 2 ^ 20 = (if 2 ^ 20 \<le> unat off then 1 else 0)"
        using u by (auto simp: div_nat_eqI)
      finally show ?thesis by simp
    qed
    have s: "unat (off + 2 ^ 20) = unat off + 2 ^ 20" using u by (simp add: unat_word_ariths)
    show ?thesis
    proof (cases "bit off 20")
      case False
      then have "fits_in 21 (off + 2 ^ 20)" using b s by (intro fits_in_less) simp
      with False show ?thesis by (simp add: fits_in_def)
    next
      case True
      then have ge: "2 ^ 20 \<le> unat off" using b by simp
      have "unat (take_bit 21 (off + 2 ^ 20)) = (unat off + 2 ^ 20) mod 2 ^ 21"
        unfolding unsigned_take_bit_eq s by (simp add: take_bit_eq_mod)
      also have "\<dots> = unat off - 2 ^ 20"
        using ge u by (simp add: mod_if)
      also have "\<dots> = unat (off - 2 ^ 20)"
        using ge by (subst unat_sub) (auto simp: word_le_nat_alt)
      finally have "take_bit 21 (off + 2 ^ 20) = off - 2 ^ 20" by (simp only: word_unat_eq_iff)
      with True show ?thesis by simp
    qed
  qed
  ultimately show ?thesis by simp
qed

text \<open>The relocations whose displacement is checked against the field, with its width.\<close>

definition reach_bits :: "(reloc_type \<times> nat) list" where
  "reach_bits =
     [(R_RISCV_BRANCH, 12), (R_RISCV_JAL, 21), (R_RISCV_RVC_BRANCH, 8), (R_RISCV_RVC_JUMP, 11)]"

lemma ucast_down_up: "(ucast (ucast x :: u64) :: u32) = x" for x :: u32
  by (rule bit_word_eqI) (simp add: bit_simps)

lemma displacement_checks:
  fixes y :: u32
  shows "((ucast y :: u64) + push_bit 12 1) AND NOT 0x1ffe = 0 \<longleftrightarrow> unat y < 2 ^ 12 \<and> even (unat y)"
    "((ucast y :: u64) + push_bit 21 1) AND NOT (push_bit 22 1 - 2) = 0 \<longleftrightarrow>
       unat y < 2 ^ 21 \<and> even (unat y)"
    "((ucast y :: u64) + push_bit 8 1) AND NOT 0x1fe = 0 \<longleftrightarrow> unat y < 2 ^ 8 \<and> even (unat y)"
    "((ucast y :: u64) + push_bit 11 1) AND NOT 0xffe = 0 \<longleftrightarrow> unat y < 2 ^ 11 \<and> even (unat y)"
  using range_check [of 12 y] range_check [of 21 y] range_check [of 8 y] range_check [of 11 y]
  by simp_all

lemma relocate_BRANCH:
  "relocate s1 rel R_RISCV_BRANCH d p addr val =
     (if unat (val - addr) < 2 ^ 12 \<and> even (unat (val - addr))
      then with_data s1 (patch32 d p (branch_insn (val - addr)))
      else Inl (TccError ''R_RISCV_BRANCH relocation failed''))"
  using displacement_checks(1) [of "val - addr"]
  by (simp add: relocate_def Let_def ucast_down_up)

lemma relocate_JAL:
  "relocate s1 rel R_RISCV_JAL d p addr val =
     (if unat (val - addr) < 2 ^ 21 \<and> even (unat (val - addr))
      then with_data s1 (patch32 d p (jal_insn (val - addr)))
      else Inl (TccError ''R_RISCV_JAL relocation failed''))"
  using displacement_checks(2) [of "val - addr"]
  by (simp add: relocate_def Let_def ucast_down_up)

lemma relocate_RVC_BRANCH:
  "relocate s1 rel R_RISCV_RVC_BRANCH d p addr val =
     (if unat (val - addr) < 2 ^ 8 \<and> even (unat (val - addr))
      then with_data s1 (patch16 d p (rvc_branch_insn (val - addr)))
      else Inl (TccError ''R_RISCV_RVC_BRANCH relocation failed''))"
  using displacement_checks(3) [of "val - addr"]
  by (simp add: relocate_def Let_def ucast_down_up)

lemma relocate_RVC_JUMP:
  "relocate s1 rel R_RISCV_RVC_JUMP d p addr val =
     (if unat (val - addr) < 2 ^ 11 \<and> even (unat (val - addr))
      then with_data s1 (patch16 d p (rvc_jump_insn (val - addr)))
      else Inl (TccError ''R_RISCV_RVC_BRANCH relocation failed''))"
  using displacement_checks(4) [of "val - addr"]
  by (simp add: relocate_def Let_def ucast_down_up)

lemmas relocate_direct = relocate_BRANCH relocate_JAL relocate_RVC_BRANCH relocate_RVC_JUMP

text \<open>
  A direct jump or branch relocation succeeds exactly when the place lies inside the section
  and the target lies at an even distance ahead of it, below the reach of its check. Every
  displacement is computed on 32-bit addresses and widened without its sign, so a target behind
  the place is always refused.
\<close>

theorem relocate_reach:
  assumes "(t, k) \<in> set reach_bits" and "p + 4 \<le> length d"
  shows "is_ok (relocate s1 rel t d p addr val) \<longleftrightarrow>
    unat (val - addr) < 2 ^ k \<and> even (unat (val - addr))"
proof -
  consider "t = R_RISCV_BRANCH" "k = 12" | "t = R_RISCV_JAL" "k = 21"
    | "t = R_RISCV_RVC_BRANCH" "k = 8" | "t = R_RISCV_RVC_JUMP" "k = 11"
    using assms(1) by (auto simp: reach_bits_def)
  then show ?thesis
    using assms(2) by cases (simp_all only: relocate_direct, simp_all)
qed

lemma relocate_reach_witness:
  "is_ok (relocate \<lparr>output_type = 1, got_addr = 0, sym_attrs = [], last_hi_addr = 0,
      last_hi_val = 0, qrels = [], nb_errors = 0\<rparr>
      \<lparr>r_offset = 0, r_sym = 1, r_type = 17, r_addend = 0\<rparr> 17 [0x6f, 0, 0, 0] 0 0x1000 0x0ff0)
    \<longleftrightarrow> unat (0x0ff0 - 0x1000 :: u32) < 2 ^ 21 \<and> even (unat (0x0ff0 - 0x1000 :: u32))"
  by (rule relocate_reach) (simp_all add: reach_bits_def)

text \<open>
  A JAL relocation accepts an even displacement up to 2 MiB and patches the word so that it
  decodes to a jump by that displacement, unless bit 20 of it is set: then the word decodes to a
  jump 2 MiB short of the target.
\<close>

theorem relocate_jal_target:
  assumes "p + 4 \<le> length d" and "f_opcode (read32le d p) = 0x6f"
    and "unat (val - addr) < 2 ^ 21" and "even (unat (val - addr))"
  shows "\<exists>d'. relocate s1 rel R_RISCV_JAL d p addr val = Inr (s1, d') \<and>
    decode (read32le d' p) = Some (Jal (f_rd (read32le d p))
      (val - addr - (if bit (val - addr) 20 then 0x200000 else 0)))"
proof -
  have "fits_in 21 (val - addr)" using assms(3) by (rule fits_in_less)
  moreover have "\<not> bit (val - addr) 0" using assms(4) by (simp only: bit_0_unat) simp
  ultimately have "sext21 (val - addr) = val - addr - (if bit (val - addr) 20 then 0x200000 else 0)"
    by (rule sext21_even)
  moreover have "relocate s1 rel R_RISCV_JAL d p addr val =
      Inr (s1, write32le d p (jal_insn (val - addr) (read32le d p)))"
    using assms by (simp only: relocate_direct) (simp add: patch32_def with_data_def)
  ultimately show ?thesis
    using decode_jal_insn [OF assms(2), of "val - addr"] assms(1) by simp
qed

lemma relocate_jal_target_witness:
  "\<exists>d'. relocate \<lparr>output_type = 1, got_addr = 0, sym_attrs = [], last_hi_addr = 0,
      last_hi_val = 0, qrels = [], nb_errors = 0\<rparr>
      \<lparr>r_offset = 0, r_sym = 1, r_type = 17, r_addend = 0\<rparr> R_RISCV_JAL [0xef, 0, 0, 0] 0
      0x1000 0x101000 =
    Inr (\<lparr>output_type = 1, got_addr = 0, sym_attrs = [], last_hi_addr = 0,
      last_hi_val = 0, qrels = [], nb_errors = 0\<rparr>, d') \<and>
    decode (read32le d' 0) = Some (Jal (f_rd (read32le [0xef, 0, 0, 0] 0))
      (0x101000 - 0x1000 - (if bit (0x101000 - 0x1000 :: u32) 20 then 0x200000 else 0)))"
  by (rule relocate_jal_target)
    (simp_all add: read32le_def read16le_def f_opcode_def take_bit_eq_mask mask_eq_exp_minus_1)

text \<open>
  A BRANCH relocation writes the displacement where the format wants half of it: the
  patched word decodes to a branch over twice the distance to its target.
\<close>

theorem relocate_branch_doubles:
  assumes "p + 4 \<le> length d" and "f_opcode (read32le d p) = 0x63"
    and "decode_branch (f_funct3 (read32le d p)) = Some b"
    and "unat (val - addr) < 2 ^ 11" and "even (unat (val - addr))"
  shows "\<exists>d'. relocate s1 rel R_RISCV_BRANCH d p addr val = Inr (s1, d') \<and>
    decode (read32le d' p) =
      Some (Branch b (f_rs1 (read32le d p)) (f_rs2 (read32le d p)) (2 * (val - addr)))"
proof -
  have "fits_in 11 (val - addr)" using assms(4) by (rule fits_in_less)
  then have "signed_take_bit 12 (push_bit 1 (take_bit 12 (val - addr))) = 2 * (val - addr)"
    by (simp only: signed_take_bit_double) (simp add: push_bit_eq_mult)
  moreover have "relocate s1 rel R_RISCV_BRANCH d p addr val =
      Inr (s1, write32le d p (branch_insn (val - addr) (read32le d p)))"
    using assms by (simp only: relocate_direct) (simp add: patch32_def with_data_def)
  ultimately show ?thesis
    using decode_branch_insn [OF assms(2,3), of "val - addr"] assms(1) by simp
qed

lemma relocate_branch_doubles_witness:
  "\<exists>d'. relocate \<lparr>output_type = 1, got_addr = 0, sym_attrs = [], last_hi_addr = 0,
      last_hi_val = 0, qrels = [], nb_errors = 0\<rparr>
      \<lparr>r_offset = 0, r_sym = 1, r_type = 16, r_addend = 0\<rparr> R_RISCV_BRANCH [0x63, 0, 0, 0] 0
      0x1000 0x1010 =
    Inr (\<lparr>output_type = 1, got_addr = 0, sym_attrs = [], last_hi_addr = 0,
      last_hi_val = 0, qrels = [], nb_errors = 0\<rparr>, d') \<and>
    decode (read32le d' 0) = Some (Branch Beq (f_rs1 (read32le [0x63, 0, 0, 0] 0))
      (f_rs2 (read32le [0x63, 0, 0, 0] 0)) (2 * (0x1010 - 0x1000)))"
  by (rule relocate_branch_doubles)
    (simp_all add: read32le_def read16le_def f_opcode_def f_funct3_def decode_branch_def
      take_bit_eq_mask mask_eq_exp_minus_1)

section \<open>Pairs of instructions\<close>

lemma run_auipc_jalr':
  assumes "fits_in 5 tr" and "fits_in 5 rl" and "tr \<noteq> 0"
  shows "run [insn_U hi tr 0x17, insn_I lo tr 0 rl 0x67] c =
    Some (wreg rl (pc c + 8) (wreg tr (pc c + push_bit 12 (take_bit 20 hi))
      (c\<lparr>pc := (pc c + push_bit 12 (take_bit 20 hi) + sext12 lo) AND NOT 1\<rparr>)))"
  using assms
  by (simp add: run.simps decode_insn_U decode_insn_I_jalr exec_def wreg_pc add.commute [of 8])

lemma call_pair:
  assumes "fits_in 5 tr" and "fits_in 5 rl" and "p + 8 \<le> length d"
    and "read32le d p = insn_U hi tr 0x17" and "read32le d (p + 4) = insn_I lo tr 0 rl 0x67"
    and "t = R_RISCV_CALL \<or> t = R_RISCV_CALL_PLT"
  obtains d' where "relocate s1 rel t d p addr val = Inr (s1, d')"
    "read32le d' p = insn_U (IMM_HIGH (val - addr + 0x800)) tr 0x17"
    "read32le d' (p + 4) = insn_I (val - addr) tr 0 rl 0x67"
proof -
  have f7: "fits_in 7 (0x17 :: u32)" "fits_in 7 (0x67 :: u32)" "fits_in 3 (0 :: u32)"
    by (simp_all add: fits_in_def)
  note hi = call_hi_insn_U [OF assms(1) f7(1), of hi "val - addr + 0x800"]
  let ?a = "(read32le d p AND 0xfff) OR ((val - addr + 0x800) AND NOT 0xfff)"
  let ?d1 = "write32le d p ?a"
  have r4: "read32le ?d1 (p + 4) = insn_I lo tr 0 rl 0x67"
    using assms by (simp add: read32le_write32le_other)
  have "relocate s1 rel t d p addr val =
      Inr (s1, write32le ?d1 (p + 4) (lo12_i_insn (val - addr) (read32le ?d1 (p + 4))))"
    using assms by (auto simp: relocate_def patch32_def with_data_def)
  then show ?thesis
    using that assms hi
    by (simp add: read32le_write32le_other lo12_i_insn_I f7)
qed

text \<open>
  C18: executing an AUIPC and JALR pair after its CALL or CALL_PLT relocation jumps to the symbol
  (JALR clears bit 0 of the target) from wherever the pair is placed, with the return address in
  the link register.
\<close>

theorem relocate_call_reaches:
  assumes "t = R_RISCV_CALL \<or> t = R_RISCV_CALL_PLT" and "p + 8 \<le> length d"
    and "read32le d p = insn_U hi tr 0x17" and "read32le d (p + 4) = insn_I lo tr 0 rl 0x67"
    and "fits_in 5 tr" and "fits_in 5 rl" and "tr \<noteq> 0" and "rl \<noteq> 0" and "pc c = addr"
  shows "\<exists>d' c'. relocate s1 rel t d p addr val = Inr (s1, d') \<and>
    run [read32le d' p, read32le d' (p + 4)] c = Some c' \<and> pc c' = val AND NOT 1 \<and>
    rreg c' rl = addr + 8 \<and> only_changes {tr, rl} c c'"
proof -
  obtain d' where d': "relocate s1 rel t d p addr val = Inr (s1, d')"
    "read32le d' p = insn_U (IMM_HIGH (val - addr + 0x800)) tr 0x17"
    "read32le d' (p + 4) = insn_I (val - addr) tr 0 rl 0x67"
    using call_pair [OF assms(5,6,2,3,4,1)] .
  have "addr + push_bit 12 (IMM_HIGH (val - addr + 0x800)) + sext12 (val - addr) = val"
    using hi_lo_sum [of "val - addr"] by (simp add: algebra_simps)
  with d' show ?thesis
    using run_auipc_jalr' [OF assms(5,6,7), of "IMM_HIGH (val - addr + 0x800)" "val - addr" c] assms(8,9)
    by (simp add: only_changes_def)
qed

lemma relocate_call_reaches_witness:
  "\<exists>d' c'. relocate \<lparr>output_type = 1, got_addr = 0, sym_attrs = [], last_hi_addr = 0,
      last_hi_val = 0, qrels = [], nb_errors = 0\<rparr>
      \<lparr>r_offset = 0, r_sym = 1, r_type = 19, r_addend = 0\<rparr> 19
      [0x17, 0x03, 0, 0, 0xe7, 0x00, 0x03, 0x00] 0 0x20000 0x10800 =
    Inr (\<lparr>output_type = 1, got_addr = 0, sym_attrs = [], last_hi_addr = 0,
      last_hi_val = 0, qrels = [], nb_errors = 0\<rparr>, d') \<and>
    run [read32le d' 0, read32le d' (0 + 4)] \<lparr>pc = 0x20000, regs = (\<lambda>_. 0), mem = (\<lambda>_. 0)\<rparr> =
      Some c' \<and> pc c' = 0x10800 AND NOT 1 \<and> rreg c' 1 = 0x20000 + 8 \<and>
    only_changes {6, 1} \<lparr>pc = 0x20000, regs = (\<lambda>_. 0), mem = (\<lambda>_. 0)\<rparr> c'"
  by (rule relocate_call_reaches [of _ 0 _ 0 _ 0])
    (simp_all add: read32le_def read16le_def insn_U_def insn_I_def fits_in_def)

lemma relocate_PCREL_HI20:
  assumes "p + 4 \<le> length d" and "read32le d p = insn_U hi rd 0x17" and "fits_in 5 rd"
  shows "relocate s1 rel R_RISCV_PCREL_HI20 d p addr val =
    Inr (s1\<lparr>last_hi_addr := addr, last_hi_val := val\<rparr>,
      write32le d p (insn_U (IMM_HIGH (val - addr + 0x800)) rd 0x17))"
proof -
  have "fits_in 7 (0x17 :: u32)" by (simp add: fits_in_def)
  from hi20_insn_U [OF assms(3) this, of "val - addr + 0x800" hi] hi20_check [of "val - addr + 0x800"]
  show ?thesis using assms
    by (simp add: relocate_def Let_def patch32_def with_data_def)
qed

lemma relocate_PCREL_LO12_I:
  assumes "q + 4 \<le> length d" and "read32le d q = insn_I lo rs1 f3 rd opc"
    and "fits_in 5 rs1" "fits_in 3 f3" "fits_in 5 rd" "fits_in 7 opc"
    and "last_hi_addr s1 = val"
  shows "relocate s1 rel R_RISCV_PCREL_LO12_I d q addr val =
    Inr (s1, write32le d q (insn_I (last_hi_val s1 - last_hi_addr s1) rs1 f3 rd opc))"
  using assms by (simp add: relocate_def patch32_def with_data_def lo12_i_insn_I)

text \<open>
  C39: An AUIPC relocated with PCREL_HI20 and a later ADDI relocated with PCREL_LO12_I against
  the label of the AUIPC leave the symbol's address in the register, for every distance between
  the place and the symbol.
\<close>

theorem relocate_pcrel_pair:
  assumes "p + 4 \<le> length d" and "q + 4 \<le> length d" and "q + 4 \<le> p \<or> p + 4 \<le> q"
    and "read32le d p = insn_U hi rd 0x17" and "read32le d q = insn_I lo rd 0 rd 0x13"
    and "fits_in 5 rd" and "rd \<noteq> 0" and "pc c = addr"
  shows "\<exists>s2 d2 d3 c'. relocate s1 rel R_RISCV_PCREL_HI20 d p addr val = Inr (s2, d2) \<and>
    relocate s2 rel' R_RISCV_PCREL_LO12_I d2 q addr' addr = Inr (s2, d3) \<and>
    run [read32le d3 p, read32le d3 q] c = Some c' \<and> rreg c' rd = val \<and> only_changes {rd} c c'"
proof -
  let ?s2 = "s1\<lparr>last_hi_addr := addr, last_hi_val := val\<rparr>"
  let ?d2 = "write32le d p (insn_U (IMM_HIGH (val - addr + 0x800)) rd 0x17)"
  let ?d3 = "write32le ?d2 q (insn_I (val - addr) rd 0 rd 0x13)"
  have q2: "read32le ?d2 q = insn_I lo rd 0 rd 0x13"
    using assms(1,3,5) by (simp add: read32le_write32le_other)
  have f: "fits_in 3 (0 :: u32)" "fits_in 7 (0x13 :: u32)" by (simp_all add: fits_in_def)
  have "relocate ?s2 rel' R_RISCV_PCREL_LO12_I ?d2 q addr' addr = Inr (?s2, ?d3)"
    using relocate_PCREL_LO12_I [OF _ q2 assms(6) f(1) assms(6) f(2), of ?s2 addr rel' addr'] assms(2)
    by simp
  moreover have "read32le ?d3 p = insn_U (IMM_HIGH (val - addr + 0x800)) rd 0x17"
    "read32le ?d3 q = insn_I (val - addr) rd 0 rd 0x13"
    using assms(1-3) by (auto simp: read32le_write32le_other)
  moreover have "addr + push_bit 12 (IMM_HIGH (val - addr + 0x800)) + sext12 (val - addr) = val"
    using hi_lo_sum [of "val - addr"] by (simp add: algebra_simps)
  ultimately show ?thesis
    using run_upper_addi(2) [OF assms(6,7), of "IMM_HIGH (val - addr + 0x800)" "val - addr" c] assms(7,8)
      relocate_PCREL_HI20 [OF assms(1,4,6)]
    by (simp add: only_changes_def)
qed

lemma relocate_pcrel_pair_witness:
  "\<exists>s2 d2 d3 c'. relocate \<lparr>output_type = 1, got_addr = 0, sym_attrs = [], last_hi_addr = 0,
      last_hi_val = 0, qrels = [], nb_errors = 0\<rparr>
      \<lparr>r_offset = 0, r_sym = 1, r_type = 23, r_addend = 0\<rparr> R_RISCV_PCREL_HI20
      [0x17, 0x05, 0, 0, 0x13, 0x05, 0x05, 0x00] 0 0x20000 0x10800 = Inr (s2, d2) \<and>
    relocate s2 \<lparr>r_offset = 4, r_sym = 2, r_type = 24, r_addend = 0\<rparr> R_RISCV_PCREL_LO12_I d2 4
      0x20004 0x20000 = Inr (s2, d3) \<and>
    run [read32le d3 0, read32le d3 4] \<lparr>pc = 0x20000, regs = (\<lambda>_. 0), mem = (\<lambda>_. 0)\<rparr> = Some c' \<and>
    rreg c' 10 = 0x10800 \<and>
    only_changes {10} \<lparr>pc = 0x20000, regs = (\<lambda>_. 0), mem = (\<lambda>_. 0)\<rparr> c'"
  by (rule relocate_pcrel_pair [of _ _ _ 0 _ 0])
    (simp_all add: read32le_def read16le_def insn_U_def insn_I_def fits_in_def)

section \<open>The procedure linkage table\<close>

lemma fits_reg:
  "fits_in 5 (0 :: u32)" "fits_in 5 (1 :: u32)" "fits_in 5 (6 :: u32)" "fits_in 5 (28 :: u32)"
  by (simp_all add: fits_in_def)

lemma decode_LW:
  "fits_in 5 rs1 \<Longrightarrow> fits_in 5 rd \<Longrightarrow>
   decode (insn_I imm rs1 2 rd 0x03) = Some (Load Lw rd rs1 (sext12 imm))"
  by (subst decode_insn_I_load) (simp_all add: fits_in_def decode_load_def)

lemma plt_entry_words:
  assumes "plt_entry plt got s = Inr s'"
  defines "delta \<equiv> got + ucast (read32le (sdata (text_sec s)) (ind s)) - (plt + of_nat (ind s))"
  shows "appends s [insn_U (ucast (drop_bit 12 (delta + 0x800))) 28 0x17,
    insn_I (ucast delta) 28 2 28 0x03, insn_I 0 28 0 6 0x67, insn_I 0 0 0 0 0x13] s'"
  using assms
  by (auto simp: plt_entry_def Let_def appends_def insn_defs emit_U_def emit_I_def split: if_splits)

lemma push_high_u64:
  "push_bit 12 (take_bit 20 (ucast (drop_bit 12 (x :: u64)) :: u32)) = push_bit 12 (IMM_HIGH (ucast x))"
  unfolding IMM_HIGH_eq by (rule bit_word_eqI) (auto simp: bit_simps)

lemma run_plt_words:
  "run [insn_U hi 28 0x17, insn_I lo 28 2 28 0x03, insn_I 0 28 0 6 0x67] c =
    Some (wreg 6 (pc c + 12)
      (wreg 28 (mem_word (mem c) (pc c + push_bit 12 (take_bit 20 hi) + sext12 lo))
        (c\<lparr>pc := mem_word (mem c) (pc c + push_bit 12 (take_bit 20 hi) + sext12 lo) AND NOT 1\<rparr>)))"
proof -
  have "sext12 0 = 0" by (simp add: sext12_def)
  then show ?thesis
    by (simp add: run.simps decode_insn_U decode_LW decode_insn_I_jalr fits_reg exec_def wreg_pc
        load_val_def add.commute [of 12])
qed

text \<open>
  C35: when an entry of the procedure linkage table has been written without an error, executing
  its first three instructions at the entry's address loads the entry's slot of the global offset
  table, jumps there, and leaves the address of its fourth instruction in t1; the entry takes 16
  bytes.
\<close>

theorem plt_entry_jumps:
  assumes "emitting s" and "plt_entry plt got s = Inr s'"
    and "pc c = ucast plt + of_nat (ind s)"
  shows "\<exists>c'. run (code_words s' (ind s) 3) c = Some c' \<and>
    pc c' = mem_word (mem c) (ucast got + read32le (sdata (text_sec s)) (ind s)) AND NOT 1 \<and>
    rreg c' 6 = pc c + 12 \<and> only_changes {6, 28} c c' \<and> ind s' = ind s + 16"
proof -
  define delta where "delta = got + ucast (read32le (sdata (text_sec s)) (ind s)) - (plt + of_nat (ind s))"
  let ?hi = "ucast (drop_bit 12 (delta + 0x800)) :: u32" and ?lo = "ucast delta :: u32"
  have app: "appends s [insn_U ?hi 28 0x17, insn_I ?lo 28 2 28 0x03, insn_I 0 28 0 6 0x67,
      insn_I 0 0 0 0 0x13] s'"
    using plt_entry_words [OF assms(2)] by (simp only: delta_def)
  note w = appends_words [OF app assms(1)]
  have words: "code_words s' (ind s) 3 =
      [insn_U ?hi 28 0x17, insn_I ?lo 28 2 28 0x03, insn_I 0 28 0 6 0x67]"
    using w(1) by (simp add: code_words_def eval_nat_numeral)
  have "push_bit 12 (take_bit 20 ?hi) = push_bit 12 (IMM_HIGH (?lo + 0x800))"
  proof -
    have "ucast (delta + 0x800) = ?lo + (0x800 :: u32)" by (simp add: down_arith)
    then show ?thesis by (simp only: push_high_u64)
  qed
  then have "pc c + push_bit 12 (take_bit 20 ?hi) + sext12 ?lo = pc c + ?lo"
    using hi_lo_sum [of ?lo] by (simp add: add.assoc)
  also have "\<dots> = ucast got + read32le (sdata (text_sec s)) (ind s)"
  proof -
    have "?lo = ucast got + read32le (sdata (text_sec s)) (ind s) - (ucast plt + of_nat (ind s))"
      by (simp add: delta_def down_arith down_of_nat ucast_down_up)
    with assms(3) show ?thesis by simp
  qed
  finally show ?thesis
    using run_plt_words [of ?hi ?lo c] words w(2) by (simp add: only_changes_def)
qed

lemma plt_entry_jumps_witness:
  "\<exists>s'. plt_entry 0x11000 0x12000 (start_state\<lparr>text_sec := (text_sec start_state)\<lparr>sdata :=
      [12, 0, 0, 0, 0, 0, 0, 0, 0, 0, 0, 0, 0, 0, 0, 0]\<rparr>\<rparr>) = Inr s' \<and>
    (\<exists>c'. run (code_words s' 0 3) \<lparr>pc = 0x11000, regs = (\<lambda>_. 0), mem = (\<lambda>_. 0)\<rparr> = Some c' \<and>
      rreg c' 6 = 0x1100c)"
proof -
  let ?s = "start_state\<lparr>text_sec := (text_sec start_state)\<lparr>sdata :=
      [12, 0, 0, 0, 0, 0, 0, 0, 0, 0, 0, 0, 0, 0, 0, 0]\<rparr>\<rparr>"
  let ?c = "\<lparr>pc = 0x11000, regs = (\<lambda>_. 0), mem = (\<lambda>_. 0)\<rparr> :: cpu"
  have e: "emitting ?s" and i: "ind ?s = 0" by (simp_all add: emitting_def start_state_def)
  have r: "read32le (sdata (text_sec ?s)) (ind ?s) = 12"
    by (simp add: i read32le_def read16le_def)
  obtain s' where s': "plt_entry 0x11000 0x12000 ?s = Inr s'"
    using r by (simp add: plt_entry_def Let_def i)
  have "\<exists>c'. run (code_words s' 0 3) ?c = Some c' \<and> rreg c' 6 = 0x1100c"
    using plt_entry_jumps [OF e s', of ?c] by (simp add: i) blast
  with s' show ?thesis by blast
qed

lemma plt_entry_keeps:
  assumes "plt_entry plt got s = Inr s'" and "emitting s"
  shows "emitting s'" and "ind s' = ind s + 16"
  using appends_words [OF plt_entry_words [OF assms(1)] assms(2)] by simp_all

lemma plt_entries_return:
  "emitting s \<Longrightarrow> end_offset \<le> ind s + 16 * fuel \<Longrightarrow>
   plt_entries fuel plt got end_offset s \<noteq> Inl NoReturn"
proof (induction fuel arbitrary: s)
  case 0
  then show ?case by simp
next
  case (Suc fuel)
  show ?case
  proof (cases "plt_entry plt got s")
    case (Inl e)
    then show ?thesis by (auto simp: plt_entry_def Let_def split: if_splits)
  next
    case (Inr s')
    from Suc.IH [of s'] Suc.prems plt_entry_keeps [OF Inr Suc.prems(1)] Inr show ?thesis by simp
  qed
qed

lemma plt_header_words:
  assumes "plt_header plt got s = Inr s'"
  shows "\<exists>ws. length ws = 8 \<and> appends s ws s'"
proof -
  let ?lo = "ucast (IMM_LOW64 (got - plt)) :: u32"
  have "appends s [insn_U (ucast (IMM_HIGH64 (got - plt + 0x800))) 7 0x17, insn_R 32 28 6 0 6 0x33,
      insn_I ?lo 7 2 28 0x03, insn_I (- (32 + 12)) 6 0 6 0x13, insn_I ?lo 7 0 5 0x13,
      insn_R 0 (4 - 2) 6 5 6 0x13, insn_I 4 5 2 5 0x03, insn_I 0 28 0 0 0x67] s'"
    using assms
    by (auto simp: plt_header_def Let_def appends_def insn_defs emit_U_def emit_I_def emit_R_def
        split: if_splits)
  then show ?thesis by (intro exI conjI) (simp_all)
qed

lemma fill_got_return: "fill_got plt_addr offs d \<noteq> Inl NoReturn"
  by (induction offs arbitrary: d) (simp_all add: patch32_def)

text \<open>
  relocate_plt always returns: the loop over the entries ends, whatever the table holds,
  because every entry moves the write position 16 bytes towards the end of the table.
\<close>

theorem relocate_plt_returns:
  "relocate_plt cur_null plt_opt got plt_relocs \<noteq> Inl NoReturn"
proof (cases plt_opt)
  case None
  then show ?thesis by (simp add: relocate_plt_def)
next
  case (Some plt)
  let ?s = "\<lparr>text_sec = plt, ind = 0, nocode_wanted = 0\<rparr>"
  let ?p = "ucast (sh_addr plt)" and ?g = "ucast (sh_addr got)"
  have e: "emitting ?s" by (simp add: emitting_def)
  have "plt_entries (data_offset plt) ?p ?g (data_offset plt) s1 \<noteq> Inl NoReturn"
    if h: "plt_header ?p ?g ?s = Inr s1" for s1
  proof -
    obtain ws where "length ws = 8" "appends ?s ws s1" using plt_header_words [OF h] by blast
    then have "emitting s1" "ind s1 = 32" using appends_words(2,3) [OF _ e] by fastforce+
    then show ?thesis by (intro plt_entries_return) simp_all
  qed
  moreover have "plt_header ?p ?g ?s \<noteq> Inl NoReturn" by (simp add: plt_header_def Let_def)
  ultimately have "bindR (plt_header ?p ?g ?s) (plt_entries (data_offset plt) ?p ?g (data_offset plt))
      \<noteq> Inl NoReturn"
    by (rule bindR_not_Inl [rotated])
  then show ?thesis
    unfolding relocate_plt_def Some Let_def option.case
    by (intro bindR_not_Inl) (auto simp: assertR_def fill_got_return bindR_not_Inl split: option.splits if_splits)
qed

end
