(* ===== verification/Link_Syms.thy ===== *)
theory Link_Syms
  imports Riscv_Emit
begin

text \<open>
  The symbols and relocations both the code generator and the assembler produce: a Sym as far as
  the ELF symbol behind it is concerned, ELF symbols as section number and value, and the
  requests greloca makes of put_elf_reloca (tccgen.c, tccelf.c).
\<close>

section \<open>Tokens\<close>

text \<open>
  \<open>AsmTok n\<close> is the n-th token of riscv32-tok.h, counted from TOK_ASM_zero: the registers come
  first, then pc and fp, then the mnemonics. \<open>Ch\<close> is a token whose number is below TOK_IDENT: a
  character or an operator. A preprocessing number carries its spelling, a character constant
  its value, any other identifier its name.
\<close>

datatype token =
    Ch nat
  | PPNum string
  | CharConst u64
  | AsmTok nat
  | Ident string
  | Eof

section \<open>Symbols\<close>

text \<open>
  A symbol (Sym) has its token, its type flags, its ELF symbol index (0: none yet) and whether
  its scope is a local one. Symbols live in a list and are named by their index. An ELF symbol is
  kept as its section number and value; symbol 0 is the null symbol. A relocation entry is an
  Elf32_Rela: ElfW_Rel is ElfW(Rela) for pointers of 4 bytes too.
\<close>

record asm_sym =
  as_tok :: token
  as_t :: u32
  as_c :: nat
  as_local_scope :: bool

record ElfSym =
  st_shndx :: nat
  st_value :: u32

record asm_reloc =
  ar_offset :: nat
  ar_type :: nat
  ar_sym :: nat
  ar_addend :: u32

record sym_state = emit_state +
  syms :: "asm_sym list"
  elf_syms :: "ElfSym list"
  relocs :: "asm_reloc list"

abbreviation (input) VT_VOID :: u32 where "VT_VOID \<equiv> 0"
abbreviation (input) VT_EXTERN :: u32 where "VT_EXTERN \<equiv> 0x1000"
abbreviation (input) VT_STATIC :: u32 where "VT_STATIC \<equiv> 0x2000"
abbreviation (input) VT_ASM :: u32 where "VT_ASM \<equiv> 0x100000"
abbreviation (input) SHN_UNDEF :: nat where "SHN_UNDEF \<equiv> 0"
abbreviation (input) SHN_ABS :: nat where "SHN_ABS \<equiv> 0xfff1"

definition elfsym :: "nat option \<Rightarrow> 'a sym_state_scheme \<Rightarrow> ElfSym option" where
  "elfsym sy s = (case sy of None \<Rightarrow> None | Some i \<Rightarrow>
     (if as_c (syms s ! i) = 0 then None else Some (elf_syms s ! as_c (syms s ! i))))"

text \<open>
  put_extern_sym2 for a symbol: a new ELF symbol when it has none, its section and value set
  otherwise.
\<close>

definition put_extern_sym2 :: "nat \<Rightarrow> nat \<Rightarrow> u32 \<Rightarrow> 'a sym_state_scheme \<Rightarrow> 'a sym_state_scheme" where
  "put_extern_sym2 i sh value s =
     (if as_c (syms s ! i) = 0
      then s\<lparr>syms := (syms s)[i := (syms s ! i)\<lparr>as_c := length (elf_syms s)\<rparr>],
             elf_syms := elf_syms s @ [\<lparr>st_shndx = sh, st_value = value\<rparr>]\<rparr>
      else s\<lparr>elf_syms := (elf_syms s)[as_c (syms s ! i) := \<lparr>st_shndx = sh, st_value = value\<rparr>]\<rparr>)"

text \<open>
  put_elf_reloca for the ELF symbol \<open>c\<close>. SHT_RELX is SHT_RELA, so the addend is stored and never
  refused.
\<close>

definition put_elf_reloca :: "nat \<Rightarrow> nat \<Rightarrow> nat \<Rightarrow> u32 \<Rightarrow> 'a sym_state_scheme \<Rightarrow> 'a sym_state_scheme" where
  "put_elf_reloca off t c addend s =
     s\<lparr>relocs := relocs s @ [\<lparr>ar_offset = off, ar_type = t, ar_sym = c, ar_addend = addend\<rparr>]\<rparr>"

text \<open>greloca and greloc in the current text section, at offset ind; no symbol is ELF symbol 0.\<close>

definition greloca :: "nat option \<Rightarrow> nat \<Rightarrow> u32 \<Rightarrow> 'a sym_state_scheme \<Rightarrow> 'a sym_state_scheme" where
  "greloca sy t addend s =
     (if nocode_wanted s \<noteq> 0 then s
      else
        case sy of
          None \<Rightarrow> put_elf_reloca (ind s) t 0 addend s
        | Some i \<Rightarrow>
            let s1 = (if as_c (syms s ! i) = 0 then put_extern_sym2 i SHN_UNDEF 0 s else s) in
            put_elf_reloca (ind s1) t (as_c (syms s1 ! i)) addend s1)"

definition greloc :: "nat \<Rightarrow> nat \<Rightarrow> 'a sym_state_scheme \<Rightarrow> 'a sym_state_scheme" where
  "greloc i t s = greloca (Some i) t 0 s"

lemma greloc_alt: "greloc i t s =
     (if nocode_wanted s \<noteq> 0 then s
      else
       let s1 = (if as_c (syms s ! i) = 0 then put_extern_sym2 i SHN_UNDEF 0 s else s) in
       s1\<lparr>relocs := relocs s1 @
            [\<lparr>ar_offset = ind s1, ar_type = t, ar_sym = as_c (syms s1 ! i), ar_addend = 0\<rparr>]\<rparr>)"
  by (simp add: greloc_def greloca_def put_elf_reloca_def Let_def)

end
