(* ===== verification/Asm_State.thy ===== *)
theory Asm_State
  imports Link_Syms
begin

text \<open>
  The assembler's state (tccasm.c): the token stream, the labels with their ELF symbols, and the
  relocations it has asked for. Functions thread the state and return the error that stops the
  assembler.
\<close>

section \<open>Tokens\<close>

abbreviation (input) TOK_ASM_zero :: nat where "TOK_ASM_zero \<equiv> 0"
abbreviation (input) TOK_ASM_ra :: nat where "TOK_ASM_ra \<equiv> 1"
abbreviation (input) TOK_ASM_sp :: nat where "TOK_ASM_sp \<equiv> 2"
abbreviation (input) TOK_ASM_gp :: nat where "TOK_ASM_gp \<equiv> 3"
abbreviation (input) TOK_ASM_tp :: nat where "TOK_ASM_tp \<equiv> 4"
abbreviation (input) TOK_ASM_t0 :: nat where "TOK_ASM_t0 \<equiv> 5"
abbreviation (input) TOK_ASM_t1 :: nat where "TOK_ASM_t1 \<equiv> 6"
abbreviation (input) TOK_ASM_t2 :: nat where "TOK_ASM_t2 \<equiv> 7"
abbreviation (input) TOK_ASM_s0 :: nat where "TOK_ASM_s0 \<equiv> 8"
abbreviation (input) TOK_ASM_s1 :: nat where "TOK_ASM_s1 \<equiv> 9"
abbreviation (input) TOK_ASM_a0 :: nat where "TOK_ASM_a0 \<equiv> 10"
abbreviation (input) TOK_ASM_a1 :: nat where "TOK_ASM_a1 \<equiv> 11"
abbreviation (input) TOK_ASM_a2 :: nat where "TOK_ASM_a2 \<equiv> 12"
abbreviation (input) TOK_ASM_a3 :: nat where "TOK_ASM_a3 \<equiv> 13"
abbreviation (input) TOK_ASM_a4 :: nat where "TOK_ASM_a4 \<equiv> 14"
abbreviation (input) TOK_ASM_a5 :: nat where "TOK_ASM_a5 \<equiv> 15"
abbreviation (input) TOK_ASM_a6 :: nat where "TOK_ASM_a6 \<equiv> 16"
abbreviation (input) TOK_ASM_a7 :: nat where "TOK_ASM_a7 \<equiv> 17"
abbreviation (input) TOK_ASM_s2 :: nat where "TOK_ASM_s2 \<equiv> 18"
abbreviation (input) TOK_ASM_s3 :: nat where "TOK_ASM_s3 \<equiv> 19"
abbreviation (input) TOK_ASM_s4 :: nat where "TOK_ASM_s4 \<equiv> 20"
abbreviation (input) TOK_ASM_s5 :: nat where "TOK_ASM_s5 \<equiv> 21"
abbreviation (input) TOK_ASM_s6 :: nat where "TOK_ASM_s6 \<equiv> 22"
abbreviation (input) TOK_ASM_s7 :: nat where "TOK_ASM_s7 \<equiv> 23"
abbreviation (input) TOK_ASM_s8 :: nat where "TOK_ASM_s8 \<equiv> 24"
abbreviation (input) TOK_ASM_s9 :: nat where "TOK_ASM_s9 \<equiv> 25"
abbreviation (input) TOK_ASM_s10 :: nat where "TOK_ASM_s10 \<equiv> 26"
abbreviation (input) TOK_ASM_s11 :: nat where "TOK_ASM_s11 \<equiv> 27"
abbreviation (input) TOK_ASM_t3 :: nat where "TOK_ASM_t3 \<equiv> 28"
abbreviation (input) TOK_ASM_t4 :: nat where "TOK_ASM_t4 \<equiv> 29"
abbreviation (input) TOK_ASM_t5 :: nat where "TOK_ASM_t5 \<equiv> 30"
abbreviation (input) TOK_ASM_t6 :: nat where "TOK_ASM_t6 \<equiv> 31"
abbreviation (input) TOK_ASM_pc :: nat where "TOK_ASM_pc \<equiv> 32"
abbreviation (input) TOK_ASM_fp :: nat where "TOK_ASM_fp \<equiv> 33"
abbreviation (input) TOK_ASM_la :: nat where "TOK_ASM_la \<equiv> 34"
abbreviation (input) TOK_ASM_li :: nat where "TOK_ASM_li \<equiv> 35"
abbreviation (input) TOK_ASM_lb :: nat where "TOK_ASM_lb \<equiv> 36"
abbreviation (input) TOK_ASM_lh :: nat where "TOK_ASM_lh \<equiv> 37"
abbreviation (input) TOK_ASM_lw :: nat where "TOK_ASM_lw \<equiv> 38"
abbreviation (input) TOK_ASM_lbu :: nat where "TOK_ASM_lbu \<equiv> 39"
abbreviation (input) TOK_ASM_lhu :: nat where "TOK_ASM_lhu \<equiv> 40"
abbreviation (input) TOK_ASM_sb :: nat where "TOK_ASM_sb \<equiv> 41"
abbreviation (input) TOK_ASM_sh :: nat where "TOK_ASM_sh \<equiv> 42"
abbreviation (input) TOK_ASM_sw :: nat where "TOK_ASM_sw \<equiv> 43"
abbreviation (input) TOK_ASM_sll :: nat where "TOK_ASM_sll \<equiv> 44"
abbreviation (input) TOK_ASM_slli :: nat where "TOK_ASM_slli \<equiv> 45"
abbreviation (input) TOK_ASM_srl :: nat where "TOK_ASM_srl \<equiv> 46"
abbreviation (input) TOK_ASM_srli :: nat where "TOK_ASM_srli \<equiv> 47"
abbreviation (input) TOK_ASM_sra :: nat where "TOK_ASM_sra \<equiv> 48"
abbreviation (input) TOK_ASM_srai :: nat where "TOK_ASM_srai \<equiv> 49"
abbreviation (input) TOK_ASM_add :: nat where "TOK_ASM_add \<equiv> 50"
abbreviation (input) TOK_ASM_addi :: nat where "TOK_ASM_addi \<equiv> 51"
abbreviation (input) TOK_ASM_sub :: nat where "TOK_ASM_sub \<equiv> 52"
abbreviation (input) TOK_ASM_lui :: nat where "TOK_ASM_lui \<equiv> 53"
abbreviation (input) TOK_ASM_auipc :: nat where "TOK_ASM_auipc \<equiv> 54"
abbreviation (input) TOK_ASM_nop :: nat where "TOK_ASM_nop \<equiv> 55"
abbreviation (input) TOK_ASM_xor :: nat where "TOK_ASM_xor \<equiv> 56"
abbreviation (input) TOK_ASM_xori :: nat where "TOK_ASM_xori \<equiv> 57"
abbreviation (input) TOK_ASM_or :: nat where "TOK_ASM_or \<equiv> 58"
abbreviation (input) TOK_ASM_ori :: nat where "TOK_ASM_ori \<equiv> 59"
abbreviation (input) TOK_ASM_and :: nat where "TOK_ASM_and \<equiv> 60"
abbreviation (input) TOK_ASM_andi :: nat where "TOK_ASM_andi \<equiv> 61"
abbreviation (input) TOK_ASM_slt :: nat where "TOK_ASM_slt \<equiv> 62"
abbreviation (input) TOK_ASM_slti :: nat where "TOK_ASM_slti \<equiv> 63"
abbreviation (input) TOK_ASM_sltu :: nat where "TOK_ASM_sltu \<equiv> 64"
abbreviation (input) TOK_ASM_sltiu :: nat where "TOK_ASM_sltiu \<equiv> 65"
abbreviation (input) TOK_ASM_beq :: nat where "TOK_ASM_beq \<equiv> 66"
abbreviation (input) TOK_ASM_bne :: nat where "TOK_ASM_bne \<equiv> 67"
abbreviation (input) TOK_ASM_blt :: nat where "TOK_ASM_blt \<equiv> 68"
abbreviation (input) TOK_ASM_bge :: nat where "TOK_ASM_bge \<equiv> 69"
abbreviation (input) TOK_ASM_bltu :: nat where "TOK_ASM_bltu \<equiv> 70"
abbreviation (input) TOK_ASM_bgeu :: nat where "TOK_ASM_bgeu \<equiv> 71"
abbreviation (input) TOK_ASM_bgt :: nat where "TOK_ASM_bgt \<equiv> 72"
abbreviation (input) TOK_ASM_ble :: nat where "TOK_ASM_ble \<equiv> 73"
abbreviation (input) TOK_ASM_bgtu :: nat where "TOK_ASM_bgtu \<equiv> 74"
abbreviation (input) TOK_ASM_bleu :: nat where "TOK_ASM_bleu \<equiv> 75"
abbreviation (input) TOK_ASM_j :: nat where "TOK_ASM_j \<equiv> 76"
abbreviation (input) TOK_ASM_jal :: nat where "TOK_ASM_jal \<equiv> 77"
abbreviation (input) TOK_ASM_jalr :: nat where "TOK_ASM_jalr \<equiv> 78"
abbreviation (input) TOK_ASM_jr :: nat where "TOK_ASM_jr \<equiv> 79"
abbreviation (input) TOK_ASM_call :: nat where "TOK_ASM_call \<equiv> 80"
abbreviation (input) TOK_ASM_tail :: nat where "TOK_ASM_tail \<equiv> 81"
abbreviation (input) TOK_ASM_ret :: nat where "TOK_ASM_ret \<equiv> 82"
abbreviation (input) TOK_ASM_fence :: nat where "TOK_ASM_fence \<equiv> 83"
abbreviation (input) TOK_ASM_fence_i :: nat where "TOK_ASM_fence_i \<equiv> 84"
abbreviation (input) TOK_ASM_scall :: nat where "TOK_ASM_scall \<equiv> 85"
abbreviation (input) TOK_ASM_sbreak :: nat where "TOK_ASM_sbreak \<equiv> 86"
abbreviation (input) TOK_ASM_rdcycle :: nat where "TOK_ASM_rdcycle \<equiv> 87"
abbreviation (input) TOK_ASM_rdcycleh :: nat where "TOK_ASM_rdcycleh \<equiv> 88"
abbreviation (input) TOK_ASM_rdtime :: nat where "TOK_ASM_rdtime \<equiv> 89"
abbreviation (input) TOK_ASM_rdtimeh :: nat where "TOK_ASM_rdtimeh \<equiv> 90"
abbreviation (input) TOK_ASM_rdinstret :: nat where "TOK_ASM_rdinstret \<equiv> 91"
abbreviation (input) TOK_ASM_rdinstreth :: nat where "TOK_ASM_rdinstreth \<equiv> 92"
abbreviation (input) TOK_ASM_csrrw :: nat where "TOK_ASM_csrrw \<equiv> 93"
abbreviation (input) TOK_ASM_csrrs :: nat where "TOK_ASM_csrrs \<equiv> 94"
abbreviation (input) TOK_ASM_csrrc :: nat where "TOK_ASM_csrrc \<equiv> 95"
abbreviation (input) TOK_ASM_csrrwi :: nat where "TOK_ASM_csrrwi \<equiv> 96"
abbreviation (input) TOK_ASM_csrrsi :: nat where "TOK_ASM_csrrsi \<equiv> 97"
abbreviation (input) TOK_ASM_csrrci :: nat where "TOK_ASM_csrrci \<equiv> 98"
abbreviation (input) TOK_ASM_csrr :: nat where "TOK_ASM_csrr \<equiv> 99"
abbreviation (input) TOK_ASM_csrw :: nat where "TOK_ASM_csrw \<equiv> 100"
abbreviation (input) TOK_ASM_csrs :: nat where "TOK_ASM_csrs \<equiv> 101"
abbreviation (input) TOK_ASM_csrc :: nat where "TOK_ASM_csrc \<equiv> 102"
abbreviation (input) TOK_ASM_csrwi :: nat where "TOK_ASM_csrwi \<equiv> 103"
abbreviation (input) TOK_ASM_csrsi :: nat where "TOK_ASM_csrsi \<equiv> 104"
abbreviation (input) TOK_ASM_csrci :: nat where "TOK_ASM_csrci \<equiv> 105"
abbreviation (input) TOK_ASM_ecall :: nat where "TOK_ASM_ecall \<equiv> 106"
abbreviation (input) TOK_ASM_ebreak :: nat where "TOK_ASM_ebreak \<equiv> 107"
abbreviation (input) TOK_ASM_mrts :: nat where "TOK_ASM_mrts \<equiv> 108"
abbreviation (input) TOK_ASM_mrth :: nat where "TOK_ASM_mrth \<equiv> 109"
abbreviation (input) TOK_ASM_hrts :: nat where "TOK_ASM_hrts \<equiv> 110"
abbreviation (input) TOK_ASM_wfi :: nat where "TOK_ASM_wfi \<equiv> 111"
abbreviation (input) TOK_ASM_mul :: nat where "TOK_ASM_mul \<equiv> 112"
abbreviation (input) TOK_ASM_mulh :: nat where "TOK_ASM_mulh \<equiv> 113"
abbreviation (input) TOK_ASM_mulhsu :: nat where "TOK_ASM_mulhsu \<equiv> 114"
abbreviation (input) TOK_ASM_div :: nat where "TOK_ASM_div \<equiv> 115"
abbreviation (input) TOK_ASM_divu :: nat where "TOK_ASM_divu \<equiv> 116"
abbreviation (input) TOK_ASM_rem :: nat where "TOK_ASM_rem \<equiv> 117"
abbreviation (input) TOK_ASM_remu :: nat where "TOK_ASM_remu \<equiv> 118"
abbreviation (input) TOK_ASM_mv :: nat where "TOK_ASM_mv \<equiv> 119"
abbreviation (input) TOK_ASM_seqz :: nat where "TOK_ASM_seqz \<equiv> 120"
abbreviation (input) TOK_ASM_snez :: nat where "TOK_ASM_snez \<equiv> 121"
abbreviation (input) TOK_ASM_sltz :: nat where "TOK_ASM_sltz \<equiv> 122"
abbreviation (input) TOK_ASM_sgtz :: nat where "TOK_ASM_sgtz \<equiv> 123"
abbreviation (input) TOK_ASM_beqz :: nat where "TOK_ASM_beqz \<equiv> 124"
abbreviation (input) TOK_ASM_bnez :: nat where "TOK_ASM_bnez \<equiv> 125"
abbreviation (input) TOK_ASM_blez :: nat where "TOK_ASM_blez \<equiv> 126"
abbreviation (input) TOK_ASM_bgez :: nat where "TOK_ASM_bgez \<equiv> 127"
abbreviation (input) TOK_ASM_bltz :: nat where "TOK_ASM_bltz \<equiv> 128"
abbreviation (input) TOK_ASM_bgtz :: nat where "TOK_ASM_bgtz \<equiv> 129"

abbreviation (input) TOK_SHL :: nat where "TOK_SHL \<equiv> 0x3c"
abbreviation (input) TOK_SAR :: nat where "TOK_SAR \<equiv> 0x3e"
abbreviation (input) TOK_ULT :: nat where "TOK_ULT \<equiv> 0x92"
abbreviation (input) TOK_UGE :: nat where "TOK_UGE \<equiv> 0x93"
abbreviation (input) TOK_EQ :: nat where "TOK_EQ \<equiv> 0x94"
abbreviation (input) TOK_NE :: nat where "TOK_NE \<equiv> 0x95"
abbreviation (input) TOK_ULE :: nat where "TOK_ULE \<equiv> 0x96"
abbreviation (input) TOK_UGT :: nat where "TOK_UGT \<equiv> 0x97"
abbreviation (input) TOK_LT :: nat where "TOK_LT \<equiv> 0x9c"
abbreviation (input) TOK_GE :: nat where "TOK_GE \<equiv> 0x9d"
abbreviation (input) TOK_LE :: nat where "TOK_LE \<equiv> 0x9e"
abbreviation (input) TOK_GT :: nat where "TOK_GT \<equiv> 0x9f"

section \<open>State\<close>

text \<open>
  \<open>idents\<close> gives, for a token, the chain sym_identifier, prev_tok, prev_tok of symbols. \<open>junk\<close>
  stands for the bytes an uninitialised ExprValue holds.
\<close>

record ExprValue =
  ev :: u64
  esym :: "nat option"
  epcrel :: bool

record asm_state = sym_state +
  toks :: "token list"
  text_name :: string
  idents :: "token \<Rightarrow> nat list"
  nb_asm_errors :: nat
  junk :: ExprValue

definition tok :: "asm_state \<Rightarrow> token" where
  "tok s = (case toks s of [] \<Rightarrow> Eof | t # _ \<Rightarrow> t)"

definition next_tok :: "asm_state \<Rightarrow> asm_state" where
  "next_tok s = s\<lparr>toks := tl (toks s)\<rparr>"

definition skip :: "nat \<Rightarrow> asm_state \<Rightarrow> asm_state res" where
  "skip c s = (if tok s \<noteq> Ch c then Inl (Expected ''token'') else Inr (next_tok s))"

text \<open>sym_find and the creation of labels.\<close>

definition sym_find :: "token \<Rightarrow> asm_state \<Rightarrow> nat list" where
  "sym_find v s = idents s v"

definition global_identifier_push :: "token \<Rightarrow> u32 \<Rightarrow> nat \<Rightarrow> asm_state \<Rightarrow> nat \<times> asm_state" where
  "global_identifier_push v t c s =
     (let i = length (syms s);
          chain = idents s v;
          is_local = (\<lambda>j. as_local_scope (syms s ! j)) in
      (i, s\<lparr>syms := syms s @ [\<lparr>as_tok = v, as_t = t, as_c = c, as_local_scope = False\<rparr>],
            idents := (idents s)(v := takeWhile is_local chain @ i # dropWhile is_local chain)\<rparr>))"

section \<open>Labels\<close>

text \<open>
  asm_label_find. C names carry no leading underscore on ELF targets (leading_underscore is 0),
  so asm2cname is the identity. The result is the rest of the chain from the symbol found.
\<close>

definition asm_label_chain :: "token \<Rightarrow> asm_state \<Rightarrow> nat list" where
  "asm_label_chain v s =
     dropWhile (\<lambda>i. as_local_scope (syms s ! i) \<and> as_t (syms s ! i) AND VT_STATIC = 0) (sym_find v s)"

definition asm_label_find :: "token \<Rightarrow> asm_state \<Rightarrow> nat option" where
  "asm_label_find v s = (case asm_label_chain v s of [] \<Rightarrow> None | i # _ \<Rightarrow> Some i)"

definition asm_label_push :: "token \<Rightarrow> asm_state \<Rightarrow> nat \<times> asm_state" where
  "asm_label_push v s = global_identifier_push v (VT_ASM OR VT_EXTERN OR VT_STATIC) 0 s"

definition get_asm_sym :: "token \<Rightarrow> asm_state \<Rightarrow> nat \<times> asm_state" where
  "get_asm_sym name s =
     (case asm_label_find name s of Some i \<Rightarrow> (i, s) | None \<Rightarrow> asm_label_push name s)"

fun digits :: "nat \<Rightarrow> nat \<Rightarrow> string" where
  "digits 0 n = []"
| "digits (Suc k) n =
     (if n < 10 then [char_of (48 + n)] else digits k (n div 10) @ [char_of (48 + n mod 10)])"

text \<open>asm_get_local_label_name: the token \<open>L..n\<close>, n printed as a 32-bit unsigned number.\<close>

definition asm_get_local_label_name :: "u32 \<Rightarrow> token" where
  "asm_get_local_label_name n = Ident (''L..'' @ digits 10 (unat n))"

definition is_asm_sym :: "asm_sym \<Rightarrow> bool" where
  "is_asm_sym sy \<longleftrightarrow> as_t sy AND (0xf OR VT_ASM) = VT_ASM"

text \<open>
  asm_new_label1: the symbol to define (a new one when the label is new, or when its definition
  may be replaced), then its section and value.
\<close>

definition label_to_define :: "token \<Rightarrow> nat \<Rightarrow> asm_state \<Rightarrow> (nat \<times> asm_state) res" where
  "label_to_define label is_local s =
     (case asm_label_find label s of
        None \<Rightarrow> Inr (asm_label_push label s)
      | Some i \<Rightarrow>
        (case elfsym (Some i) s of
           None \<Rightarrow> Inr (i, s)
         | Some e \<Rightarrow>
           if st_shndx e = SHN_UNDEF then Inr (i, s)
           else if is_asm_sym (syms s ! i) \<and> (is_local = 1 \<or> as_t (syms s ! i) AND VT_EXTERN \<noteq> 0)
           then Inr (asm_label_push label s)
           else if as_t (syms s ! i) AND VT_EXTERN = 0
           then Inl (TccError ''assembler label already defined'')
           else Inr (i, s)))"

definition define_label :: "nat \<Rightarrow> nat \<Rightarrow> nat \<Rightarrow> u32 \<Rightarrow> asm_state \<Rightarrow> asm_state" where
  "define_label i is_local sh value s =
     (let s1 = (if as_c (syms s ! i) = 0 then put_extern_sym2 i SHN_UNDEF 0 s else s);
          s2 = s1\<lparr>elf_syms := (elf_syms s1)[as_c (syms s1 ! i) := \<lparr>st_shndx = sh, st_value = value\<rparr>]\<rparr>
      in (if is_local \<noteq> 2
          then s2\<lparr>syms := (syms s2)[i := (syms s2 ! i)\<lparr>as_t := as_t (syms s2 ! i) AND NOT VT_EXTERN\<rparr>]\<rparr>
          else s2))"

definition asm_new_label1 :: "token \<Rightarrow> nat \<Rightarrow> nat \<Rightarrow> u32 \<Rightarrow> asm_state \<Rightarrow> (nat \<times> asm_state) res" where
  "asm_new_label1 label is_local sh value s =
     bindR (label_to_define label is_local s) (\<lambda>(i, s1).
       Inr (i, define_label i is_local sh value s1))"

definition asm_new_label :: "token \<Rightarrow> nat \<Rightarrow> asm_state \<Rightarrow> (nat \<times> asm_state) res" where
  "asm_new_label label is_local s =
     asm_new_label1 label is_local (sh_num (text_sec s)) (of_nat (ind s)) s"

definition asm_section_sym :: "asm_state \<Rightarrow> (nat \<times> asm_state) res" where
  "asm_section_sym s =
     (let label = Ident (''L.'' @ text_name s) in
      case asm_label_find label s of
        Some i \<Rightarrow> Inr (i, s)
      | None \<Rightarrow> asm_new_label1 label 1 (sh_num (text_sec s)) 0 s)"

section \<open>An initial state\<close>

definition asm_start :: asm_state where
  "asm_start = \<lparr>text_sec = \<lparr>sdata = [], data_offset = 0, sh_num = 1, sh_addr = 0,
       sh_addralign = 4\<rparr>, ind = 0, nocode_wanted = 0, syms = [],
     elf_syms = [\<lparr>st_shndx = 0, st_value = 0\<rparr>], relocs = [], toks = [], text_name = ''.text'',
     idents = (\<lambda>_. []), nb_asm_errors = 0, junk = \<lparr>ev = 0, esym = None, epcrel = False\<rparr>\<rparr>"

end
