(* ===== verification/Asm_Expr.thy ===== *)
theory Asm_Expr
  imports Asm_State
begin

text \<open>
  The assembler's expressions (asm_expr of tccasm.c): unary operators, then products and shifts,
  bitwise operators, sums, comparisons, each level a loop over the operators it knows. Values
  are 64-bit; one label may take part, in sums and differences only.
\<close>

section \<open>Numbers\<close>

text \<open>strtoull with base 0, on a preprocessing number: the value and the text after it.\<close>

definition digit_val :: "char \<Rightarrow> nat" where
  "digit_val c =
     (let n = of_char c :: nat in
      if 48 \<le> n \<and> n \<le> 57 then n - 48
      else if 97 \<le> n \<and> n \<le> 122 then n - 87
      else if 65 \<le> n \<and> n \<le> 90 then n - 55 else 99)"

fun scan_digits :: "nat \<Rightarrow> nat \<Rightarrow> string \<Rightarrow> nat \<times> string" where
  "scan_digits base acc [] = (acc, [])"
| "scan_digits base acc (c # cs) =
     (if digit_val c < base then scan_digits base (acc * base + digit_val c) cs else (acc, c # cs))"

definition strtoull0 :: "string \<Rightarrow> u64 \<times> string" where
  "strtoull0 s =
     (let (n, rest) =
        (case s of
           c # x # h # cs \<Rightarrow>
             if c = CHR ''0'' \<and> (x = CHR ''x'' \<or> x = CHR ''X'') \<and> digit_val h < 16
             then scan_digits 16 0 (h # cs)
             else scan_digits (if c = CHR ''0'' then 8 else 10) 0 s
         | c # cs \<Rightarrow> scan_digits (if c = CHR ''0'' then 8 else 10) 0 s
         | [] \<Rightarrow> (0, []))
      in (if n < 2 ^ 64 then of_nat n else - 1, rest))"

section \<open>Operators\<close>

definition no_label :: "ExprValue \<Rightarrow> ExprValue \<Rightarrow> unit res" where
  "no_label e e2 = (if esym e \<noteq> None \<or> esym e2 \<noteq> None
     then Inl (TccError ''invalid operation with label'') else Inr ())"

definition prod_op :: "nat \<Rightarrow> u64 \<Rightarrow> u64 \<Rightarrow> u64 res" where
  "prod_op op a b =
     (if op = 0x2a then Inr (a * b)
      else if op = 0x2f then (if b = 0 then Inl (TccError ''division by zero'') else Inr (a div b))
      else if op = 0x25 then (if b = 0 then Inl (TccError ''division by zero'') else Inr (a mod b))
      else if b \<ge> 64 then Inl MemFault
      else if op = TOK_SHL then Inr (push_bit (unat b) a)
      else Inr (drop_bit (unat b) a))"

definition logic_op :: "nat \<Rightarrow> u64 \<Rightarrow> u64 \<Rightarrow> u64" where
  "logic_op op a b = (if op = 0x26 then a AND b else if op = 0x7c then a OR b else a XOR b)"

definition cmp_op :: "nat \<Rightarrow> u64 \<Rightarrow> u64 \<Rightarrow> u64" where
  "cmp_op op a b =
     - (if op = TOK_EQ then of_bool (a = b)
        else if op = TOK_NE then of_bool (a \<noteq> b)
        else if op = TOK_LT then of_bool (sint a < sint b)
        else if op = TOK_GE then of_bool (sint b \<le> sint a)
        else if op = TOK_LE then of_bool (sint a \<le> sint b)
        else if op = TOK_GT then of_bool (sint b < sint a)
        else a)"

definition is_prod_tok :: "nat \<Rightarrow> bool" where
  "is_prod_tok op \<longleftrightarrow> op \<in> set [0x2a, 0x2f, 0x25, TOK_SHL, TOK_SAR]"

definition is_logic_tok :: "nat \<Rightarrow> bool" where
  "is_logic_tok op \<longleftrightarrow> op \<in> set [0x26, 0x7c, 0x5e]"

definition is_sum_tok :: "nat \<Rightarrow> bool" where
  "is_sum_tok op \<longleftrightarrow> op \<in> set [0x2b, 0x2d]"

definition is_cmp_tok :: "nat \<Rightarrow> bool" where
  "is_cmp_tok op \<longleftrightarrow> op = TOK_EQ \<or> op = TOK_NE \<or> (TOK_ULE \<le> op \<and> op \<le> TOK_GT)"

text \<open>Each level: what the operator does to the value read so far and the next operand.\<close>

type_synonym expr_res = "(ExprValue \<times> asm_state) res"

definition prod_step :: "nat \<Rightarrow> ExprValue \<Rightarrow> ExprValue \<Rightarrow> asm_state \<Rightarrow> ExprValue res" where
  "prod_step op e e2 s =
     bindR (no_label e e2) (\<lambda>_. bindR (prod_op op (ev e) (ev e2)) (\<lambda>v. Inr (e\<lparr>ev := v\<rparr>)))"

definition logic_step :: "nat \<Rightarrow> ExprValue \<Rightarrow> ExprValue \<Rightarrow> asm_state \<Rightarrow> ExprValue res" where
  "logic_step op e e2 s =
     bindR (no_label e e2) (\<lambda>_. Inr (e\<lparr>ev := logic_op op (ev e) (ev e2)\<rparr>))"

definition sum_step :: "nat \<Rightarrow> ExprValue \<Rightarrow> ExprValue \<Rightarrow> asm_state \<Rightarrow> ExprValue res" where
  "sum_step op e e2 s =
     (if op = 0x2b
      then (if esym e \<noteq> None \<and> esym e2 \<noteq> None
            then Inl (TccError ''invalid operation with label'')
            else Inr (e\<lparr>ev := ev e + ev e2, esym := (if esym e = None then esym e2 else esym e)\<rparr>))
      else
       let e1 = e\<lparr>ev := ev e - ev e2\<rparr> in
       if esym e2 = None then Inr e1
       else if esym e1 = esym e2 then Inr (e1\<lparr>esym := None\<rparr>)
       else
        (case elfsym (esym e2) s of
           None \<Rightarrow> Inl MemFault
         | Some s2 \<Rightarrow>
           (case elfsym (esym e1) s of
              Some s1 \<Rightarrow>
                if st_shndx s1 = st_shndx s2 \<and> st_shndx s1 \<noteq> SHN_UNDEF
                then Inr (e1\<lparr>ev := ev e1 + ucast (st_value s1 - st_value s2), esym := None\<rparr>)
                else if st_shndx s2 = sh_num (text_sec s)
                then Inr (e1\<lparr>ev := ev e1 - ucast (st_value s2 - of_nat (ind s) - 4), epcrel := True\<rparr>)
                else Inl (TccError ''invalid operation with label'')
            | None \<Rightarrow>
                if st_shndx s2 = sh_num (text_sec s)
                then Inr (e1\<lparr>ev := ev e1 - ucast (st_value s2 - of_nat (ind s) - 4), epcrel := True\<rparr>)
                else Inl (TccError ''invalid operation with label''))))"

definition cmp_step :: "nat \<Rightarrow> ExprValue \<Rightarrow> ExprValue \<Rightarrow> asm_state \<Rightarrow> ExprValue res" where
  "cmp_step op e e2 s =
     bindR (no_label e e2) (\<lambda>_. Inr (e\<lparr>ev := cmp_op op (ev e) (ev e2)\<rparr>))"

section \<open>The parser\<close>

text \<open>
  The loop every level is: while the token is one of the level's operators, read the operand
  above it and combine. The loop takes fuel; every round consumes a token.
\<close>

fun level_loop ::
    "(nat \<Rightarrow> bool) \<Rightarrow> (nat \<Rightarrow> ExprValue \<Rightarrow> ExprValue \<Rightarrow> asm_state \<Rightarrow> ExprValue res) \<Rightarrow>
     (asm_state \<Rightarrow> expr_res) \<Rightarrow> nat \<Rightarrow> ExprValue \<Rightarrow> asm_state \<Rightarrow> expr_res" where
  "level_loop is_op step sub 0 e s = Inl NoReturn"
| "level_loop is_op step sub (Suc fuel) e s =
     (case tok s of
        Ch op \<Rightarrow>
          if is_op op
          then bindR (sub (next_tok s)) (\<lambda>(e2, s1).
                 bindR (step op e e2 s1) (\<lambda>e'. level_loop is_op step sub fuel e' s1))
          else Inr (e, s)
      | _ \<Rightarrow> Inr (e, s))"

definition level ::
    "(nat \<Rightarrow> bool) \<Rightarrow> (nat \<Rightarrow> ExprValue \<Rightarrow> ExprValue \<Rightarrow> asm_state \<Rightarrow> ExprValue res) \<Rightarrow>
     (asm_state \<Rightarrow> expr_res) \<Rightarrow> nat \<Rightarrow> asm_state \<Rightarrow> expr_res" where
  "level is_op step sub fuel s =
     bindR (sub s) (\<lambda>(e, s1). level_loop is_op step sub fuel e s1)"

definition asm_expr_prod :: "(asm_state \<Rightarrow> expr_res) \<Rightarrow> nat \<Rightarrow> asm_state \<Rightarrow> expr_res" where
  "asm_expr_prod unary fuel = level is_prod_tok prod_step unary fuel"

definition asm_expr_logic :: "(asm_state \<Rightarrow> expr_res) \<Rightarrow> nat \<Rightarrow> asm_state \<Rightarrow> expr_res" where
  "asm_expr_logic unary fuel = level is_logic_tok logic_step (asm_expr_prod unary fuel) fuel"

definition asm_expr_sum :: "(asm_state \<Rightarrow> expr_res) \<Rightarrow> nat \<Rightarrow> asm_state \<Rightarrow> expr_res" where
  "asm_expr_sum unary fuel = level is_sum_tok sum_step (asm_expr_logic unary fuel) fuel"

definition asm_expr_cmp :: "(asm_state \<Rightarrow> expr_res) \<Rightarrow> nat \<Rightarrow> asm_state \<Rightarrow> expr_res" where
  "asm_expr_cmp unary fuel = level is_cmp_tok cmp_step (asm_expr_sum unary fuel) fuel"

text \<open>A local label reference: \<open>n\<close> followed by b or f.\<close>

definition local_label :: "u64 \<Rightarrow> char \<Rightarrow> asm_state \<Rightarrow> expr_res" where
  "local_label n c s =
     (let label = asm_get_local_label_name (ucast n);
          chain = asm_label_chain label s;
          undefined = (\<lambda>i. case elfsym (Some i) s of None \<Rightarrow> True | Some e \<Rightarrow> st_shndx e = SHN_UNDEF) in
      if c = CHR ''b''
      then
       (case chain of
          [] \<Rightarrow> Inl (TccError ''local label not found backward'')
        | i # rest \<Rightarrow>
          if undefined i
          then (case rest of [] \<Rightarrow> Inl (TccError ''local label not found backward'')
                | j # _ \<Rightarrow> Inr (\<lparr>ev = 0, esym = Some j, epcrel = False\<rparr>, next_tok s))
          else Inr (\<lparr>ev = 0, esym = Some i, epcrel = False\<rparr>, next_tok s))
      else
       (case chain of
          [] \<Rightarrow> (let (j, s1) = asm_label_push label s in
                  Inr (\<lparr>ev = 0, esym = Some j, epcrel = False\<rparr>, next_tok s1))
        | i # _ \<Rightarrow>
          if undefined i then Inr (\<lparr>ev = 0, esym = Some i, epcrel = False\<rparr>, next_tok s)
          else (let (j, s1) = asm_label_push label s in
                Inr (\<lparr>ev = 0, esym = Some j, epcrel = False\<rparr>, next_tok s1))))"

definition asm_symbol :: "token \<Rightarrow> asm_state \<Rightarrow> expr_res" where
  "asm_symbol t s =
     (let (i, s1) = get_asm_sym t s in
      case elfsym (Some i) s1 of
        Some e \<Rightarrow>
          if st_shndx e = SHN_ABS
          then Inr (\<lparr>ev = ucast (st_value e), esym = None, epcrel = False\<rparr>, next_tok s1)
          else Inr (\<lparr>ev = 0, esym = Some i, epcrel = False\<rparr>, next_tok s1)
      | None \<Rightarrow> Inr (\<lparr>ev = 0, esym = Some i, epcrel = False\<rparr>, next_tok s1))"

fun asm_expr_unary :: "nat \<Rightarrow> asm_state \<Rightarrow> expr_res" where
  "asm_expr_unary 0 s = Inl NoReturn"
| "asm_expr_unary (Suc n) s =
     (case tok s of
        PPNum p \<Rightarrow>
          (case strtoull0 p of (v, rest) \<Rightarrow>
            case rest of
              [] \<Rightarrow> Inr (\<lparr>ev = v, esym = None, epcrel = False\<rparr>, next_tok s)
            | c # _ \<Rightarrow>
              if c = CHR ''b'' \<or> c = CHR ''f'' then local_label v c s
              else Inl (TccError ''invalid number syntax''))
      | Ch c \<Rightarrow>
          if c = 0x2b then asm_expr_unary n (next_tok s)
          else if c = 0x2d \<or> c = 0x7e then
            bindR (asm_expr_unary n (next_tok s)) (\<lambda>(e, s1).
              if esym e \<noteq> None then Inl (TccError ''invalid operation with label'')
              else Inr (e\<lparr>ev := (if c = 0x2d then - ev e else NOT (ev e))\<rparr>, s1))
          else if c = 0x28 then
            bindR (asm_expr_cmp (asm_expr_unary n) n (next_tok s)) (\<lambda>(e, s1).
              bindR (skip 0x29 s1) (\<lambda>s2. Inr (e, s2)))
          else if c = 0x2e then
            bindR (asm_section_sym s) (\<lambda>(i, s1).
              Inr (\<lparr>ev = of_nat (ind s), esym = Some i, epcrel = False\<rparr>, next_tok s1))
          else Inl (TccError ''bad expression syntax'')
      | CharConst v \<Rightarrow> Inr (\<lparr>ev = v, esym = None, epcrel = False\<rparr>, next_tok s)
      | AsmTok t \<Rightarrow> asm_symbol (AsmTok t) s
      | Ident t \<Rightarrow> asm_symbol (Ident t) s
      | Eof \<Rightarrow> Inl (TccError ''bad expression syntax''))"

text \<open>The fuel is one more than the number of tokens left, which is always enough.\<close>

definition asm_expr :: "asm_state \<Rightarrow> expr_res" where
  "asm_expr s =
     (let n = Suc (length (toks s)) in asm_expr_cmp (asm_expr_unary n) n s)"

definition asm_int_expr :: "asm_state \<Rightarrow> (u32 \<times> asm_state) res" where
  "asm_int_expr s = bindR (asm_expr s) (\<lambda>(e, s1).
     if esym e \<noteq> None then Inl (Expected ''constant'') else Inr (ucast (ev e), s1))"

definition set_symbol :: "token \<Rightarrow> asm_state \<Rightarrow> (nat \<times> asm_state) res" where
  "set_symbol label s =
     bindR (asm_expr (next_tok s)) (\<lambda>(e, s1).
       case elfsym (esym e) s1 of
         Some es \<Rightarrow> asm_new_label1 label 2 (st_shndx es) (ucast (ev e) + st_value es) s1
       | None \<Rightarrow> asm_new_label1 label 2 SHN_ABS (ucast (ev e)) s1)"

end
