(* ===== verification/Riscv_Asm.thy ===== *)
theory Riscv_Asm
  imports Asm_Expr
begin

text \<open>
  riscv32-asm.c: the operands of an assembler instruction and, one definition per handler, the
  instructions themselves, up to the dispatch in asm_opcode and the clobber lists of inline
  assembly. A handler reads its operands from the token stream and appends the instruction words.
\<close>

section \<open>Operands\<close>

abbreviation (input) OP_REG :: u32 where "OP_REG \<equiv> 1"
abbreviation (input) OP_IM12S :: u32 where "OP_IM12S \<equiv> 2"
abbreviation (input) OP_IM21 :: u32 where "OP_IM21 \<equiv> 4"
abbreviation (input) OP_IM32 :: u32 where "OP_IM32 \<equiv> 8"
abbreviation (input) OP_SYM :: u32 where "OP_SYM \<equiv> 16"

abbreviation (input) R_BRANCH :: nat where "R_BRANCH \<equiv> 16"
abbreviation (input) R_CALL :: nat where "R_CALL \<equiv> 18"
abbreviation (input) R_HI20 :: nat where "R_HI20 \<equiv> 26"
abbreviation (input) R_LO12_I :: nat where "R_LO12_I \<equiv> 27"

text \<open>
  The register number shares its memory with the lowest byte of the expression's value, so
  reading one where the other was written is defined here as it is in C.
\<close>

record Operand =
  op_type :: u32
  op_e :: ExprValue

definition op_reg :: "Operand \<Rightarrow> u32" where
  "op_reg p = ucast (ucast (ev (op_e p)) :: u8)"

definition op_imm :: "Operand \<Rightarrow> u32" where
  "op_imm p = ucast (ev (op_e p))"

definition set_reg :: "nat \<Rightarrow> ExprValue \<Rightarrow> ExprValue" where
  "set_reg r e = e\<lparr>ev := (ev e AND NOT 0xff) OR of_nat r\<rparr>"

definition imm_op_type_from_size :: "u32 \<Rightarrow> u32" where
  "imm_op_type_from_size val =
     (let type = OP_IM32;
          type = (if sint val \<ge> - 2048 \<and> sint val < 2048 then type OR OP_IM12S else type);
          type = (if val \<le> 0x1fffff then type OR OP_IM21 else type)
      in type)"

definition asm_parse_regvar :: "token \<Rightarrow> nat option" where
  "asm_parse_regvar t =
     (case t of
        AsmTok n \<Rightarrow> (if n \<le> TOK_ASM_pc then (if n = TOK_ASM_pc then None else Some n) else None)
      | _ \<Rightarrow> None)"

text \<open>
  The operand made of an expression: without a label its type says how wide its value is; a
  label counts by the number of its ELF symbol.
\<close>

definition classify_operand :: "ExprValue \<Rightarrow> asm_state \<Rightarrow> Operand" where
  "classify_operand e s =
     (case esym e of
        None \<Rightarrow> \<lparr>op_type = imm_op_type_from_size (ucast (ev e)), op_e = e\<rparr>
      | Some i \<Rightarrow>
        (let sy = syms s ! i in
         case asm_parse_regvar (as_tok sy) of
           Some r \<Rightarrow> \<lparr>op_type = OP_SYM OR OP_REG, op_e = set_reg r e\<rparr>
         | None \<Rightarrow>
           \<lparr>op_type = OP_SYM OR imm_op_type_from_size (of_nat (as_c sy)),
            op_e = e\<lparr>ev := of_nat (as_c sy)\<rparr>\<rparr>))"

definition parse_operand :: "asm_state \<Rightarrow> (Operand \<times> asm_state) res" where
  "parse_operand s =
     (case asm_parse_regvar (tok s) of
        Some r \<Rightarrow> Inr (\<lparr>op_type = OP_REG, op_e = set_reg r (junk s)\<rparr>, next_tok s)
      | None \<Rightarrow>
        bindR (asm_expr (if tok s = Ch 0x24 then next_tok s else s)) (\<lambda>(e, s1).
          Inr (classify_operand e s1, s1)))"

definition asm_error_noabort :: "asm_state \<Rightarrow> asm_state" where
  "asm_error_noabort s = s\<lparr>nb_asm_errors := nb_asm_errors s + 1\<rparr>"

definition check_register :: "Operand \<Rightarrow> asm_state \<Rightarrow> bool \<times> asm_state" where
  "check_register p s = (if op_type p \<noteq> OP_REG then (False, asm_error_noabort s) else (True, s))"

definition check_immediate :: "Operand \<Rightarrow> asm_state \<Rightarrow> bool \<times> asm_state" where
  "check_immediate p s =
     (if op_type p \<noteq> OP_IM12S \<and> op_type p \<noteq> OP_IM32 \<and> op_type p \<noteq> OP_IM21
      then (False, asm_error_noabort s) else (True, s))"

definition generate_symbol_reallocation :: "Operand \<Rightarrow> nat \<Rightarrow> asm_state \<Rightarrow> asm_state" where
  "generate_symbol_reallocation p t s =
     (case esym (op_e p) of None \<Rightarrow> s | Some i \<Rightarrow> greloc i t s)"

text \<open>
  Reading an operand that has to be a register, the comma between two operands, and the last
  step of most handlers: pick the emitter for the mnemonic, or report the mnemonic as unknown.
\<close>

definition parse_register :: "string \<Rightarrow> asm_state \<Rightarrow> (Operand \<times> asm_state) res" where
  "parse_register msg s =
     bindR (parse_operand s) (\<lambda>(p, s1).
       let (ok, s2) = check_register p s1 in
       if ok then Inr (p, s2) else Inl (TccError msg))"

definition expect_ch :: "nat \<Rightarrow> string \<Rightarrow> asm_state \<Rightarrow> asm_state res" where
  "expect_ch c msg s = (if tok s = Ch c then Inr (next_tok s) else Inl (Expected msg))"

definition comma :: "asm_state \<Rightarrow> asm_state res" where
  "comma = expect_ch 0x2c '',''"

definition select :: "(nat \<times> 'f) list \<Rightarrow> nat \<Rightarrow> string \<Rightarrow> 'f res" where
  "select table token msg =
     (case map_of table token of Some f \<Rightarrow> Inr f | None \<Rightarrow> Inl (Expected msg))"

section \<open>Instructions without operands, and with one\<close>

definition asm_nullary_opcode :: "nat \<Rightarrow> asm_state \<Rightarrow> asm_state res" where
  "asm_nullary_opcode token s =
     (if token = TOK_ASM_wfi then Inr (o_insn (push_bit 2 0x1C OR 3 OR push_bit 20 0x105) s)
      else if token = TOK_ASM_ret then Inr (emit_RET s)
      else Inl (Expected ''nullary instruction''))"

definition asm_unary_opcode :: "nat \<Rightarrow> asm_state \<Rightarrow> asm_state res" where
  "asm_unary_opcode token s =
     bindR (parse_operand s) (\<lambda>(p, s1).
       if token \<noteq> TOK_ASM_j \<and> op_type p \<noteq> OP_REG
       then Inl (TccError ''Expected operand to be a register'')
       else if token = TOK_ASM_j \<and> op_type p = OP_REG
       then Inl (TccError ''Expected operand to be an immediate offset'')
       else if token = TOK_ASM_j then Inr (emit_J_inst (op_imm p) s1)
       else bindR
         (select
           [(TOK_ASM_rdcycle, emit_RDCYCLE), (TOK_ASM_rdcycleh, emit_RDCYCLEH),
            (TOK_ASM_rdtime, emit_RDTIME), (TOK_ASM_rdtimeh, emit_RDTIMEH),
            (TOK_ASM_rdinstret, emit_RDINSTRET), (TOK_ASM_rdinstreth, emit_RDINSTRETH)]
           token ''unary instruction'')
         (\<lambda>f. Inr (f (op_reg p) s1)))"

section \<open>Two operands\<close>

text \<open>An unknown mnemonic here falls out of the switch: nothing is emitted and no error raised.\<close>

definition asm_binary_pseudocode :: "nat \<Rightarrow> asm_state \<Rightarrow> asm_state res" where
  "asm_binary_pseudocode token s =
     bindR (parse_operand s) (\<lambda>(rd, s1).
       if op_type rd \<noteq> OP_REG
       then Inl (TccError ''Expected destination operand that is a register'')
       else bindR (comma s1) (\<lambda>s2. bindR (parse_operand s2) (\<lambda>(rs, s3).
       if op_type rs \<noteq> OP_REG
       then Inl (TccError ''Expected source operand that is a register'')
       else
        (case map_of
           [(TOK_ASM_mv, emit_MV), (TOK_ASM_seqz, emit_SEQZ), (TOK_ASM_snez, emit_SNEZ),
            (TOK_ASM_sltz, emit_SLTZ), (TOK_ASM_sgtz, emit_SGTZ)] token of
           Some f \<Rightarrow> Inr (f (op_reg rd) (op_reg rs) s3)
         | None \<Rightarrow> Inr s3))))"

definition branch_zero_table ::
    "(nat \<times> (u32 \<Rightarrow> u32 \<Rightarrow> asm_state \<Rightarrow> asm_state)) list" where
  "branch_zero_table =
     [(TOK_ASM_beqz, emit_BEQZ), (TOK_ASM_bnez, emit_BNEZ), (TOK_ASM_blez, emit_BEQZ),
      (TOK_ASM_bgez, emit_BGEZ), (TOK_ASM_bltz, emit_BLTZ), (TOK_ASM_bgtz, emit_BGTZ)]"

definition asm_branch_zero_opcode :: "nat \<Rightarrow> asm_state \<Rightarrow> asm_state res" where
  "asm_branch_zero_opcode token s =
     bindR (parse_operand s) (\<lambda>(r1, s1).
       if op_type r1 \<noteq> OP_REG then Inl (TccError ''Expected first operand to be a register'')
       else bindR (comma s1) (\<lambda>s2. bindR (parse_operand s2) (\<lambda>(imm, s3).
         let offset = op_imm imm in
         if offset > 0xfff
         then Inl (TccError ''Expected third operand that is an immediate value'')
         else if offset AND 1 \<noteq> 0
         then Inl (TccError ''Expected third operand that is an even immediate value'')
         else
          let s4 = generate_symbol_reallocation imm R_BRANCH s3 in
          bindR
           (select branch_zero_table token ''known branch instruction'')
           (\<lambda>f. Inr (f (op_reg r1) offset s4)))))"

text \<open>The two relocations of la and li: one for each of the two words about to be written.\<close>

definition hi_lo_relocs :: "Operand \<Rightarrow> asm_state \<Rightarrow> asm_state" where
  "hi_lo_relocs p s =
     (let ind_bak = ind s;
          s1 = generate_symbol_reallocation p R_HI20 s;
          s2 = generate_symbol_reallocation p R_LO12_I (s1\<lparr>ind := ind s1 + 4\<rparr>)
      in s2\<lparr>ind := ind_bak\<rparr>)"

definition asm_binary_opcode :: "nat \<Rightarrow> asm_state \<Rightarrow> asm_state res" where
  "asm_binary_opcode token s =
     bindR (parse_operand s) (\<lambda>(op0, s1).
       if op_type op0 \<noteq> OP_REG
       then Inl (TccError ''Expected destination operand that is a register'')
       else bindR (comma s1) (\<lambda>s2. bindR (parse_operand s2) (\<lambda>(op1, s3).
         if token \<noteq> TOK_ASM_la \<and> op_type op1 AND OP_IM32 = 0
         then Inl (TccError ''Expected second source operand that is an immediate value'')
         else if token \<noteq> TOK_ASM_la \<and> ev (op_e op1) \<ge> 0x100000
         then Inl (TccError ''Expected an immediate value between 0 and 0xfffff'')
         else
          let rd = op_reg op0; imm = op_imm op1 in
          if token = TOK_ASM_la then Inr (emit_LA rd imm (hi_lo_relocs op1 s3))
          else if token = TOK_ASM_li then Inr (emit_LI rd imm (hi_lo_relocs op1 s3))
          else if token = TOK_ASM_lui
          then Inr (emit_LUI rd imm (generate_symbol_reallocation op1 R_HI20 s3))
          else if token = TOK_ASM_auipc
          then Inr (emit_AUIPC rd imm (generate_symbol_reallocation op1 R_HI20 s3))
          else Inl (Expected ''binary instruction''))))"

section \<open>Three operands\<close>

definition branch_table ::
    "(nat \<times> (u32 \<Rightarrow> u32 \<Rightarrow> u32 \<Rightarrow> asm_state \<Rightarrow> asm_state)) list" where
  "branch_table =
     [(TOK_ASM_beq, emit_BEQ), (TOK_ASM_bne, emit_BNE), (TOK_ASM_blt, emit_BLT),
      (TOK_ASM_ble, emit_BLE), (TOK_ASM_bltu, emit_BLTU), (TOK_ASM_bgeu, emit_BGEU),
      (TOK_ASM_bgtu, emit_BGTU), (TOK_ASM_bleu, emit_BLEU)]"

definition asm_branch_opcode :: "nat \<Rightarrow> asm_state \<Rightarrow> asm_state res" where
  "asm_branch_opcode token s =
     bindR (parse_operand s) (\<lambda>(op0, s1).
       if op_type op0 \<noteq> OP_REG then Inl (TccError ''Expected first operand to be a register'')
       else bindR (comma s1) (\<lambda>s2. bindR (parse_operand s2) (\<lambda>(op1, s3).
       if op_type op1 \<noteq> OP_REG then Inl (TccError ''Expected second operand to be a register'')
       else bindR (comma s3) (\<lambda>s4. bindR (parse_operand s4) (\<lambda>(imm, s5).
         let offset = (if op_type imm AND OP_SYM \<noteq> 0 then 0 else op_imm imm) in
         if offset > 0xfff
         then Inl (TccError ''Expected third operand that is an immediate value'')
         else if offset AND 1 \<noteq> 0
         then Inl (TccError ''Expected third operand that is an even immediate value'')
         else
          let s6 = generate_symbol_reallocation imm R_BRANCH s5 in
          bindR
           (select branch_table token ''known branch instruction'')
           (\<lambda>f. Inr (f (op_reg op0) (op_reg op1) offset s6)))))))"

text \<open>The mnemonics of the next handler with their emitters and last operands.\<close>

definition register_table ::
    "Operand \<Rightarrow> (nat \<times> (u32 \<Rightarrow> u32 \<Rightarrow> u32 \<Rightarrow> asm_state \<Rightarrow> asm_state) \<times> u32) list" where
  "register_table r2 =
     [(TOK_ASM_slli, (emit_SLLI, op_imm r2)), (TOK_ASM_srli, (emit_SRLI, op_imm r2)),
     (TOK_ASM_srai, (emit_SRAI, op_imm r2)),
     (TOK_ASM_add, (emit_ADD, op_reg r2)), (TOK_ASM_sub, (emit_SUB, op_reg r2)),
     (TOK_ASM_sll, (emit_SLL, op_reg r2)), (TOK_ASM_slt, (emit_SLT, op_reg r2)),
     (TOK_ASM_sltu, (emit_SLTU, op_reg r2)), (TOK_ASM_xor, (emit_XOR, op_reg r2)),
     (TOK_ASM_srl, (emit_SRL, op_reg r2)), (TOK_ASM_sra, (emit_SRA, op_reg r2)),
     (TOK_ASM_or, (emit_OR, op_reg r2)), (TOK_ASM_and, (emit_AND, op_reg r2)),
     (TOK_ASM_mul, (emit_MUL, op_reg r2)), (TOK_ASM_mulh, (emit_MULH, op_reg r2)),
     (TOK_ASM_mulhsu, (emit_MULHSU, op_reg r2)), (TOK_ASM_div, (emit_DIV, op_reg r2)),
     (TOK_ASM_divu, (emit_DIVU, op_reg r2)), (TOK_ASM_rem, (emit_REM, op_reg r2)),
     (TOK_ASM_remu, (emit_REMU, op_reg r2))]"

definition asm_binary_register_opcode :: "nat \<Rightarrow> asm_state \<Rightarrow> asm_state res" where
  "asm_binary_register_opcode token s =
     bindR (parse_register ''Expected destination to be a register'' s) (\<lambda>(rd, s1).
     bindR (comma s1) (\<lambda>s2.
     bindR (parse_register ''Expected first source operand to be a register'' s2) (\<lambda>(r1, s3).
     bindR (comma s3) (\<lambda>s4.
     bindR (parse_operand s4) (\<lambda>(r2, s5).
       if op_type r2 AND OP_REG = 0 \<and> ev (op_e r2) > 31
       then Inl (TccError ''Expected a register or immediate between 0 and 31'')
       else bindR
         (select (register_table r2) token ''register instruction'')
         (\<lambda>(f, x). Inr (f (op_reg rd) (op_reg r1) x s5)))))))"

definition immediate_table ::
    "(nat \<times> (u32 \<Rightarrow> u32 \<Rightarrow> u32 \<Rightarrow> asm_state \<Rightarrow> asm_state)) list" where
  "immediate_table =
     [(TOK_ASM_addi, emit_ADDI), (TOK_ASM_slti, emit_SLTI), (TOK_ASM_sltiu, emit_SLTIU),
      (TOK_ASM_xori, emit_XORI), (TOK_ASM_ori, emit_ORI), (TOK_ASM_andi, emit_ANDI)]"

definition asm_immediate_opcode :: "nat \<Rightarrow> asm_state \<Rightarrow> asm_state res" where
  "asm_immediate_opcode token s =
     bindR (parse_register ''Expected destination to be a register'' s) (\<lambda>(rd, s1).
     bindR (comma s1) (\<lambda>s2.
     bindR (parse_register ''Expected second source operand to be a register'' s2) (\<lambda>(r1, s3).
     bindR (comma s3) (\<lambda>s4.
     bindR (parse_operand s4) (\<lambda>(imm, s5).
       if op_type imm AND OP_IM12S = 0
       then Inl (TccError ''Expected third operand that is an immediate value'')
       else bindR
         (select immediate_table token ''immediate register instruction'')
         (\<lambda>f. Inr (f (op_reg rd) (op_reg r1) (op_imm imm) s5)))))))"

text \<open>The memory operand: an optional immediate, then a register in parentheses.\<close>

definition parse_offset :: "asm_state \<Rightarrow> (u32 \<times> asm_state) res" where
  "parse_offset s =
     (if tok s \<noteq> Ch 0x28
      then bindR (parse_operand s) (\<lambda>(imm, s1).
        if op_type imm AND OP_IM12S = 0
        then Inl (TccError ''Expected immediate value between -2048 and 2047'')
        else Inr (op_imm imm, s1))
      else Inr (0, s))"

definition load_store_table ::
    "u32 \<Rightarrow> u32 \<Rightarrow> (nat \<times> (u32 \<Rightarrow> asm_state \<Rightarrow> asm_state)) list" where
  "load_store_table r l =
     [(TOK_ASM_lb, emit_LB r l), (TOK_ASM_lh, emit_LH r l), (TOK_ASM_lw, emit_LW r l),
      (TOK_ASM_lbu, emit_LBU r l), (TOK_ASM_lhu, emit_LHU r l),
      (TOK_ASM_sb, emit_SB l r), (TOK_ASM_sh, emit_SH l r), (TOK_ASM_sw, emit_SW l r)]"

definition asm_load_store_opcode :: "nat \<Rightarrow> asm_state \<Rightarrow> asm_state res" where
  "asm_load_store_opcode token s =
     bindR (parse_register ''Expected source to be a register'' s) (\<lambda>(src_dst, s1).
     bindR (comma s1) (\<lambda>s2.
     bindR (parse_offset s2) (\<lambda>(imm, s3).
     bindR (expect_ch 0x28 ''('' s3) (\<lambda>s4.
     bindR (parse_register ''Expected offset operand to be a register'' s4) (\<lambda>(loc_reg, s5).
     bindR (expect_ch 0x29 '')'' s5) (\<lambda>s6.
     let r = op_reg src_dst; l = op_reg loc_reg in
     bindR
       (select (load_store_table r l) token ''store instruction'')
       (\<lambda>f. Inr (f imm s6))))))))"

section \<open>Control and status registers\<close>

text \<open>The number of a register has to be an immediate between 0 and 0xfffff.\<close>

definition check_csr :: "Operand \<Rightarrow> asm_state \<Rightarrow> asm_state res" where
  "check_csr p s =
     (let (ok, s1) = check_immediate p s in
      if \<not> ok \<or> \<not> ev (op_e p) \<le> 0xfffff
      then Inl (TccError ''Expected csr to be an immediate between 0 and 0xfffff'')
      else Inr s1)"

definition asm_control_status_pseudo_opcode :: "nat \<Rightarrow> asm_state \<Rightarrow> asm_state res" where
  "asm_control_status_pseudo_opcode token s =
     bindR (parse_operand s) (\<lambda>(t1, s1).
     bindR
       (if token = TOK_ASM_csrr
        then (let (ok, s2) = check_register t1 s1 in
              if ok then Inr (op_reg t1, 0xffffffff, s2)
              else Inl (TccError ''Expected destination to be a register''))
        else bindR (check_csr t1 s1) (\<lambda>s2. Inr (64, op_imm t1, s2)))
       (\<lambda>(rd, csr, s2).
     bindR (comma s2) (\<lambda>s3.
     bindR (parse_operand s3) (\<lambda>(t2, s4).
     bindR
       (if token = TOK_ASM_csrr \<or> token = TOK_ASM_csrwi \<or> token = TOK_ASM_csrci
        then (let (imm_ok, s5) = check_immediate t2 s4 in
              if token = TOK_ASM_csrr
              then (if \<not> imm_ok \<or> ev (op_e t2) \<le> 0xfffff
                    then Inl (TccError ''Expected csr to be an immediate between 0 and 0xfffff'')
                    else Inr (op_imm t2, 0, 64, s5))
              else if imm_ok \<and> ev (op_e t2) \<le> 31 then Inr (csr, op_imm t2, 64, s5)
              else if \<not> imm_ok then Inr (csr, op_reg t2, 64, s5)
              else Inl (TccError ''Expected second argument to be an immediate''))
        else (let (ok, s5) = check_register t2 s4 in
              if ok then Inr (csr, 0, op_reg t2, s5)
              else Inl (TccError ''Expected second argument to be a register'')))
       (\<lambda>(csr, imm, rs, s5).
     bindR
       (select
         [(TOK_ASM_csrr, emit_CSRR rd csr), (TOK_ASM_csrw, emit_CSRW csr rs),
          (TOK_ASM_csrs, emit_CSRS csr rs), (TOK_ASM_csrc, emit_CSRC csr rs),
          (TOK_ASM_csrwi, emit_CSRWI csr imm), (TOK_ASM_csrsi, emit_CSRSI csr imm),
          (TOK_ASM_csrci, emit_CSRCI csr imm)]
         token ''control and status instruction'')
       (\<lambda>f. Inr (f s5)))))))"

definition asm_control_status_opcode :: "nat \<Rightarrow> asm_state \<Rightarrow> asm_state res" where
  "asm_control_status_opcode token s =
     bindR (parse_register ''Expected destination to be a register'' s) (\<lambda>(rd, s1).
     bindR (comma s1) (\<lambda>s2.
     bindR (parse_operand s2) (\<lambda>(csr, s3).
     bindR (check_csr csr s3) (\<lambda>s4.
     bindR (comma s4) (\<lambda>s5.
     bindR (parse_operand s5) (\<lambda>(_, s6).
     bindR (comma s6) (\<lambda>s7.
     bindR (parse_operand s7) (\<lambda>(temp, s8).
       if op_type temp \<noteq> OP_REG \<and> ev (op_e temp) \<le> 31
       then Inl (TccError ''Expected a register or immediate between 0 and 31'')
       else bindR
         (select
           [(TOK_ASM_csrrw, emit_CSRRW (op_reg rd) (op_imm csr) (op_reg temp)),
            (TOK_ASM_csrrs, emit_CSRRS (op_reg rd) (op_imm csr) (op_reg temp)),
            (TOK_ASM_csrrc, emit_CSRRC (op_reg rd) (op_imm csr) (op_reg temp)),
            (TOK_ASM_csrrwi, emit_CSRRC (op_reg rd) (op_imm csr) (op_imm temp)),
            (TOK_ASM_csrrsi, emit_CSRRC (op_reg rd) (op_imm csr) (op_imm temp)),
            (TOK_ASM_csrrci, emit_CSRRC (op_reg rd) (op_imm csr) (op_imm temp))]
           token ''control and status instruction'')
         (\<lambda>f. Inr (f s8))))))))))"

section \<open>Jumps and calls\<close>

definition asm_jump_opcode :: "nat \<Rightarrow> asm_state \<Rightarrow> asm_state res" where
  "asm_jump_opcode token s =
     bindR (parse_operand s) (\<lambda>(op0, s1).
       if op_type op0 \<noteq> OP_REG
       then bindR
         (if token = TOK_ASM_j then Inr (emit_J_inst (op_imm op0) s1)
          else if token = TOK_ASM_jal then Inr (emit_JAL_x1 (op_imm op0) s1)
          else Inl (Expected ''register''))
         (\<lambda>s2. if op_type op0 AND OP_IM21 = 0
               then Inl (TccError ''Expected an immediate value between 0 and 0x1fffff'')
               else Inr s2)
       else if token = TOK_ASM_jr then Inr (emit_JR (op_reg op0) s1)
       else bindR (comma s1) (\<lambda>s2. bindR (parse_operand s2) (\<lambda>(op1, s3).
         if op_type op0 \<noteq> OP_REG
         then (if token \<noteq> TOK_ASM_jal then Inl (Expected ''register'')
               else if op_type op1 AND OP_IM21 = 0
               then Inl (TccError ''Expected second operand that is an immediate value'')
               else Inr (emit_JAL (op_reg op0) (op_imm op1) s3))
         else bindR (comma s3) (\<lambda>s4. bindR (parse_operand s4) (\<lambda>(op2, s5).
           if op_type op2 AND OP_IM12S = 0
           then Inl (TccError ''Expected third operand that is an immediate value'')
           else if token = TOK_ASM_jalr
           then Inr (emit_JALR (op_reg op0) (op_reg op1) (op_imm op2) s5)
           else Inl (Expected ''jump or link instruction''))))))"

definition asm_call_opcode :: "nat \<Rightarrow> asm_state \<Rightarrow> asm_state res" where
  "asm_call_opcode token s =
     bindR (parse_operand s) (\<lambda>(symbol, s1).
       if op_type symbol AND OP_IM32 = 0 then Inl (TccError ''Expected 32b immediate value'')
       else
        let s2 = generate_symbol_reallocation symbol R_CALL s1 in
        if token = TOK_ASM_call then Inr (emit_CALL (op_imm symbol) s2)
        else if token = TOK_ASM_tail then Inr (emit_TAIL (op_imm symbol) s2)
        else Inl (Expected ''jump or link instruction''))"

section \<open>Dispatch\<close>

text \<open>
  The cases of the switch in asm_opcode. The pseudo-instructions for control and status
  registers fall through, after their handler, into the default case.
\<close>

definition unexpected_instruction :: "asm_state res" where
  "unexpected_instruction = Inl (TccError ''unexpected instruction'')"

definition asm_handlers :: "(nat list \<times> (nat \<Rightarrow> asm_state \<Rightarrow> asm_state res)) list" where
  "asm_handlers =
     [([TOK_ASM_fence], \<lambda>_ s. Inr (emit_FENCE_DEFAULT s)),
      ([TOK_ASM_fence_i], \<lambda>_ s. Inl (TccError ''zfenci instruction not implemented'')),
      ([TOK_ASM_scall, TOK_ASM_ecall], \<lambda>_ s. Inr (emit_ECALL s)),
      ([TOK_ASM_ebreak, TOK_ASM_sbreak], \<lambda>_ s. Inr (emit_EBREAK s)),
      ([TOK_ASM_nop], \<lambda>_ s. Inr (emit_NOP s)),
      ([TOK_ASM_mrts, TOK_ASM_mrth, TOK_ASM_hrts, TOK_ASM_wfi, TOK_ASM_ret], asm_nullary_opcode),
      ([TOK_ASM_rdcycle, TOK_ASM_rdcycleh, TOK_ASM_rdtime, TOK_ASM_rdtimeh, TOK_ASM_rdinstret,
        TOK_ASM_rdinstreth], asm_unary_opcode),
      ([TOK_ASM_la, TOK_ASM_li, TOK_ASM_lui, TOK_ASM_auipc], asm_binary_opcode),
      ([TOK_ASM_mv], asm_binary_pseudocode),
      ([TOK_ASM_lb, TOK_ASM_lh, TOK_ASM_lw, TOK_ASM_lbu, TOK_ASM_lhu, TOK_ASM_sb, TOK_ASM_sh,
        TOK_ASM_sw], asm_load_store_opcode),
      ([TOK_ASM_addi, TOK_ASM_slti, TOK_ASM_sltiu, TOK_ASM_xori, TOK_ASM_ori, TOK_ASM_andi],
        asm_immediate_opcode),
      ([TOK_ASM_slli, TOK_ASM_srli, TOK_ASM_srai, TOK_ASM_add, TOK_ASM_sub, TOK_ASM_sll,
        TOK_ASM_slt, TOK_ASM_sltu, TOK_ASM_xor, TOK_ASM_srl, TOK_ASM_sra, TOK_ASM_or,
        TOK_ASM_and, TOK_ASM_mul, TOK_ASM_mulh, TOK_ASM_mulhsu, TOK_ASM_div, TOK_ASM_divu,
        TOK_ASM_rem, TOK_ASM_remu], asm_binary_register_opcode),
      ([TOK_ASM_beq, TOK_ASM_bne, TOK_ASM_blt, TOK_ASM_bge, TOK_ASM_bleu, TOK_ASM_bgeu,
        TOK_ASM_bltu, TOK_ASM_bgtu], asm_branch_opcode),
      ([TOK_ASM_beqz, TOK_ASM_bnez, TOK_ASM_blez, TOK_ASM_bgez, TOK_ASM_bltz, TOK_ASM_bgtz],
        asm_branch_zero_opcode),
      ([TOK_ASM_j, TOK_ASM_jal, TOK_ASM_jalr, TOK_ASM_jr], asm_jump_opcode),
      ([TOK_ASM_call, TOK_ASM_tail], asm_call_opcode),
      ([TOK_ASM_csrrw, TOK_ASM_csrrs, TOK_ASM_csrrc, TOK_ASM_csrrwi, TOK_ASM_csrrsi,
        TOK_ASM_csrrci], asm_control_status_opcode),
      ([TOK_ASM_csrr, TOK_ASM_csrw, TOK_ASM_csrs, TOK_ASM_csrc, TOK_ASM_csrwi, TOK_ASM_csrsi,
        TOK_ASM_csrci],
       \<lambda>t s. bindR (asm_control_status_pseudo_opcode t s) (\<lambda>_. unexpected_instruction))]"

definition asm_opcode :: "nat \<Rightarrow> asm_state \<Rightarrow> asm_state res" where
  "asm_opcode token s =
     (case find (\<lambda>(tokens, _). token \<in> set tokens) asm_handlers of
        Some (_, handler) \<Rightarrow> handler token s
      | None \<Rightarrow> unexpected_instruction)"

text \<open>
  The names in the order of riscv32-tok.h, and the token a name gets (tok_alloc): its place in
  that table, or an identifier of its own.
\<close>

definition asm_token_names :: "string list" where
  "asm_token_names =
     [''zero'', ''ra'', ''sp'', ''gp'', ''tp'', ''t0'', ''t1'', ''t2'', ''s0'', ''s1'',
      ''a0'', ''a1'', ''a2'', ''a3'', ''a4'', ''a5'', ''a6'', ''a7'', ''s2'', ''s3'', ''s4'',
      ''s5'', ''s6'', ''s7'', ''s8'', ''s9'', ''s10'', ''s11'', ''t3'', ''t4'', ''t5'',
      ''t6'', ''pc'', ''fp'', ''la'', ''li'', ''lb'', ''lh'', ''lw'', ''lbu'', ''lhu'',
      ''sb'', ''sh'', ''sw'', ''sll'', ''slli'', ''srl'', ''srli'', ''sra'', ''srai'',
      ''add'', ''addi'', ''sub'', ''lui'', ''auipc'', ''nop'', ''xor'', ''xori'', ''or'',
      ''ori'', ''and'', ''andi'', ''slt'', ''slti'', ''sltu'', ''sltiu'', ''beq'', ''bne'',
      ''blt'', ''bge'', ''bltu'', ''bgeu'', ''bgt'', ''ble'', ''bgtu'', ''bleu'', ''j'',
      ''jal'', ''jalr'', ''jr'', ''call'', ''tail'', ''ret'', ''fence'', ''fencei'',
      ''scall'', ''sbreak'', ''rdcycle'', ''rdcycleh'', ''rdtime'', ''rdtimeh'',
      ''rdinstret'', ''rdinstreth'', ''csrrw'', ''csrrs'', ''csrrc'', ''csrrwi'', ''csrrsi'',
      ''csrrci'', ''csrr'', ''csrw'', ''csrs'', ''csrc'', ''csrwi'', ''csrsi'', ''csrci'',
      ''ecall'', ''ebreak'', ''mrts'', ''mrth'', ''hrts'', ''wfi'', ''mul'', ''mulh'',
      ''mulhsu'', ''div'', ''divu'', ''rem'', ''remu'', ''mv'', ''seqz'', ''snez'', ''sltz'',
      ''sgtz'', ''beqz'', ''bnez'', ''blez'', ''bgez'', ''bltz'', ''bgtz'']"

definition asm_tok_alloc :: "string \<Rightarrow> token" where
  "asm_tok_alloc str =
     (if str \<in> set asm_token_names
      then AsmTok (length (takeWhile (\<lambda>n. n \<noteq> str) asm_token_names)) else Ident str)"

text \<open>asm_clobber: the clobber list is an array of NB_ASM_REGS flags.\<close>

definition asm_clobber :: "bool list \<Rightarrow> string \<Rightarrow> bool list res" where
  "asm_clobber clobber_regs str =
     (if str \<in> set [''memory'', ''cc'', ''flags''] then Inr clobber_regs
      else
       (case asm_parse_regvar (asm_tok_alloc str) of
          None \<Rightarrow> Inl (TccError ''invalid clobber register'')
        | Some r \<Rightarrow>
          if r < length clobber_regs then Inr (clobber_regs[r := True]) else Inl MemFault))"

end
