(* ===== verification/Asm_Expr_Props.thy ===== *)
theory Asm_Expr_Props
  imports Asm_Expr
begin

text \<open>
  The expression parser returns on every input, and it reads back every expression that is
  printed with the precedences its levels stand for.
\<close>

section \<open>Token consumption\<close>

lemma toks_simps [simp]:
  "toks (next_tok s) = tl (toks s)"
  "toks (snd (asm_label_push v s)) = toks s"
  "toks (put_extern_sym2 i sh val s) = toks s"
  by (simp_all add: next_tok_def asm_label_push_def global_identifier_push_def put_extern_sym2_def Let_def)

lemma toks_get_asm_sym [simp]: "toks (snd (get_asm_sym v s)) = toks s"
  by (simp add: get_asm_sym_def split: option.splits)

lemma tok_nonempty: "tok s \<noteq> Eof \<Longrightarrow> toks s \<noteq> []"
  by (auto simp: tok_def)

text \<open>What a parsing step that returns has done to the token stream, and that it returns.\<close>

definition consumes :: "(asm_state \<Rightarrow> expr_res) \<Rightarrow> nat \<Rightarrow> bool" where
  "consumes f n \<longleftrightarrow>
     (\<forall>s. length (toks s) < n \<longrightarrow> f s \<noteq> Inl NoReturn) \<and>
     (\<forall>s e s'. f s = Inr (e, s') \<longrightarrow> length (toks s') < length (toks s))"

lemma consumesI:
  assumes "\<And>s. length (toks s) < n \<Longrightarrow> f s \<noteq> Inl NoReturn"
    and "\<And>s e s'. f s = Inr (e, s') \<Longrightarrow> length (toks s') < length (toks s)"
  shows "consumes f n"
  using assms by (auto simp: consumes_def)

lemma consumes_return: "consumes f n \<Longrightarrow> length (toks s) < n \<Longrightarrow> f s \<noteq> Inl NoReturn"
  by (simp add: consumes_def)

lemma consumes_less: "consumes f n \<Longrightarrow> f s = Inr (e, s') \<Longrightarrow> length (toks s') < length (toks s)"
  by (simp add: consumes_def)

definition step_returns ::
    "(nat \<Rightarrow> ExprValue \<Rightarrow> ExprValue \<Rightarrow> asm_state \<Rightarrow> ExprValue res) \<Rightarrow> bool" where
  "step_returns step \<longleftrightarrow> (\<forall>op e e2 s. step op e e2 s \<noteq> Inl NoReturn)"

lemma no_label_return: "no_label e e2 \<noteq> Inl NoReturn"
  by (simp add: no_label_def)

lemma prod_op_return: "prod_op op a b \<noteq> Inl NoReturn"
  by (simp add: prod_op_def)

lemma steps_return:
  "step_returns prod_step" "step_returns logic_step" "step_returns sum_step" "step_returns cmp_step"
  unfolding step_returns_def
  by (auto simp: prod_step_def logic_step_def cmp_step_def sum_step_def Let_def no_label_return
      prod_op_return bindR_Inl_iff split: option.splits if_splits)

lemma level_loop_consumes:
  assumes "consumes sub n" and "step_returns step"
  shows "length (toks s) < n \<Longrightarrow> length (toks s) < fuel \<Longrightarrow>
      level_loop is_op step sub fuel e s \<noteq> Inl NoReturn"
    and "level_loop is_op step sub fuel e s = Inr (e', s') \<Longrightarrow> length (toks s') \<le> length (toks s)"
proof (induction fuel arbitrary: e s)
  case 0
  {
    case 1
    then show ?case by simp
  next
    case 2
    then show ?case by simp
  }
next
  case (Suc fuel)
  {
    case 1
    show ?case
    proof (cases "\<exists>op. tok s = Ch op \<and> is_op op")
      case False
      then show ?thesis by (auto split: token.splits)
    next
      case True
      then obtain op where op: "tok s = Ch op" "is_op op" by blast
      then have ne: "toks s \<noteq> []" using tok_nonempty by force
      then have less: "length (toks (next_tok s)) < length (toks s)" by simp
      have "sub (next_tok s) \<noteq> Inl NoReturn"
        using consumes_return [OF assms(1)] less 1(1) by simp
      moreover have "level_loop is_op step sub fuel e'' s1 \<noteq> Inl NoReturn"
        if "sub (next_tok s) = Inr (e2, s1)" for e2 s1 e''
        using consumes_less [OF assms(1) that] less 1 by (intro Suc.IH(1)) simp_all
      moreover have "step op e e2 s1 \<noteq> Inl NoReturn" for e2 s1
        using assms(2) by (simp add: step_returns_def)
      ultimately show ?thesis
        using op by (auto simp: bindR_Inl_iff)
    qed
  next
    case 2
    show ?case
    proof (cases "\<exists>op. tok s = Ch op \<and> is_op op")
      case False
      with 2 show ?thesis by (auto split: token.splits)
    next
      case True
      then obtain op where op: "tok s = Ch op" "is_op op" by blast
      with 2 obtain e2 s1 e'' where "sub (next_tok s) = Inr (e2, s1)"
        "level_loop is_op step sub fuel e'' s1 = Inr (e', s')"
        by (auto simp: bindR_Inr_iff)
      from Suc.IH(2) [OF this(2)] consumes_less [OF assms(1) this(1)] show ?thesis by simp
    qed
  }
qed

lemma level_consumes:
  assumes "consumes sub n" and "step_returns step" and "n \<le> fuel"
  shows "consumes (level is_op step sub fuel) n"
proof (rule consumesI)
  fix s :: asm_state
  assume s: "length (toks s) < n"
  have "level_loop is_op step sub fuel e s1 \<noteq> Inl NoReturn" if "sub s = Inr (e, s1)" for e s1
    using consumes_less [OF assms(1) that] s assms(3)
    by (intro level_loop_consumes(1) [OF assms(1,2)]) simp_all
  then show "level is_op step sub fuel s \<noteq> Inl NoReturn"
    using consumes_return [OF assms(1) s] by (auto simp: level_def bindR_Inl_iff)
next
  fix s e s'
  assume "level is_op step sub fuel s = Inr (e, s')"
  then obtain e1 s1 where "sub s = Inr (e1, s1)" "level_loop is_op step sub fuel e1 s1 = Inr (e, s')"
    by (auto simp: level_def bindR_Inr_iff)
  with consumes_less [OF assms(1) this(1)] level_loop_consumes(2) [OF assms(1,2) this(2)]
  show "length (toks s') < length (toks s)" by simp
qed

lemma asm_expr_cmp_consumes:
  assumes "consumes unary n"
  shows "consumes (asm_expr_cmp unary n) n"
  unfolding asm_expr_cmp_def asm_expr_sum_def asm_expr_logic_def asm_expr_prod_def
  by (intro level_consumes assms steps_return order_refl)

lemma define_label_toks [simp]: "toks (define_label i l sh val s) = toks s"
  by (simp add: define_label_def Let_def)

lemma push_toks: "asm_label_push v s = (i, s') \<Longrightarrow> toks s' = toks s"
  by (auto simp: asm_label_push_def global_identifier_push_def Let_def)

lemma label_to_define_toks: "label_to_define label l s = Inr (i, s') \<Longrightarrow> toks s' = toks s"
  by (auto simp: label_to_define_def dest: push_toks split: option.splits if_splits)

lemma label_to_define_return: "label_to_define label l s \<noteq> Inl NoReturn"
  by (auto simp: label_to_define_def split: option.splits if_splits)

lemma asm_new_label1_toks: "asm_new_label1 label l sh val s = Inr (i, s') \<Longrightarrow> toks s' = toks s"
  by (auto simp: asm_new_label1_def bindR_Inr_iff dest: label_to_define_toks)

lemma asm_section_sym_toks: "asm_section_sym s = Inr (i, s') \<Longrightarrow> toks s' = toks s"
  by (auto simp: asm_section_sym_def Let_def dest: asm_new_label1_toks split: option.splits)

lemma asm_section_sym_return: "asm_section_sym s \<noteq> Inl NoReturn"
  by (auto simp: asm_section_sym_def asm_new_label1_def Let_def bindR_Inl_iff
      label_to_define_return split: option.splits)

lemma local_label_consumes:
  assumes "toks s \<noteq> []"
  shows "local_label v c s \<noteq> Inl NoReturn"
    and "local_label v c s = Inr (e, s') \<Longrightarrow> length (toks s') < length (toks s)"
proof -
  have push: "toks s1 = toks s" if "asm_label_push l s = (j, s1)" for l j s1
    using toks_simps(2) [of l s] that by simp
  show "local_label v c s \<noteq> Inl NoReturn"
    by (auto simp: local_label_def Let_def split: list.splits if_splits prod.splits)
  show "local_label v c s = Inr (e, s') \<Longrightarrow> length (toks s') < length (toks s)"
    using assms
    by (auto simp: local_label_def Let_def push split: list.splits if_splits prod.splits)
qed

lemma asm_symbol_consumes:
  assumes "toks s \<noteq> []"
  shows "asm_symbol t s \<noteq> Inl NoReturn"
    and "asm_symbol t s = Inr (e, s') \<Longrightarrow> length (toks s') < length (toks s)"
proof -
  obtain i s1 where g: "get_asm_sym t s = (i, s1)" by fastforce
  then have "toks s1 = toks s" using toks_get_asm_sym [of t s] by simp
  then show "asm_symbol t s = Inr (e, s') \<Longrightarrow> length (toks s') < length (toks s)"
    and "asm_symbol t s \<noteq> Inl NoReturn"
    using assms g by (auto simp: asm_symbol_def split: option.splits if_splits)
qed

lemma skip_ok: "skip c s = Inr s' \<Longrightarrow> toks s' = tl (toks s)"
  by (auto simp: skip_def split: if_splits)

lemma asm_expr_unary_consumes: "consumes (asm_expr_unary n) n"
proof (induction n)
  case 0
  then show ?case by (simp add: consumes_def)
next
  case (Suc n)
  note cmp = asm_expr_cmp_consumes [OF Suc.IH]
  show ?case
  proof (rule consumesI)
    fix s :: asm_state
    assume s: "length (toks s) < Suc n"
    have less: "toks s \<noteq> [] \<Longrightarrow> length (toks (next_tok s)) < n" using s by (cases "toks s") simp_all
    show "asm_expr_unary (Suc n) s \<noteq> Inl NoReturn"
    proof (cases "tok s")
      case (Ch c)
      then have "toks s \<noteq> []" using tok_nonempty by force
      from less [OF this] have "asm_expr_unary n (next_tok s) \<noteq> Inl NoReturn"
        "asm_expr_cmp (asm_expr_unary n) n (next_tok s) \<noteq> Inl NoReturn"
        using consumes_return [OF Suc.IH] consumes_return [OF cmp] by blast+
      with Ch show ?thesis
        by (auto simp: bindR_Inl_iff asm_section_sym_return skip_def split: if_splits)
    next
      case (PPNum p)
      then have "toks s \<noteq> []" using tok_nonempty by force
      with PPNum local_label_consumes(1) show ?thesis by (auto split: prod.splits list.splits if_splits)
    next
      case (AsmTok t)
      then have "toks s \<noteq> []" using tok_nonempty by force
      with AsmTok asm_symbol_consumes(1) show ?thesis by simp
    next
      case (Ident t)
      then have "toks s \<noteq> []" using tok_nonempty by force
      with Ident asm_symbol_consumes(1) show ?thesis by simp
    qed simp_all
  next
    fix s e s'
    assume r: "asm_expr_unary (Suc n) s = Inr (e, s')"
    then have ne: "toks s \<noteq> []" by (auto simp: tok_def split: list.splits)
    then have less: "length (toks (next_tok s)) < length (toks s)" by simp
    note sub = consumes_less [OF Suc.IH] consumes_less [OF cmp]
    show "length (toks s') < length (toks s)"
    proof (cases "tok s")
      case (Ch c)
      with r less show ?thesis
        by (auto simp: bindR_Inr_iff split: if_splits
            dest!: sub asm_section_sym_toks skip_ok)
    next
      case (PPNum p)
      with r less local_label_consumes(2) [OF ne] show ?thesis
        by (auto split: prod.splits list.splits if_splits)
    qed (use r ne less asm_symbol_consumes(2) [OF ne] in auto)
  qed
qed

text \<open>
  Asm_expr returns on every token stream: the fuel it gives its loops and its recursion
  into parentheses, one more than the number of tokens left, is never used up; and when it
  yields a value it has consumed at least one token.
\<close>

theorem asm_expr_returns:
  "case asm_expr s of Inl e \<Rightarrow> e \<noteq> NoReturn | Inr (e, s') \<Rightarrow> length (toks s') < length (toks s)"
proof -
  have "consumes (asm_expr_cmp (asm_expr_unary (Suc (length (toks s)))) (Suc (length (toks s))))
      (Suc (length (toks s)))"
    by (intro asm_expr_cmp_consumes asm_expr_unary_consumes)
  from consumes_return [OF this, of s] consumes_less [OF this, of s] show ?thesis
    unfolding asm_expr_def Let_def by (auto split: sum.splits)
qed

section \<open>Reading back a printed expression\<close>

text \<open>
  Expressions without labels, their value, and their text. Levels are numbered from the inside:
  0 for unary expressions, 1 products, 2 bitwise operators, 3 sums, 4 comparisons. Operators of
  one level associate to the left.
\<close>

datatype aexp = Num u64 | Neg aexp | Inv aexp | Bin nat aexp aexp

definition op_level :: "nat \<Rightarrow> nat" where
  "op_level op =
     (if is_prod_tok op then 1 else if is_logic_tok op then 2 else if is_sum_tok op then 3
      else if is_cmp_tok op then 4 else 0)"

text \<open>
  The value of an operator, as arithmetic on the values of the operands; a comparison gives all ones
  or zero.
\<close>

definition truth64 :: "bool \<Rightarrow> u64" where
  "truth64 b = (if b then - 1 else 0)"

definition bin_val :: "nat \<Rightarrow> u64 \<Rightarrow> u64 \<Rightarrow> u64 res" where
  "bin_val op a b =
     (if op \<in> {0x2f, 0x25} \<and> b = 0 then Inl (TccError ''division by zero'')
      else if op \<in> {TOK_SHL, TOK_SAR} \<and> uint b \<ge> 64 then Inl MemFault
      else Inr (if op = 0x2a then word_of_int (uint a * uint b)
        else if op = 0x2f then word_of_int (uint a div uint b)
        else if op = 0x25 then word_of_int (uint a mod uint b)
        else if op = TOK_SHL then word_of_int (uint a * 2 ^ unat b)
        else if op = TOK_SAR then word_of_int (uint a div 2 ^ unat b)
        else if op = 0x26 then a AND b
        else if op = 0x7c then a OR b
        else if op = 0x5e then a XOR b
        else if op = 0x2b then word_of_int (uint a + uint b)
        else if op = 0x2d then word_of_int (uint a - uint b)
        else if op = TOK_EQ then truth64 (uint a = uint b)
        else if op = TOK_NE then truth64 (uint a \<noteq> uint b)
        else if op = TOK_LT then truth64 (sint a < sint b)
        else if op = TOK_GE then truth64 (sint a \<ge> sint b)
        else if op = TOK_LE then truth64 (sint a \<le> sint b)
        else if op = TOK_GT then truth64 (sint a > sint b)
        else - a))"

fun aval :: "aexp \<Rightarrow> u64 res" where
  "aval (Num v) = Inr v"
| "aval (Neg a) = bindR (aval a) (\<lambda>v. Inr (- v))"
| "aval (Inv a) = bindR (aval a) (\<lambda>v. Inr (NOT v))"
| "aval (Bin op a b) = bindR (aval a) (\<lambda>v. bindR (aval b) (\<lambda>w. bin_val op v w))"

fun top_level :: "aexp \<Rightarrow> nat" where
  "top_level (Bin op a b) = op_level op"
| "top_level _ = 0"

definition paren :: "bool \<Rightarrow> token list \<Rightarrow> token list" where
  "paren p ts = (if p then Ch 0x28 # ts @ [Ch 0x29] else ts)"

fun text_of :: "aexp \<Rightarrow> token list" where
  "text_of (Num v) = [PPNum (digits 20 (unat v))]"
| "text_of (Neg a) = Ch 0x2d # paren (top_level a > 0) (text_of a)"
| "text_of (Inv a) = Ch 0x7e # paren (top_level a > 0) (text_of a)"
| "text_of (Bin op a b) =
     paren (top_level a > op_level op) (text_of a) @
     Ch op # paren (top_level b \<ge> op_level op) (text_of b)"

fun wf_aexp :: "aexp \<Rightarrow> bool" where
  "wf_aexp (Num v) = True"
| "wf_aexp (Neg a) = wf_aexp a"
| "wf_aexp (Inv a) = wf_aexp a"
| "wf_aexp (Bin op a b) = (op_level op \<noteq> 0 \<and> wf_aexp a \<and> wf_aexp b)"

text \<open>The levels of the parser as one family.\<close>

definition level_op :: "nat \<Rightarrow> nat \<Rightarrow> bool" where
  "level_op d = (if d = 1 then is_prod_tok else if d = 2 then is_logic_tok
     else if d = 3 then is_sum_tok else is_cmp_tok)"

definition level_step :: "nat \<Rightarrow> nat \<Rightarrow> ExprValue \<Rightarrow> ExprValue \<Rightarrow> asm_state \<Rightarrow> ExprValue res" where
  "level_step d = (if d = 1 then prod_step else if d = 2 then logic_step
     else if d = 3 then sum_step else cmp_step)"

primrec parse_level :: "(asm_state \<Rightarrow> expr_res) \<Rightarrow> nat \<Rightarrow> nat \<Rightarrow> asm_state \<Rightarrow> expr_res" where
  "parse_level unary n 0 = unary"
| "parse_level unary n (Suc d) = level (level_op (Suc d)) (level_step (Suc d)) (parse_level unary n d) n"

lemma asm_expr_cmp_level: "asm_expr_cmp unary n = parse_level unary n 4"
  by (simp add: asm_expr_cmp_def asm_expr_sum_def asm_expr_logic_def asm_expr_prod_def
      level_op_def level_step_def eval_nat_numeral)

lemma op_level_bound: "op_level op \<le> 4"
  by (simp add: op_level_def)

lemma op_class_disjoint:
  "is_prod_tok op \<Longrightarrow> \<not> is_logic_tok op \<and> \<not> is_sum_tok op \<and> \<not> is_cmp_tok op"
  "is_logic_tok op \<Longrightarrow> \<not> is_sum_tok op \<and> \<not> is_cmp_tok op"
  "is_sum_tok op \<Longrightarrow> \<not> is_cmp_tok op"
  by (auto simp: is_prod_tok_def is_logic_tok_def is_sum_tok_def is_cmp_tok_def)

lemma level_op_iff: "0 < d \<Longrightarrow> d \<le> 4 \<Longrightarrow> level_op d op \<longleftrightarrow> op_level op = d"
  using op_class_disjoint [of op] by (auto simp: level_op_def op_level_def)

abbreviation plain :: "u64 \<Rightarrow> ExprValue" where
  "plain v \<equiv> \<lparr>ev = v, esym = None, epcrel = False\<rparr>"

lemma word_arith:
  fixes a b :: u64
  shows "word_of_int (uint a div uint b) = a div b" "word_of_int (uint a mod uint b) = a mod b"
    "word_of_int (uint a * 2 ^ n) = push_bit n a" "word_of_int (uint a div 2 ^ n) = drop_bit n a"
proof -
  show "word_of_int (uint a div uint b) = a div b" by (simp only: word_div_def)
  show "word_of_int (uint a mod uint b) = a mod b" by (simp only: word_mod_def)
  show "word_of_int (uint a * 2 ^ n) = push_bit n a" by (simp add: push_bit_eq_mult)
  have "word_of_int (drop_bit n (uint a)) = drop_bit n a" by (rule bit_word_eqI) (simp add: bit_simps)
  then show "word_of_int (uint a div 2 ^ n) = drop_bit n a" by (simp add: drop_bit_eq_div)
qed

lemma op_levelD:
  "op_level op = 1 \<Longrightarrow> op = 0x2a \<or> op = 0x2f \<or> op = 0x25 \<or> op = TOK_SHL \<or> op = TOK_SAR"
  "op_level op = 2 \<Longrightarrow> op = 0x26 \<or> op = 0x7c \<or> op = 0x5e"
  "op_level op = 3 \<Longrightarrow> op = 0x2b \<or> op = 0x2d"
  "op_level op = 4 \<Longrightarrow> op = TOK_EQ \<or> op = TOK_NE \<or> TOK_ULE \<le> op"
  by (auto simp: op_level_def is_prod_tok_def is_logic_tok_def is_sum_tok_def is_cmp_tok_def split: if_splits)

lemma bin_val_ops:
  "op_level op = 1 \<Longrightarrow> bin_val op a b = prod_op op a b"
  "op_level op = 2 \<Longrightarrow> bin_val op a b = Inr (logic_op op a b)"
  "op_level op = 3 \<Longrightarrow> bin_val op a b = Inr (if op = 0x2b then a + b else a - b)"
  "op_level op = 4 \<Longrightarrow> bin_val op a b = Inr (cmp_op op a b)"
proof -
  show "op_level op = 1 \<Longrightarrow> bin_val op a b = prod_op op a b"
    by (drule op_levelD(1), elim disjE) (simp_all add: bin_val_def prod_op_def word_arith word_le_def push_bit_eq_mult)
  show "op_level op = 2 \<Longrightarrow> bin_val op a b = Inr (logic_op op a b)"
    by (drule op_levelD(2), elim disjE) (simp_all add: bin_val_def logic_op_def)
  show "op_level op = 3 \<Longrightarrow> bin_val op a b = Inr (if op = 0x2b then a + b else a - b)"
    by (drule op_levelD(3), elim disjE) (simp_all add: bin_val_def)
  show "op_level op = 4 \<Longrightarrow> bin_val op a b = Inr (cmp_op op a b)"
    by (drule op_levelD(4), elim disjE) (simp_all add: bin_val_def cmp_op_def truth64_def word_uint_eq_iff)
qed

lemma level_step_plain:
  assumes "op_level op = d" and "0 < d"
  shows "level_step d op (plain v) (plain w) s = bindR (bin_val op v w) (\<lambda>x. Inr (plain x))"
proof -
  consider "d = 1" | "d = 2" | "d = 3" | "d = 4" using assms op_level_bound [of op] by linarith
  then show ?thesis
    using assms(1) bin_val_ops [of op v w]
    by cases (simp_all add: level_step_def prod_step_def logic_step_def sum_step_def cmp_step_def no_label_def Let_def)
qed

text \<open>The next token is no operator of a level above \<open>d\<close>, or of \<open>d\<close> itself.\<close>

definition stops :: "nat \<Rightarrow> token list \<Rightarrow> bool" where
  "stops d r = (case r of Ch op # _ \<Rightarrow> op_level op = 0 \<or> d < op_level op | _ \<Rightarrow> True)"

lemma loop_stops:
  assumes "stops d (toks s)" and "0 < d" and "d \<le> 4"
  shows "level_loop (level_op d) step sub (Suc fuel) e s = Inr (e, s)"
  using assms by (auto simp: stops_def tok_def level_op_iff split: list.splits token.splits)

lemma stops_mono: "stops d r \<Longrightarrow> d' \<le> d \<Longrightarrow> stops d' r"
  by (auto simp: stops_def split: list.splits token.splits)

lemma level_loop_mono:
  "level_loop is_op step sub m e s = Inr R \<Longrightarrow> m \<le> m' \<Longrightarrow> level_loop is_op step sub m' e s = Inr R"
proof (induction m arbitrary: e s m')
  case 0
  then show ?case by simp
next
  case (Suc m)
  then obtain k where k: "m' = Suc k" "m \<le> k" by (cases m') simp_all
  show ?case
  proof (cases "\<exists>op. tok s = Ch op \<and> is_op op")
    case False
    with Suc.prems k show ?thesis by (auto split: token.splits)
  next
    case True
    then obtain op where op: "tok s = Ch op" "is_op op" by blast
    with Suc.prems obtain e2 s1 e' where "sub (next_tok s) = Inr (e2, s1)"
      "step op e e2 s1 = Inr e'" "level_loop is_op step sub m e' s1 = Inr R"
      by (auto simp: bindR_Inr_iff)
    with Suc.IH [OF this(3) k(2)] op k show ?thesis by simp
  qed
qed

lemma tok_toks [simp]: "tok (s\<lparr>toks := t # ts\<rparr>) = t" "next_tok (s\<lparr>toks := t # ts\<rparr>) = s\<lparr>toks := ts\<rparr>"
  by (simp_all add: tok_def next_tok_def)

lemma level_lift:
  assumes "parse_level u n d s = Inr (e, s')" and "d \<le> d'" and "d' \<le> 4"
    and "stops d' (toks s')" and "0 < n"
  shows "parse_level u n d' s = Inr (e, s')"
  using assms
proof (induction d')
  case 0
  then show ?case by simp
next
  case (Suc k)
  show ?case
  proof (cases "d = Suc k")
    case True
    with Suc.prems show ?thesis by simp
  next
    case False
    with Suc.prems stops_mono [of "Suc k" _ k] have "parse_level u n k s = Inr (e, s')"
      by (intro Suc.IH) simp_all
    moreover obtain n' where "n = Suc n'" using Suc.prems(5) by (cases n) simp_all
    ultimately show ?thesis
      using loop_stops [OF Suc.prems(4), of _ _ n' e] Suc.prems(3) by (simp add: level_def)
  qed
qed

lemma paren_parse:
  assumes "parse_level (asm_expr_unary n) n 4 (s\<lparr>toks := ts @ Ch 0x29 # r\<rparr>) =
    Inr (e, s\<lparr>toks := Ch 0x29 # r\<rparr>)"
  shows "asm_expr_unary (Suc n) (s\<lparr>toks := Ch 0x28 # ts @ Ch 0x29 # r\<rparr>) = Inr (e, s\<lparr>toks := r\<rparr>)"
  using assms by (simp add: asm_expr_cmp_level skip_def)

definition shown :: "nat \<Rightarrow> aexp \<Rightarrow> token list" where
  "shown d e = paren (d < top_level e) (text_of e)"

text \<open>At level \<open>d\<close> the parser reads the expression's text up to a token where the level ends.\<close>

definition reads :: "aexp \<Rightarrow> nat \<Rightarrow> bool" where
  "reads e d \<longleftrightarrow> (\<forall>n s r v. aval e = Inr v \<longrightarrow> stops d r \<longrightarrow> length (shown d e) < n \<longrightarrow>
     parse_level (asm_expr_unary n) n d (s\<lparr>toks := shown d e @ r\<rparr>) = Inr (plain v, s\<lparr>toks := r\<rparr>))"

text \<open>The same when more operators of the level follow: the level's loop goes on with the value.\<close>

definition reads_into :: "aexp \<Rightarrow> nat \<Rightarrow> bool" where
  "reads_into e d \<longleftrightarrow> (\<forall>n s r v m R. aval e = Inr v \<longrightarrow> stops (d - 1) r \<longrightarrow>
     m + length (shown d e) \<le> n \<longrightarrow>
     level_loop (level_op d) (level_step d) (parse_level (asm_expr_unary n) n (d - 1)) m (plain v)
       (s\<lparr>toks := r\<rparr>) = Inr R \<longrightarrow>
     parse_level (asm_expr_unary n) n d (s\<lparr>toks := shown d e @ r\<rparr>) = Inr R)"

lemma readsD:
  "reads e d \<Longrightarrow> aval e = Inr v \<Longrightarrow> stops d r \<Longrightarrow> length (shown d e) < n \<Longrightarrow>
   parse_level (asm_expr_unary n) n d (s\<lparr>toks := shown d e @ r\<rparr>) = Inr (plain v, s\<lparr>toks := r\<rparr>)"
  by (simp add: reads_def)

lemma reads_intoD:
  "reads_into e d \<Longrightarrow> aval e = Inr v \<Longrightarrow> stops (d - 1) r \<Longrightarrow> m + length (shown d e) \<le> n \<Longrightarrow>
   level_loop (level_op d) (level_step d) (parse_level (asm_expr_unary n) n (d - 1)) m (plain v)
     (s\<lparr>toks := r\<rparr>) = Inr R \<Longrightarrow>
   parse_level (asm_expr_unary n) n d (s\<lparr>toks := shown d e @ r\<rparr>) = Inr R"
  unfolding reads_into_def by blast

lemma reads_lift:
  assumes "reads e d" and "d \<le> d'" and "d' \<le> 4" and "shown d e = shown d' e"
  shows "reads e d'"
  unfolding reads_def
proof (intro allI impI)
  fix n s r v
  assume *: "aval e = Inr v" "stops d' r" "length (shown d' e) < n"
  have "parse_level (asm_expr_unary n) n d (s\<lparr>toks := shown d' e @ r\<rparr>) = Inr (plain v, s\<lparr>toks := r\<rparr>)"
    using readsD [OF assms(1) *(1) stops_mono [OF *(2) assms(2)]] *(3) assms(4) by simp
  from level_lift [OF this assms(2,3)] *
  show "parse_level (asm_expr_unary n) n d' (s\<lparr>toks := shown d' e @ r\<rparr>) = Inr (plain v, s\<lparr>toks := r\<rparr>)"
    by simp
qed

lemma reads_into_below:
  assumes "reads e d" and "shown d e = shown (Suc d) e"
  shows "reads_into e (Suc d)"
  unfolding reads_into_def
proof (intro allI impI)
  fix n s r v m R
  assume *: "aval e = Inr v" "stops (Suc d - 1) r" "m + length (shown (Suc d) e) \<le> n"
    and loop: "level_loop (level_op (Suc d)) (level_step (Suc d))
      (parse_level (asm_expr_unary n) n (Suc d - 1)) m (plain v) (s\<lparr>toks := r\<rparr>) = Inr R"
  from loop have "0 < m" by (cases m) simp_all
  with readsD [OF assms(1) *(1), of r n s] * assms(2)
  have "parse_level (asm_expr_unary n) n d (s\<lparr>toks := shown (Suc d) e @ r\<rparr>) = Inr (plain v, s\<lparr>toks := r\<rparr>)"
    by simp
  with level_loop_mono [OF loop, of n] *(3)
  show "parse_level (asm_expr_unary n) n (Suc d) (s\<lparr>toks := shown (Suc d) e @ r\<rparr>) = Inr R"
    by (simp add: level_def)
qed

lemma reads_paren:
  assumes "reads e 4" and "top_level e \<le> 4" and "d < top_level e"
  shows "reads e d"
proof -
  have "reads e 0"
    unfolding reads_def
  proof (intro allI impI)
    fix n s r v
    assume *: "aval e = Inr v" "stops 0 r" "length (shown 0 e) < n"
    have sh: "shown 0 e = Ch 0x28 # text_of e @ [Ch 0x29]" "shown 4 e = text_of e"
      using assms(2,3) by (simp_all add: shown_def paren_def)
    from *(3) obtain k where k: "n = Suc k" "length (shown 4 e) < k" by (cases n) (simp_all add: sh)
    have "stops 4 (Ch 0x29 # r)"
      by (simp add: stops_def op_level_def is_prod_tok_def is_logic_tok_def is_sum_tok_def is_cmp_tok_def)
    from paren_parse [OF readsD [OF assms(1) *(1) this k(2), unfolded sh]]
    show "parse_level (asm_expr_unary n) n 0 (s\<lparr>toks := shown 0 e @ r\<rparr>) = Inr (plain v, s\<lparr>toks := r\<rparr>)"
      by (simp add: sh k)
  qed
  then show ?thesis
    using assms by (elim reads_lift) (simp_all add: shown_def)
qed

lemma reads_bin:
  assumes l: "op_level op = Suc d"
    and a: "top_level a \<le> Suc d \<Longrightarrow> reads_into a (Suc d)" "reads a d" and b: "reads b d"
  shows "reads_into (Bin op a b) (Suc d)"
  unfolding reads_into_def
proof (intro allI impI)
  fix n s r v m R
  let ?e = "Bin op a b"
  let ?P = "parse_level (asm_expr_unary n) n"
  assume v: "aval ?e = Inr v" and r: "stops (Suc d - 1) r" and n: "m + length (shown (Suc d) ?e) \<le> n"
    and loop: "level_loop (level_op (Suc d)) (level_step (Suc d)) (?P (Suc d - 1)) m (plain v)
      (s\<lparr>toks := r\<rparr>) = Inr R"
  from v obtain x y where xy: "aval a = Inr x" "aval b = Inr y" "bin_val op x y = Inr v"
    by (auto simp: bindR_Inr_iff)
  have sh: "shown (Suc d) ?e = shown (Suc d) a @ Ch op # shown d b"
    by (simp add: shown_def paren_def l less_Suc_eq_le Suc_le_eq)
  let ?r = "Ch op # shown d b @ r"
  have "0 < m" using loop by (cases m) simp_all
  with n have nb: "length (shown d b) < n" by (simp add: sh)
  have d: "d < 4" using op_level_bound [of op] l by simp
  have step: "level_loop (level_op (Suc d)) (level_step (Suc d)) (?P d) (Suc m) (plain x)
      (s\<lparr>toks := ?r\<rparr>) = Inr R"
    using readsD [OF b xy(2) _ nb, of r s] r loop xy(3) d
    by (simp add: level_op_iff l level_step_plain)
  have stop: "stops d ?r" using l by (simp add: stops_def)
  show "?P (Suc d) (s\<lparr>toks := shown (Suc d) ?e @ r\<rparr>) = Inr R"
  proof (cases "top_level a \<le> Suc d")
    case True
    have "Suc m + length (shown (Suc d) a) \<le> n" using n by (simp add: sh)
    from reads_intoD [OF a(1) [OF True] xy(1) _ this, of ?r s R] stop step
    show ?thesis by (simp only: sh diff_Suc_1 append_assoc append_Cons)
  next
    case False
    then have same: "shown (Suc d) a = shown d a" by (simp add: shown_def)
    have "?P d (s\<lparr>toks := shown d a @ ?r\<rparr>) = Inr (plain x, s\<lparr>toks := ?r\<rparr>)"
      using readsD [OF a(2) xy(1) stop, of n s] n \<open>0 < m\<close> by (simp add: sh same)
    moreover have "level_loop (level_op (Suc d)) (level_step (Suc d)) (?P d) n (plain x)
        (s\<lparr>toks := ?r\<rparr>) = Inr R"
      using n by (intro level_loop_mono [OF step]) (simp add: sh)
    ultimately show ?thesis by (simp add: level_def sh same)
  qed
qed

text \<open>Decimal numbers are read back.\<close>

lemma digit_val_char: "n < 10 \<Longrightarrow> digit_val (char_of (48 + n)) = n"
  by (simp add: digit_val_def Let_def)

lemma scan_digits_append:
  "(\<And>c. c \<in> set ds \<Longrightarrow> digit_val c < base) \<Longrightarrow>
   scan_digits base acc (ds @ cs) = scan_digits base (fst (scan_digits base acc ds)) cs"
  by (induction ds arbitrary: acc) simp_all

lemma digits_digits: "c \<in> set (digits k n) \<Longrightarrow> digit_val c < 10"
  by (induction k n rule: digits.induct) (auto split: if_splits simp: digit_val_char)

lemma scan_digits_digits:
  "n < 10 ^ k \<Longrightarrow> scan_digits 10 0 (digits k n) = (n, [])"
proof (induction k n rule: digits.induct)
  case (1 n)
  then show ?case by simp
next
  case (2 k n)
  show ?case
  proof (cases "n < 10")
    case True
    then show ?thesis by (simp add: digit_val_char)
  next
    case False
    with 2 have "scan_digits 10 0 (digits k (n div 10)) = (n div 10, [])"
      by (simp add: less_mult_imp_div_less)
    with False show ?thesis
      using scan_digits_append [of "digits k (n div 10)" 10 0] digits_digits
      by (simp add: digit_val_char)
  qed
qed

lemma hd_digits:
  "0 < k \<Longrightarrow> n < 10 ^ k \<Longrightarrow> 0 < n \<Longrightarrow> \<exists>c cs. digits k n = c # cs \<and> 0 < digit_val c \<and> digit_val c < 10"
proof (induction k n rule: digits.induct)
  case (1 n)
  then show ?case by simp
next
  case (2 k n)
  show ?case
  proof (cases "n < 10")
    case True
    with 2 show ?thesis by (simp add: digit_val_char)
  next
    case False
    with 2 have "\<exists>c cs. digits k (n div 10) = c # cs \<and> 0 < digit_val c \<and> digit_val c < 10"
      by (intro "2.IH") (auto simp: less_mult_imp_div_less intro: gr0I)
    with False show ?thesis by auto
  qed
qed

lemma digits_zero: "digits 20 0 = [char_of (48 :: nat)]"
proof -
  have "digits (Suc k) 0 = [char_of (48 :: nat)]" for k by simp
  from this [of 19] show ?thesis by simp
qed

lemma strtoull0_digits: "strtoull0 (digits 20 (unat v)) = (v, [])"
proof (cases "v = 0")
  case True
  have "char_of (48 :: nat) = CHR ''0''" by (simp add: char_of_def bit_iff_odd)
  then have "digits 20 0 = ''0''" by (simp only: digits_zero)
  with True show ?thesis by (simp add: strtoull0_def digit_val_def)
next
  case False
  have lt: "unat v < 10 ^ 20" using unsigned_less [of v, where 'a = nat] by simp
  have scan: "scan_digits 10 0 (digits 20 (unat v)) = (unat v, [])"
    using lt by (rule scan_digits_digits)
  obtain c cs where c: "digits 20 (unat v) = c # cs" "0 < digit_val c"
    using hd_digits [of 20 "unat v"] lt False by (auto simp: unat_gt_0)
  then have "c \<noteq> CHR ''0''" by (auto simp: digit_val_def)
  with c(1) scan show ?thesis
    using unsigned_less [of v, where 'a = nat]
    by (auto simp: strtoull0_def Let_def split: list.splits)
qed

lemma reads_atom:
  assumes "reads e 0" and "top_level e = 0"
  shows "(\<forall>d \<le> 4. reads e d) \<and> (\<forall>d. top_level e \<le> d \<longrightarrow> 0 < d \<longrightarrow> d \<le> 4 \<longrightarrow> reads_into e d)"
proof -
  have r: "reads e d" if "d \<le> 4" for d
    using assms that by (elim reads_lift) (simp_all add: shown_def)
  moreover have "reads_into e d" if "0 < d" "d \<le> 4" for d
    using that assms r [of "d - 1"] reads_into_below [of e "d - 1"] by (simp add: shown_def)
  ultimately show ?thesis by blast
qed

lemma reads_num: "reads (Num v) 0"
  unfolding reads_def
proof (intro allI impI)
  fix n s r x
  assume "aval (Num v) = Inr x" "length (shown 0 (Num v)) < n"
  then obtain k where "n = Suc k" "x = v" by (cases n) simp_all
  then show "parse_level (asm_expr_unary n) n 0 (s\<lparr>toks := shown 0 (Num v) @ r\<rparr>) =
      Inr (plain x, s\<lparr>toks := r\<rparr>)"
    by (simp add: shown_def paren_def strtoull0_digits)
qed

lemma reads_prefix:
  assumes "reads a 0"
  shows "reads (Neg a) 0" and "reads (Inv a) 0"
proof -
  have sub: "asm_expr_unary k (s\<lparr>toks := shown 0 a @ r\<rparr>) = Inr (plain v, s\<lparr>toks := r\<rparr>)"
    if "aval a = Inr v" "stops 0 r" "length (shown 0 a) < k" for k s r v
    using readsD [OF assms that(1,2,3), of s] by simp
  show "reads (Neg a) 0"
    unfolding reads_def
  proof (intro allI impI)
    fix n s r v
    assume *: "aval (Neg a) = Inr v" "stops 0 r" "length (shown 0 (Neg a)) < n"
    have sh: "shown 0 (Neg a) = Ch 0x2d # shown 0 a" by (simp add: shown_def paren_def)
    from * sh obtain k w where "n = Suc k" "length (shown 0 a) < k" "aval a = Inr w" "v = - w"
      by (cases n) (auto simp: bindR_Inr_iff)
    then show "parse_level (asm_expr_unary n) n 0 (s\<lparr>toks := shown 0 (Neg a) @ r\<rparr>) =
        Inr (plain v, s\<lparr>toks := r\<rparr>)"
      using sub *(2) by (simp add: sh)
  qed
  show "reads (Inv a) 0"
    unfolding reads_def
  proof (intro allI impI)
    fix n s r v
    assume *: "aval (Inv a) = Inr v" "stops 0 r" "length (shown 0 (Inv a)) < n"
    have sh: "shown 0 (Inv a) = Ch 0x7e # shown 0 a" by (simp add: shown_def paren_def)
    from * sh obtain k w where "n = Suc k" "length (shown 0 a) < k" "aval a = Inr w" "v = NOT w"
      by (cases n) (auto simp: bindR_Inr_iff)
    then show "parse_level (asm_expr_unary n) n 0 (s\<lparr>toks := shown 0 (Inv a) @ r\<rparr>) =
        Inr (plain v, s\<lparr>toks := r\<rparr>)"
      using sub *(2) by (simp add: sh)
  qed
qed

lemma reads_all:
  "wf_aexp e \<Longrightarrow> (\<forall>d \<le> 4. reads e d) \<and> (\<forall>d. top_level e \<le> d \<longrightarrow> 0 < d \<longrightarrow> d \<le> 4 \<longrightarrow> reads_into e d)"
proof (induction e)
  case (Num v)
  show ?case by (rule reads_atom) (simp_all add: reads_num)
next
  case (Neg a)
  then show ?case by (intro reads_atom reads_prefix) simp_all
next
  case (Inv a)
  then show ?case by (intro reads_atom reads_prefix) simp_all
next
  case (Bin op a b)
  then obtain d where d: "op_level op = Suc d" by (cases "op_level op") simp_all
  with op_level_bound [of op] have d4: "Suc d \<le> 4" by simp
  from Bin d4 have ab: "reads a d" "reads b d" "top_level a \<le> Suc d \<Longrightarrow> reads_into a (Suc d)"
    by simp_all
  let ?e = "Bin op a b"
  have into: "reads_into ?e (Suc d)" using reads_bin [OF d ab(3) ab(1,2)] .
  have own: "reads ?e (Suc d)"
    unfolding reads_def
  proof (intro allI impI)
    fix n s r v
    assume *: "aval ?e = Inr v" "stops (Suc d) r" "length (shown (Suc d) ?e) < n"
    show "parse_level (asm_expr_unary n) n (Suc d) (s\<lparr>toks := shown (Suc d) ?e @ r\<rparr>) =
        Inr (plain v, s\<lparr>toks := r\<rparr>)"
    proof (rule reads_intoD [OF into *(1), of r "Suc 0"])
      show "stops (Suc d - 1) r" using stops_mono [OF *(2)] by simp
      show "level_loop (level_op (Suc d)) (level_step (Suc d)) (parse_level (asm_expr_unary n) n (Suc d - 1))
          (Suc 0) (plain v) (s\<lparr>toks := r\<rparr>) = Inr (plain v, s\<lparr>toks := r\<rparr>)"
        using *(2) d4 by (intro loop_stops) simp_all
    qed (use *(3) in simp)
  qed
  have above: "reads ?e k" if "Suc d \<le> k" "k \<le> 4" for k
    using own that d by (elim reads_lift) (simp_all add: shown_def)
  have "reads ?e k" if "k \<le> 4" for k
    using above [of k] above [of 4] d d4 that by (cases "Suc d \<le> k") (auto intro!: reads_paren)
  moreover have "reads_into ?e k" if "Suc d \<le> k" "k \<le> 4" for k
  proof (cases "k = Suc d")
    case True
    with into show ?thesis by simp
  next
    case False
    with that obtain j where "k = Suc j" "Suc d \<le> j" by (cases k) simp_all
    with above [of j] that d show ?thesis by (auto intro!: reads_into_below simp: shown_def)
  qed
  ultimately show ?case using d by simp
qed

lemma asm_expr_text:
  assumes "wf_aexp e" and "aval e = Inr v" and "toks s = text_of e @ r" and "stops 4 r"
  shows "asm_expr s = Inr (\<lparr>ev = v, esym = None, epcrel = False\<rparr>, s\<lparr>toks := r\<rparr>)"
proof -
  have t: "top_level e \<le> 4" by (cases e) (simp_all add: op_level_bound)
  then have sh: "shown 4 e = text_of e" by (simp add: shown_def paren_def)
  have "reads e 4" using reads_all [OF assms(1)] by simp
  from readsD [OF this assms(2,4), of "Suc (length (toks s))" s] assms(3)
  have "parse_level (asm_expr_unary (Suc (length (toks s)))) (Suc (length (toks s))) 4
      (s\<lparr>toks := toks s\<rparr>) = Inr (plain v, s\<lparr>toks := r\<rparr>)"
    by (simp add: sh)
  then show ?thesis by (simp add: asm_expr_def asm_expr_cmp_level Let_def)
qed

text \<open>
  C17: asm_expr reads an expression printed with the precedences and the left associativity of
  its levels as the value of that expression in 64-bit arithmetic, and stops at the first token
  that is no operator.
\<close>

theorem asm_expr_value:
  assumes "wf_aexp e" and "aval e = Inr v" and "toks s = text_of e @ r" and "stops 4 r"
  shows "asm_expr s = Inr (\<lparr>ev = v, esym = None, epcrel = False\<rparr>, s\<lparr>toks := r\<rparr>)"
  by (rule asm_expr_text [OF assms])

lemma asm_expr_value_witness:
  "asm_expr (asm_start\<lparr>toks := text_of (Bin 0x2d (Bin 0x2b (Num 7) (Bin 0x2a (Num 2) (Num 5)))
      (Neg (Num 1))) @ [Ch 0x2c]\<rparr>) =
    Inr (\<lparr>ev = 18, esym = None, epcrel = False\<rparr>,
      asm_start\<lparr>toks := text_of (Bin 0x2d (Bin 0x2b (Num 7) (Bin 0x2a (Num 2) (Num 5)))
      (Neg (Num 1))) @ [Ch 0x2c], toks := [Ch 0x2c]\<rparr>)"
  by (rule asm_expr_value [where e = "Bin 0x2d (Bin 0x2b (Num 7) (Bin 0x2a (Num 2) (Num 5)))
      (Neg (Num 1))"])
    (simp_all add: op_level_def stops_def bin_val_def is_prod_tok_def is_logic_tok_def
      is_sum_tok_def is_cmp_tok_def)

end
