(* ===== verification/Riscv_Asm_Props.thy ===== *)
theory Riscv_Asm_Props
  imports Riscv_Asm Asm_Expr_Props Riscv_Emit_Props
begin

text \<open>
  The assembler: what each group of instructions assembles to, which mnemonics are always
  refused, and the frame every instruction keeps: whole words are appended, earlier code stays.
\<close>

section \<open>Parsing leaves the code alone\<close>

definition code_part :: "asm_state \<Rightarrow> emit_state" where
  "code_part s = \<lparr>text_sec = text_sec s, ind = ind s, nocode_wanted = nocode_wanted s\<rparr>"

lemma code_part_simps [simp]:
  "code_part (next_tok s) = code_part s"
  "code_part (put_extern_sym2 i sh val s) = code_part s"
  "code_part (snd (asm_label_push v s)) = code_part s"
  "code_part (snd (get_asm_sym v s)) = code_part s"
  "code_part (greloc i t s) = code_part s"
  "code_part (asm_error_noabort s) = code_part s"
  "code_part (generate_symbol_reallocation p t s) = code_part s"
  by (simp_all add: code_part_def next_tok_def put_extern_sym2_def asm_label_push_def
      global_identifier_push_def get_asm_sym_def greloc_alt asm_error_noabort_def
      generate_symbol_reallocation_def Let_def split: option.splits)

definition keeps_code :: "(asm_state \<Rightarrow> ('a \<times> asm_state) res) \<Rightarrow> bool" where
  "keeps_code f \<longleftrightarrow> (\<forall>s x s'. f s = Inr (x, s') \<longrightarrow> code_part s' = code_part s)"

lemma keeps_codeI:
  "(\<And>s x s'. f s = Inr (x, s') \<Longrightarrow> code_part s' = code_part s) \<Longrightarrow> keeps_code f"
  by (simp add: keeps_code_def)

lemma keeps_codeD: "keeps_code f \<Longrightarrow> f s = Inr (x, s') \<Longrightarrow> code_part s' = code_part s"
  by (simp add: keeps_code_def)

lemma level_loop_keeps:
  assumes "keeps_code sub"
  shows "level_loop is_op step sub fuel e s = Inr (e', s') \<Longrightarrow> code_part s' = code_part s"
proof (induction fuel arbitrary: e s)
  case 0
  then show ?case by simp
next
  case (Suc fuel)
  show ?case
  proof (cases "\<exists>op. tok s = Ch op \<and> is_op op")
    case False
    with Suc.prems show ?thesis by (auto split: token.splits)
  next
    case True
    then obtain op where op: "tok s = Ch op" "is_op op" by blast
    with Suc.prems obtain e2 s1 e'' where "sub (next_tok s) = Inr (e2, s1)"
      "level_loop is_op step sub fuel e'' s1 = Inr (e', s')"
      by (auto simp: bindR_Inr_iff)
    from Suc.IH [OF this(2)] keeps_codeD [OF assms this(1)] show ?thesis by simp
  qed
qed

lemma level_keeps:
  assumes "keeps_code sub"
  shows "keeps_code (level is_op step sub fuel)"
  by (rule keeps_codeI)
    (auto simp: level_def bindR_Inr_iff dest!: level_loop_keeps [OF assms] keeps_codeD [OF assms])

lemma asm_expr_cmp_keeps: "keeps_code unary \<Longrightarrow> keeps_code (asm_expr_cmp unary n)"
  unfolding asm_expr_cmp_def asm_expr_sum_def asm_expr_logic_def asm_expr_prod_def
  by (intro level_keeps)

lemma define_label_keeps [simp]: "code_part (define_label i l sh val s) = code_part s"
  by (simp add: define_label_def Let_def) (simp add: code_part_def put_extern_sym2_def)

lemma push_keeps: "asm_label_push v s = (i, s') \<Longrightarrow> code_part s' = code_part s"
  by (auto simp: asm_label_push_def global_identifier_push_def Let_def code_part_def)

lemma label_to_define_keeps: "label_to_define label l s = Inr (i, s') \<Longrightarrow> code_part s' = code_part s"
  by (auto simp: label_to_define_def dest: push_keeps split: option.splits if_splits)

lemma asm_new_label1_keeps: "keeps_code (asm_new_label1 label l sh val)"
  by (rule keeps_codeI) (auto simp: asm_new_label1_def bindR_Inr_iff dest: label_to_define_keeps)

lemma asm_section_sym_keeps: "asm_section_sym s = Inr (i, s') \<Longrightarrow> code_part s' = code_part s"
  by (auto simp: asm_section_sym_def Let_def dest: keeps_codeD [OF asm_new_label1_keeps]
      split: option.splits)

lemma local_label_keeps: "local_label v c s = Inr (e, s') \<Longrightarrow> code_part s' = code_part s"
proof -
  have push: "code_part s1 = code_part s" if "asm_label_push l s = (j, s1)" for l j s1
    using code_part_simps(3) [of l s] that by simp
  show "local_label v c s = Inr (e, s') \<Longrightarrow> code_part s' = code_part s"
    by (auto simp: local_label_def Let_def push split: list.splits if_splits prod.splits)
qed

lemma asm_symbol_keeps: "asm_symbol t s = Inr (e, s') \<Longrightarrow> code_part s' = code_part s"
proof -
  obtain i s1 where g: "get_asm_sym t s = (i, s1)" by fastforce
  then have "code_part s1 = code_part s" using code_part_simps(4) [of t s] by simp
  then show "asm_symbol t s = Inr (e, s') \<Longrightarrow> code_part s' = code_part s"
    using g by (auto simp: asm_symbol_def split: option.splits if_splits)
qed

lemma skip_keeps: "skip c s = Inr s' \<Longrightarrow> code_part s' = code_part s"
  by (auto simp: skip_def split: if_splits)

lemma asm_expr_unary_keeps: "keeps_code (asm_expr_unary n)"
proof (induction n)
  case 0
  then show ?case by (simp add: keeps_code_def)
next
  case (Suc n)
  note sub = keeps_codeD [OF Suc.IH] keeps_codeD [OF asm_expr_cmp_keeps [OF Suc.IH]]
  show ?case
  proof (rule keeps_codeI)
    fix s e s'
    assume "asm_expr_unary (Suc n) s = Inr (e, s')"
    then show "code_part s' = code_part s"
      by (cases "tok s")
        (auto simp: bindR_Inr_iff split: if_splits prod.splits list.splits
          dest!: sub asm_section_sym_keeps skip_keeps local_label_keeps asm_symbol_keeps)
  qed
qed

lemma asm_expr_keeps: "asm_expr s = Inr (e, s') \<Longrightarrow> code_part s' = code_part s"
  unfolding asm_expr_def Let_def
  by (rule keeps_codeD [OF asm_expr_cmp_keeps [OF asm_expr_unary_keeps]])

lemma parse_operand_keeps: "parse_operand s = Inr (p, s') \<Longrightarrow> code_part s' = code_part s"
  by (auto simp: parse_operand_def bindR_Inr_iff split: option.splits if_splits
      dest!: asm_expr_keeps)

lemma parse_register_keeps: "parse_register msg s = Inr (p, s') \<Longrightarrow> code_part s' = code_part s"
  by (auto simp: parse_register_def bindR_Inr_iff check_register_def split: if_splits
      dest!: parse_operand_keeps)

lemma expect_ch_keeps: "expect_ch c msg s = Inr s' \<Longrightarrow> code_part s' = code_part s"
  by (auto simp: expect_ch_def split: if_splits)

lemma comma_keeps: "comma s = Inr s' \<Longrightarrow> code_part s' = code_part s"
  unfolding comma_def by (rule expect_ch_keeps)

lemma parse_offset_keeps: "parse_offset s = Inr (x, s') \<Longrightarrow> code_part s' = code_part s"
  by (auto simp: parse_offset_def bindR_Inr_iff split: if_splits dest!: parse_operand_keeps)

lemma hi_lo_relocs_keeps: "code_part (hi_lo_relocs p s) = code_part s"
proof -
  let ?s1 = "generate_symbol_reallocation p R_HI20 s"
  let ?s2 = "generate_symbol_reallocation p R_LO12_I (?s1\<lparr>ind := ind ?s1 + 4\<rparr>)"
  have "code_part ?s2 = code_part (?s1\<lparr>ind := ind ?s1 + 4\<rparr>)" "code_part ?s1 = code_part s"
    by (simp_all only: code_part_simps)
  then show ?thesis
    unfolding hi_lo_relocs_def Let_def by (simp add: code_part_def)
qed

lemmas parsing_keeps = parse_operand_keeps parse_register_keeps comma_keeps expect_ch_keeps
  parse_offset_keeps

section \<open>Every instruction appends whole words\<close>

definition adds :: "nat \<Rightarrow> asm_state \<Rightarrow> asm_state \<Rightarrow> bool" where
  "adds n s s' \<longleftrightarrow> (\<exists>s1 ws. code_part s1 = code_part s \<and> length ws = n \<and> appends s1 ws s')"

lemma adds_word: "code_part s1 = code_part s \<Longrightarrow> adds (Suc 0) s (o_insn w s1)"
  unfolding adds_def by (intro exI [of _ s1] exI [of _ "[w]"]) (simp add: appends_o_insn)

lemma adds_pair: "code_part s1 = code_part s \<Longrightarrow> appends s1 [u, w] s' \<Longrightarrow> adds 2 s s'"
  unfolding adds_def by (intro exI [of _ s1] exI [of _ "[u, w]"]) simp

lemma adds_code:
  assumes "adds n s s'" and "emitting s"
  shows "ind s' = ind s + 4 * n" and "emitting s'"
    and "p + 4 \<le> ind s \<Longrightarrow> code_word s' p = code_word s p"
proof -
  obtain s1 ws where s1: "code_part s1 = code_part s" "length ws = n" "appends s1 ws s'"
    using assms(1) by (auto simp: adds_def)
  then have eq: "text_sec s1 = text_sec s" "ind s1 = ind s" "nocode_wanted s1 = nocode_wanted s"
    by (simp_all add: code_part_def)
  then have e: "emitting s1" using assms(2) by (simp add: emitting_def)
  from appends_words(2,3) [OF s1(3) e] show "ind s' = ind s + 4 * n" "emitting s'"
    by (simp_all add: eq s1(2))
  show "code_word s' p = code_word s p" if "p + 4 \<le> ind s"
    using tsink.word_fold_old [OF e, of p ws] s1(3) that eq by (simp add: appends_def code_word_def)
qed

text \<open>The emitters of the tables append one word each.\<close>

definition one_word :: "(asm_state \<Rightarrow> asm_state) \<Rightarrow> bool" where
  "one_word f \<longleftrightarrow> (\<forall>s s1. code_part s1 = code_part s \<longrightarrow> adds (Suc 0) s (f s1))"

lemma one_wordD: "one_word f \<Longrightarrow> code_part s1 = code_part s \<Longrightarrow> adds (Suc 0) s (f s1)"
  by (simp add: one_word_def)

lemma one_word_formats:
  "one_word (emit_R a b c d e f)" "one_word (emit_I a b c d e)" "one_word (emit_S a b c d e)"
  "one_word (emit_B a b c d e)" "one_word (emit_U a d e)" "one_word (emit_J a d e)"
  by (simp_all add: one_word_def emit_R_def emit_I_def emit_S_def emit_B_def emit_U_def emit_J_def
      adds_word)

lemmas adds_formats = one_word_formats [THEN one_wordD]

lemma table_words:
  "(m, f, x) \<in> set (register_table r) \<Longrightarrow> \<forall>a b y. one_word (f a b y)"
  "(m, f) \<in> set immediate_table \<Longrightarrow> \<forall>a b y. one_word (f a b y)"
  "(m, f) \<in> set branch_table \<Longrightarrow> \<forall>a b y. one_word (f a b y)"
  "(m, g1) \<in> set branch_zero_table \<Longrightarrow> \<forall>a y. one_word (g1 a y)"
  "(m, h) \<in> set (load_store_table u l) \<Longrightarrow> \<forall>y. one_word (h y)"
  by (auto simp: register_table_def immediate_table_def branch_table_def branch_zero_table_def
      load_store_table_def insn_defs one_word_formats)

lemma select_ok: "select table token msg = Inr f \<Longrightarrow> (token, f) \<in> set table"
  by (auto simp: select_def dest: map_of_SomeD split: option.splits)

lemma asm_binary_register_adds: "asm_binary_register_opcode m s = Inr s' \<Longrightarrow> adds (Suc 0) s s'"
  by (auto simp: asm_binary_register_opcode_def bindR_Inr_iff split: if_splits
      dest!: select_ok table_words parsing_keeps intro: one_wordD)

lemma asm_immediate_adds: "asm_immediate_opcode m s = Inr s' \<Longrightarrow> adds (Suc 0) s s'"
  by (auto simp: asm_immediate_opcode_def bindR_Inr_iff split: if_splits
      dest!: select_ok table_words parsing_keeps intro: one_wordD)

lemma asm_branch_adds: "asm_branch_opcode m s = Inr s' \<Longrightarrow> adds (Suc 0) s s'"
  by (auto simp: asm_branch_opcode_def bindR_Inr_iff Let_def split: if_splits
      dest!: select_ok table_words parsing_keeps intro: one_wordD)

lemma asm_branch_zero_adds: "asm_branch_zero_opcode m s = Inr s' \<Longrightarrow> adds (Suc 0) s s'"
  by (auto simp: asm_branch_zero_opcode_def bindR_Inr_iff Let_def split: if_splits
      dest!: select_ok table_words parsing_keeps intro: one_wordD)

lemma asm_load_store_adds: "asm_load_store_opcode m s = Inr s' \<Longrightarrow> adds (Suc 0) s s'"
  by (auto simp: asm_load_store_opcode_def bindR_Inr_iff Let_def
      dest!: select_ok table_words parsing_keeps intro: one_wordD)

lemma asm_nullary_adds: "asm_nullary_opcode m s = Inr s' \<Longrightarrow> adds (Suc 0) s s'"
  by (auto simp: asm_nullary_opcode_def insn_defs split: if_splits
      intro: adds_formats adds_word)

lemma asm_unary_adds: "asm_unary_opcode m s = Inr s' \<Longrightarrow> adds (Suc 0) s s'"
  by (auto simp: asm_unary_opcode_def bindR_Inr_iff insn_defs split: if_splits
      dest!: select_ok parsing_keeps intro!: adds_formats)

lemma asm_mv_adds: "asm_binary_pseudocode TOK_ASM_mv s = Inr s' \<Longrightarrow> adds (Suc 0) s s'"
  by (auto simp: asm_binary_pseudocode_def bindR_Inr_iff insn_defs split: if_splits
      dest!: parsing_keeps intro: adds_formats)

lemma asm_jump_adds: "asm_jump_opcode m s = Inr s' \<Longrightarrow> adds (Suc 0) s s'"
  by (auto simp: asm_jump_opcode_def bindR_Inr_iff insn_defs split: if_splits
      dest!: parsing_keeps intro: adds_formats)

lemma asm_call_adds: "asm_call_opcode m s = Inr s' \<Longrightarrow> adds 2 s s'"
  by (auto simp: asm_call_opcode_def bindR_Inr_iff Let_def split: if_splits
      intro!: adds_pair [OF _ emit_CALL_words] adds_pair [OF _ emit_TAIL_words] dest!: parsing_keeps)

lemma asm_binary_adds:
  assumes "asm_binary_opcode m s = Inr s'"
  shows "adds (if m = TOK_ASM_la \<or> m = TOK_ASM_li then 2 else Suc 0) s s'"
proof -
  from assms obtain op0 s1 s2 op1 s3 where
    p: "parse_operand s = Inr (op0, s1)" "comma s1 = Inr s2" "parse_operand s2 = Inr (op1, s3)"
    by (auto simp: asm_binary_opcode_def bindR_Inr_iff split: if_splits)
  then have k: "code_part s3 = code_part s" by (auto dest!: parsing_keeps)
  let ?rd = "op_reg op0" and ?imm = "op_imm op1"
  from assms p consider
      "m = TOK_ASM_la" "s' = emit_LLA ?rd ?imm (hi_lo_relocs op1 s3)"
    | "m = TOK_ASM_li" "s' = emit_LI ?rd ?imm (hi_lo_relocs op1 s3)"
    | "m = TOK_ASM_lui" "s' = emit_LUI ?rd ?imm (generate_symbol_reallocation op1 R_HI20 s3)"
    | "m = TOK_ASM_auipc" "s' = emit_AUIPC ?rd ?imm (generate_symbol_reallocation op1 R_HI20 s3)"
    by (auto simp: asm_binary_opcode_def Let_def emit_LA_def split: if_splits)
  then show ?thesis
  proof cases
    case 1
    with k show ?thesis by (auto simp: hi_lo_relocs_keeps intro: adds_pair [OF _ emit_LLA_words])
  next
    case 2
    with k show ?thesis by (auto simp: hi_lo_relocs_keeps intro: adds_pair [OF _ emit_LI_words])
  next
    case 3
    with k show ?thesis by (auto simp: emit_LUI_def intro: adds_formats)
  next
    case 4
    with k show ?thesis by (auto simp: emit_AUIPC_def intro: adds_formats)
  qed
qed

section \<open>Mnemonics that are always refused\<close>

lemma imm_op_type_cases:
  "imm_op_type_from_size v \<in> {8, 10, 12, 14}"
  "imm_op_type_from_size v = 8 \<Longrightarrow> 0x1fffff < v"
  by (auto simp: imm_op_type_from_size_def Let_def split: if_splits)

lemma check_csr_rejects:
  assumes "parse_operand s = Inr (p, s1)"
  shows "check_csr p s2 \<noteq> Inr s3"
proof
  assume "check_csr p s2 = Inr s3"
  then have t: "op_type p = 2 \<or> op_type p = 8 \<or> op_type p = 4" and v: "ev (op_e p) \<le> 0xfffff"
    by (auto simp: check_csr_def check_immediate_def split: if_splits)
  from assms consider (reg) "op_type p = 1"
    | (expr) e where "p = classify_operand e s1"
    by (auto simp: parse_operand_def bindR_Inr_iff split: option.splits)
  then show False
  proof cases
    case reg
    with t show False by simp
  next
    case (expr e)
    show False
    proof (cases "esym e")
      case None
      with expr have p: "p = \<lparr>op_type = imm_op_type_from_size (ucast (ev e)), op_e = e\<rparr>"
        by (simp add: classify_operand_def)
      with t imm_op_type_cases(1) [of "ucast (ev e)"] have "imm_op_type_from_size (ucast (ev e)) = 8"
        by auto
      then have "0x1fffff < (ucast (ev e) :: u32)" by (rule imm_op_type_cases(2))
      then have "0x1fffff < unat (ucast (ev e) :: u32)" by (simp add: word_less_nat_alt)
      also have "\<dots> \<le> unat (ev e)"
        by (simp add: unsigned_ucast_eq take_bit_nat_less_eq_self)
      finally show False using v p by (simp add: word_le_nat_alt)
    next
      case (Some i)
      with expr consider "op_type p = 17"
        | "op_type p = 16 OR imm_op_type_from_size (of_nat (as_c (syms s1 ! i)))"
        by (auto simp: classify_operand_def Let_def split: option.splits)
      then show False
        using t imm_op_type_cases(1) [of "of_nat (as_c (syms s1 ! i))"] by cases auto
    qed
  qed
qed

lemma asm_control_status_rejects: "asm_control_status_opcode m s \<noteq> Inr s'"
  by (auto simp: asm_control_status_opcode_def bindR_Inr_iff check_csr_rejects)

text \<open>
  C37: whatever its operands are, an instruction that is assembled without an error appends one
  word (two for la, li, call and tail) at the write position, and every word in front of it
  stays as it was.
\<close>

theorem asm_opcode_appends:
  assumes "asm_opcode m s = Inr s'" and "emitting s" and "p + 4 \<le> ind s"
  shows "ind s' = ind s + (if m \<in> set [TOK_ASM_la, TOK_ASM_li, TOK_ASM_call, TOK_ASM_tail] then 8 else 4) \<and>
    emitting s' \<and> code_word s' p = code_word s p"
proof -
  let ?n = "if m \<in> set [TOK_ASM_la, TOK_ASM_li, TOK_ASM_call, TOK_ASM_tail] then 2 else Suc 0"
  from assms(1) obtain ts h where h: "(ts, h) \<in> set asm_handlers" "m \<in> set ts" "h m s = Inr s'"
    by (auto simp: asm_opcode_def unexpected_instruction_def split: option.splits dest!: find_SomeD)
  have "adds ?n s s'"
    using h asm_binary_adds [of m s s']
    by (auto simp: asm_handlers_def insn_defs unexpected_instruction_def asm_control_status_rejects
        bindR_Inr_iff intro!: adds_formats
        dest: asm_nullary_adds asm_unary_adds asm_mv_adds asm_load_store_adds asm_immediate_adds
          asm_binary_register_adds asm_branch_adds asm_branch_zero_adds asm_jump_adds asm_call_adds)
  from adds_code [OF this assms(2)] assms(3) show ?thesis by simp
qed

lemma emitting_asm_start [simp]: "emitting asm_start"
  by (simp add: emitting_def asm_start_def)

lemma asm_opcode_appends_witness:
  "\<exists>s'. asm_opcode TOK_ASM_nop (o_insn 7 asm_start) = Inr s' \<and>
    ind s' = ind (o_insn 7 asm_start) + 4 \<and> code_word s' 0 = code_word (o_insn 7 asm_start) 0"
proof -
  let ?s = "o_insn 7 asm_start"
  have r: "asm_opcode TOK_ASM_nop ?s = Inr (emit_NOP ?s)"
    by (simp add: asm_opcode_def asm_handlers_def)
  have "ind ?s = 4" using o_insn_word(2) [OF emitting_asm_start, of 7] by (simp add: asm_start_def)
  with asm_opcode_appends [OF r o_insn_word(3) [OF emitting_asm_start], of 0] r show ?thesis by auto
qed

section \<open>Operands as written\<close>

lemma low_byte_or:
  fixes x y :: u64
  assumes "8 \<le> k"
  shows "(ucast ((x AND NOT (mask k)) OR y) :: u8) = ucast y"
  using assms by (intro bit_word_eqI) (auto simp: bit_simps)

lemma op_reg_set_reg: "r < 32 \<Longrightarrow> op_reg \<lparr>op_type = t, op_e = set_reg r e\<rparr> = of_nat r"
proof -
  assume r: "r < 32"
  then have "fits_in 8 (of_nat r :: u64)" by (intro fits_in_less) (simp add: unat_of_nat)
  then have "(ucast ((ev e AND NOT 0xff) OR of_nat r) :: u8) = ucast (of_nat r :: u64)"
    using low_byte_or [of 8 "ev e" "of_nat r"] by (simp add: mask_eq_exp_minus_1)
  also have "\<dots> = of_nat r"
    using r by (simp add: word_unat_eq_iff unsigned_ucast_eq unat_of_nat take_bit_nat_eq_self)
  finally have low: "(ucast ((ev e AND NOT 0xff) OR of_nat r) :: u8) = of_nat r" .
  have "(ucast (of_nat r :: u8) :: u32) = of_nat r"
    using r by (simp add: word_unat_eq_iff unsigned_ucast_eq unat_of_nat take_bit_nat_eq_self)
  with low show ?thesis by (simp add: op_reg_def set_reg_def)
qed

lemma fits_of_nat: "r < 32 \<Longrightarrow> fits_in 5 (of_nat r :: u32)"
  by (rule fits_in_less) (simp add: unat_of_nat)

definition reg_operand :: "nat \<Rightarrow> asm_state \<Rightarrow> Operand" where
  "reg_operand r s = \<lparr>op_type = OP_REG, op_e = set_reg r (junk s)\<rparr>"

lemma reg_operand_simps [simp]:
  "op_type (reg_operand r s) = OP_REG"
  "r < 32 \<Longrightarrow> op_reg (reg_operand r s) = of_nat r"
  by (simp_all add: reg_operand_def op_reg_set_reg)

lemma parse_operand_reg:
  "toks s = AsmTok r # ts \<Longrightarrow> r < 32 \<Longrightarrow> parse_operand s = Inr (reg_operand r s, s\<lparr>toks := ts\<rparr>)"
  by (simp add: parse_operand_def asm_parse_regvar_def tok_def next_tok_def reg_operand_def)

lemma parse_register_reg:
  "toks s = AsmTok r # ts \<Longrightarrow> r < 32 \<Longrightarrow> parse_register msg s = Inr (reg_operand r s, s\<lparr>toks := ts\<rparr>)"
  by (simp add: parse_register_def parse_operand_reg check_register_def)

lemma expect_ch_ok: "toks s = Ch c # ts \<Longrightarrow> expect_ch c msg s = Inr (s\<lparr>toks := ts\<rparr>)"
  by (simp add: expect_ch_def tok_def next_tok_def)

lemma hd_text_of:
  "\<exists>t ts. text_of e = t # ts \<and> (case t of PPNum _ \<Rightarrow> True | Ch c \<Rightarrow> c \<in> {0x28, 0x2d, 0x7e} | _ \<Rightarrow> False)"
proof (induction e)
  case (Bin op a b)
  then show ?case by (auto simp: paren_def)
qed simp_all

definition imm_operand :: "u64 \<Rightarrow> Operand" where
  "imm_operand v = \<lparr>op_type = imm_op_type_from_size (ucast v),
     op_e = \<lparr>ev = v, esym = None, epcrel = False\<rparr>\<rparr>"

lemma imm_operand_simps [simp]:
  "op_type (imm_operand v) = imm_op_type_from_size (ucast v)"
  "op_imm (imm_operand v) = ucast v" "ev (op_e (imm_operand v)) = v"
  by (simp_all add: imm_operand_def op_imm_def)

lemma parse_operand_imm:
  assumes "wf_aexp e" and "aval e = Inr v" and "toks s = text_of e @ r" and "stops 4 r"
  shows "parse_operand s = Inr (imm_operand v, s\<lparr>toks := r\<rparr>)"
proof -
  obtain t ts where t: "text_of e = t # ts"
    "case t of PPNum _ \<Rightarrow> True | Ch c \<Rightarrow> c \<in> {0x28, 0x2d, 0x7e} | _ \<Rightarrow> False"
    using hd_text_of [of e] by blast
  then have "tok s = t" using assms(3) by (simp add: tok_def)
  with t have "asm_parse_regvar (tok s) = None" "tok s \<noteq> Ch 0x24"
    by (auto simp: asm_parse_regvar_def split: token.splits)
  with asm_expr_text [OF assms] show ?thesis
    by (simp add: parse_operand_def classify_operand_def imm_operand_def)
qed

lemma is_imm12:
  assumes "- 2048 \<le> sint (ucast v :: u32)" and "sint (ucast v :: u32) < 2048"
  shows "op_type (imm_operand v) AND OP_IM12S \<noteq> 0"
  using assms by (simp add: imm_op_type_from_size_def Let_def)

section \<open>What the instructions assemble to\<close>

lemma find_unique:
  "distinct (concat (map fst xs)) \<Longrightarrow> (ts, h) \<in> set xs \<Longrightarrow> m \<in> set ts \<Longrightarrow>
   find (\<lambda>(ts, _). m \<in> set ts) xs = Some (ts, h)"
proof (induction xs)
  case Nil
  then show ?case by simp
next
  case (Cons x xs)
  obtain us k where x: "x = (us, k)" by fastforce
  show ?case
  proof (cases "(ts, h) = x")
    case True
    with Cons.prems x show ?thesis by simp
  next
    case False
    with Cons.prems have "(ts, h) \<in> set xs" by simp
    with Cons.prems x have "m \<notin> set us" by force
    with Cons False x show ?thesis by auto
  qed
qed

lemma asm_handlers_distinct: "distinct (concat (map fst asm_handlers))"
  by (simp add: asm_handlers_def)

lemma asm_opcode_dispatch:
  "(ts, h) \<in> set asm_handlers \<Longrightarrow> m \<in> set ts \<Longrightarrow> asm_opcode m s = h m s"
  using find_unique [OF asm_handlers_distinct, of ts h m] by (simp add: asm_opcode_def)

lemma toks_o_insn [simp]: "toks (o_insn w s) = toks s"
  by (simp add: o_insn_def Let_def set_text_def reserve_def)

lemma one_insn:
  assumes "emitting s" and "decode w = Some i"
  shows "toks (o_insn w (s\<lparr>toks := ts\<rparr>)) = ts \<and>
    decode (code_word (o_insn w (s\<lparr>toks := ts\<rparr>)) (ind s)) = Some i \<and>
    ind (o_insn w (s\<lparr>toks := ts\<rparr>)) = ind s + 4"
proof -
  have "emitting (s\<lparr>toks := ts\<rparr>)" using assms(1) by (simp add: emitting_def)
  from o_insn_word [OF this, of w] assms(2) show ?thesis by simp
qed

definition asm_register_ops :: "(nat \<times> alu_op) list" where
  "asm_register_ops =
     [(TOK_ASM_add, Add), (TOK_ASM_sub, Sub), (TOK_ASM_sll, Sll), (TOK_ASM_slt, Slt),
      (TOK_ASM_sltu, Sltu), (TOK_ASM_xor, Xor), (TOK_ASM_srl, Srl), (TOK_ASM_sra, Sra),
      (TOK_ASM_or, Or), (TOK_ASM_and, And), (TOK_ASM_mul, Mul), (TOK_ASM_mulh, Mulh),
      (TOK_ASM_mulhsu, Mulhsu), (TOK_ASM_div, Div), (TOK_ASM_divu, Divu), (TOK_ASM_rem, Rem),
      (TOK_ASM_remu, Remu)]"

lemma register_handler:
  "(m, op) \<in> set asm_register_ops \<Longrightarrow> asm_opcode m s = asm_binary_register_opcode m s"
  by (rule asm_opcode_dispatch [of "fst (asm_handlers ! 11)"])
    (simp_all add: asm_handlers_def asm_register_ops_def, auto)

lemma register_table_ops:
  assumes "(m, op) \<in> set asm_register_ops"
  shows "\<exists>f. select (register_table r2) m msg = Inr (f, op_reg r2) \<and> (f, op) \<in> set rtype_mnemonics"
  using assms unfolding asm_register_ops_def list.set insert_iff empty_iff prod.inject
  by (elim disjE) (simp_all add: register_table_def select_def rtype_mnemonics_def)

text \<open>
  C21: a register instruction of three registers separated by commas assembles to the word that
  decodes to the operation the mnemonic names, on those registers; the text after it is left.
\<close>

theorem asm_register_instruction:
  assumes "(m, op) \<in> set asm_register_ops" and "emitting s"
    and "toks s = AsmTok rd # Ch 0x2c # AsmTok r1 # Ch 0x2c # AsmTok r2 # ts"
    and "rd < 32" and "r1 < 32" and "r2 < 32"
  shows "\<exists>s'. asm_opcode m s = Inr s' \<and> toks s' = ts \<and>
    decode (code_word s' (ind s)) = Some (Op op (of_nat rd) (of_nat r1) (of_nat r2)) \<and>
    ind s' = ind s + 4"
proof -
  let ?p2 = "reg_operand r2 s"
  obtain f where f: "select (register_table ?p2) m ''register instruction'' = Inr (f, op_reg ?p2)"
    "(f, op) \<in> set rtype_mnemonics"
    using register_table_ops [OF assms(1)] by blast
  have j: "reg_operand r (s\<lparr>toks := x\<rparr>) = reg_operand r s" for r x by (simp add: reg_operand_def)
  have "asm_opcode m s = Inr (f (of_nat rd) (of_nat r1) (of_nat r2) (s\<lparr>toks := ts\<rparr>))"
    using assms f(1)
    by (simp add: register_handler [OF assms(1)] asm_binary_register_opcode_def parse_register_reg
        parse_operand_reg comma_def expect_ch_ok j)
  moreover obtain w where "f (of_nat rd) (of_nat r1) (of_nat r2) = o_insn w"
    "decode w = Some (Op op (of_nat rd) (of_nat r1) (of_nat r2))"
    using rtype_word [OF f(2)] assms(4-6) fits_of_nat by blast
  ultimately show ?thesis using one_insn [OF assms(2)] by auto
qed

lemma asm_register_instruction_witness:
  "\<exists>s'. asm_opcode TOK_ASM_sub (asm_start\<lparr>toks := [AsmTok 10, Ch 0x2c, AsmTok 11, Ch 0x2c, AsmTok 31]\<rparr>)
      = Inr s' \<and> toks s' = [] \<and>
    decode (code_word s' (ind (asm_start\<lparr>toks := [AsmTok 10, Ch 0x2c, AsmTok 11, Ch 0x2c, AsmTok 31]\<rparr>)))
      = Some (Op Sub (of_nat 10) (of_nat 11) (of_nat 31)) \<and>
    ind s' = ind (asm_start\<lparr>toks := [AsmTok 10, Ch 0x2c, AsmTok 11, Ch 0x2c, AsmTok 31]\<rparr>) + 4"
  by (rule asm_register_instruction)
    (simp_all add: asm_register_ops_def emitting_def asm_start_def)

lemma reg_operand_toks [simp]: "reg_operand r (s\<lparr>toks := x\<rparr>) = reg_operand r s"
  by (simp add: reg_operand_def)

definition asm_immediate_ops :: "(nat \<times> alu_op) list" where
  "asm_immediate_ops =
     [(TOK_ASM_addi, Add), (TOK_ASM_slti, Slt), (TOK_ASM_sltiu, Sltu), (TOK_ASM_xori, Xor),
      (TOK_ASM_ori, Or), (TOK_ASM_andi, And)]"

lemma immediate_handler:
  "(m, op) \<in> set asm_immediate_ops \<Longrightarrow> asm_opcode m s = asm_immediate_opcode m s"
  by (rule asm_opcode_dispatch [of "fst (asm_handlers ! 10)"])
    (simp_all add: asm_handlers_def asm_immediate_ops_def, auto)

lemma immediate_table_ops:
  assumes "(m, op) \<in> set asm_immediate_ops"
  shows "\<exists>f. select immediate_table m msg = Inr f \<and> (f, OpImm op) \<in> set itype_mnemonics"
  using assms unfolding asm_immediate_ops_def list.set insert_iff empty_iff prod.inject
  by (elim disjE) (simp_all add: immediate_table_def select_def itype_mnemonics_def)

text \<open>
  An immediate instruction assembles exactly when the value of its expression lies between
  -2048 and 2047, to the word that decodes to the operation with that immediate.
\<close>

theorem asm_immediate_instruction:
  assumes "(m, op) \<in> set asm_immediate_ops" and "emitting s"
    and "toks s = AsmTok rd # Ch 0x2c # AsmTok r1 # Ch 0x2c # text_of e @ ts"
    and "wf_aexp e" and "aval e = Inr v" and "stops 4 ts" and "rd < 32" and "r1 < 32"
  shows "if - 2048 \<le> sint (ucast v :: u32) \<and> sint (ucast v :: u32) < 2048
    then \<exists>s'. asm_opcode m s = Inr s' \<and> toks s' = ts \<and>
      decode (code_word s' (ind s)) = Some (OpImm op (of_nat rd) (of_nat r1) (ucast v)) \<and>
      ind s' = ind s + 4
    else \<not> is_ok (asm_opcode m s)"
proof -
  let ?i = "ucast v :: u32"
  obtain f where f: "select immediate_table m ''immediate register instruction'' = Inr f"
    "(f, OpImm op) \<in> set itype_mnemonics"
    using immediate_table_ops [OF assms(1)] by blast
  have i: "parse_operand (s\<lparr>toks := text_of e @ ts\<rparr>) = Inr (imm_operand v, s\<lparr>toks := ts\<rparr>)"
    using parse_operand_imm [OF assms(4,5) _ assms(6), of "s\<lparr>toks := text_of e @ ts\<rparr>"] by simp
  have r: "asm_opcode m s =
      (if op_type (imm_operand v) AND OP_IM12S = 0
       then Inl (TccError ''Expected third operand that is an immediate value'')
       else Inr (f (of_nat rd) (of_nat r1) ?i (s\<lparr>toks := ts\<rparr>)))"
    using assms(3,7,8) f(1)
    by (simp add: immediate_handler [OF assms(1)] asm_immediate_opcode_def parse_register_reg
        comma_def expect_ch_ok i del: imm_operand_simps(1))
  show ?thesis
  proof (cases "- 2048 \<le> sint ?i \<and> sint ?i < 2048")
    case True
    then have "sext12 ?i = ?i" by (simp add: imm12_ok_sext12 imm12_ok_iff)
    then obtain w where "f (of_nat rd) (of_nat r1) ?i = o_insn w"
      "decode w = Some (OpImm op (of_nat rd) (of_nat r1) ?i)"
      using itype_word [OF f(2), of "of_nat rd" "of_nat r1" ?i] assms(7,8) fits_of_nat by auto
    with True r is_imm12 [of v] one_insn [OF assms(2)] show ?thesis by auto
  next
    case False
    then have "op_type (imm_operand v) AND OP_IM12S = 0"
      by (auto simp: imm_op_type_from_size_def Let_def)
    with False r show ?thesis by simp
  qed
qed

lemma asm_immediate_instruction_witness:
  "\<exists>s'. asm_opcode TOK_ASM_addi (asm_start\<lparr>toks := AsmTok 2 # Ch 0x2c # AsmTok 2 # Ch 0x2c #
      text_of (Num 16) @ []\<rparr>) = Inr s' \<and> toks s' = [] \<and>
    decode (code_word s' 0) = Some (OpImm Add 2 2 16) \<and> ind s' = 4"
proof -
  let ?s = "asm_start\<lparr>toks := AsmTok 2 # Ch 0x2c # AsmTok 2 # Ch 0x2c # text_of (Num 16) @ []\<rparr>"
  have "ind ?s = 0" and e: "emitting ?s" by (simp_all add: emitting_def asm_start_def)
  with asm_immediate_instruction [of TOK_ASM_addi Add ?s 2 2 "Num 16" "[]" 16]
  show ?thesis by (simp add: asm_immediate_ops_def stops_def)
qed

definition asm_memory_ops :: "(nat \<times> (u32 \<Rightarrow> u32 \<Rightarrow> u32 \<Rightarrow> insn)) list" where
  "asm_memory_ops =
     [(TOK_ASM_lb, Load Lb), (TOK_ASM_lh, Load Lh), (TOK_ASM_lw, Load Lw), (TOK_ASM_lbu, Load Lbu),
      (TOK_ASM_lhu, Load Lhu), (TOK_ASM_sb, \<lambda>r l. Store Sb l r), (TOK_ASM_sh, \<lambda>r l. Store Sh l r),
      (TOK_ASM_sw, \<lambda>r l. Store Sw l r)]"

lemma memory_handler:
  "(m, g1) \<in> set asm_memory_ops \<Longrightarrow> asm_opcode m s = asm_load_store_opcode m s"
  by (rule asm_opcode_dispatch [of "fst (asm_handlers ! 9)"])
    (simp_all add: asm_handlers_def asm_memory_ops_def, auto)

lemma memory_table_ops:
  assumes "(m, g1) \<in> set asm_memory_ops" and "fits_in 5 r" and "fits_in 5 l"
  shows "\<exists>f w. select (load_store_table r l) m msg = Inr f \<and> f imm = o_insn w \<and>
    decode w = Some (g1 r l (sext12 imm))"
  using assms(1) unfolding asm_memory_ops_def list.set insert_iff empty_iff prod.inject
  by (elim disjE)
    (use assms(2,3) in \<open>auto simp: load_store_table_def select_def insn_defs emit_I_def emit_S_def
      decode_insn_I_load decode_insn_S decode_load_def decode_store_def fits\<close>)

text \<open>
  A load or store written register, offset(register), with an offset expression between
  -2048 and 2047 that does not itself start with a parenthesis, assembles to the word that
  decodes to that access; a store names its source first and its base in parentheses.
\<close>

theorem asm_memory_instruction:
  assumes "(m, g1) \<in> set asm_memory_ops" and "emitting s"
    and "toks s = AsmTok r # Ch 0x2c # text_of e @ Ch 0x28 # AsmTok l # Ch 0x29 # ts"
    and "wf_aexp e" and "aval e = Inr v" and "hd (text_of e) \<noteq> Ch 0x28" and "r < 32" and "l < 32"
    and "- 2048 \<le> sint (ucast v :: u32)" and "sint (ucast v :: u32) < 2048"
  shows "\<exists>s'. asm_opcode m s = Inr s' \<and> toks s' = ts \<and>
    decode (code_word s' (ind s)) = Some (g1 (of_nat r) (of_nat l) (ucast v)) \<and> ind s' = ind s + 4"
proof -
  let ?i = "ucast v :: u32"
  obtain f w where f: "select (load_store_table (of_nat r) (of_nat l)) m ''store instruction'' = Inr f"
    "f ?i = o_insn w" "decode w = Some (g1 (of_nat r) (of_nat l) (sext12 ?i))"
    using memory_table_ops [OF assms(1)] assms(7,8) fits_of_nat by blast
  have "sext12 ?i = ?i" using assms(9,10) by (simp add: imm12_ok_sext12 imm12_ok_iff)
  let ?r = "Ch 0x28 # AsmTok l # Ch 0x29 # ts"
  have "stops 4 ?r"
    by (simp add: stops_def op_level_def is_prod_tok_def is_logic_tok_def is_sum_tok_def is_cmp_tok_def)
  then have i: "parse_operand (s\<lparr>toks := text_of e @ ?r\<rparr>) = Inr (imm_operand v, s\<lparr>toks := ?r\<rparr>)"
    using parse_operand_imm [OF assms(4,5), of "s\<lparr>toks := text_of e @ ?r\<rparr>"] by simp
  have "tok (s\<lparr>toks := text_of e @ ?r\<rparr>) \<noteq> Ch 0x28"
    using hd_text_of [of e] assms(6) by (auto simp: tok_def)
  then have o: "parse_offset (s\<lparr>toks := text_of e @ ?r\<rparr>) = Inr (?i, s\<lparr>toks := ?r\<rparr>)"
    using i is_imm12 [OF assms(9,10)] by (simp add: parse_offset_def del: imm_operand_simps(1))
  have "asm_opcode m s = Inr (f ?i (s\<lparr>toks := ts\<rparr>))"
    using assms(3,7,8) f(1)
    by (simp add: memory_handler [OF assms(1)] asm_load_store_opcode_def parse_register_reg
        comma_def expect_ch_ok o)
  with f(2,3) \<open>sext12 ?i = ?i\<close> one_insn [OF assms(2)] show ?thesis by auto
qed

lemma asm_memory_instruction_witness:
  "\<exists>s'. asm_opcode TOK_ASM_sw (asm_start\<lparr>toks := AsmTok 1 # Ch 0x2c # text_of (Num 12) @
      [Ch 0x28, AsmTok 2, Ch 0x29]\<rparr>) = Inr s' \<and> toks s' = [] \<and>
    decode (code_word s' 0) = Some (Store Sw 2 1 12) \<and> ind s' = 4"
proof -
  let ?s = "asm_start\<lparr>toks := AsmTok 1 # Ch 0x2c # text_of (Num 12) @ [Ch 0x28, AsmTok 2, Ch 0x29]\<rparr>"
  have "ind ?s = 0" and e: "emitting ?s" by (simp_all add: emitting_def asm_start_def)
  with asm_memory_instruction [of TOK_ASM_sw "\<lambda>r l. Store Sw l r" ?s 1 "Num 12" 2 "[]" 12]
  show ?thesis by (simp add: asm_memory_ops_def)
qed

lemma even_ucast: "even v \<Longrightarrow> \<not> bit (ucast (v :: u64) :: u32) 0"
proof -
  have "bit (ucast v :: u32) 0 \<longleftrightarrow> bit v 0" by (subst bit_unsigned_iff) (simp add: bit_imp_le_length)
  then show "even v \<Longrightarrow> \<not> bit (ucast v :: u32) 0" by (simp only: bit_0) simp
qed

definition asm_branch_ops :: "(nat \<times> (u32 \<Rightarrow> u32 \<Rightarrow> u32 \<Rightarrow> insn)) list" where
  "asm_branch_ops =
     [(TOK_ASM_beq, Branch Beq), (TOK_ASM_bne, Branch Bne), (TOK_ASM_blt, Branch Blt),
      (TOK_ASM_bltu, Branch Bltu), (TOK_ASM_bgeu, Branch Bgeu),
      (TOK_ASM_bgtu, \<lambda>a b. Branch Bltu b a), (TOK_ASM_bleu, \<lambda>a b. Branch Bgeu b a)]"

lemma branch_handler:
  "(m, g1) \<in> set asm_branch_ops \<Longrightarrow> asm_opcode m s = asm_branch_opcode m s"
  by (rule asm_opcode_dispatch [of "fst (asm_handlers ! 12)"])
    (simp_all add: asm_handlers_def asm_branch_ops_def, auto)

lemma branch_table_ops:
  assumes "(m, g1) \<in> set asm_branch_ops" and "fits_in 5 a" and "fits_in 5 b"
  shows "\<exists>f w. select branch_table m msg = Inr f \<and> f a b imm = o_insn w \<and>
    decode w = Some (g1 a b (B_offset imm))"
  using assms(1) unfolding asm_branch_ops_def list.set insert_iff empty_iff prod.inject
  by (elim disjE)
    (use assms(2,3) in \<open>auto simp: branch_table_def select_def insn_defs emit_B_def
      decode_insn_B decode_branch_def fits\<close>)

text \<open>
  A branch of two registers with an even offset below 2048 assembles to the word that
  decodes to the branch the mnemonic names with that offset; bgtu and bleu swap their registers.
\<close>

theorem asm_branch_instruction:
  assumes "(m, g1) \<in> set asm_branch_ops" and "emitting s"
    and "toks s = AsmTok a # Ch 0x2c # AsmTok b # Ch 0x2c # text_of e @ ts"
    and "wf_aexp e" and "aval e = Inr v" and "stops 4 ts" and "a < 32" and "b < 32"
    and "v < 2048" and "even v"
  shows "\<exists>s'. asm_opcode m s = Inr s' \<and> toks s' = ts \<and>
    decode (code_word s' (ind s)) = Some (g1 (of_nat a) (of_nat b) (ucast v)) \<and> ind s' = ind s + 4"
proof -
  let ?i = "ucast v :: u32"
  have v: "unat v < 2048" using assms(9) by (simp add: word_less_nat_alt)
  then have u: "unat ?i = unat v" by (simp add: unsigned_ucast_eq take_bit_nat_eq_self)
  then have fits: "fits_in 11 ?i" using v by (intro fits_in_less) simp
  have ev0: "\<not> bit ?i 0" using assms(10) by (rule even_ucast)
  have exact: "B_offset ?i = ?i" by (rule B_offset_exact [OF fits ev0])
  obtain f w where f: "select branch_table m ''known branch instruction'' = Inr f"
    "f (of_nat a) (of_nat b) ?i = o_insn w" "decode w = Some (g1 (of_nat a) (of_nat b) (B_offset ?i))"
    using branch_table_ops [OF assms(1)] assms(7,8) fits_of_nat by blast
  have i: "parse_operand (s\<lparr>toks := text_of e @ ts\<rparr>) = Inr (imm_operand v, s\<lparr>toks := ts\<rparr>)"
    using parse_operand_imm [OF assms(4,5) _ assms(6), of "s\<lparr>toks := text_of e @ ts\<rparr>"] by simp
  have "op_type (imm_operand v) AND OP_SYM = 0"
    by (simp add: imm_op_type_from_size_def Let_def)
  moreover have "\<not> ?i > 0xfff" using u v by (simp add: word_less_nat_alt)
  moreover have "?i AND 1 = 0" using ev0 by (simp add: and_one_eq bit_0 odd_iff_mod_2_eq_one)
  moreover have "generate_symbol_reallocation (imm_operand v) R_BRANCH s1 = s1" for s1
    by (simp add: generate_symbol_reallocation_def imm_operand_def)
  ultimately have "asm_opcode m s = Inr (f (of_nat a) (of_nat b) ?i (s\<lparr>toks := ts\<rparr>))"
    using assms(3,7,8) f(1)
    by (simp add: branch_handler [OF assms(1)] asm_branch_opcode_def parse_operand_reg
        comma_def expect_ch_ok i del: imm_operand_simps(1))
  with f(2,3) exact one_insn [OF assms(2)] show ?thesis by auto
qed

lemma asm_branch_instruction_witness:
  "\<exists>s'. asm_opcode TOK_ASM_bgtu (asm_start\<lparr>toks := AsmTok 10 # Ch 0x2c # AsmTok 11 # Ch 0x2c #
      text_of (Num 8) @ []\<rparr>) = Inr s' \<and> toks s' = [] \<and>
    decode (code_word s' 0) = Some (Branch Bltu 11 10 8) \<and> ind s' = 4"
proof -
  let ?s = "asm_start\<lparr>toks := AsmTok 10 # Ch 0x2c # AsmTok 11 # Ch 0x2c # text_of (Num 8) @ []\<rparr>"
  have "ind ?s = 0" and e: "emitting ?s" by (simp_all add: emitting_def asm_start_def)
  with asm_branch_instruction [of TOK_ASM_bgtu "\<lambda>a b. Branch Bltu b a" ?s 10 11 "Num 8" "[]" 8]
  show ?thesis by (simp add: asm_branch_ops_def stops_def)
qed

definition asm_branch_zero_ops :: "(nat \<times> (u32 \<Rightarrow> u32 \<Rightarrow> insn)) list" where
  "asm_branch_zero_ops =
     [(TOK_ASM_beqz, \<lambda>a. Branch Beq a 0), (TOK_ASM_bnez, \<lambda>a. Branch Bne a 0),
      (TOK_ASM_blez, \<lambda>a. Branch Beq a 0), (TOK_ASM_bgez, \<lambda>a. Branch Bge a 0),
      (TOK_ASM_bltz, \<lambda>a. Branch Blt a 0), (TOK_ASM_bgtz, Branch Blt 0)]"

lemma branch_zero_handler:
  "(m, g1) \<in> set asm_branch_zero_ops \<Longrightarrow> asm_opcode m s = asm_branch_zero_opcode m s"
  by (rule asm_opcode_dispatch [of "fst (asm_handlers ! 13)"])
    (simp_all add: asm_handlers_def asm_branch_zero_ops_def, auto)

lemma branch_zero_table_ops:
  assumes "(m, g1) \<in> set asm_branch_zero_ops" and "fits_in 5 a"
  shows "\<exists>f w. select branch_zero_table m msg = Inr f \<and> f a imm = o_insn w \<and>
    decode w = Some (g1 a (B_offset imm))"
proof -
  have "fits_in 5 (0 :: u32)" by (simp add: fits_in_def)
  then show ?thesis
    using assms(1) unfolding asm_branch_zero_ops_def list.set insert_iff empty_iff prod.inject
    by (elim disjE)
      (use assms(2) in \<open>auto simp: branch_zero_table_def select_def insn_defs emit_B_def
        decode_insn_B decode_branch_def fits\<close>)
qed

text \<open>
  The branches against zero with an even offset below 2048 assemble to a branch comparing
  the register with x0. For blez this is the branch taken when the register equals zero: a
  negative register does not take it.
\<close>

theorem asm_branch_zero_instruction:
  assumes "(m, g1) \<in> set asm_branch_zero_ops" and "emitting s"
    and "toks s = AsmTok a # Ch 0x2c # text_of e @ ts"
    and "wf_aexp e" and "aval e = Inr v" and "stops 4 ts" and "a < 32" and "v < 2048" and "even v"
  shows "\<exists>s'. asm_opcode m s = Inr s' \<and> toks s' = ts \<and>
    decode (code_word s' (ind s)) = Some (g1 (of_nat a) (ucast v)) \<and> ind s' = ind s + 4"
proof -
  let ?i = "ucast v :: u32"
  have v: "unat v < 2048" using assms(8) by (simp add: word_less_nat_alt)
  then have u: "unat ?i = unat v" by (simp add: unsigned_ucast_eq take_bit_nat_eq_self)
  then have fits: "fits_in 11 ?i" using v by (intro fits_in_less) simp
  have ev0: "\<not> bit ?i 0" using assms(9) by (rule even_ucast)
  have exact: "B_offset ?i = ?i" by (rule B_offset_exact [OF fits ev0])
  obtain f w where f: "select branch_zero_table m ''known branch instruction'' = Inr f"
    "f (of_nat a) ?i = o_insn w" "decode w = Some (g1 (of_nat a) (B_offset ?i))"
    using branch_zero_table_ops [OF assms(1)] assms(7) fits_of_nat by blast
  have i: "parse_operand (s\<lparr>toks := text_of e @ ts\<rparr>) = Inr (imm_operand v, s\<lparr>toks := ts\<rparr>)"
    using parse_operand_imm [OF assms(4,5) _ assms(6), of "s\<lparr>toks := text_of e @ ts\<rparr>"] by simp
  have "\<not> ?i > 0xfff" using u v by (simp add: word_less_nat_alt)
  moreover have "?i AND 1 = 0" using ev0 by (simp add: and_one_eq bit_0 odd_iff_mod_2_eq_one)
  moreover have "generate_symbol_reallocation (imm_operand v) R_BRANCH s1 = s1" for s1
    by (simp add: generate_symbol_reallocation_def imm_operand_def)
  ultimately have "asm_opcode m s = Inr (f (of_nat a) ?i (s\<lparr>toks := ts\<rparr>))"
    using assms(3,7) f(1)
    by (simp add: branch_zero_handler [OF assms(1)] asm_branch_zero_opcode_def parse_operand_reg
        comma_def expect_ch_ok i)
  with f(2,3) exact one_insn [OF assms(2)] show ?thesis by auto
qed

lemma asm_branch_zero_instruction_witness:
  "\<exists>s'. asm_opcode TOK_ASM_blez (asm_start\<lparr>toks := AsmTok 10 # Ch 0x2c # text_of (Num 8) @ []\<rparr>)
      = Inr s' \<and> toks s' = [] \<and>
    decode (code_word s' 0) = Some (Branch Beq 10 0 8) \<and> ind s' = 4"
proof -
  let ?s = "asm_start\<lparr>toks := AsmTok 10 # Ch 0x2c # text_of (Num 8) @ []\<rparr>"
  have "ind ?s = 0" and e: "emitting ?s" by (simp_all add: emitting_def asm_start_def)
  with asm_branch_zero_instruction [of TOK_ASM_blez "\<lambda>a. Branch Beq a 0" ?s 10 "Num 8" "[]" 8]
  show ?thesis by (simp add: asm_branch_zero_ops_def stops_def)
qed

text \<open>
  Li puts the value of its expression into the register when the value is below 0x100000,
  and is refused otherwise, negative values included.
\<close>

theorem asm_li_loads:
  assumes "emitting s" and "toks s = AsmTok rd # Ch 0x2c # text_of e @ ts"
    and "wf_aexp e" and "aval e = Inr v" and "stops 4 ts" and "0 < rd" and "rd < 32"
  shows "if v < 0x100000
    then \<exists>s' c'. asm_opcode TOK_ASM_li s = Inr s' \<and> toks s' = ts \<and>
      run (code_words s' (ind s) 2) c = Some c' \<and> rreg c' (of_nat rd) = ucast v \<and>
      only_changes {of_nat rd} c c'
    else \<not> is_ok (asm_opcode TOK_ASM_li s)"
proof -
  have d: "asm_opcode TOK_ASM_li s = asm_binary_opcode TOK_ASM_li s"
    by (rule asm_opcode_dispatch [of "fst (asm_handlers ! 7)"]) (simp_all add: asm_handlers_def)
  have i: "parse_operand (s\<lparr>toks := text_of e @ ts\<rparr>) = Inr (imm_operand v, s\<lparr>toks := ts\<rparr>)"
    using parse_operand_imm [OF assms(3,4) _ assms(5), of "s\<lparr>toks := text_of e @ ts\<rparr>"] by simp
  have n: "op_type (imm_operand v) AND OP_IM32 \<noteq> 0"
    using imm_op_type_cases(1) [of "ucast v"] by auto
  have "generate_symbol_reallocation (imm_operand v) t s1 = s1" for t s1
    by (simp add: generate_symbol_reallocation_def imm_operand_def)
  then have h: "hi_lo_relocs (imm_operand v) s1 = s1" for s1
    by (simp add: hi_lo_relocs_def Let_def)
  have r: "asm_opcode TOK_ASM_li s =
      (if v \<ge> 0x100000 then Inl (TccError ''Expected an immediate value between 0 and 0xfffff'')
       else Inr (emit_LI (of_nat rd) (ucast v) (s\<lparr>toks := ts\<rparr>)))"
    using assms(2,7) n
    by (simp add: d asm_binary_opcode_def parse_operand_reg comma_def expect_ch_ok i h
        del: imm_operand_simps(1))
  show ?thesis
  proof (cases "v < 0x100000")
    case False
    with r show ?thesis by simp
  next
    case True
    let ?s = "s\<lparr>toks := ts\<rparr>" and ?rd = "of_nat rd :: u32"
    have e: "emitting ?s" using assms(1) by (simp add: emitting_def)
    have rd: "fits_in 5 ?rd" "?rd \<noteq> 0"
      using assms(6,7) fits_of_nat by (simp_all add: word_unat_eq_iff unat_of_nat)
    have "toks (emit_LI ?rd (ucast v) ?s) = ts"
      by (simp add: insn_defs emit_U_def emit_I_def)
    with True r appends_pair [OF emit_LI_words e] rd show ?thesis
      by (simp add: run_upper_addi hi_lo_sum only_changes_def)
  qed
qed

lemma asm_li_loads_witness:
  "\<exists>s' c'. asm_opcode TOK_ASM_li (asm_start\<lparr>toks := AsmTok 10 # Ch 0x2c # text_of (Num 0xfffff) @ []\<rparr>)
      = Inr s' \<and> toks s' = [] \<and>
    run (code_words s' 0 2) \<lparr>pc = 0, regs = (\<lambda>_. 0), mem = (\<lambda>_. 0)\<rparr> = Some c' \<and>
    rreg c' 10 = 0xfffff \<and>
    only_changes {10} \<lparr>pc = 0, regs = (\<lambda>_. 0), mem = (\<lambda>_. 0)\<rparr> c'"
proof -
  let ?s = "asm_start\<lparr>toks := AsmTok 10 # Ch 0x2c # text_of (Num 0xfffff) @ []\<rparr>"
  have "ind ?s = 0" and e: "emitting ?s" by (simp_all add: emitting_def asm_start_def)
  with asm_li_loads [OF e, of 10 "Num 0xfffff" "[]" "0xfffff" "\<lparr>pc = 0, regs = (\<lambda>_. 0), mem = (\<lambda>_. 0)\<rparr>"]
  show ?thesis by (simp add: stops_def)
qed

text \<open>Mnemonics the token table knows and the assembler never accepts.\<close>

definition refused :: "nat list" where
  "refused =
     [TOK_ASM_csrrw, TOK_ASM_csrrs, TOK_ASM_csrrc, TOK_ASM_csrrwi, TOK_ASM_csrrsi, TOK_ASM_csrrci,
      TOK_ASM_csrr, TOK_ASM_csrw, TOK_ASM_csrs, TOK_ASM_csrc, TOK_ASM_csrwi, TOK_ASM_csrsi,
      TOK_ASM_csrci, TOK_ASM_bge, TOK_ASM_bgt, TOK_ASM_ble, TOK_ASM_seqz, TOK_ASM_snez,
      TOK_ASM_sltz, TOK_ASM_sgtz, TOK_ASM_fence_i, TOK_ASM_mrts, TOK_ASM_mrth, TOK_ASM_hrts]"

text \<open>
  C40: whatever follows them, the instructions on control and status registers, bge, bgt, ble
  and the set-if-zero family end in an error: no operand text makes the assembler accept them.
\<close>

theorem asm_opcode_refuses:
  assumes "m \<in> set refused"
  shows "\<not> is_ok (asm_opcode m s)"
proof -
  have bge: "\<not> is_ok (asm_branch_opcode TOK_ASM_bge s)"
    by (auto simp: asm_branch_opcode_def is_ok_bindR Let_def select_def branch_table_def split: if_splits)
  have csr: "\<not> is_ok (asm_control_status_opcode t s)" for t
    using asm_control_status_rejects [of t s]
    by (cases "asm_control_status_opcode t s") (simp, blast)
  have nul: "t \<notin> {TOK_ASM_wfi, TOK_ASM_ret} \<Longrightarrow> \<not> is_ok (asm_nullary_opcode t s)" for t
    by (simp add: asm_nullary_opcode_def)
  show ?thesis
    using assms bge csr nul unfolding refused_def list.set insert_iff empty_iff
    by (elim disjE)
      (simp_all add: asm_opcode_def asm_handlers_def unexpected_instruction_def is_ok_bindR)
qed

lemma asm_opcode_refuses_witness:
  "\<not> is_ok (asm_opcode TOK_ASM_csrrw (asm_start\<lparr>toks := [AsmTok 10, Ch 0x2c, PPNum ''0x300'']\<rparr>))"
  by (rule asm_opcode_refuses) (simp add: refused_def)

end
