(* ===== verification/Value_Stack.thy ===== *)
theory Value_Stack
  imports Link_Syms
begin

text \<open>
  The values the code generator works on (SValue, CType and Sym of tcc.h), the size of a type
  (type_size in tccgen.c) and the state of the generator: emission, symbols, the value stack and
  the temporary locals. A type is unfolded along its references as far as type_size follows
  them, so it is a datatype; a null reference is \<open>None\<close>.
\<close>

section \<open>Types\<close>

datatype ctype = CType u32 "tsym option"
  and tsym = TSym ctype u16 u32 "tsym option"

primrec ct_t :: "ctype \<Rightarrow> u32" where "ct_t (CType t ref) = t"
primrec ct_ref :: "ctype \<Rightarrow> tsym option" where "ct_ref (CType t ref) = ref"

abbreviation (input) VT_BTYPE :: u32 where "VT_BTYPE \<equiv> 0xf"
abbreviation (input) VT_BYTE :: u32 where "VT_BYTE \<equiv> 1"
abbreviation (input) VT_SHORT :: u32 where "VT_SHORT \<equiv> 2"
abbreviation (input) VT_INT :: u32 where "VT_INT \<equiv> 3"
abbreviation (input) VT_LLONG :: u32 where "VT_LLONG \<equiv> 4"
abbreviation (input) VT_PTR :: u32 where "VT_PTR \<equiv> 5"
abbreviation (input) VT_FUNC :: u32 where "VT_FUNC \<equiv> 6"
abbreviation (input) VT_STRUCT :: u32 where "VT_STRUCT \<equiv> 7"
abbreviation (input) VT_FLOAT :: u32 where "VT_FLOAT \<equiv> 8"
abbreviation (input) VT_DOUBLE :: u32 where "VT_DOUBLE \<equiv> 9"
abbreviation (input) VT_LDOUBLE :: u32 where "VT_LDOUBLE \<equiv> 10"
abbreviation (input) VT_BOOL :: u32 where "VT_BOOL \<equiv> 11"
abbreviation (input) VT_QLONG :: u32 where "VT_QLONG \<equiv> 13"
abbreviation (input) VT_QFLOAT :: u32 where "VT_QFLOAT \<equiv> 14"
abbreviation (input) VT_UNSIGNED :: u32 where "VT_UNSIGNED \<equiv> 0x10"
abbreviation (input) VT_ARRAY :: u32 where "VT_ARRAY \<equiv> 0x40"
abbreviation (input) VT_STRUCT_MASK :: u32 where "VT_STRUCT_MASK \<equiv> 0xFFF00080"
abbreviation (input) VT_ENUM :: u32 where "VT_ENUM \<equiv> 0x200000"

definition is_float :: "u32 \<Rightarrow> bool" where
  "is_float t \<longleftrightarrow> (let bt = t AND VT_BTYPE in
     bt = VT_LDOUBLE \<or> bt = VT_DOUBLE \<or> bt = VT_FLOAT \<or> bt = VT_QFLOAT)"

definition IS_ENUM :: "u32 \<Rightarrow> bool" where
  "IS_ENUM t \<longleftrightarrow> t AND VT_STRUCT_MASK = VT_ENUM"

text \<open>type_size returns the size and the alignment it stores through its second argument.\<close>

fun scalar_size :: "u32 \<Rightarrow> u32 \<times> u32" where
  "scalar_size bt =
     (if bt = VT_LDOUBLE then (16, 16)
      else if bt = VT_DOUBLE \<or> bt = VT_LLONG then (8, 8)
      else if bt = VT_INT \<or> bt = VT_FLOAT then (4, 4)
      else if bt = VT_SHORT then (2, 2)
      else if bt = VT_QLONG \<or> bt = VT_QFLOAT then (16, 8)
      else (1, 1))"

fun type_size :: "ctype \<Rightarrow> (u32 \<times> u32) res" where
  "type_size (CType t (Some (TSym ty r c nx))) =
     (let bt = t AND VT_BTYPE in
      if bt = VT_STRUCT then Inr (c, ucast r)
      else if bt = VT_PTR then
        (if t AND VT_ARRAY \<noteq> 0
         then bindR (type_size ty) (\<lambda>(ts, a).
           Inr ((if sint ts < 0 \<and> sint c < 0 then - ts else ts) * c, a))
         else Inr (4, 4))
      else if IS_ENUM t \<and> sint c < 0 then Inr (- 1, 0)
      else Inr (scalar_size bt))"
| "type_size (CType t None) =
     (let bt = t AND VT_BTYPE in
      if bt = VT_STRUCT \<or> (bt = VT_PTR \<and> t AND VT_ARRAY \<noteq> 0) \<or> (bt \<noteq> VT_PTR \<and> IS_ENUM t)
      then Inl MemFault
      else if bt = VT_PTR then Inr (4, 4)
      else Inr (scalar_size bt))"

section \<open>Values\<close>

text \<open>
  The unions of SValue are fields of their own, except that jtrue and jfalse are the halves of
  the constant \<open>sv_ci\<close>, as they are in memory. A symbol is given by its index.
\<close>

record SValue =
  sv_type :: ctype
  sv_r :: u16
  sv_r2 :: u16
  sv_ci :: u64
  sv_sym :: "nat option"
  cmp_op :: u16
  cmp_r :: u16

abbreviation (input) VT_VALMASK :: u16 where "VT_VALMASK \<equiv> 0x3f"
abbreviation (input) VT_CONST :: u16 where "VT_CONST \<equiv> 0x30"
abbreviation (input) VT_LLOCAL :: u16 where "VT_LLOCAL \<equiv> 0x31"
abbreviation (input) VT_LOCAL :: u16 where "VT_LOCAL \<equiv> 0x32"
abbreviation (input) VT_CMP :: u16 where "VT_CMP \<equiv> 0x33"
abbreviation (input) VT_JMP :: u16 where "VT_JMP \<equiv> 0x34"
abbreviation (input) VT_LVAL :: u16 where "VT_LVAL \<equiv> 0x100"
abbreviation (input) VT_SYM :: u16 where "VT_SYM \<equiv> 0x200"

definition stack_btype :: "SValue \<Rightarrow> u32" where
  "stack_btype sv = ct_t (sv_type sv) AND VT_BTYPE"

definition stack_loc :: "SValue \<Rightarrow> u16" where
  "stack_loc sv = sv_r sv AND VT_VALMASK"

text \<open>
  The generator's globals. The top of the value stack, vtop, is the head of \<open>vstack\<close>; \<open>loc\<close> is
  the offset of the last local; a temporary local has its location, size and alignment.
\<close>

record gen_state = sym_state +
  vstack :: "SValue list"
  loc :: u32
  temp_vars :: "(u32 \<times> u16 \<times> u16) list"
  const_wanted :: u32

definition vtop :: "'a gen_state_scheme \<Rightarrow> SValue res" where
  "vtop s = (case vstack s of [] \<Rightarrow> Inl MemFault | v # _ \<Rightarrow> Inr v)"

end
