(* ===== verification/Riscv_Load.thy ===== *)
theory Riscv_Load
  imports Value_Stack Riscv_Jumps
begin

text \<open>
  Moving values between registers and the places of the value stack (ireg, freg, load_symofs,
  load_large_constant, load_lvalue, load and store of riscv32-gen.c). load and store also change
  the value they are given, so they return it.
\<close>

section \<open>Registers\<close>

text \<open>Register numbers of the generator are ints: 0 to 7 are a0 to a7, 17 is ra, 18 is sp.\<close>

definition is_ireg :: "u32 \<Rightarrow> bool" where
  "is_ireg r \<longleftrightarrow> r < 8 \<or> r = 17 \<or> r = 18"

definition ireg :: "u32 \<Rightarrow> u32 res" where
  "ireg r =
     (if r = 17 then Inr 1 else if r = 18 then Inr 2
      else bindR (assertR (0 \<le> sint r \<and> sint r < 8)) (\<lambda>_. Inr (r + 10)))"

definition is_freg :: "u32 \<Rightarrow> bool" where
  "is_freg r \<longleftrightarrow> 8 \<le> sint r \<and> sint r < 16"

definition freg :: "u32 \<Rightarrow> u32 res" where
  "freg r = bindR (assertR (8 \<le> sint r \<and> sint r < 16)) (\<lambda>_. Inr (r - 8 + 10))"

definition phys_reg :: "u32 \<Rightarrow> u32 res" where
  "phys_reg r = (if is_ireg r then ireg r else freg r)"

section \<open>Addresses\<close>

abbreviation (input) R_RISCV_PCREL_HI20 :: nat where "R_RISCV_PCREL_HI20 \<equiv> 23"
abbreviation (input) R_RISCV_PCREL_LO12_I :: nat where "R_RISCV_PCREL_LO12_I \<equiv> 24"
abbreviation (input) R_RISCV_PCREL_LO12_S :: nat where "R_RISCV_PCREL_LO12_S \<equiv> 25"

text \<open>A local ELF symbol for the current place, as put_extern_sym makes for a fresh label.\<close>

definition new_label :: "'a sym_state_scheme \<Rightarrow> nat \<times> 'a sym_state_scheme" where
  "new_label s =
     (if nocode_wanted s \<noteq> 0 then (0, s)
      else (length (elf_syms s),
        s\<lparr>elf_syms := elf_syms s @ [\<lparr>st_shndx = sh_num (text_sec s), st_value = of_nat (ind s)\<rparr>]\<rparr>))"

definition label_reloc :: "nat \<Rightarrow> nat \<Rightarrow> 'a sym_state_scheme \<Rightarrow> 'a sym_state_scheme" where
  "label_reloc l t s =
     (if nocode_wanted s \<noteq> 0 then s else put_elf_reloca (ind s) t l 0 s)"

definition load_symofs :: "u32 \<Rightarrow> SValue \<Rightarrow> bool \<Rightarrow> 'a gen_state_scheme \<Rightarrow>
    (u32 \<times> SValue \<times> 'a gen_state_scheme) res" where
  "load_symofs r sv forstore s =
     (let sv_constant = ucast (sv_ci sv) :: u32; stack_value = stack_loc sv in
      bindR (if is_ireg r then ireg r else Inr 5) (\<lambda>rd.
      if sv_r sv AND VT_SYM \<noteq> 0 then
        bindR (assertR (stack_value = VT_CONST)) (\<lambda>_.
        if LARGE_IMM sv_constant
        then Inl (TccError ''unimp: large addend for global address'')
        else case sv_sym sv of None \<Rightarrow> Inl MemFault | Some i \<Rightarrow>
          let static = as_t (syms s ! i) AND VT_STATIC \<noteq> 0;
              addend = (if static then sv_constant else 0);
              sv1 = (if static then sv\<lparr>sv_ci := 0\<rparr> else sv);
              doload = \<not> static;
              s1 = greloca (Some i) R_RISCV_PCREL_HI20 addend s;
              (label, s2) = new_label s1;
              s3 = emit_AUIPC rd 0 s2;
              t = (if doload \<or> \<not> forstore then R_RISCV_PCREL_LO12_I else R_RISCV_PCREL_LO12_S);
              s4 = label_reloc label t s3
          in Inr (rd, sv1, if doload then emit_ADDI rd rd 0 s4 else s4))
      else if stack_value = VT_LOCAL \<or> stack_value = VT_LLOCAL then
        (if scast sv_constant \<noteq> sv_ci sv
         then Inl (TccError ''unimp: store(giant local off)'')
         else if LARGE_IMM sv_constant
         then Inr (8, sv\<lparr>sv_ci := ucast (IMM_LOW sv_constant)\<rparr>,
                emit_ADD 8 8 8 (emit_LUI 8 (IMM_HIGH (sv_constant + 0x800)) s))
         else Inr (8, sv, s))
      else Inl (TccError ''uhh'')))"

definition load_large_constant :: "u32 \<Rightarrow> u32 \<Rightarrow> u32 \<Rightarrow> 'a emit_state_scheme \<Rightarrow> 'a emit_state_scheme" where
  "load_large_constant rr fc pi0 s =
     (let pi = (if sint fc < 0 then pi0 + 1 else pi0) in
      emit_SLLI rr rr 8 (emit_ADDI rr rr (IMM_LOW fc) (emit_SLLI rr rr 12
        (emit_ADDI rr rr (IMM_LOW fc) (emit_SLLI rr rr 12
        (emit_ADDI rr rr (IMM_LOW pi) (emit_LUI rr (IMM_HIGH pi) s)))))))"

section \<open>Loading\<close>

text \<open>The address of an lvalue: base register and offset, after the code that computes it.\<close>

definition lvalue_address :: "u32 \<Rightarrow> u32 \<Rightarrow> SValue \<Rightarrow> 'a gen_state_scheme \<Rightarrow>
    (u32 \<times> u32 \<times> SValue \<times> 'a gen_state_scheme) res" where
  "lvalue_address r dest sv s =
     (let lvar_offset = ucast (sv_ci sv) :: u32; v = stack_loc sv in
      if v = VT_LOCAL \<or> sv_r sv AND VT_SYM \<noteq> 0 then
        bindR (load_symofs r sv False s) (\<lambda>(rs1, sv1, s1). Inr (rs1, ucast (sv_ci sv1), sv1, s1))
      else if v < VT_CONST then bindR (ireg (ucast v)) (\<lambda>rs1. Inr (rs1, 0, sv, s))
      else if v = VT_LLOCAL then
        bindR (load_symofs r sv False s) (\<lambda>(rs1, sv1, s1).
          Inr (dest, 0, sv1, emit_LW dest rs1 (ucast (sv_ci sv1)) s1))
      else if v = VT_CONST then
        (let si = signed_drop_bit 32 (sv_ci sv) in
         if si \<noteq> 0
         then Inr (dest, lvar_offset AND 0xff, sv, load_large_constant dest lvar_offset (ucast si) s)
         else Inr (dest, IMM_LOW lvar_offset, sv, emit_LUI dest (IMM_HIGH lvar_offset) s))
      else Inl (TccError ''unimp: load(non-local lval)''))"

definition load_lvalue :: "u32 \<Rightarrow> SValue \<Rightarrow> 'a gen_state_scheme \<Rightarrow>
    (SValue \<times> 'a gen_state_scheme) res" where
  "load_lvalue r sv s =
     bindR (phys_reg r) (\<lambda>dest.
     bindR (type_size (sv_type sv)) (\<lambda>(size0, align).
     bindR (assertR (\<not> is_freg r \<or> stack_btype sv = VT_FLOAT \<or> stack_btype sv = VT_DOUBLE)) (\<lambda>_.
     let size = (if stack_btype sv = VT_FUNC then 4 else size0) in
     if is_float (ct_t (sv_type sv)) then Inl (InternalError ''floating point not implemented'')
     else
       bindR (lvalue_address r dest sv s) (\<lambda>(rs1, off, sv1, s1).
         if size = 1 then Inr (sv1, emit_LB dest rs1 off s1)
         else if size = 2 then Inr (sv1, emit_LH dest rs1 off s1)
         else if size = 4 then Inr (sv1, emit_LW dest rs1 off s1)
         else Inl (TccError ''unexpected load size'')))))"

text \<open>
  A constant: the symbol's address first, or the upper part of a 64-bit constant, then LUI when
  the value needs it and ADDI.
\<close>

definition load_const :: "u32 \<Rightarrow> u32 \<Rightarrow> SValue \<Rightarrow> 'a gen_state_scheme \<Rightarrow>
    (SValue \<times> 'a gen_state_scheme) res" where
  "load_const r dest sv s =
     (if is_float (ct_t (sv_type sv)) then Inl (TccError ''unimp: load(float)'')
      else bindR (assertR (is_ireg r)) (\<lambda>_.
      bindR (if sv_r sv AND VT_SYM \<noteq> 0
             then bindR (load_symofs r sv False s) (\<lambda>(rs1, sv1, s1).
               Inr (rs1, ucast (sv_ci sv1) :: u32, False, sv1, s1))
             else Inr (0, ucast (sv_ci sv), True, sv, s)) (\<lambda>(rs1, off, do32bit, sv1, s1).
      let si = signed_drop_bit 32 (sv_ci sv1);
          wide = scast off \<noteq> sv_ci sv1;
          zext = wide \<and> si = 0 \<and> stack_btype sv = VT_LLONG;
          (rs1, off, do32bit, s2) =
            (if wide \<and> si \<noteq> 0
             then (dest, off AND 0xff, False, load_large_constant dest off (ucast si) s1)
             else (rs1, off, do32bit, s1));
          (rs1, s3) = (if LARGE_IMM off then (dest, emit_LUI dest (IMM_HIGH (off + 0x800)) s2)
                       else (rs1, s2));
          s4 = (if off \<noteq> 0 \<or> dest \<noteq> rs1 \<or> do32bit \<or> sv_r sv AND VT_SYM \<noteq> 0
                then emit_ADDI dest rs1 (IMM_LOW off) s3 else s3)
      in if zext then Inl (InternalError ''I think this code is broken'')
         else Inr (sv1, s4))))"

text \<open>The result of a comparison, as 0 or 1.\<close>

definition load_cmp :: "u32 \<Rightarrow> u16 \<Rightarrow> u16 \<Rightarrow> 'a emit_state_scheme \<Rightarrow> 'a emit_state_scheme" where
  "load_cmp dest op16 r s =
     (let op = ucast op16 :: u32; a = ucast r AND 0xff; b = drop_bit 8 (ucast r) AND 0xff in
      if op \<in> {TOK_ULT, TOK_UGE, TOK_ULE, TOK_UGT, TOK_LT, TOK_GE, TOK_LE, TOK_GT} then
        (let (inv, op1) = (if op AND 1 \<noteq> 0 then (1, op - 1) else (0, op));
             (a1, b1, inv1) = (if op1 AND 7 = 6 then (b, a, inv XOR 1) else (a, b, inv));
             s1 = (if op1 > TOK_UGT then emit_SLT dest a1 b1 s else emit_SLTU dest a1 b1 s)
         in if inv1 \<noteq> (0 :: u32) then emit_XORI dest dest 1 s1 else s1)
      else if op = TOK_NE \<or> op = TOK_EQ then
        (let s1 = (if dest \<noteq> a \<or> b \<noteq> 0 then emit_SUB dest a b s else s)
         in if op = TOK_NE then emit_SNEZ dest dest s1 else emit_SEQZ dest dest s1)
      else s)"

text \<open>gsym of tccgen.c: the target of a jump list is the current place, and code is on again.\<close>

definition gsym :: "nat \<Rightarrow> u32 \<Rightarrow> 'a emit_state_scheme \<Rightarrow> 'a emit_state_scheme res" where
  "gsym k t s =
     (if t \<noteq> 0
      then bindR (gsym_addr k t (of_nat (ind s)) s) (\<lambda>s1.
        Inr (s1\<lparr>nocode_wanted := nocode_wanted s1 AND NOT 0x20000000\<rparr>))
      else Inr s)"

definition load :: "nat \<Rightarrow> u32 \<Rightarrow> SValue \<Rightarrow> 'a gen_state_scheme \<Rightarrow>
    (SValue \<times> 'a gen_state_scheme) res" where
  "load k r sv s =
     bindR (phys_reg r) (\<lambda>dest.
     let v = stack_loc sv in
     if sv_r sv AND VT_LVAL \<noteq> 0 then load_lvalue r sv s
     else if v = VT_CONST then load_const r dest sv s
     else if v = VT_LOCAL then
       bindR (load_symofs r sv False s) (\<lambda>(br, sv1, s1).
       bindR (assertR (is_ireg r)) (\<lambda>_. Inr (sv1, emit_ADDI dest br (ucast (sv_ci sv1)) s1)))
     else if v < VT_CONST then
       (if is_freg r \<and> is_freg (ucast v) then
          bindR (freg (ucast v)) (\<lambda>f. Inl (InternalError ''things be happening''))
        else if is_ireg r \<and> is_ireg (ucast v) then
          bindR (ireg (ucast v)) (\<lambda>src. Inr (sv, emit_ADDI dest src 0 s))
        else Inl (TccError ''Floating point not implemented in riscv32''))
     else if v = VT_CMP then
       bindR (vtop s) (\<lambda>t. Inr (sv, load_cmp dest (cmp_op t) (cmp_r t) s))
     else if v AND NOT 1 = VT_JMP then
       (let t = ucast v AND 1 in
        bindR (assertR (is_ireg r)) (\<lambda>_.
        let s1 = emit_ADDI dest 0 t s;
            s2 = gjmp_addr (of_nat (ind s1) + 8) s1 in
        bindR (gsym k (ucast (sv_ci sv)) s2) (\<lambda>s3. Inr (sv, emit_ADDI dest 0 (t XOR 1) s3))))
     else Inl (TccError ''unimp: load(non-const)''))"

section \<open>Storing\<close>

definition store_address :: "SValue \<Rightarrow> 'a gen_state_scheme \<Rightarrow>
    (u32 \<times> u32 \<times> SValue \<times> 'a gen_state_scheme) res" where
  "store_address sv s =
     (let offset = ucast (sv_ci sv) :: u32; v = stack_loc sv in
      if v = VT_LOCAL \<or> sv_r sv AND VT_SYM \<noteq> 0 then
        bindR (load_symofs (- 1) sv True s) (\<lambda>(rs, sv1, s1). Inr (rs, ucast (sv_ci sv1), sv1, s1))
      else if v < VT_CONST then bindR (ireg (ucast v)) (\<lambda>rs. Inr (rs, 0, sv, s))
      else if v = VT_CONST then
        (let offset_hi = drop_bit 32 (sv_ci sv) in
         if offset_hi \<noteq> 0
         then Inr (8, offset AND 0xff, sv, load_large_constant 8 offset (ucast offset_hi) s)
         else Inr (8, IMM_LOW offset, sv, emit_LUI 8 (IMM_HIGH offset) s))
      else Inl (TccError ''implement me: store(!local)''))"

definition store :: "u32 \<Rightarrow> SValue \<Rightarrow> 'a gen_state_scheme \<Rightarrow> (SValue \<times> 'a gen_state_scheme) res" where
  "store r sv s =
     bindR (phys_reg r) (\<lambda>src.
     bindR (type_size (sv_type sv)) (\<lambda>(size0, align0).
     let bt = stack_btype sv in
     bindR (assertR (\<not> is_float bt \<or> is_freg r \<or> bt = VT_LDOUBLE)) (\<lambda>_.
     let size = (if bt = VT_LDOUBLE then 8 else size0) in
     if bt = VT_STRUCT then Inl (TccError ''unimp: store(struct)'')
     else if sint size > 8 then Inl (TccError ''unimp: large sized store'')
     else bindR (assertR (sv_r sv AND VT_LVAL \<noteq> 0)) (\<lambda>_.
       bindR (store_address sv s) (\<lambda>(loc_reg, off, sv1, s1).
         if is_freg r then Inl (TccError ''unip: floating point'')
         else if size = 1 then Inr (sv1, emit_SB loc_reg src off s1)
         else if size = 2 then Inr (sv1, emit_SH loc_reg src off s1)
         else if size = 4 then Inr (sv1, emit_SW loc_reg src off s1)
         else Inl (TccError ''unexpected store size''))))))"

end
