(* ===== verification/Value_Ops.thy ===== *)
theory Value_Ops
  imports Riscv_Load
begin

text \<open>
  The operations on the value stack (vsetc to vset_VT_CMP in tccgen.c). Where the code generator
  calls itself again through gv, the definitions take it as their argument \<open>gv\<close>, the call with
  the class of integer registers; the result register is not used there.
\<close>

abbreviation (input) VSTACK_SIZE :: nat where "VSTACK_SIZE \<equiv> 256"
abbreviation (input) VT_BOUNDED :: u16 where "VT_BOUNDED \<equiv> 0x8000"
abbreviation (input) VT_NONCONST :: u16 where "VT_NONCONST \<equiv> 0x1000"

type_synonym 'a gen_call = "'a gen_state_scheme \<Rightarrow> 'a gen_state_scheme res"

section \<open>Access to the stack\<close>

text \<open>Replace the top value.\<close>

definition set_vtop :: "(SValue \<Rightarrow> SValue) \<Rightarrow> 'a gen_call" where
  "set_vtop f s = (case vstack s of [] \<Rightarrow> Inl MemFault | v # vs \<Rightarrow> Inr (s\<lparr>vstack := f v # vs\<rparr>))"

text \<open>vtop--, without looking at the value.\<close>

definition drop_vtop :: "'a gen_call" where
  "drop_vtop s = (case vstack s of [] \<Rightarrow> Inl MemFault | v # vs \<Rightarrow> Inr (s\<lparr>vstack := vs\<rparr>))"

definition vcheck_cmp :: "'a gen_call \<Rightarrow> 'a gen_call" where
  "vcheck_cmp gv s = (case vstack s of [] \<Rightarrow> Inr s
     | v # _ \<Rightarrow> if sv_r v = VT_CMP \<and> nocode_wanted s = 0 then gv s else Inr s)"

section \<open>Pushing and popping\<close>

definition vpushv :: "SValue \<Rightarrow> 'a gen_call" where
  "vpushv v s =
     (if length (vstack s) \<ge> VSTACK_SIZE then Inl (TccError ''memory full (vstack)'')
      else Inr (s\<lparr>vstack := v # vstack s\<rparr>))"

definition vdup :: "'a gen_call" where
  "vdup s = bindR (vtop s) (\<lambda>v. vpushv v s)"

definition vsetc :: "'a gen_call \<Rightarrow> ctype \<Rightarrow> u16 \<Rightarrow> u64 \<Rightarrow> 'a gen_call" where
  "vsetc gv ty r vc s =
     (if length (vstack s) \<ge> VSTACK_SIZE then Inl (TccError ''memory full (vstack)'')
      else bindR (vcheck_cmp gv s) (\<lambda>s1.
        Inr (s1\<lparr>vstack := \<lparr>sv_type = ty, sv_r = r, sv_r2 = VT_CONST, sv_ci = vc, sv_sym = None,
          cmp_op = 0, cmp_r = 0\<rparr> # vstack s1\<rparr>)))"

definition vset :: "'a gen_call \<Rightarrow> ctype \<Rightarrow> u16 \<Rightarrow> u32 \<Rightarrow> 'a gen_call" where
  "vset gv ty r v = vsetc gv ty r (scast v)"

definition vpush :: "'a gen_call \<Rightarrow> ctype \<Rightarrow> 'a gen_call" where
  "vpush gv ty = vset gv ty VT_CONST 0"

definition vpush64 :: "'a gen_call \<Rightarrow> u32 \<Rightarrow> u64 \<Rightarrow> 'a gen_call" where
  "vpush64 gv ty v = vsetc gv (CType ty None) VT_CONST v"

definition vpushi :: "'a gen_call \<Rightarrow> u32 \<Rightarrow> 'a gen_call" where
  "vpushi gv v = vpush64 gv VT_INT (scast v)"

definition vpushs :: "'a gen_call \<Rightarrow> u32 \<Rightarrow> 'a gen_call" where
  "vpushs gv v = vpush64 gv (VT_INT OR VT_UNSIGNED) (ucast v)"

definition vpushll :: "'a gen_call \<Rightarrow> u64 \<Rightarrow> 'a gen_call" where
  "vpushll gv v = vpush64 gv VT_LLONG v"

definition vseti :: "'a gen_call \<Rightarrow> u16 \<Rightarrow> u32 \<Rightarrow> 'a gen_call" where
  "vseti gv r v = vset gv (CType VT_INT None) r v"

text \<open>The pending jumps of a comparison: jtrue is the lower half of the constant, jfalse the upper.\<close>

definition jtrue :: "SValue \<Rightarrow> u32" where "jtrue v = ucast (sv_ci v)"
definition jfalse :: "SValue \<Rightarrow> u32" where "jfalse v = ucast (drop_bit 32 (sv_ci v))"

definition vpop :: "nat \<Rightarrow> 'a gen_call" where
  "vpop k s = bindR (vtop s) (\<lambda>v.
     bindR (if stack_loc v = VT_CMP
            then bindR (gsym k (jtrue v) s) (\<lambda>s1. gsym k (jfalse v) s1)
            else Inr s) drop_vtop)"

section \<open>Rearranging\<close>

definition vswap :: "'a gen_call \<Rightarrow> 'a gen_call" where
  "vswap gv s = bindR (vcheck_cmp gv s) (\<lambda>s1. case vstack s1 of
     a # b # vs \<Rightarrow> Inr (s1\<lparr>vstack := b # a # vs\<rparr>) | _ \<Rightarrow> Inl MemFault)"

text \<open>
  The loops of vrotb and vrote move one value at a time. Position \<open>i\<close> of the list is vtop[-i].
  The source calls them with n at least 1; for 0 they would write outside the stack.
\<close>

fun vrotb_loop :: "nat \<Rightarrow> SValue list \<Rightarrow> SValue list" where
  "vrotb_loop 0 vs = vs"
| "vrotb_loop (Suc i) vs = vrotb_loop i (vs[Suc i := vs ! i])"

definition vrotb :: "'a gen_call \<Rightarrow> nat \<Rightarrow> 'a gen_call" where
  "vrotb gv n s = bindR (vcheck_cmp gv s) (\<lambda>s1.
     if n = 0 \<or> length (vstack s1) < n then Inl MemFault
     else let tmp = vstack s1 ! (n - 1) in
       Inr (s1\<lparr>vstack := (vrotb_loop (n - 1) (vstack s1))[0 := tmp]\<rparr>))"

fun vrote_loop :: "nat \<Rightarrow> nat \<Rightarrow> SValue list \<Rightarrow> SValue list" where
  "vrote_loop e 0 vs = vs"
| "vrote_loop e (Suc n) vs = vrote_loop (Suc e) n (vs[e := vs ! Suc e])"

definition vrote :: "'a gen_call \<Rightarrow> nat \<Rightarrow> nat \<Rightarrow> 'a gen_call" where
  "vrote gv e n s = bindR (vcheck_cmp gv s) (\<lambda>s1.
     if n = 0 \<or> length (vstack s1) < e + n then Inl MemFault
     else let tmp = vstack s1 ! e in
       Inr (s1\<lparr>vstack := (vrote_loop e (n - 1) (vstack s1))[e + n - 1 := tmp]\<rparr>))"

definition vrott :: "'a gen_call \<Rightarrow> nat \<Rightarrow> 'a gen_call" where
  "vrott gv n = vrote gv 0 n"

section \<open>Comparisons\<close>

definition vset_VT_CMP :: "u32 \<Rightarrow> 'a gen_call" where
  "vset_VT_CMP op = set_vtop (\<lambda>v. v\<lparr>sv_r := VT_CMP, cmp_op := ucast op, sv_ci := 0\<rparr>)"

text \<open>gaddrof: the address of an lvalue; a saved one becomes an lvalue again.\<close>

definition gaddrof :: "'a gen_call" where
  "gaddrof = set_vtop (\<lambda>v.
     let r = sv_r v AND NOT VT_LVAL in
     v\<lparr>sv_r := (if r AND VT_VALMASK = VT_LLOCAL
                then (r AND NOT VT_VALMASK) OR VT_LOCAL OR VT_LVAL else r)\<rparr>)"

end
