(* ===== verification/Reg_Alloc.thy ===== *)
theory Reg_Alloc
  imports Value_Ops
begin

text \<open>
  The register allocator of tccgen.c: reg_classes of riscv32-gen.c, spilling a register into a
  temporary local (save_reg_upstack, get_temp_local_var), finding a free register (get_reg), and
  the classes a type needs (R_RET to RC2_TYPE). Registers and register classes are ints.
\<close>

section \<open>Register classes\<close>

abbreviation (input) RC_INT :: u32 where "RC_INT \<equiv> 1"
abbreviation (input) RC_FLOAT :: u32 where "RC_FLOAT \<equiv> 2"

text \<open>RC_R for 0 to 7, RC_F for 8 to 15.\<close>

definition reg_classes :: "u32 list" where
  "reg_classes =
     map (\<lambda>x. RC_INT OR push_bit (2 + x) 1) [0..<8] @
     map (\<lambda>x. RC_FLOAT OR push_bit (10 + x) 1) [0..<8] @
     [0, push_bit 17 1, push_bit 18 1]"

definition reg_class :: "u16 \<Rightarrow> u32 res" where
  "reg_class r = (if unat r < 19 then Inr (reg_classes ! unat r) else Inl MemFault)"

definition R_RET :: "u32 \<Rightarrow> u16" where
  "R_RET t = (if is_float t then 8 else 0)"

definition R2_RET :: "u32 \<Rightarrow> u16" where
  "R2_RET t = (if t AND VT_BTYPE = VT_LLONG then 1 else VT_CONST)"

definition USING_TWO_WORDS :: "u32 \<Rightarrow> bool" where
  "USING_TWO_WORDS t \<longleftrightarrow> R2_RET t \<noteq> VT_CONST"

definition PUT_R_RET :: "u32 \<Rightarrow> SValue \<Rightarrow> SValue" where
  "PUT_R_RET t sv = sv\<lparr>sv_r := R_RET t, sv_r2 := R2_RET t\<rparr>"

definition RC_RET :: "u32 \<Rightarrow> u32" where
  "RC_RET t = (reg_classes ! unat (R_RET t)) AND NOT (RC_FLOAT OR RC_INT)"

definition RC_TYPE :: "u32 \<Rightarrow> u32" where
  "RC_TYPE t = (if is_float t then RC_FLOAT else RC_INT)"

definition RC2_TYPE :: "u32 \<Rightarrow> u32 \<Rightarrow> u32" where
  "RC2_TYPE t rc =
     (if \<not> USING_TWO_WORDS t then 0
      else if rc = push_bit 2 1 then push_bit 3 1
      else if rc AND RC_FLOAT \<noteq> 0 then RC_FLOAT
      else RC_INT)"

section \<open>Temporary locals\<close>

definition local_in_use :: "u32 \<Rightarrow> SValue list \<Rightarrow> bool" where
  "local_in_use l vs \<longleftrightarrow>
     (\<exists>p \<in> set vs. (stack_loc p = VT_LOCAL \<or> stack_loc p = VT_LLOCAL) \<and> sv_ci p = scast l)"

fun find_temp :: "u32 \<Rightarrow> u32 \<Rightarrow> SValue list \<Rightarrow> (u32 \<times> u16 \<times> u16) list \<Rightarrow> u32 option" where
  "find_temp sz al vs [] = None"
| "find_temp sz al vs ((l, tsz, tal) # ts) =
     (if sint tsz < sint sz \<or> al \<noteq> scast tal then find_temp sz al vs ts
      else if \<not> local_in_use l vs then Some l
      else find_temp sz al vs ts)"

definition get_temp_local_var :: "u32 \<Rightarrow> u32 \<Rightarrow> 'a gen_state_scheme \<Rightarrow> u32 \<times> 'a gen_state_scheme" where
  "get_temp_local_var sz al s =
     (case find_temp sz al (vstack s) (temp_vars s) of
        Some l \<Rightarrow> (l, s)
      | None \<Rightarrow>
          (let l = (loc s - sz) AND - al in
           (l, s\<lparr>loc := l, temp_vars :=
              (if length (temp_vars s) < 8 then temp_vars s @ [(l, ucast sz, ucast al)]
               else temp_vars s)\<rparr>)))"

definition clear_temp_local_var_list :: "'a gen_state_scheme \<Rightarrow> 'a gen_state_scheme" where
  "clear_temp_local_var_list s = s\<lparr>temp_vars := []\<rparr>"

section \<open>Spilling\<close>

definition uses_reg :: "u16 \<Rightarrow> SValue \<Rightarrow> bool" where
  "uses_reg r p \<longleftrightarrow> stack_loc p = r \<or> sv_r2 p = r"

text \<open>Store the registers of an entry into a new temporary local, whose offset is returned.\<close>

definition spill :: "SValue \<Rightarrow> u32 \<Rightarrow> 'a gen_state_scheme \<Rightarrow> (u32 \<times> 'a gen_state_scheme) res" where
  "spill p bt s =
     bindR (type_size (CType bt None)) (\<lambda>(sz, al).
     let (l, s1) = get_temp_local_var sz al s;
         sv = \<lparr>sv_type = CType bt None, sv_r = VT_LOCAL OR VT_LVAL, sv_r2 = VT_CONST, sv_ci = scast l,
               sv_sym = None, cmp_op = 0, cmp_r = 0\<rparr> in
     bindR (store (ucast (stack_loc p)) sv s1) (\<lambda>(sv1, s2).
     if sv_r2 p < VT_CONST \<and> USING_TWO_WORDS bt
     then bindR (store (ucast (sv_r2 p)) (sv1\<lparr>sv_ci := sv_ci sv1 + 4\<rparr>) s2) (\<lambda>(sv2, s3). Inr (l, s3))
     else Inr (l, s2)))"

text \<open>The entry after its register went to the local at \<open>l\<close>.\<close>

definition mark_saved :: "u32 \<Rightarrow> SValue \<Rightarrow> SValue" where
  "mark_saved l p = p\<lparr>
     sv_r := (if sv_r p AND VT_LVAL \<noteq> 0
              then (sv_r p AND NOT (VT_VALMASK OR VT_BOUNDED)) OR VT_LLOCAL
              else VT_LVAL OR VT_LOCAL),
     sv_sym := None, cmp_op := 0, cmp_r := 0, sv_r2 := VT_CONST, sv_ci := scast l\<rparr>"

text \<open>The loop of save_reg_upstack over positions of the value stack, counted from the top.\<close>

fun save_loop :: "u16 \<Rightarrow> nat list \<Rightarrow> u32 \<Rightarrow> 'a gen_state_scheme \<Rightarrow> 'a gen_state_scheme res" where
  "save_loop r [] l s = Inr s"
| "save_loop r (j # js) l s =
     (let p = vstack s ! j in
      if uses_reg r p then
        (let bt0 = stack_btype p;
             bt = (if sv_r p AND VT_LVAL \<noteq> 0 \<or> bt0 = VT_FUNC then VT_PTR else bt0) in
         if l = 0 \<and> bt0 = VT_VOID then save_loop r js l s
         else bindR (if l = 0 then spill p bt s else Inr (l, s)) (\<lambda>(l1, s1).
           save_loop r js l1 (s1\<lparr>vstack := (vstack s1)[j := mark_saved l1 p]\<rparr>)))
      else save_loop r js l s)"

definition save_reg_upstack :: "u16 \<Rightarrow> nat \<Rightarrow> 'a gen_call" where
  "save_reg_upstack r0 n s =
     (let r = r0 AND VT_VALMASK in
      if r \<ge> VT_CONST \<or> nocode_wanted s \<noteq> 0 then Inr s
      else save_loop r (rev [n..<length (vstack s)]) 0 s)"

definition save_reg :: "u16 \<Rightarrow> 'a gen_call" where
  "save_reg r = save_reg_upstack r 0"

fun save_regs_loop :: "nat list \<Rightarrow> 'a gen_call" where
  "save_regs_loop [] s = Inr s"
| "save_regs_loop (j # js) s = bindR (save_reg (sv_r (vstack s ! j)) s) (save_regs_loop js)"

definition save_regs :: "nat \<Rightarrow> 'a gen_call" where
  "save_regs n s = save_regs_loop (rev [n..<length (vstack s)]) s"

section \<open>Finding a register\<close>

fun find_free :: "u32 \<Rightarrow> bool \<Rightarrow> SValue list \<Rightarrow> u16 list \<Rightarrow> u16 option" where
  "find_free rc nocode vs [] = None"
| "find_free rc nocode vs (r # rs) =
     (if (reg_classes ! unat r) AND rc \<noteq> 0 \<and> (nocode \<or> \<not> (\<exists>p \<in> set vs. uses_reg r p)) then Some r
      else find_free rc nocode vs rs)"

text \<open>The register to take from an entry, the second one first.\<close>

definition reg_to_take :: "u32 \<Rightarrow> SValue \<Rightarrow> u16 option res" where
  "reg_to_take rc p =
     (let try = (\<lambda>r. if r < VT_CONST then bindR (reg_class r) (\<lambda>c. Inr (c AND rc \<noteq> 0)) else Inr False) in
      bindR (try (sv_r2 p)) (\<lambda>b.
      if b then Inr (Some (sv_r2 p))
      else bindR (try (stack_loc p)) (\<lambda>b2. Inr (if b2 then Some (stack_loc p) else None))))"

fun take_reg :: "u32 \<Rightarrow> SValue list \<Rightarrow> 'a gen_state_scheme \<Rightarrow> (u32 \<times> 'a gen_state_scheme) res" where
  "take_reg rc [] s = Inr (- 1, s)"
| "take_reg rc (p # ps) s =
     bindR (reg_to_take rc p) (\<lambda>ro. case ro of
       Some r \<Rightarrow> bindR (save_reg r s) (\<lambda>s1. Inr (ucast r, s1))
     | None \<Rightarrow> take_reg rc ps s)"

definition get_reg :: "u32 \<Rightarrow> 'a gen_state_scheme \<Rightarrow> (u32 \<times> 'a gen_state_scheme) res" where
  "get_reg rc s =
     (case find_free rc (nocode_wanted s \<noteq> 0) (vstack s) (map of_nat [0..<19]) of
        Some r \<Rightarrow> Inr (ucast r, s)
      | None \<Rightarrow> take_reg rc (rev (vstack s)) s)"

text \<open>move_reg: register \<open>q\<close> of type \<open>t\<close> into \<open>r\<close>, whose value is saved first.\<close>

definition move_reg :: "nat \<Rightarrow> u16 \<Rightarrow> u16 \<Rightarrow> u32 \<Rightarrow> 'a gen_call" where
  "move_reg k r q t s =
     (if r \<noteq> q then
        bindR (save_reg r s) (\<lambda>s1.
        bindR (load k (ucast r) \<lparr>sv_type = CType t None, sv_r = q, sv_r2 = VT_CONST, sv_ci = 0,
            sv_sym = None, cmp_op = 0, cmp_r = 0\<rparr> s1) (\<lambda>(sv, s2). Inr s2))
      else Inr s)"

end
