(* ===== verification/Riscv_Jumps_Props.thy ===== *)
theory Riscv_Jumps_Props
  imports Riscv_Jumps
begin

text \<open>
  Jump lists do what the code generator relies on: joining keeps every place, resolving a list
  makes each place jump to the target, and a comparison followed by its jump goes where the
  comparison says. The list laws come from the locale \<open>code_mem\<close>, the emission laws from
  \<open>insn_sink\<close>, through their interpretations.
\<close>

section \<open>What the words do\<close>

definition jump_word :: "u32 \<Rightarrow> nat \<Rightarrow> u32" where
  "jump_word a p = (let rel_jmp = a - of_nat p in
     if rel_jmp = 4 then insn_I 0 0 0 0 0x13 else insn_J rel_jmp 0 0x6f)"

lemma o_insn_at:
  assumes "nocode_wanted s = 0" and "p + 4 \<le> data_allocated (text_sec s)"
  shows "o_insn w (s\<lparr>ind := p\<rparr>) = (set_text (\<lambda>d. write32le d p w) s)\<lparr>ind := p + 4\<rparr>"
  using assms by (simp add: o_insn_def reserve_def set_text_def)

lemma set_text_ind [simp]: "set_text f (s\<lparr>ind := p\<rparr>) = (set_text f s)\<lparr>ind := p\<rparr>"
  "set_text f (s\<lparr>nocode_wanted := v\<rparr>) = (set_text f s)\<lparr>nocode_wanted := v\<rparr>"
  by (simp_all add: set_text_def)

lemma set_text_set_text [simp]: "set_text f (set_text h s) = set_text (f \<circ> h) s"
  by (simp add: set_text_def)

lemma set_text_id [simp]: "set_text (\<lambda>d. d) s = s" "set_text id s = s"
  by (simp_all add: set_text_def)

lemma code_word_ind [simp]: "code_word (s\<lparr>ind := p\<rparr>) q = code_word s q"
  "code_word (s\<lparr>nocode_wanted := v\<rparr>) q = code_word s q"
  "code_word (set_text f s) q = read32le (f (sdata (text_sec s))) q"
  by (simp_all add: code_word_def)

lemma gsym_step:
  assumes "nocode_wanted s = 0" and "p + 4 \<le> data_allocated (text_sec s)" and "a - of_nat p = r"
  shows "(if r = 4 then emit_NOP (s\<lparr>ind := p\<rparr>) else emit_J_inst r (s\<lparr>ind := p\<rparr>)) =
    (set_text (\<lambda>d. write32le d p (jump_word a p)) s)\<lparr>ind := p + 4\<rparr>"
  using assms by (auto simp: jump_word_def insn_defs emit_I_def emit_J_def o_insn_at)

abbreviation text_linked :: "'a emit_state_scheme \<Rightarrow> u32 \<Rightarrow> nat list \<Rightarrow> bool" where
  "text_linked s \<equiv> linked (read32le (sdata (text_sec s))) (data_allocated (text_sec s))"

lemma text_word_at:
  assumes "p < 2 ^ 31" and "p + 4 \<le> data_allocated (text_sec s)"
  shows "text_word (of_nat p) s = Inr (code_word s p)" "unat (of_nat p :: u32) = p"
    "0 < p \<Longrightarrow> (of_nat p :: u32) \<noteq> 0"
proof -
  show u: "unat (of_nat p :: u32) = p" using assms(1) by (simp add: unat_of_nat)
  then have "uint (of_nat p :: u32) = int p" by (simp add: uint_nat)
  with assms(1) have "sint (of_nat p :: u32) = int p" by (subst sint_small) simp_all
  with u assms(2) show "text_word (of_nat p) s = Inr (code_word s p)"
    by (simp add: text_word_def)
  show "(of_nat p :: u32) \<noteq> 0" if "0 < p" using u that by auto
qed


lemma gsym_loop_patches:
  assumes "nocode_wanted s = 0" and "text_linked s n ps" and "all_apart ps"
    and "\<forall>p \<in> set ps. \<not> far_jump (a - of_nat p)" and "length ps < k"
  shows "\<exists>i. gsym_loop k n a s =
    Inr ((set_text (fold (\<lambda>p d. write32le d p (jump_word a p)) ps) s)\<lparr>ind := i\<rparr>)"
  using assms
proof (induction ps arbitrary: k n s)
  case Nil
  then obtain k' where "k = Suc k'" by (cases k) auto
  with Nil show ?case by (intro exI [of _ "ind s"]) simp
next
  case (Cons p ps)
  then obtain k' where k: "k = Suc k'" by (cases k) auto
  let ?s = "(set_text (\<lambda>d. write32le d p (jump_word a p)) s)\<lparr>ind := p + 4\<rparr>"
  have p: "n = of_nat p" "0 < p" "p < 2 ^ 31" "p + 4 \<le> data_allocated (text_sec s)"
    and rest: "text_linked s (code_word s p) ps"
    using Cons.prems(2) by (simp_all add: code_word_def)
  note at = text_word_at [OF p(3,4)]
  have "text_linked ?s (code_word s p) ps"
    using rest Cons.prems(3) p(4) by (simp add: code.linked_wr)
  with Cons.IH [of ?s "code_word s p" k'] Cons.prems k obtain i where
    "gsym_loop k' (code_word s p) a ?s =
      Inr ((set_text (fold (\<lambda>p d. write32le d p (jump_word a p)) ps) ?s)\<lparr>ind := i\<rparr>)"
    by auto
  moreover have "text_word (of_nat p) (s\<lparr>ind := p\<rparr>) = Inr (code_word s p)"
    using text_word_at(1) [of p "s\<lparr>ind := p\<rparr>"] p by simp
  ultimately show ?case
    using Cons.prems(1,4) p at(2,3) k gsym_step [OF Cons.prems(1) p(4), of a]
    by (auto simp: Let_def comp_def cong: if_cong)
qed

lemma gsym_addr_patches:
  assumes "nocode_wanted s AND NOT 0x20000000 = 0" and "text_linked s n ps" and "all_apart ps"
    and "\<forall>p \<in> set ps. \<not> far_jump (a - of_nat p)" and "length ps < k"
  shows "gsym_addr k n a s =
    Inr (set_text (fold (\<lambda>p d. write32le d p (jump_word a p)) ps) s)"
proof -
  let ?s = "s\<lparr>nocode_wanted := nocode_wanted s AND NOT 0x20000000\<rparr>"
  obtain i where "gsym_loop k n a ?s =
      Inr ((set_text (fold (\<lambda>p d. write32le d p (jump_word a p)) ps) ?s)\<lparr>ind := i\<rparr>)"
    using gsym_loop_patches [of ?s n ps a k] assms by auto
  then show ?thesis by (simp add: gsym_addr_def set_text_def)
qed


lemma far_jump_iff: "far_jump r \<longleftrightarrow> bit r 0 \<or> \<not> (- (2 ^ 21) \<le> sint r \<and> sint r < 2 ^ 21)"
proof -
  have mask: "push_bit 22 1 - 2 = (push_bit 1 (mask 21) :: u32)"
    by (simp add: mask_eq_exp_minus_1 push_bit_eq_mult)
  have "bit (r + push_bit 21 1) 0 \<longleftrightarrow> bit r 0" by (simp add: bit_0)
  moreover have "fits_in (Suc 21) (r + push_bit 21 1) \<longleftrightarrow> uint (r + 2 ^ 21) < 2 ^ Suc 21"
    by (simp add: fits_in_uint_iff)
  ultimately show ?thesis
    unfolding far_jump_def mask using sint_shift_range [of 21 r]
    using range_check_bits [of "r + push_bit 21 1" 21]
    by auto
qed


lemma not_far_jump:
  "\<not> far_jump r \<longleftrightarrow> \<not> bit r 0 \<and> - (2 ^ 21) \<le> sint r \<and> sint r < 2 ^ 21"
  using far_jump_iff by blast

section \<open>Running code in place\<close>

text \<open>
  \<open>run_at n code base c\<close> runs \<open>n\<close> instructions of code loaded at address \<open>base\<close>, each fetched
  from where the program counter points.
\<close>

fun run_at :: "nat \<Rightarrow> 'a emit_state_scheme \<Rightarrow> u32 \<Rightarrow> cpu \<Rightarrow> cpu option" where
  "run_at 0 s base c = Some c"
| "run_at (Suc n) s base c =
     (case run [code_word s (unat (pc c - base))] c of None \<Rightarrow> None
      | Some c1 \<Rightarrow> run_at n s base c1)"

declare run_at.simps(2) [simp del]

definition in_reach :: "u32 \<Rightarrow> bool" where
  "in_reach r \<longleftrightarrow> \<not> bit r 0 \<and> - (2 ^ 20) \<le> sint r \<and> sint r < 2 ^ 20"

lemma in_reach_near: "in_reach r \<Longrightarrow> \<not> far_jump r"
  by (simp add: in_reach_def not_far_jump)

lemma run_insn_J: "run [insn_J r 0 0x6f] c = Some (c\<lparr>pc := pc c + sext21 r\<rparr>)"
proof -
  have "fits_in 5 (0 :: u32)" by (simp add: fits_in_def)
  then show ?thesis by (simp add: run.simps decode_insn_J exec_def wreg_def)
qed

lemma run_jump_word:
  assumes "in_reach (a - of_nat p)" and "pc c = base + of_nat p"
  shows "run [jump_word a p] c = Some (c\<lparr>pc := base + a\<rparr>)"
proof (cases "a - of_nat p = 4")
  case True
  have "fits_in 5 (0 :: u32)" by (simp add: fits_in_def)
  then have "run [insn_I 0 0 0 0 0x13] c = Some (c\<lparr>pc := pc c + 4\<rparr>)"
    by (simp add: run.simps decode_ADDI exec_def wreg_def)
  moreover have "pc c + 4 = base + a" using assms(2) True by (simp add: algebra_simps)
  ultimately show ?thesis using True by (simp add: jump_word_def)
next
  case False
  have "sext21 (a - of_nat p) = a - of_nat p"
    using assms(1) by (intro sext21_near) (simp_all add: in_reach_def)
  then have "pc c + sext21 (a - of_nat p) = base + a" using assms(2) by (simp add: algebra_simps)
  with False show ?thesis by (simp add: jump_word_def run_insn_J)
qed

section \<open>A sample of code with pending jumps\<close>

definition jump_state :: emit_state where
  "jump_state = \<lparr>text_sec = \<lparr>sdata = [0,0,0,0, 0,0,0,0, 0,0,0,0, 4,0,0,0, 0,0,0,0],
     data_offset = 0, sh_num = 1, sh_addr = 0, sh_addralign = 4\<rparr>, ind = 20, nocode_wanted = 0\<rparr>"

lemma jump_state_simps [simp]:
  "ind jump_state = 20" "nocode_wanted jump_state = 0" "data_allocated (text_sec jump_state) = 20"
  "emitting jump_state"
  by (simp_all add: jump_state_def emitting_def)

lemma jump_state_lists:
  "text_linked jump_state 12 [12, 4]" "text_linked jump_state 8 [8]" "text_linked jump_state 4 [4]"
  by (simp_all add: jump_state_def read32le_def read16le_def)

abbreviation zero_cpu :: "u32 \<Rightarrow> cpu" where
  "zero_cpu p \<equiv> \<lparr>pc = p, regs = (\<lambda>_. 0), mem = (\<lambda>_. 0)\<rparr>"

section \<open>Joining lists\<close>

lemma list_end_last:
  assumes "text_linked s n (ps @ [p])" and "length ps < k"
  shows "list_end k n s = Inr (of_nat p)"
  using assms
proof (induction ps arbitrary: n k)
  case Nil
  then obtain k' where "k = Suc k'" by (cases k) auto
  with Nil show ?case by (simp add: text_word_at code_word_def)
next
  case (Cons a ps)
  then obtain k' where k: "k = Suc k'" by (cases k) auto
  have "read32le (sdata (text_sec s)) a \<noteq> 0"
    using Cons.prems(1) by (cases ps) (auto simp: text_word_at)
  with Cons k show ?case by (simp add: text_word_at code_word_def)
qed

text \<open>
  C34: gjmp_append joins two lists of pending jumps: following the result visits the places of
  the first list and then those of the second, every other word of the code is as before, and
  nothing else of the state changes. A list of n places needs n steps of fuel.
\<close>

theorem gjmp_append_joins:
  assumes "text_linked s n ps" and "text_linked s t qs" and "all_apart (ps @ qs)"
    and "length ps \<le> k" and q: "\<forall>p \<in> set ps. apart p q"
  shows "\<exists>h s'. gjmp_append k n t s = Inr (h, s') \<and> text_linked s' h (ps @ qs) \<and>
    code_word s' q = code_word s q \<and>
    (\<exists>d. s' = set_text (\<lambda>_. d) s \<and> length d = data_allocated (text_sec s))"
proof (cases ps rule: rev_cases)
  case Nil
  have "s = set_text (\<lambda>_. sdata (text_sec s)) s" by (simp add: set_text_def)
  with Nil assms show ?thesis by (auto simp: gjmp_append_def)
next
  case (snoc ps' p)
  let ?s = "set_text (\<lambda>d. write32le d p t) s"
  have p: "0 < p" "p < 2 ^ 31" "p + 4 \<le> data_allocated (text_sec s)"
    using linked_bound [of _ _ n ps p] assms(1) snoc by auto
  have "list_end k n s = Inr (of_nat p)"
    using assms(1,4) snoc by (intro list_end_last) auto
  moreover have "n \<noteq> 0"
    using assms(1) snoc text_word_at(3) by (cases ps') (auto simp del: of_nat_eq_0_iff)
  ultimately have "gjmp_append k n t s = Inr (n, ?s)"
    using text_word_at(2) [OF p(2,3)] by (simp add: gjmp_append_def)
  moreover have "text_linked ?s n (ps @ qs)"
    using code.linked_append [of "sdata (text_sec s)" n ps' p t qs] assms snoc by simp
  moreover have "code_word ?s q = code_word s q"
    using snoc p(3) q by (simp add: code.rd_wr_apart code_word_def)
  moreover have "?s = set_text (\<lambda>_. write32le (sdata (text_sec s)) p t) s"
    by (simp add: set_text_def)
  ultimately show ?thesis by auto
qed

lemma gjmp_append_joins_witness:
  "\<exists>h s'. gjmp_append 2 12 8 jump_state = Inr (h, s') \<and> text_linked s' h ([12, 4] @ [8]) \<and>
    code_word s' 16 = code_word jump_state 16 \<and>
    (\<exists>d. s' = set_text (\<lambda>_. d) jump_state \<and> length d = data_allocated (text_sec jump_state))"
  by (rule gjmp_append_joins [OF jump_state_lists(1,2)]) (simp_all add: apart_def)


section \<open>Resolving a list\<close>

lemma run_at_1:
  assumes "pc c = base + of_nat p" and "p < 2 ^ 32"
  shows "run_at (Suc n) s base c =
    (case run [code_word s p] c of None \<Rightarrow> None | Some c1 \<Rightarrow> run_at n s base c1)"
  using assms by (simp add: run_at.simps(2) unat_of_nat)

lemma patched_word:
  assumes "text_linked s n ps" and "all_apart ps"
  shows "p \<in> set ps \<Longrightarrow>
      code_word (set_text (fold (\<lambda>p d. write32le d p (f p)) ps) s) p = f p"
    and "\<forall>p \<in> set ps. apart p q \<Longrightarrow>
      code_word (set_text (fold (\<lambda>p d. write32le d p (f p)) ps) s) q = code_word s q"
  using assms linked_bound [OF assms(1)] code.rd_fold [of ps _ p f] code.rd_fold_apart [of ps _ q f]
  by (auto simp: code_word_def)

lemma set_text_frame: "length (f (sdata (text_sec s))) = data_allocated (text_sec s) \<Longrightarrow>
    \<exists>d. set_text f s = set_text (\<lambda>_. d) s \<and> length d = data_allocated (text_sec s)"
  by (intro exI [of _ "f (sdata (text_sec s))"]) (simp add: set_text_def)

lemma gsym_addr_patched:
  assumes "nocode_wanted s AND NOT 0x20000000 = 0" and "text_linked s n ps" and "all_apart ps"
    and "\<forall>p \<in> set ps. in_reach (a - of_nat p)" and "length ps < k"
  shows "gsym_addr k n a s = Inr (set_text (fold (\<lambda>p d. write32le d p (jump_word a p)) ps) s)"
  using assms by (intro gsym_addr_patches) (simp_all add: in_reach_near)

lemma run_patched:
  assumes "text_linked s n ps" and "all_apart ps" and "\<forall>p \<in> set ps. in_reach (a - of_nat p)"
    and "p \<in> set ps" and pc: "pc c = base + of_nat p"
  shows "run_at 1 (set_text (fold (\<lambda>p d. write32le d p (jump_word a p)) ps) s) base c =
    Some (c\<lparr>pc := base + a\<rparr>)"
proof -
  have "p < 2 ^ 32" using linked_bound [OF assms(1,4)] by simp
  then show ?thesis
    using assms(3,4) patched_word(1) [OF assms(1,2,4), of "jump_word a"]
    by (simp add: run_at_1 [OF pc] run_jump_word [OF _ pc])
qed

text \<open>
  C19: gsym_addr turns every place of a list of pending jumps, all within the 1 MiB before or behind the
  target that a jump reaches, into a jump: executing the word there continues at the target, wherever the code is
  loaded, and changes no register and no memory. Words apart from the places keep their value and the rest of the
  state does not change. (Distances between 1 and 2 MiB are accepted and encoded wrongly, gsym_addr_overreach.)
\<close>

theorem gsym_addr_resolves:
  assumes "nocode_wanted s AND NOT 0x20000000 = 0" and "text_linked s n ps" and "all_apart ps"
    and "\<forall>p \<in> set ps. in_reach (a - of_nat p)" and "length ps < k"
    and "p \<in> set ps" and "pc c = base + of_nat p" and "\<forall>p \<in> set ps. apart p q"
  shows "\<exists>s'. gsym_addr k n a s = Inr s' \<and>
    run_at 1 s' base c = Some (c\<lparr>pc := base + a\<rparr>) \<and> code_word s' q = code_word s q \<and>
    (\<exists>d. s' = set_text (\<lambda>_. d) s \<and> length d = data_allocated (text_sec s))"
  using gsym_addr_patched [OF assms(1-5)] run_patched [OF assms(2-4,6,7)]
    patched_word(2) [OF assms(2,3,8), of "jump_word a"]
    set_text_frame [of "fold (\<lambda>p d. write32le d p (jump_word a p)) ps" s]
  by auto

lemma gsym_addr_resolves_witness:
  "\<exists>s'. gsym_addr 3 12 100 jump_state = Inr s' \<and>
    run_at 1 s' 0x80000000 (zero_cpu 0x80000004) =
      Some ((zero_cpu 0x80000004)\<lparr>pc := 0x80000000 + 100\<rparr>) \<and>
    code_word s' 16 = code_word jump_state 16 \<and>
    (\<exists>d. s' = set_text (\<lambda>_. d) jump_state \<and> length d = data_allocated (text_sec jump_state))"
  by (rule gsym_addr_resolves [OF _ jump_state_lists(1), where p = 4])
    (simp_all add: apart_def in_reach_def)


text \<open>
  The range check of gsym_addr is twice as wide as the field. It accepts an even displacement
  between 1 and 2 MiB, and the jump it writes then lands 2 MiB away from the target.
\<close>

theorem gsym_addr_overreach:
  assumes "nocode_wanted s AND NOT 0x20000000 = 0" and "text_linked s n [p]" and "1 < k"
    and "\<not> bit (a - of_nat p) 0" and "2 ^ 20 \<le> sint (a - of_nat p)" and "sint (a - of_nat p) < 2 ^ 21"
    and pc: "pc c = base + of_nat p"
  shows "\<exists>s'. gsym_addr k n a s = Inr s' \<and>
    run_at 1 s' base c = Some (c\<lparr>pc := base + a - 2 ^ 21\<rparr>)"
proof -
  let ?s = "set_text (fold (\<lambda>p d. write32le d p (jump_word a p)) [p]) s"
  have "gsym_addr k n a s = Inr ?s"
    using assms by (intro gsym_addr_patches) (simp_all add: not_far_jump)
  moreover have "run [jump_word a p] c = Some (c\<lparr>pc := base + a - 2 ^ 21\<rparr>)"
  proof -
    have "a - of_nat p \<noteq> 4" using assms(5) by auto
    then show ?thesis
      using sext21_beyond(1) [OF assms(4,5,6)] pc
      by (simp add: jump_word_def run_insn_J algebra_simps)
  qed
  moreover have "p < 2 ^ 32" using assms(2) by simp
  ultimately show ?thesis
    using patched_word(1) [OF assms(2), of p "jump_word a"]
    by (simp add: run_at_1 [OF pc])
qed

lemma gsym_addr_overreach_witness:
  "\<exists>s'. gsym_addr 2 4 0x100004 jump_state = Inr s' \<and>
    run_at 1 s' 0x80000000 (zero_cpu 0x80000004) =
      Some ((zero_cpu 0x80000004)\<lparr>pc := 0x80000000 + 0x100004 - 2 ^ 21\<rparr>)"
  by (rule gsym_addr_overreach [OF _ jump_state_lists(3)]) simp_all


section \<open>Conditional jumps\<close>

text \<open>What the comparison tokens compare.\<close>

definition compare_holds :: "u32 \<Rightarrow> u32 \<Rightarrow> u32 \<Rightarrow> bool" where
  "compare_holds op x y \<longleftrightarrow>
     (op = TOK_ULT \<and> x < y) \<or> (op = TOK_UGE \<and> y \<le> x) \<or>
     (op = TOK_ULE \<and> x \<le> y) \<or> (op = TOK_UGT \<and> y < x) \<or>
     (op = TOK_LT \<and> sint x < sint y) \<or> (op = TOK_GE \<and> sint y \<le> sint x) \<or>
     (op = TOK_LE \<and> sint x \<le> sint y) \<or> (op = TOK_GT \<and> sint y < sint x) \<or>
     (op = TOK_EQ \<and> x = y) \<or> (op = TOK_NE \<and> x \<noteq> y)"

definition comparisons :: "u32 set" where
  "comparisons = {TOK_ULT, TOK_UGE, TOK_EQ, TOK_NE, TOK_ULE, TOK_UGT, TOK_LT, TOK_GE, TOK_LE, TOK_GT}"

lemma cond_branch_decodes:
  assumes "op \<in> comparisons" and "cond_branch op a b = (op1, a1, b1)"
    and "fits_in 5 a" and "fits_in 5 b"
  shows "\<exists>br. decode (insn_B 8 b1 a1 (op1 XOR 1) 0x63) = Some (Branch br a1 b1 8) \<and>
    (\<forall>c. branch_taken br (rreg c a1) (rreg c b1) \<longleftrightarrow> \<not> compare_holds op (rreg c a) (rreg c b))"
proof -
  have B: "B_offset 8 = 8" by (intro B_offset_exact) (simp_all add: fits_in_def)
  have x: "(6 :: u32) XOR 1 = 7" "(7 :: u32) XOR 1 = 6" "(4 :: u32) XOR 1 = 5" "(5 :: u32) XOR 1 = 4"
    "(1 :: u32) XOR 1 = 0" "(0 :: u32) XOR 1 = 1" by simp_all
  show ?thesis
    using assms unfolding comparisons_def
    by (elim insertE emptyE)
      (auto simp: cond_branch_def compare_holds_def decode_insn_B x decode_branch_def B fits
        branch_taken_def not_less not_le)
qed


lemma gjmp_cond_word:
  "0x63 OR push_bit 12 f OR push_bit 15 a OR push_bit 20 b OR push_bit 7 8 = insn_B 8 b a f 0x63"
proof -
  have swap: "c OR f' OR a' OR b' OR d = b' OR a' OR f' OR d OR c" for c f' a' b' d :: u32
    by (simp add: ac_simps)
  have "insn_B 8 b a f 0x63 = push_bit 20 b OR push_bit 15 a OR push_bit 12 f OR push_bit 7 8 OR 0x63"
    by (simp add: insn_B_def Let_def)
  then show ?thesis by (simp only: swap)
qed

lemma linked_mono:
  "linked rd lim n ps \<Longrightarrow> lim \<le> lim' \<Longrightarrow> \<forall>p \<in> set ps. rd' p = rd p \<Longrightarrow> linked rd' lim' n ps"
  by (induction ps arbitrary: n) auto

lemma o_insn_room:
  assumes "emitting s"
  shows "ind s + 4 \<le> data_allocated (text_sec (o_insn w s))"
    "data_allocated (text_sec s) \<le> data_allocated (text_sec (o_insn w s))"
proof -
  have "nocode_wanted s = 0" using assms by (simp add: emitting_def)
  then obtain k where
    "sdata (text_sec (o_insn w s)) = write32le (sdata (text_sec s) @ replicate k 0) (ind s) w"
    "ind s + 4 \<le> data_allocated (text_sec s) + k"
    by (rule o_insn_active)
  then show "ind s + 4 \<le> data_allocated (text_sec (o_insn w s))"
    "data_allocated (text_sec s) \<le> data_allocated (text_sec (o_insn w s))" by simp_all
qed

lemma o_insn_linked:
  assumes "emitting s" and "text_linked s t qs" and "\<forall>q \<in> set qs. q + 4 \<le> ind s"
  shows "text_linked (o_insn w s) t qs"
  using assms(2) o_insn_room(2) [OF assms(1)]
  by (rule linked_mono) (use tsink.word_put_old [OF assms(1)] assms(3) in \<open>simp add: code_word_def\<close>)

lemma gjmp_links:
  assumes "emitting s" and "text_linked s t qs" and "\<forall>q \<in> set qs. q + 4 \<le> ind s"
    and "0 < ind s" and "ind s < 2 ^ 31" and "gjmp t s = (h, s')"
  shows "text_linked s' h (ind s # qs)" and "s' = o_insn t s" and "h = of_nat (ind s)"
proof -
  have g: "h = of_nat (ind s)" "s' = o_insn t s"
    using assms(1,6) o_insn_word(2) [OF assms(1), of t] by (auto simp: gjmp_def emitting_def)
  then show "s' = o_insn t s" "h = of_nat (ind s)" by simp_all
  show "text_linked s' h (ind s # qs)"
    using g o_insn_linked [OF assms(1-3), of t] o_insn_word(1) [OF assms(1), of t]
      o_insn_room(1) [OF assms(1)] assms(4,5)
    by (simp add: code_word_def)
qed

text \<open>
  C7: A comparison and its jump, when the target and the pending jumps are within the 1 MiB a jump reaches.
  gjmp_cond followed by gsym_addr then makes code that continues at the target when the comparison holds and
  behind the two words it wrote when it does not; the list of pending jumps it was given is resolved to the
  same target. (Between 1 and 2 MiB gsym_addr accepts distances it encodes wrongly, gsym_addr_overreach.)
\<close>

theorem gjmp_cond_jumps:
  fixes s :: "'a emit_state_scheme"
  assumes "emitting s" and "text_linked s t qs" and "\<forall>q \<in> set qs. q + 4 \<le> ind s" and "all_apart qs"
    and "0 < ind s" and "ind s < 2 ^ 31 - 4" and "op \<in> comparisons"
    and ra: "ra = ucast cmp_r AND 0xff" "fits_in 5 ra"
    and rb: "rb = drop_bit 8 (ucast cmp_r) AND 0xff" "fits_in 5 rb"
    and "\<forall>q \<in> set qs. in_reach (a - of_nat q)" and "in_reach (a - of_nat (ind s + 4))"
    and "length qs + 2 \<le> k" and g: "gjmp_cond op t cmp_r s = (h, s1)"
    and pc: "pc c = base + of_nat (ind s)"
  shows "\<exists>s2. gsym_addr k h a s1 = Inr s2 \<and>
    (if compare_holds op (rreg c ra) (rreg c rb)
     then run_at 2 s2 base c = Some (c\<lparr>pc := base + a\<rparr>)
     else run_at 1 s2 base c = Some (c\<lparr>pc := base + of_nat (ind s) + 8\<rparr>)) \<and>
    (\<forall>q \<in> set qs. run_at 1 s2 base (c\<lparr>pc := base + of_nat q\<rparr>) = Some (c\<lparr>pc := base + a\<rparr>))"
proof -
  obtain op1 a1 b1 where cb: "cond_branch op ra rb = (op1, a1, b1)" by (cases "cond_branch op ra rb")
  let ?w = "insn_B 8 b1 a1 (op1 XOR 1) 0x63"
  let ?s = "o_insn ?w s"
  obtain br where br: "decode ?w = Some (Branch br a1 b1 8)"
    "branch_taken br (rreg c a1) (rreg c b1) \<longleftrightarrow> \<not> compare_holds op (rreg c ra) (rreg c rb)" for c
    using cond_branch_decodes [OF assms(7) cb ra(2) rb(2)] by blast
  note w = o_insn_word [OF assms(1), of ?w]
  have g': "gjmp t ?s = (h, s1)"
    using g unfolding gjmp_cond_def ra(1) [symmetric] rb(1) [symmetric] cb prod.case Let_def gjmp_cond_word .
  have ql: "\<forall>q \<in> set qs. q + 4 \<le> ind ?s" using assms(3) w(2) by auto
  have ls: "text_linked s1 h ((ind s + 4) # qs)" and s1: "s1 = o_insn t ?s"
    using gjmp_links [OF w(3) o_insn_linked [OF assms(1-3)] ql _ _ g'] w(2) assms(6) by simp_all
  have em: "emitting s1" unfolding s1 by (rule o_insn_word(3) [OF w(3)])
  have ap: "all_apart ((ind s + 4) # qs)" using assms(3,4) by (auto simp: apart_def)
  have rs: "\<forall>p \<in> set ((ind s + 4) # qs). in_reach (a - of_nat p)" using assms(12,13) by simp
  define s2 where "s2 = set_text (fold (\<lambda>p d. write32le d p (jump_word a p)) ((ind s + 4) # qs)) s1"
  have s2: "gsym_addr k h a s1 = Inr s2"
    using gsym_addr_patched [OF _ ls ap rs, of k] em assms(14) by (simp add: s2_def emitting_def)
  have jumps: "run_at 1 s2 base c = Some (c\<lparr>pc := base + a\<rparr>)"
    if "p \<in> set ((ind s + 4) # qs)" "pc c = base + of_nat p" for p base c
    unfolding s2_def by (rule run_patched [OF ls ap rs that])
  have "\<forall>p \<in> set ((ind s + 4) # qs). apart p (ind s)" using assms(3) by (auto simp: apart_def)
  then have "code_word s2 (ind s) = code_word s1 (ind s)"
    unfolding s2_def by (rule patched_word(2) [OF ls ap])
  also have "\<dots> = ?w"
    using tsink.word_put_old [OF w(3), of "ind s" t] w(1,2) by (simp add: s1)
  finally have wd: "code_word s2 (ind s) = ?w" .
  have "if compare_holds op (rreg c ra) (rreg c rb)
      then run_at 2 s2 base c = Some (c\<lparr>pc := base + a\<rparr>)
      else run_at 1 s2 base c = Some (c\<lparr>pc := base + of_nat (ind s) + 8\<rparr>)"
  proof -
    have lt: "ind s < 2 ^ 32" using assms(6) by simp
    have "run [?w] c = Some (if compare_holds op (rreg c ra) (rreg c rb)
        then c\<lparr>pc := pc c + 4\<rparr> else c\<lparr>pc := pc c + 8\<rparr>)"
      using br by (simp add: run.simps exec_def)
    moreover have "run_at 1 s2 base (c\<lparr>pc := pc c + 4\<rparr>) = Some (c\<lparr>pc := base + a\<rparr>)"
      using jumps [of "ind s + 4" "next_pc c" base] pc
      by (simp add: algebra_simps del: One_nat_def)
    ultimately show ?thesis
      using pc run_at_1 [OF pc lt, of 0 s2] run_at_1 [OF pc lt, of 1 s2]
      by (simp add: wd numeral_2_eq_2)
  qed
  moreover have "run_at 1 s2 base (c\<lparr>pc := base + of_nat q\<rparr>) = Some (c\<lparr>pc := base + a\<rparr>)"
    if "q \<in> set qs" for q
    using jumps [of q "c\<lparr>pc := base + of_nat q\<rparr>" base] that by (simp del: One_nat_def)
  ultimately show ?thesis using s2 by blast
qed

lemma gjmp_cond_jumps_witness:
  "\<exists>h s1. gjmp_cond TOK_LT 12 0x0b0a jump_state = (h, s1) \<and>
    (\<exists>s2. gsym_addr 4 h 100 s1 = Inr s2 \<and>
      run_at 1 s2 0 (zero_cpu 20) = Some ((zero_cpu 20)\<lparr>pc := 0 + of_nat (ind jump_state) + 8\<rparr>))"
proof -
  obtain h s1 where g: "gjmp_cond TOK_LT 12 0x0b0a jump_state = (h, s1)" by fastforce
  have ra: "(10 :: u32) = ucast (0x0b0a :: u16) AND 0xff" by simp
  have rb: "(11 :: u32) = drop_bit 8 (ucast (0x0b0a :: u16)) AND 0xff" by code_simp
  show ?thesis
    using gjmp_cond_jumps [OF _ jump_state_lists(1) _ _ _ _ _ ra _ rb _ _ _ _ g,
        of 100 4 "zero_cpu 20" 0] g
    by (auto simp: comparisons_def compare_holds_def in_reach_def apart_def fits_in_def rreg_def
        simp del: One_nat_def)
qed


section \<open>Jumps to a known address\<close>

lemma gjmp_addr_near:
  "\<not> far_jump (a - of_nat (ind s)) \<Longrightarrow> gjmp_addr a s = o_insn (insn_J (a - of_nat (ind s)) 0 0x6f) s"
  by (simp add: gjmp_addr_def insn_defs emit_J_def)

lemma gjmp_addr_far:
  assumes "far_jump (a - of_nat (ind s))"
  shows "appends s [insn_U (IMM_HIGH (a - of_nat (ind s) + 0x800)) 5 0x37,
      insn_I (IMM_LOW (a - of_nat (ind s))) 5 0 0 0x67] (gjmp_addr a s)"
proof -
  have "drop_bit 20 (push_bit 20 (IMM_LOW v)) = IMM_LOW v" for v
    by (rule bit_word_eqI) (auto simp: IMM_LOW_eq bit_simps)
  with assms show ?thesis
    by (simp add: gjmp_addr_def Let_def insn_defs emit_U_def emit_I_def appends_def)
qed

text \<open>
  Gjmp_addr within 1 MiB writes one word that continues at the target; beyond the reach of
  its check it writes LUI and JALR, which jump to the distance itself taken as an address (and
  leave it, rounded, in t0), whatever address the code was loaded at.
\<close>

theorem gjmp_addr_jumps:
  assumes "emitting s" and "d = a - of_nat (ind s)" and "in_reach d \<or> far_jump d"
  shows "if far_jump d
    then \<exists>c'. run (code_words (gjmp_addr a s) (ind s) 2) c = Some c' \<and>
      pc c' = d AND NOT 1 \<and> only_changes {5} c c'
    else run (code_words (gjmp_addr a s) (ind s) 1) c = Some (c\<lparr>pc := pc c + d\<rparr>)"
proof (cases "far_jump d")
  case f: True
  have 5: "fits_in 5 (5 :: u32)" "fits_in 5 (0 :: u32)" by (simp_all add: fits_in_def)
  have "run (code_words (gjmp_addr a s) (ind s) 2) c =
      Some ((wreg 5 (push_bit 12 (IMM_HIGH (d + 0x800))) c)\<lparr>pc := d AND NOT 1\<rparr>)"
    unfolding appends_pair [OF gjmp_addr_far [OF f [unfolded assms(2)]] assms(1)] assms(2) [symmetric]
    using hi_lo_sum [of d]
    by (simp add: run.simps decode_insn_U decode_insn_I_jalr 5 exec_def wreg_def rreg_def)
  with f show ?thesis by (simp add: only_changes_def)
next
  case False
  with assms(3) have "in_reach d" by simp
  then have "sext21 d = d" by (intro sext21_near) (simp_all add: in_reach_def)
  with False show ?thesis
    using o_insn_word(1) [OF assms(1)] assms(2)
    by (simp add: gjmp_addr_near code_words_def run_insn_J)
qed

lemma gjmp_addr_jumps_witness:
  "\<exists>c'. run (code_words (gjmp_addr 0x400014 jump_state) (ind jump_state) 2) (zero_cpu 0x80000000) = Some c' \<and>
    pc c' = (0x400000 :: u32) AND NOT 1 \<and> only_changes {5} (zero_cpu 0x80000000) c'"
proof -
  have f: "far_jump 0x400000" by (simp add: far_jump_iff)
  show ?thesis
    using gjmp_addr_jumps [of jump_state "0x400000" "0x400014" "zero_cpu 0x80000000"] f by simp
qed


section \<open>Padding\<close>

text \<open>gen_fill_nops with a multiple of four appends a quarter of it in NOP words.\<close>

lemma fill_loop_words: "appends s (replicate n (insn_I 0 0 0 0 0x13)) (fill_loop (4 * int n) s)"
proof (induction n arbitrary: s)
  case 0
  show ?case by (simp add: appends_def fill_loop.simps)
next
  case (Suc n)
  have "fill_loop (4 * int (Suc n)) s = fill_loop (4 * int n) (o_insn (insn_I 0 0 0 0 0x13) s)"
    by (subst fill_loop.simps) (simp add: insn_defs emit_I_def)
  with Suc show ?case by (simp add: appends_def)
qed

end
