(* ===== verification/Riscv_Run.thy ===== *)
theory Riscv_Run
  imports Riscv_Load Riscv_Jumps_Props
begin

text \<open>
  What short sequences of instruction words do when they run: \<open>leaves rd x c s s'\<close> says that the
  words appended between the emission states \<open>s\<close> and \<open>s'\<close>, run from \<open>c\<close>, leave \<open>x\<close> in
  register \<open>rd\<close> and change nothing else. Sequences are built one instruction at a time.
\<close>

text \<open>The words appended, when run, leave \<open>x\<close> in register \<open>rd\<close> and change nothing else.\<close>

definition leaves :: "u32 \<Rightarrow> u32 \<Rightarrow> cpu \<Rightarrow> 'a emit_state_scheme \<Rightarrow> 'a emit_state_scheme \<Rightarrow> bool" where
  "leaves rd x c s s' \<longleftrightarrow> (\<exists>ws c'. appends s ws s' \<and> run ws c = Some c' \<and> rreg c' rd = x \<and>
     only_changes {rd} c c' \<and> pc c' = pc c + 4 * of_nat (length ws))"

lemma fits_8 [fits]: "fits_in 5 (8 :: u32)" "fits_in 5 (0 :: u32)" "fits_in 5 (5 :: u32)"
    "fits_in 5 (1 :: u32)" "fits_in 5 (2 :: u32)"
  by (simp_all add: fits_in_def)

lemma phys_fits: "r < 8 \<Longrightarrow> fits_in 5 (r + 10)" "r < 8 \<Longrightarrow> r + 10 \<noteq> 0" "r < 8 \<Longrightarrow> r + 10 \<noteq> 8" for r :: u32
proof -
  assume r: "r < 8"
  then have "unat r < 8" by (simp add: word_less_nat_alt)
  then have u: "unat (r + 10) = unat r + 10" by (subst unat_add_lem [THEN iffD1]) simp_all
  then show "fits_in 5 (r + 10)" using \<open>unat r < 8\<close> by (intro fits_in_less) simp
  have "unat (r + 10) \<noteq> unat (0 :: u32)" "unat (r + 10) \<noteq> unat (8 :: u32)"
    unfolding u by simp_all
  then show "r + 10 \<noteq> 0" "r + 10 \<noteq> 8" by metis+
qed

lemma run_ADDI:
  assumes "fits_in 5 rs" "fits_in 5 rd"
  shows "run [insn_I imm rs 0 rd 0x13] c = Some (next_pc (wreg rd (rreg c rs + sext12 imm) c))"
  using assms by (simp add: run.simps decode_ADDI exec_def alu_def)

lemma emit_ADDI_o: "emit_ADDI rd rs imm = o_insn (insn_I imm rs 0 rd 0x13)"
  by (simp add: insn_defs emit_I_def)

definition load_funct3 :: "load_op \<Rightarrow> u32" where
  "load_funct3 l = (case l of Lb \<Rightarrow> 0 | Lh \<Rightarrow> 1 | Lw \<Rightarrow> 2 | Lbu \<Rightarrow> 4 | Lhu \<Rightarrow> 5)"

lemma run_load:
  assumes "fits_in 5 rs" "fits_in 5 rd"
  shows "run [insn_I imm rs (load_funct3 l) rd 0x03] c =
    Some (next_pc (wreg rd (load_val l (mem c) (rreg c rs + sext12 imm)) c))"
  using assms
  by (cases l) (simp_all add: run.simps load_funct3_def decode_insn_I_load decode_load_def exec_def fits)

lemma emit_load_o:
  "emit_LB rd rs imm = o_insn (insn_I imm rs (load_funct3 Lb) rd 0x03)"
  "emit_LH rd rs imm = o_insn (insn_I imm rs (load_funct3 Lh) rd 0x03)"
  "emit_LW rd rs imm = o_insn (insn_I imm rs (load_funct3 Lw) rd 0x03)"
  by (simp_all add: insn_defs emit_I_def load_funct3_def)

lemma run_LUI: "fits_in 5 rd \<Longrightarrow> run [insn_U imm rd 0x37] c = Some (next_pc (wreg rd (push_bit 12 (take_bit 20 imm)) c))"
  by (simp add: run.simps decode_insn_U exec_def)

lemma emit_LUI_o: "emit_LUI rd imm = o_insn (insn_U imm rd 0x37)"
  by (simp add: insn_defs emit_U_def)

lemma leaves_one:
  assumes "s' = o_insn w s" and "run [w] c = Some (next_pc (wreg rd x c))" and "rd \<noteq> 0"
  shows "leaves rd x c s s'"
  unfolding leaves_def
  using assms by (intro exI [of _ "[w]"]) (simp add: appends_def only_changes_def)

lemma leaves_then:
  assumes "leaves rd y c s s1" and "s' = o_insn w s1" and "rd \<noteq> 0"
    and "\<And>c1. rreg c1 rd = y \<Longrightarrow> only_changes {rd} c c1 \<Longrightarrow> run [w] c1 = Some (next_pc (wreg rd x c1))"
  shows "leaves rd x c s s'"
proof -
  from assms(1) obtain ws c1 where w: "appends s ws s1" "run ws c = Some c1" "rreg c1 rd = y"
    "only_changes {rd} c c1" "pc c1 = pc c + 4 * of_nat (length ws)" unfolding leaves_def by blast
  have "appends s (ws @ [w]) s'" using w(1) assms(2) by (simp add: appends_def)
  moreover have "run (ws @ [w]) c = Some (next_pc (wreg rd x c1))"
    using w assms(4) [OF w(3,4)] by (simp add: run_append)
  ultimately show ?thesis
    unfolding leaves_def using assms(3) w(4,5)
    by (intro exI [of _ "ws @ [w]"]) (auto simp: only_changes_def algebra_simps)
qed


lemma small_reg:
  fixes r :: u32
  assumes "r < 8"
  shows "is_ireg r" "ireg r = Inr (r + 10)" "phys_reg r = Inr (r + 10)" "\<not> is_freg r"
proof -
  have u: "unat r < 8" using assms by (simp add: word_less_nat_alt)
  then have s: "sint r = int (unat r)" by (intro sint_unat) simp
  have "r \<noteq> 17" "r \<noteq> 18" using u by auto
  moreover have "0 \<le> sint r \<and> sint r < 8" using u s by linarith
  ultimately show i: "ireg r = Inr (r + 10)" by (simp add: ireg_def)
  show "is_ireg r" using assms by (simp add: is_ireg_def)
  with i show "phys_reg r = Inr (r + 10)" by (simp add: phys_reg_def)
  show "\<not> is_freg r" using u s unfolding is_freg_def by linarith
qed

lemma emit_XORI_o: "emit_XORI rd rs imm = o_insn (insn_I imm rs 4 rd 0x13)"
  by (simp add: insn_defs emit_I_def)

text \<open>LUI and ADDI, or ADDI alone, leave any constant.\<close>

lemma leaves_const:
  assumes "fits_in 5 rd" and "rd \<noteq> 0"
  shows "leaves rd x c s
    (if LARGE_IMM x then emit_ADDI rd rd (IMM_LOW x) (emit_LUI rd (IMM_HIGH (x + 0x800)) s)
     else emit_ADDI rd 0 (IMM_LOW x) s)"
proof (cases "LARGE_IMM x")
  case True
  have one: "leaves rd (push_bit 12 (IMM_HIGH (x + 0x800))) c s
      (o_insn (insn_U (IMM_HIGH (x + 0x800)) rd 0x37) s)"
    using assms by (intro leaves_one [OF refl]) (simp_all add: run_LUI)
  show ?thesis
    using True assms
    by (auto intro!: leaves_then [OF one refl] simp: emit_ADDI_o emit_LUI_o run_ADDI hi_lo_sum)
next
  case False
  then have "sext12 x = x" using LARGE_IMM_iff imm12_ok_sext12 by blast
  with False assms show ?thesis
    by (auto intro!: leaves_one [OF refl] simp: emit_ADDI_o run_ADDI fits)
qed

lemma run_op:
  assumes "fits_in 5 a" "fits_in 5 b" "fits_in 5 rd" "fits_in 3 f3" "fits_in 7 f7" "decode_op f7 f3 = Some op"
  shows "run [insn_R f7 b a f3 rd 0x33] c = Some (next_pc (wreg rd (alu op (rreg c a) (rreg c b)) c))"
  using assms by (simp add: run.simps decode_insn_R exec_def)

lemma run_op_imm:
  assumes "fits_in 5 a" "fits_in 5 rd" "op_imm_funct3 op = Some f3"
  shows "run [insn_I imm a f3 rd 0x13] c = Some (next_pc (wreg rd (alu op (rreg c a) (sext12 imm)) c))"
  using assms by (simp add: run.simps decode_insn_I_op exec_def)

lemma sext12_1: "sext12 1 = 1" "sext12 0 = 0"
  by (simp_all add: sext12_def)

lemma bool32_simps [simp]: "bool32 P XOR 1 = bool32 (\<not> P)" "bool32 (0 < x) = bool32 (x \<noteq> (0 :: u32))"
    "bool32 (x < (1 :: u32)) = bool32 (x = 0)"
  by (auto simp: bool32_def word_neq_0_conv word_less_nat_alt)

lemma slt_words:
  "emit_SLT rd a b = o_insn (insn_R 0 b a 2 rd 0x33)"
  "emit_SLTU rd a b = o_insn (insn_R 0 b a 3 rd 0x33)"
  "emit_SUB rd a b = o_insn (insn_R 0x20 b a 0 rd 0x33)"
  "emit_SEQZ rd a = o_insn (insn_I 1 a 3 rd 0x13)"
  "emit_SNEZ rd a = o_insn (insn_R 0 a 0 3 rd 0x33)"
  by (simp_all add: insn_defs emit_I_def emit_R_def)

lemma fits_small [fits]:
  "fits_in 3 (2 :: u32)" "fits_in 3 (3 :: u32)" "fits_in 3 (0 :: u32)" "fits_in 7 (0 :: u32)" "fits_in 7 (0x20 :: u32)"
  by (simp_all add: fits_in_def)

lemma leaves_slt:
  assumes "fits_in 5 rd" "rd \<noteq> 0" "fits_in 5 a" "fits_in 5 b"
  shows "leaves rd (bool32 (sint (rreg c a) < sint (rreg c b))) c s (emit_SLT rd a b s)"
    "leaves rd (bool32 (rreg c a < rreg c b)) c s (emit_SLTU rd a b s)"
    "leaves rd (rreg c a - rreg c b) c s (emit_SUB rd a b s)"
  using assms unfolding slt_words
  by (auto intro!: leaves_one [OF refl] run_op [THEN trans] simp: fits decode_op_def alu_def)

lemma leaves_flip:
  assumes "fits_in 5 rd" "rd \<noteq> 0" "leaves rd (bool32 P) c s s1"
  shows "leaves rd (bool32 (\<not> P)) c s (emit_XORI rd rd 1 s1)"
  using assms unfolding emit_XORI_o
  by (auto intro!: leaves_then [OF assms(3) refl] run_op_imm [of _ _ Xor, THEN trans]
      simp: op_imm_funct3_def alu_def sext12_1)

lemma leaves_zero_test:
  assumes "fits_in 5 rd" "rd \<noteq> 0" "leaves rd x c s s1"
  shows "leaves rd (bool32 (x = 0)) c s (emit_SEQZ rd rd s1)"
    "leaves rd (bool32 (x \<noteq> 0)) c s (emit_SNEZ rd rd s1)"
  using assms unfolding slt_words
  by (auto intro!: leaves_then [OF assms(3) refl] run_op_imm [of _ _ Sltu, THEN trans] run_op [of _ _ _ _ _ Sltu, THEN trans]
      simp: op_imm_funct3_def alu_def sext12_1 fits decode_op_def)


definition store_funct3 :: "store_op \<Rightarrow> u32" where
  "store_funct3 t = (case t of Sb \<Rightarrow> 0 | Sh \<Rightarrow> 1 | Sw \<Rightarrow> 2)"

lemma run_store:
  assumes "fits_in 5 a" "fits_in 5 b"
  shows "run [insn_S imm b a (store_funct3 t) 0x23] c =
    Some (next_pc (c\<lparr>mem := store_val t (rreg c a + sext12 imm) (rreg c b) (mem c)\<rparr>))"
  using assms
  by (cases t) (simp_all add: run.simps store_funct3_def decode_insn_S decode_store_def exec_def fits)

lemma emit_store_o:
  "emit_SB a b imm = o_insn (insn_S imm b a (store_funct3 Sb) 0x23)"
  "emit_SH a b imm = o_insn (insn_S imm b a (store_funct3 Sh) 0x23)"
  "emit_SW a b imm = o_insn (insn_S imm b a (store_funct3 Sw) 0x23)"
  by (simp_all add: insn_defs emit_S_def store_funct3_def)

lemma leaves_ADDI:
  assumes "fits_in 5 rd" "rd \<noteq> 0" "leaves rd y c s s1"
  shows "leaves rd (y + sext12 imm) c s (emit_ADDI rd rd imm s1)"
  using assms unfolding emit_ADDI_o
  by (auto intro!: leaves_then [OF assms(3) refl] simp: run_ADDI)

lemma emit_SLLI_o: "fits_in 5 sh \<Longrightarrow> emit_SLLI rd rs sh = o_insn (insn_R 0 sh rs 1 rd 0x13)"
  by (simp add: insn_defs emit_R_def fits_in_def take_bit_eq_mask flip: and_masks)

lemma leaves_SLLI:
  assumes "fits_in 5 rd" "rd \<noteq> 0" "leaves rd y c s s1" "fits_in 5 sh"
  shows "leaves rd (push_bit (unat sh) y) c s (emit_SLLI rd rd sh s1)"
  using assms unfolding emit_SLLI_o [OF assms(4)]
  by (auto intro!: leaves_then [OF assms(3) refl]
      simp: run.simps decode_shift_imm exec_def alu_def shift_amount_def fits_in_def)

lemma fits_shifts [fits]: "fits_in 5 (12 :: u32)"
  by (simp add: fits_in_def)

lemma mem_word_store_val: "mem_word (store_val Sw a v m) a = v"
proof -
  have "ucast (ucast v :: u8) OR push_bit 8 (ucast (ucast (drop_bit 8 v) :: u8)) = (ucast v :: u16)"
    "ucast (ucast (drop_bit 16 v) :: u8) OR push_bit 8 (ucast (ucast (drop_bit 24 v) :: u8)) = (ucast (drop_bit 16 v) :: u16)"
    by (rule bit_word_eqI; auto simp: bit_simps)+
  moreover have "(ucast (ucast v :: u16) :: u32) OR push_bit 16 (ucast (ucast (drop_bit 16 v) :: u16)) = v"
    by (rule bit_word_eqI) (auto simp: bit_simps)
  ultimately show ?thesis
    by (simp add: mem_word_def mem_half_def store_val_def add.assoc)
qed

lemma mem_word_store_below:
  "mem_word (store_val Sw a v m) (a + 4) = mem_word m (a + 4)"
  by (simp add: mem_word_def mem_half_def store_val_def add.assoc)

end
