(* ===== verification/Riscv_Load_Props.thy ===== *)
theory Riscv_Load_Props
  imports Riscv_Run
begin

text \<open>
  Loads and stores against the instruction set: \<open>value_by\<close> says which 32-bit value an entry of the
  value stack denotes on a machine, and load leaves that value in the register. Where the code
  generator goes wrong, the theorems of the last section state what the code it makes does.
\<close>

section \<open>What a value is\<close>

text \<open>
  The load instruction C asks for: as wide as the type, and without sign for an unsigned type and for
  _Bool. The one the code emits differs from it for the narrow unsigned types.
\<close>

definition sized_load :: "SValue \<Rightarrow> load_op \<Rightarrow> load_op \<Rightarrow> load_op option" where
  "sized_load sv byte half = (case type_size (sv_type sv) of Inl _ \<Rightarrow> None | Inr (size0, _) \<Rightarrow>
     let size = (if stack_btype sv = VT_FUNC then 4 else size0) in
     if size = 1 then Some byte else if size = 2 then Some half else if size = 4 then Some Lw else None)"

definition load_op_of :: "SValue \<Rightarrow> load_op option" where
  "load_op_of sv =
     (if ct_t (sv_type sv) AND VT_UNSIGNED \<noteq> 0 \<or> stack_btype sv = VT_BOOL then sized_load sv Lbu Lhu
      else sized_load sv Lb Lh)"

definition emitted_load :: "SValue \<Rightarrow> load_op option" where
  "emitted_load sv = sized_load sv Lb Lh"

definition near_offset :: "SValue \<Rightarrow> bool" where
  "near_offset sv \<longleftrightarrow> imm12_ok (ucast (sv_ci sv)) \<and> scast (ucast (sv_ci sv) :: u32) = sv_ci sv"

definition lvalue_address_spec :: "SValue \<Rightarrow> cpu \<Rightarrow> u32 option" where
  "lvalue_address_spec sv c =
     (let v = stack_loc sv; off = ucast (sv_ci sv) in
      if v = VT_LOCAL \<and> near_offset sv then Some (rreg c 8 + off)
      else if v < 8 then Some (rreg c (ucast v + 10))
      else if v = VT_LLOCAL \<and> near_offset sv then Some (mem_word (mem c) (rreg c 8 + off))
      else None)"

text \<open>The value of an entry, given which instruction loads an lvalue; vt is the top of the stack, which has a comparison.\<close>

definition value_by :: "(SValue \<Rightarrow> load_op option) \<Rightarrow> SValue \<Rightarrow> SValue \<Rightarrow> cpu \<Rightarrow> u32 option" where
  "value_by ld sv vt c =
     (let v = stack_loc sv; off = ucast (sv_ci sv) :: u32;
          a = ucast (cmp_r vt) AND 0xff; b = drop_bit 8 (ucast (cmp_r vt)) AND 0xff in
      if is_float (ct_t (sv_type sv)) \<or> sv_r sv AND VT_SYM \<noteq> 0 then None
      else if sv_r sv AND VT_LVAL \<noteq> 0 then
        (case (ld sv, lvalue_address_spec sv c) of
           (Some l, Some p) \<Rightarrow> Some (load_val l (mem c) p) | _ \<Rightarrow> None)
      else if v = VT_CONST then
        (if scast off = sv_ci sv \<or> (drop_bit 32 (sv_ci sv) = 0 \<and> stack_btype sv \<noteq> VT_LLONG)
         then Some off else None)
      else if v = VT_LOCAL then (if near_offset sv then Some (rreg c 8 + off) else None)
      else if v < 8 then Some (rreg c (ucast v + 10))
      else if v = VT_CMP then
        (if ucast (cmp_op vt) \<in> comparisons \<and> fits_in 5 a \<and> fits_in 5 b
         then Some (bool32 (compare_holds (ucast (cmp_op vt)) (rreg c a) (rreg c b))) else None)
      else None)"

abbreviation value_of :: "SValue \<Rightarrow> SValue \<Rightarrow> cpu \<Rightarrow> u32 option" where
  "value_of \<equiv> value_by load_op_of"

section \<open>Registers and addresses\<close>

lemma small_loc: "v < 8 \<Longrightarrow> (ucast v :: u32) < 8" "v < 8 \<Longrightarrow> v < VT_CONST" for v :: u16
proof -
  assume v: "v < 8"
  then have u: "unat v < 8" by (simp add: word_less_nat_alt)
  have "unat v < 2 ^ 32" using u by simp
  then have "unat (ucast v :: u32) = unat v"
    by (simp add: unsigned_ucast_eq take_bit_nat_eq_self)
  with u show "(ucast v :: u32) < 8" by (simp add: word_less_nat_alt)
  show "v < VT_CONST" using u by (simp add: word_less_nat_alt)
qed

lemma load_symofs_near:
  assumes "sv_r sv AND VT_SYM = 0" and "stack_loc sv = VT_LOCAL \<or> stack_loc sv = VT_LLOCAL"
    and "near_offset sv" and "r < 8 \<or> r = - 1"
  shows "load_symofs r sv f s = Inr (8, sv, s)"
proof -
  have "\<not> is_ireg (- 1)" by code_simp
  then have "\<exists>rd. (if is_ireg r then ireg r else Inr 5) = Inr rd"
    using assms(4) small_reg(2) [of r] by auto
  then show ?thesis
    using assms(1-3) by (auto simp: load_symofs_def Let_def near_offset_def LARGE_IMM_iff)
qed

lemma near_sext: "near_offset sv \<Longrightarrow> sext12 (ucast (sv_ci sv)) = ucast (sv_ci sv)"
  by (simp add: near_offset_def imm12_ok_sext12)

section \<open>Loading\<close>

lemma load_lvalue_leaves:
  assumes r: "r < 8" and "sv_r sv AND VT_SYM = 0" and "\<not> is_float (ct_t (sv_type sv))"
    and l: "emitted_load sv = Some l" and p: "lvalue_address_spec sv c = Some p"
  shows "\<exists>s'. load_lvalue r sv s = Inr (sv, s') \<and> leaves (r + 10) (load_val l (mem c) p) c s s'"
proof -
  obtain size0 al where ts: "type_size (sv_type sv) = Inr (size0, al)"
    using l by (auto simp: emitted_load_def sized_load_def split: sum.splits)
  note sm = small_reg [OF r] phys_fits [OF r]
  have ll: "load_lvalue r sv s = Inr (sv, o_insn (insn_I off rs1 (load_funct3 l) (r + 10) 0x03) s1)"
    if "lvalue_address r (r + 10) sv s = Inr (rs1, off, sv, s1)" for rs1 off s1
    using that sm ts assms(3) l
    by (auto simp: load_lvalue_def emitted_load_def sized_load_def emit_load_o Let_def split: if_splits)
  consider "stack_loc sv = VT_LOCAL" "near_offset sv" "p = rreg c 8 + ucast (sv_ci sv)"
    | "stack_loc sv < 8" "p = rreg c (ucast (stack_loc sv) + 10)"
    | "stack_loc sv = VT_LLOCAL" "near_offset sv" "p = mem_word (mem c) (rreg c 8 + ucast (sv_ci sv))"
    using p by (auto simp: lvalue_address_spec_def Let_def split: if_splits)
  then show ?thesis
  proof cases
    case 1
    have a: "lvalue_address r (r + 10) sv s = Inr (8, ucast (sv_ci sv), sv, s)"
      using 1 assms(2) r by (simp add: lvalue_address_def load_symofs_near)
    show ?thesis
      unfolding ll [OF a]
      using 1 sm by (auto intro!: leaves_one [OF refl] simp: run_load fits near_sext)
  next
    case 2
    then have v: "ireg (ucast (stack_loc sv)) = Inr (ucast (stack_loc sv) + 10)"
      "stack_loc sv < VT_CONST" "fits_in 5 (ucast (stack_loc sv) + 10 :: u32)"
      using small_reg(2) small_loc phys_fits(1) by blast+
    moreover have "stack_loc sv \<noteq> VT_LOCAL" using 2(1) by auto
    ultimately have a: "lvalue_address r (r + 10) sv s = Inr (ucast (stack_loc sv) + 10, 0, sv, s)"
      using 2 assms(2) by (simp add: lvalue_address_def)
    have "sext12 0 = 0" by (simp add: sext12_def)
    then show ?thesis
      unfolding ll [OF a]
      using 2 v sm by (auto intro!: leaves_one [OF refl] simp: run_load fits)
  next
    case 3
    have a: "lvalue_address r (r + 10) sv s = Inr (r + 10, 0, sv, emit_LW (r + 10) 8 (ucast (sv_ci sv)) s)"
      using 3 assms(2) r by (simp add: lvalue_address_def load_symofs_near)
    have z: "sext12 0 = 0" by (simp add: sext12_def)
    have "leaves (r + 10) (mem_word (mem c) (rreg c 8 + ucast (sv_ci sv))) c s
        (emit_LW (r + 10) 8 (ucast (sv_ci sv)) s)"
      unfolding emit_load_o
      using 3 sm by (intro leaves_one [OF refl]) (simp_all add: run_load fits near_sext load_val_def)
    then show ?thesis
      unfolding ll [OF a]
      using 3 sm by (auto intro!: leaves_then [OF _ refl] simp: run_load fits z only_changes_def)
  qed
qed


lemma load_const_leaves:
  assumes r: "r < 8" and "sv_r sv AND VT_SYM = 0" and "\<not> is_float (ct_t (sv_type sv))"
    and x: "scast (ucast (sv_ci sv) :: u32) = sv_ci sv \<or>
      (drop_bit 32 (sv_ci sv) = 0 \<and> stack_btype sv \<noteq> VT_LLONG)"
  shows "\<exists>s'. load_const r (r + 10) sv s = Inr (sv, s') \<and> leaves (r + 10) (ucast (sv_ci sv)) c s s'"
proof -
  note sm = small_reg [OF r] phys_fits [OF r]
  have si: "signed_drop_bit 32 (sv_ci sv) = 0" if "drop_bit 32 (sv_ci sv) = 0"
  proof -
    have h: "\<not> bit (sv_ci sv) (32 + n)" for n
      using arg_cong [OF that, of "\<lambda>w. bit w n"] by (simp add: bit_drop_bit_eq)
    from h [of 31] have m: "\<not> bit (sv_ci sv) 63" by simp
    show ?thesis using h by (intro bit_word_eqI) (simp add: bit_signed_drop_bit_iff m)
  qed
  have "load_const r (r + 10) sv s = Inr (sv, if LARGE_IMM (ucast (sv_ci sv))
      then emit_ADDI (r + 10) (r + 10) (IMM_LOW (ucast (sv_ci sv)))
        (emit_LUI (r + 10) (IMM_HIGH (ucast (sv_ci sv) + 0x800)) s)
      else emit_ADDI (r + 10) 0 (IMM_LOW (ucast (sv_ci sv))) s)"
    using assms sm si by (auto simp: load_const_def Let_def)
  moreover note leaves_const [OF sm(5,6), of "ucast (sv_ci sv)" c s]
  ultimately show ?thesis by blast
qed


section \<open>Comparisons as values\<close>

lemma load_cmp_leaves:
  fixes op16 r :: u16
  defines "op \<equiv> ucast op16 :: u32" and "a \<equiv> ucast r AND 0xff :: u32"
    and "b \<equiv> drop_bit 8 (ucast r) AND 0xff :: u32"
  assumes "op \<in> comparisons" and "fits_in 5 rd" "rd \<noteq> 0" and "fits_in 5 a" "fits_in 5 b"
  shows "leaves rd (bool32 (compare_holds op (rreg c a) (rreg c b))) c s (load_cmp rd op16 r s)"
proof -
  note slt = leaves_slt [OF assms(5-8), of c s] leaves_slt [OF assms(5,6,8,7), of c s]
  have z: "rreg c a - rreg c b = 0 \<longleftrightarrow> rreg c a = rreg c b" by simp
  have skip: "leaves rd (rreg c a - rreg c b) c s (if rd \<noteq> a \<or> b \<noteq> 0 then emit_SUB rd a b s else s)"
  proof (cases "rd \<noteq> a \<or> b \<noteq> 0")
    case False
    then show ?thesis unfolding leaves_def
      by (intro exI [of _ "[]"] exI [of _ c]) (simp add: appends_def only_changes_def)
  qed (use slt(3) in simp)
  note eq = leaves_zero_test [OF assms(5,6) skip]
  show ?thesis
    using assms(4) unfolding comparisons_def load_cmp_def op_def [symmetric] a_def [symmetric] b_def [symmetric] Let_def
    apply (elim insertE emptyE)
    using slt eq leaves_flip [OF assms(5,6) slt(1)] leaves_flip [OF assms(5,6) slt(2)]
      leaves_flip [OF assms(5,6) slt(4)] leaves_flip [OF assms(5,6) slt(5)]
    apply (simp_all add: compare_holds_def not_less not_le z)
    done
qed


section \<open>Every value\<close>

lemma load_leaves:
  assumes "r < 8" and "value_by emitted_load sv vt c = Some x" and "vtop s = Inr vt"
  shows "\<exists>s'. load k r sv s = Inr (sv, s') \<and> leaves (r + 10) x c s s'"
proof -
  note sm = small_reg [OF assms(1)] phys_fits [OF assms(1)]
  have sym: "sv_r sv AND VT_SYM = 0" and fl: "\<not> is_float (ct_t (sv_type sv))"
    using assms(2) by (auto simp: value_by_def Let_def split: if_splits)
  consider (lval) l p where "sv_r sv AND VT_LVAL \<noteq> 0" "emitted_load sv = Some l"
      "lvalue_address_spec sv c = Some p" "x = load_val l (mem c) p"
    | (const) "sv_r sv AND VT_LVAL = 0" "stack_loc sv = VT_CONST" "x = ucast (sv_ci sv)"
      "scast (ucast (sv_ci sv) :: u32) = sv_ci sv \<or>
        (drop_bit 32 (sv_ci sv) = 0 \<and> stack_btype sv \<noteq> VT_LLONG)"
    | (local) "sv_r sv AND VT_LVAL = 0" "stack_loc sv = VT_LOCAL" "near_offset sv"
      "x = rreg c 8 + ucast (sv_ci sv)"
    | (reg) "sv_r sv AND VT_LVAL = 0" "stack_loc sv < 8" "x = rreg c (ucast (stack_loc sv) + 10)"
    | (cmp) "sv_r sv AND VT_LVAL = 0" "stack_loc sv = VT_CMP" "ucast (cmp_op vt) \<in> comparisons"
      "fits_in 5 (ucast (cmp_r vt) AND 0xff :: u32)" "fits_in 5 (drop_bit 8 (ucast (cmp_r vt)) AND 0xff :: u32)"
      "x = bool32 (compare_holds (ucast (cmp_op vt)) (rreg c (ucast (cmp_r vt) AND 0xff))
         (rreg c (drop_bit 8 (ucast (cmp_r vt)) AND 0xff)))"
    using assms(2) sym fl by (auto simp: value_by_def Let_def split: if_splits option.splits)
  then show ?thesis
  proof cases
    case lval
    then show ?thesis
      using load_lvalue_leaves [OF assms(1) sym fl lval(2,3)] sm by (simp add: load_def)
  next
    case const
    then show ?thesis
      using load_const_leaves [OF assms(1) sym fl const(4)] sm by (simp add: load_def)
  next
    case local
    have "leaves (r + 10) x c s (emit_ADDI (r + 10) 8 (ucast (sv_ci sv)) s)"
      unfolding emit_ADDI_o using local sm
      by (intro leaves_one [OF refl]) (simp_all add: run_ADDI fits near_sext)
    then show ?thesis
      using local sm sym assms(1) by (simp add: load_def load_symofs_near)
  next
    case reg
    note v = small_loc [OF reg(2)]
    note rs = small_reg [OF v(1)] phys_fits [OF v(1)]
    have "leaves (r + 10) x c s (emit_ADDI (r + 10) (ucast (stack_loc sv) + 10) 0 s)"
      unfolding emit_ADDI_o using reg sm rs
      by (intro leaves_one [OF refl]) (simp_all add: run_ADDI sext12_1)
    moreover have "stack_loc sv \<noteq> VT_CONST" "stack_loc sv \<noteq> VT_LOCAL" using reg(2) by auto
    ultimately show ?thesis
      using reg v rs sm by (simp add: load_def Let_def)
  next
    case cmp
    then show ?thesis
      using load_cmp_leaves [OF cmp(3) sm(5,6) cmp(4,5), of c s] assms(3) sm
      by (simp add: load_def Let_def)
  qed
qed


definition gen_start :: "SValue list \<Rightarrow> gen_state" where
  "gen_start vs = \<lparr>text_sec = text_sec jump_state, ind = 20, nocode_wanted = 0, syms = [], elf_syms = [],
     relocs = [], vstack = vs, loc = - 16, temp_vars = [], const_wanted = 0\<rparr>"

text \<open>A byte or half-word without its top bit is the same with and without sign.\<close>

lemma scast_no_top_bit:
  fixes w :: "'a::len word"
  assumes "unat (ucast w :: u32) < 2 ^ n" and "n < 32" and "LENGTH('a) = Suc n"
  shows "(scast w :: u32) = ucast w"
proof -
  have "\<not> bit (unat (ucast w :: u32)) n" using assms(1) by (simp add: bit_iff_odd)
  then have "\<not> bit w n" using assms(2,3) by (simp add: bit_simps)
  then show ?thesis using assms(3) by (intro bit_word_eqI) (auto simp: bit_simps min_def le_less dest: bit_imp_le_length)
qed

lemma load_val_signed:
  "load_val Lbu m a < 0x80 \<Longrightarrow> load_val Lb m a = load_val Lbu m a"
  "load_val Lhu m a < 0x8000 \<Longrightarrow> load_val Lh m a = load_val Lhu m a"
  using scast_no_top_bit [of "m a" 7] scast_no_top_bit [of "mem_half m a" 15] by (simp_all add: load_val_def word_less_nat_alt)

text \<open>
  C1: load puts the value that C gives a stack entry into the register it is asked for: an lvalue in
  a local within 2 KiB, behind a pointer in a register or behind one in such a local, a
  constant of 32 bits, the address of such a local, another register or the outcome of a comparison. Only that
  register changes. An lvalue of an unsigned type of one or two bytes has to hold a value without the top
  bit, since the code loads it with sign (load_unsigned_char below).
\<close>

theorem load_value:
  assumes "r < 8" and "value_of sv vt c = Some x" and "vtop s = Inr vt"
    and "sv_r sv AND VT_LVAL \<noteq> 0 \<Longrightarrow> load_op_of sv = Some Lbu \<Longrightarrow> x < 0x80"
    and "sv_r sv AND VT_LVAL \<noteq> 0 \<Longrightarrow> load_op_of sv = Some Lhu \<Longrightarrow> x < 0x8000"
  shows "\<exists>s'. load k r sv s = Inr (sv, s') \<and> leaves (r + 10) x c s s'"
proof (rule load_leaves [OF assms(1) _ assms(3)])
  show "value_by emitted_load sv vt c = Some x"
    using assms(2,4,5) load_val_signed
    by (auto simp: value_by_def load_op_of_def emitted_load_def sized_load_def Let_def split: if_splits sum.splits option.splits)
qed

lemma load_value_witness:
  defines "sv \<equiv> \<lparr>sv_type = CType 3 None, sv_r = 0x132, sv_r2 = 0x30, sv_ci = 24, sv_sym = None,
      cmp_op = 0, cmp_r = 0\<rparr>"
  shows "\<exists>s'. load 0 3 sv (gen_start [sv]) = Inr (sv, s') \<and>
    leaves (3 + 10) (mem_word (mem (zero_cpu 0)) (rreg (zero_cpu 0) 8 + 24)) (zero_cpu 0) (gen_start [sv]) s'"
proof (rule load_value [of _ _ sv])
  show "value_of sv sv (zero_cpu 0) = Some (mem_word (mem (zero_cpu 0)) (rreg (zero_cpu 0) 8 + 24))"
    by (simp add: value_by_def sv_def stack_loc_def stack_btype_def is_float_def load_op_of_def sized_load_def IS_ENUM_def
      lvalue_address_spec_def near_offset_def imm12_ok_def load_val_def rreg_def)
qed (simp_all add: vtop_def gen_start_def sv_def load_op_of_def sized_load_def stack_btype_def IS_ENUM_def)

text \<open>An unsigned char is loaded sign extended.\<close>

theorem load_unsigned_char:
  assumes "r < 8" and "sv_type sv = CType (VT_BYTE OR VT_UNSIGNED) t" and "sv_r sv = VT_LOCAL OR VT_LVAL"
    and "near_offset sv" and "vtop s = Inr vt"
  shows "\<exists>s'. load k r sv s = Inr (sv, s') \<and>
    leaves (r + 10) (scast (mem c (rreg c 8 + ucast (sv_ci sv)))) c s s'"
proof (rule load_leaves)
  have "type_size (sv_type sv) = Inr (1, 1)"
  proof (cases t)
    case (Some u)
    then show ?thesis using assms(2) by (cases u) (simp add: IS_ENUM_def)
  qed (use assms(2) in \<open>simp add: IS_ENUM_def\<close>)
  then show "value_by emitted_load sv vt c = Some (scast (mem c (rreg c 8 + ucast (sv_ci sv))))"
    using assms by (simp add: value_by_def stack_loc_def stack_btype_def is_float_def emitted_load_def sized_load_def
      lvalue_address_spec_def load_val_def)
qed (use assms in simp_all)

section \<open>Storing\<close>

definition store_op_of :: "SValue \<Rightarrow> store_op option" where
  "store_op_of sv = (case type_size (sv_type sv) of Inl _ \<Rightarrow> None | Inr (sz, _) \<Rightarrow>
     if stack_btype sv = VT_STRUCT \<or> is_float (stack_btype sv) then None
     else if sz = 1 then Some Sb else if sz = 2 then Some Sh else if sz = 4 then Some Sw else None)"

definition store_target :: "SValue \<Rightarrow> cpu \<Rightarrow> u32 option" where
  "store_target sv c =
     (if stack_loc sv = VT_LOCAL \<and> near_offset sv then Some (rreg c 8 + ucast (sv_ci sv))
      else if stack_loc sv < 8 then Some (rreg c (ucast (stack_loc sv) + 10))
      else None)"

text \<open>
  C20: For an lvalue of an integer or pointer type of one, two or four bytes that is a local within 2 KiB or lies
  behind a pointer in a register, store emits one word, which writes as many bytes of the register as the type has
  to the place the lvalue names and changes no register. Locals further away, absolute addresses and symbols are not covered.
\<close>

theorem store_value:
  assumes "r < 8" and "sv_r sv AND VT_LVAL \<noteq> 0" and "sv_r sv AND VT_SYM = 0"
    and "store_op_of sv = Some t" and "store_target sv c = Some p"
  shows "\<exists>w. store r sv s = Inr (sv, o_insn w s) \<and>
    run [w] c = Some (next_pc (c\<lparr>mem := store_val t p (rreg c (r + 10)) (mem c)\<rparr>))"
proof -
  note sm = small_reg [OF assms(1)] phys_fits [OF assms(1)]
  obtain sz al where ts: "type_size (sv_type sv) = Inr (sz, al)"
    and nf: "stack_btype sv \<noteq> VT_STRUCT" "\<not> is_float (stack_btype sv)"
    using assms(4) by (auto simp: store_op_of_def split: sum.splits if_splits)
  have ld: "stack_btype sv \<noteq> VT_LDOUBLE" using nf(2) by (auto simp: is_float_def Let_def)
  have st: "store r sv s = Inr (sv, o_insn (insn_S off (r + 10) rs (store_funct3 t) 0x23) s)"
    if "store_address sv s = Inr (rs, off, sv, s)" for rs off
    using that sm ts assms(2,4) nf ld
    by (auto simp: store_def store_op_of_def emit_store_o Let_def split: if_splits)
  consider "stack_loc sv = VT_LOCAL" "near_offset sv" "p = rreg c 8 + ucast (sv_ci sv)"
    | "stack_loc sv < 8" "p = rreg c (ucast (stack_loc sv) + 10)"
    using assms(5) by (auto simp: store_target_def split: if_splits)
  then show ?thesis
  proof cases
    case 1
    then have "store_address sv s = Inr (8, ucast (sv_ci sv), sv, s)"
      using assms(3) by (simp add: store_address_def load_symofs_near)
    from st [OF this] show ?thesis
      using 1 sm by (intro exI conjI) (assumption, simp add: run_store fits near_sext)
  next
    case 2
    note v = small_loc [OF 2(1)]
    note rs = small_reg [OF v(1)] phys_fits [OF v(1)]
    have "stack_loc sv \<noteq> VT_LOCAL" using 2(1) by auto
    then have "store_address sv s = Inr (ucast (stack_loc sv) + 10, 0, sv, s)"
      using 2 v rs assms(3) by (simp add: store_address_def Let_def)
    from st [OF this] show ?thesis
      using 2 rs sm by (intro exI conjI) (assumption, simp add: run_store sext12_1)
  qed
qed

lemma store_value_witness:
  defines "sv \<equiv> \<lparr>sv_type = CType 2 None, sv_r = 0x102, sv_r2 = 0x30, sv_ci = 0, sv_sym = None,
      cmp_op = 0, cmp_r = 0\<rparr>"
  shows "\<exists>w. store 1 sv (gen_start [sv]) = Inr (sv, o_insn w (gen_start [sv])) \<and>
    run [w] (zero_cpu 0) = Some (next_pc ((zero_cpu 0)\<lparr>mem := store_val Sh (rreg (zero_cpu 0) 12)
      (rreg (zero_cpu 0) (1 + 10)) (mem (zero_cpu 0))\<rparr>))"
  by (rule store_value) (simp_all add: sv_def store_op_of_def store_target_def stack_loc_def
    stack_btype_def is_float_def IS_ENUM_def)

section \<open>What goes wrong\<close>

text \<open>A local further than 2 KiB from the frame pointer: the frame pointer is overwritten.\<close>

theorem load_far_local:
  assumes "r < 8" and "sv_r sv AND VT_LVAL = 0" and "sv_r sv AND VT_SYM = 0" and "stack_loc sv = VT_LOCAL"
    and "scast (ucast (sv_ci sv) :: u32) = sv_ci sv" and "\<not> imm12_ok (ucast (sv_ci sv))"
  shows "\<exists>sv' s' ws c'. load k r sv s = Inr (sv', s') \<and> appends s ws s' \<and> run ws c = Some c' \<and>
    rreg c' 8 = 2 * push_bit 12 (IMM_HIGH (ucast (sv_ci sv) + 0x800)) \<and>
    rreg c' (r + 10) = rreg c' 8 + sext12 (ucast (sv_ci sv))"
proof -
  note sm = small_reg [OF assms(1)] phys_fits [OF assms(1)]
  let ?off = "ucast (sv_ci sv) :: u32"
  let ?ws = "[insn_U (IMM_HIGH (?off + 0x800)) 8 0x37, insn_R 0 8 8 0 8 0x33,
    insn_I (ucast (ucast (IMM_LOW ?off) :: u64)) 8 0 (r + 10) 0x13]"
  have add: "emit_ADD 8 8 8 = o_insn (insn_R 0 8 8 0 8 0x33)" by (simp add: insn_defs emit_R_def)
  have u: "ucast (ucast (x :: u32) :: u64) = x" for x by (simp add: ucast_up_ucast_id is_up)
  have "appends s ?ws (emit_ADDI (r + 10) 8 (ucast (ucast (IMM_LOW ?off) :: u64)) (emit_ADD 8 8 8 (emit_LUI 8 (IMM_HIGH (?off + 0x800)) s)))"
    unfolding emit_ADDI_o emit_LUI_o add by (simp add: appends_def)
  moreover have "load k r sv s = Inr (sv\<lparr>sv_ci := ucast (IMM_LOW ?off)\<rparr>,
      emit_ADDI (r + 10) 8 (ucast (ucast (IMM_LOW ?off) :: u64)) (emit_ADD 8 8 8 (emit_LUI 8 (IMM_HIGH (?off + 0x800)) s)))"
    using assms sm by (simp add: load_def load_symofs_def Let_def LARGE_IMM_iff)
  moreover have "run ?ws c = Some (next_pc (wreg (r + 10) (2 * push_bit 12 (IMM_HIGH (?off + 0x800)) + sext12 ?off)
      (next_pc (wreg 8 (2 * push_bit 12 (IMM_HIGH (?off + 0x800))) (next_pc c)))))"
    using sm by (simp add: run.simps decode_insn_U decode_insn_R decode_ADDI fits decode_op_def exec_def alu_def u wreg_pc)
  ultimately show ?thesis
    using sm
    by (intro exI conjI) (assumption | simp)+
qed


lemma load_large_leaves:
  assumes "fits_in 5 rd" "rd \<noteq> 0"
  shows "leaves rd (push_bit 20 (sext12 fc) + push_bit 8 (sext12 fc)) c s (load_large_constant rd fc pi0 s)"
proof -
  have lui: "leaves rd (push_bit 12 (IMM_HIGH q)) c s (emit_LUI rd (IMM_HIGH q) s)" for q
    unfolding emit_LUI_o using assms by (intro leaves_one [OF refl]) (simp_all add: run_LUI)
  note add = leaves_ADDI [OF assms] and sll = leaves_SLLI [OF assms]
  have e: "push_bit 8 (push_bit 12 (push_bit 12 y + sext12 fc) + sext12 fc) =
      push_bit 20 (sext12 fc) + push_bit 8 (sext12 fc)" for y
  proof -
    have z: "(4294967296 :: u32) = 0" by simp
    have "y * 4294967296 = 0" unfolding z by simp
    then show ?thesis by (simp add: push_bit_eq_mult algebra_simps)
  qed
  show ?thesis
  proof -
    define q where "q = (if sint fc < 0 then pi0 + 1 else pi0)"
    have "fits_in 5 (12 :: u32)" "fits_in 5 (8 :: u32)" by (simp_all add: fits_in_def)
    then have "leaves rd (push_bit (unat (8 :: u32)) (push_bit (unat (12 :: u32)) (push_bit (unat (12 :: u32))
        (push_bit 12 (IMM_HIGH q) + sext12 (IMM_LOW q)) + sext12 (IMM_LOW fc)) + sext12 (IMM_LOW fc)))
        c s (load_large_constant rd fc pi0 s)"
      unfolding load_large_constant_def Let_def q_def [symmetric] by (intro sll add lui)
    then show ?thesis by (simp add: e)
  qed
qed

theorem load_wide_const:
  assumes "r < 8" and "sv_r sv AND VT_LVAL = 0" and "sv_r sv AND VT_SYM = 0" and "stack_loc sv = VT_CONST"
    and "\<not> is_float (ct_t (sv_type sv))" and "scast (ucast (sv_ci sv) :: u32) \<noteq> sv_ci sv"
    and "signed_drop_bit 32 (sv_ci sv) \<noteq> 0" and "fc = ucast (sv_ci sv)"
  shows "\<exists>s'. load k r sv s = Inr (sv, s') \<and>
    leaves (r + 10) (push_bit 20 (sext12 fc) + push_bit 8 (sext12 fc) + (fc AND 0xff)) c s s'"
proof -
  note sm = small_reg [OF assms(1)] phys_fits [OF assms(1)]
  let ?s1 = "load_large_constant (r + 10) fc (ucast (signed_drop_bit 32 (sv_ci sv))) s"
  have t8: "fc AND 0xff = take_bit 8 fc" by (simp add: and_masks)
  have "unat (fc AND 0xff) < 256" unfolding t8 by (simp add: unsigned_take_bit_eq take_bit_nat_less_exp [of 8, simplified])
  moreover from this have "sint (fc AND 0xff) = int (unat (fc AND 0xff))" by (intro sint_unat) simp
  ultimately have ok: "imm12_ok (fc AND 0xff)" unfolding imm12_ok_iff by (intro conjI; linarith)
  then have low: "sext12 (fc AND 0xff) = fc AND 0xff" by (rule imm12_ok_sext12)
  have l: "load k r sv s = Inr (sv, if fc AND 0xff \<noteq> 0
      then emit_ADDI (r + 10) (r + 10) (IMM_LOW (fc AND 0xff)) ?s1 else ?s1)"
    using assms sm ok by (simp add: load_def load_const_def Let_def LARGE_IMM_iff)
  note big = load_large_leaves [OF sm(5,6), of fc c s "ucast (signed_drop_bit 32 (sv_ci sv))"]
  show ?thesis
    unfolding l using leaves_ADDI [OF sm(5,6) big, of "IMM_LOW (fc AND 0xff)"] big low
    by auto
qed


text \<open>An absolute address: LUI is not rounded, so an address whose bit 11 is set is 4096 too low.\<close>

theorem load_absolute:
  assumes "r < 8" and "sv_r sv AND VT_LVAL \<noteq> 0" and "sv_r sv AND VT_SYM = 0" and "stack_loc sv = VT_CONST"
    and "\<not> is_float (ct_t (sv_type sv))" and "signed_drop_bit 32 (sv_ci sv) = 0" and "emitted_load sv = Some l"
    and "a = ucast (sv_ci sv)"
  shows "\<exists>s'. load k r sv s = Inr (sv, s') \<and>
    leaves (r + 10) (load_val l (mem c) (a - (if bit a 11 then 4096 else 0))) c s s'"
proof -
  note sm = small_reg [OF assms(1)] phys_fits [OF assms(1)]
  obtain sz al where ts: "type_size (sv_type sv) = Inr (sz, al)"
    using assms(7) by (auto simp: emitted_load_def sized_load_def split: sum.splits)
  have l: "load k r sv s = Inr (sv, o_insn (insn_I (IMM_LOW a) (r + 10) (load_funct3 l) (r + 10) 0x03)
      (emit_LUI (r + 10) (IMM_HIGH a) s))"
    using assms(2-8) sm ts
    by (auto simp: load_def load_lvalue_def lvalue_address_def emitted_load_def sized_load_def emit_load_o Let_def split: if_splits)
  have one: "leaves (r + 10) (push_bit 12 (IMM_HIGH a)) c s (emit_LUI (r + 10) (IMM_HIGH a) s)"
    unfolding emit_LUI_o using sm by (intro leaves_one [OF refl]) (simp_all add: run_LUI)
  show ?thesis
    unfolding l using sm
    by (auto intro!: leaves_then [OF one refl] simp: run_load unrounded_sum only_changes_def)
qed

end
