(* ===== verification/Reg_Alloc_Props.thy ===== *)
theory Reg_Alloc_Props
  imports Reg_Alloc Riscv_Load_Props
begin

text \<open>
  The value stack and the register allocator: rotations of the stack, the register get_reg finds is
  free, and spilling a register keeps what the values on the stack stand for.
\<close>

section \<open>Rotations\<close>

lemma vrotb_loop_nth:
  "j < length vs \<Longrightarrow> length (vrotb_loop j vs) = length vs \<and>
   (\<forall>k < length vs. vrotb_loop j vs ! k = (if 1 \<le> k \<and> k \<le> j then vs ! (k - 1) else vs ! k))"
  by (induction j arbitrary: vs) (auto simp: nth_list_update le_Suc_eq)

lemma vrote_loop_nth:
  "e + n < length vs \<Longrightarrow> length (vrote_loop e n vs) = length vs \<and>
   (\<forall>k < length vs. vrote_loop e n vs ! k = (if e \<le> k \<and> k < e + n then vs ! Suc k else vs ! k))"
  by (induction n arbitrary: e vs) (auto simp: nth_list_update)

definition not_cmp :: "'a gen_state_scheme \<Rightarrow> nat \<Rightarrow> bool" where
  "not_cmp s i \<longleftrightarrow> nocode_wanted s \<noteq> 0 \<or> sv_r (vstack s ! i) \<noteq> VT_CMP"

lemma vcheck_cmp_pass: "vstack s \<noteq> [] \<Longrightarrow> not_cmp s 0 \<Longrightarrow> vcheck_cmp gv s = Inr s"
  by (auto simp: vcheck_cmp_def not_cmp_def split: list.splits)

lemma vrotb_rotates:
  assumes "0 < n" "n \<le> length (vstack s)" "not_cmp s 0"
  shows "vrotb gv n s = Inr (s\<lparr>vstack := vstack s ! (n - 1) # take (n - 1) (vstack s) @ drop n (vstack s)\<rparr>)"
proof -
  note lp = vrotb_loop_nth [of "n - 1" "vstack s"]
  have ne: "vstack s \<noteq> []" using assms by auto
  have "(vrotb_loop (n - 1) (vstack s))[0 := vstack s ! (n - 1)] =
      vstack s ! (n - 1) # take (n - 1) (vstack s) @ drop n (vstack s)"
    using assms lp
    by (intro nth_equalityI) (auto simp: nth_list_update nth_Cons' nth_append)
  then show ?thesis
    using assms ne by (simp add: vrotb_def vcheck_cmp_pass Let_def)
qed

lemma vrott_rotates:
  assumes "0 < n" "n \<le> length (vstack s)" "not_cmp s 0"
  shows "vrott gv n s = Inr (s\<lparr>vstack := take (n - 1) (tl (vstack s)) @ hd (vstack s) # drop n (vstack s)\<rparr>)"
proof -
  note lp = vrote_loop_nth [of 0 "n - 1" "vstack s"]
  have ne: "vstack s \<noteq> []" using assms by auto
  have "(vrote_loop 0 (n - 1) (vstack s))[n - 1 := vstack s ! 0] =
      take (n - 1) (tl (vstack s)) @ hd (vstack s) # drop n (vstack s)"
    using assms lp ne
    by (intro nth_equalityI) (auto simp: nth_list_update nth_Cons' nth_append nth_tl hd_conv_nth)
  then show ?thesis
    using assms ne by (simp add: vrott_def vrote_def vcheck_cmp_pass Let_def)
qed

text \<open>
  The function vrotb moves the n-th value to the top and vrott undoes it, as long as no comparison has to
  be moved to a register first.
\<close>

theorem vrotb_vrott:
  assumes "0 < n" "n \<le> length (vstack s)" "not_cmp s 0" "not_cmp s (n - 1)"
  shows "bindR (vrotb gv n s) (vrott gv n) = Inr s"
proof -
  let ?s = "s\<lparr>vstack := vstack s ! (n - 1) # take (n - 1) (vstack s) @ drop n (vstack s)\<rparr>"
  have "vrott gv n ?s = Inr (?s\<lparr>vstack := take (n - 1) (tl (vstack ?s)) @ hd (vstack ?s) # drop n (vstack ?s)\<rparr>)"
    using assms by (intro vrott_rotates) (auto simp: not_cmp_def)
  moreover have "take (n - 1) (tl (vstack ?s)) @ hd (vstack ?s) # drop n (vstack ?s) = vstack s"
    using assms by (cases n) (auto simp: id_take_nth_drop [symmetric])
  ultimately show ?thesis using assms by (simp add: vrotb_rotates)
qed


definition int_in_reg :: "u16 \<Rightarrow> SValue" where
  "int_in_reg r = \<lparr>sv_type = CType VT_INT None, sv_r = r, sv_r2 = VT_CONST, sv_ci = 0, sv_sym = None,
     cmp_op = 0, cmp_r = 0\<rparr>"

lemma vrotb_vrott_witness:
  "bindR (vrotb Inr 3 (gen_start [int_in_reg 2, int_in_reg 1, int_in_reg 0, int_in_reg 7])) (vrott Inr 3) =
    Inr (gen_start [int_in_reg 2, int_in_reg 1, int_in_reg 0, int_in_reg 7])"
  by (rule vrotb_vrott) (simp_all add: gen_start_def not_cmp_def int_in_reg_def)

section \<open>Spilling\<close>

lemma o_insn_gen [simp]: "vstack (o_insn w s) = vstack s" "nocode_wanted (o_insn w s) = nocode_wanted s"
  "temp_vars (o_insn w s) = temp_vars s" "loc (o_insn w s) = loc s"
  by (simp_all add: o_insn_def reserve_def set_text_def Let_def)

lemma emits_gen [simp]:
  "vstack (emit_ADD a b c s) = vstack s" "vstack (emit_LUI a b s) = vstack s"
  "vstack (emit_SB a b c s) = vstack s" "vstack (emit_SH a b c s) = vstack s"
  "vstack (emit_SW a b c s) = vstack s"
  by (simp_all add: insn_defs emit_R_def emit_U_def emit_S_def)

lemma store_local_vstack:
  assumes "store r sv s = Inr (sv1, s1)" and "sv_r sv = VT_LOCAL OR VT_LVAL"
  shows "vstack s1 = vstack s \<and> sv_r sv1 = VT_LOCAL OR VT_LVAL"
proof -
  have "sv_r sv AND VT_SYM = 0" "stack_loc sv = VT_LOCAL" using assms(2) by (simp_all add: stack_loc_def)
  then show ?thesis
    using assms
    by (auto simp: store_def store_address_def load_symofs_def bindR_Inr_iff Let_def split: if_splits)
qed

lemma get_temp_vstack: "get_temp_local_var sz al s = (l, s1) \<Longrightarrow> vstack s1 = vstack s"
  by (auto simp: get_temp_local_var_def Let_def split: option.splits)

lemma spill_vstack: "spill p bt s = Inr (l, s') \<Longrightarrow> vstack s' = vstack s"
proof -
  assume sp: "spill p bt s = Inr (l, s')"
  then obtain sz al where "type_size (CType bt None) = Inr (sz, al)" by (auto simp: spill_def bindR_Inr_iff)
  moreover obtain l0 s1 where g: "get_temp_local_var sz al s = (l0, s1)" by fastforce
  ultimately obtain sv sv1 s2 where st: "store (ucast (stack_loc p)) sv s1 = Inr (sv1, s2)"
      "sv_r sv = VT_LOCAL OR VT_LVAL"
    and rest: "(if sv_r2 p < VT_CONST \<and> USING_TWO_WORDS bt
      then bindR (store (ucast (sv_r2 p)) (sv1\<lparr>sv_ci := sv_ci sv1 + 4\<rparr>) s2) (\<lambda>(sv2, s3). Inr (l0, s3))
      else Inr (l0, s2)) = Inr (l, s')"
    using sp by (fastforce simp: spill_def Let_def bindR_Inr_iff)
  note v1 = store_local_vstack [OF st] get_temp_vstack [OF g]
  show ?thesis
  proof (cases "sv_r2 p < VT_CONST \<and> USING_TWO_WORDS bt")
    case True
    with rest obtain sv2 where "store (ucast (sv_r2 p)) (sv1\<lparr>sv_ci := sv_ci sv1 + 4\<rparr>) s2 = Inr (sv2, s')"
      by (auto simp: bindR_Inr_iff)
    from store_local_vstack [OF this] v1 show ?thesis by simp
  qed (use rest v1 in auto)
qed

lemma mark_saved_free: "r < VT_CONST \<Longrightarrow> \<not> uses_reg r (mark_saved l p)"
proof -
  assume r: "r < VT_CONST"
  have "(x AND NOT (VT_VALMASK OR VT_BOUNDED) OR VT_LLOCAL) AND VT_VALMASK = VT_LLOCAL" for x :: u16
    by (simp add: bit.conj_disj_distrib2 and.assoc)
  then show ?thesis using r by (auto simp: uses_reg_def mark_saved_def stack_loc_def)
qed

lemma save_loop_frees:
  assumes "save_loop r js l s = Inr s'" and "r < VT_CONST" and "distinct js" and "set js \<subseteq> {..<length (vstack s)}"
  shows "length (vstack s') = length (vstack s) \<and>
    (\<forall>k < length (vstack s). if k \<in> set js then uses_reg r (vstack s' ! k) \<longrightarrow> stack_btype (vstack s' ! k) = VT_VOID
       else vstack s' ! k = vstack s ! k)"
  using assms
proof (induction js arbitrary: l s)
  case (Cons j js)
  show ?case
  proof (cases "uses_reg r (vstack s ! j) \<and> \<not> (l = 0 \<and> stack_btype (vstack s ! j) = VT_VOID)")
    case False
    then have "save_loop r js l s = Inr s'"
      using Cons.prems(1) by (cases "uses_reg r (vstack s ! j)") (auto simp: Let_def)
    with Cons.IH [of l s] Cons.prems False show ?thesis by (auto split: if_splits)
  next
    case True
    then obtain l1 s1 where l1: "vstack s1 = vstack s"
      "save_loop r js l1 (s1\<lparr>vstack := (vstack s1)[j := mark_saved l1 (vstack s ! j)]\<rparr>) = Inr s'"
      using Cons.prems(1) spill_vstack by (fastforce simp: Let_def bindR_Inr_iff split: if_splits)
    with Cons.IH [OF l1(2)] Cons.prems mark_saved_free show ?thesis
      by (auto split: if_splits)
  qed
qed simp


section \<open>A register nobody uses\<close>

lemma save_reg_frees:
  assumes "save_reg r s = Inr s'" and "nocode_wanted s = 0" and "r < VT_CONST" and "r AND VT_VALMASK = r"
    and "p \<in> set (vstack s')" and "stack_btype p \<noteq> VT_VOID"
  shows "\<not> uses_reg r p"
proof -
  have "save_loop r (rev [0..<length (vstack s)]) 0 s = Inr s'"
    using assms by (simp add: save_reg_def save_reg_upstack_def Let_def not_le [symmetric])
  from save_loop_frees [OF this assms(3)] assms(5,6) show ?thesis
    by (fastforce simp: in_set_conv_nth)
qed

lemma find_free_sound:
  "find_free rc nocode vs rs = Some r \<Longrightarrow>
   r \<in> set rs \<and> (reg_classes ! unat r) AND rc \<noteq> 0 \<and> (nocode \<or> (\<forall>p \<in> set vs. \<not> uses_reg r p))"
  by (induction rs) (auto split: if_splits)

lemma valmask_16: "x AND VT_VALMASK AND VT_VALMASK = x AND VT_VALMASK" for x :: u16
  by (simp add: and.assoc)

lemma reg_class_small: "reg_class r = Inr c \<Longrightarrow> unat r < 19 \<and> c = reg_classes ! unat r \<and> r AND VT_VALMASK = r"
proof -
  assume a: "reg_class r = Inr c"
  then have u: "unat r < 19" by (auto simp: reg_class_def split: if_splits)
  have "r AND VT_VALMASK = take_bit 6 r" by (simp add: and_masks)
  also have "take_bit 6 r = r"
    using u by (subst word_unat_eq_iff) (simp add: unsigned_take_bit_eq take_bit_nat_eq_self)
  finally show ?thesis using a u by (auto simp: reg_class_def split: if_splits)
qed

lemma take_reg_sound:
  assumes "take_reg rc ps s = Inr (r, s')" and "r \<noteq> - 1" 
  shows "\<exists>q. r = ucast q \<and> unat q < 19 \<and> (reg_classes ! unat q) AND rc \<noteq> 0 \<and> save_reg q s = Inr s' \<and>
    q < VT_CONST \<and> q AND VT_VALMASK = q"
  using assms
  by (induction ps)
    (auto simp: bindR_Inr_iff reg_to_take_def Let_def dest!: reg_class_small split: if_splits option.splits)

text \<open>
  C24: the register get_reg gives has the class asked for and no value on the stack uses it any
  more, whether it was free or had to be spilled (a value of type void is never spilled).
\<close>

theorem get_reg_free:
  assumes "get_reg rc s = Inr (r, s')" and "r \<noteq> - 1" and "nocode_wanted s = 0"
    and "p \<in> set (vstack s')" and "stack_btype p \<noteq> VT_VOID"
  shows "\<exists>q. r = ucast q \<and> unat q < 19 \<and> (reg_classes ! unat q) AND rc \<noteq> 0 \<and> \<not> uses_reg q p"
proof (cases "find_free rc (nocode_wanted s \<noteq> 0) (vstack s) (map of_nat [0..<19])")
  case None
  with assms(1) have "take_reg rc (rev (vstack s)) s = Inr (r, s')" by (simp add: get_reg_def)
  from take_reg_sound [OF this assms(2)] show ?thesis
    using save_reg_frees assms(3-5) by blast
next
  case (Some q)
  have "unat (of_nat n :: u16) < 19" if "n < 19" for n using that by (simp add: unat_of_nat)
  with find_free_sound [OF Some] have "unat q < 19" by auto
  then show ?thesis using find_free_sound [OF Some] assms Some by (auto simp: get_reg_def)
qed

lemma get_reg_free_witness:
  "\<exists>q. (1 :: u32) = ucast q \<and> unat q < 19 \<and> (reg_classes ! unat q) AND RC_INT \<noteq> 0 \<and> \<not> uses_reg q (int_in_reg 0)"
proof (rule get_reg_free [of RC_INT "gen_start [int_in_reg 0]" 1 "gen_start [int_in_reg 0]"])
  have "find_free RC_INT False [int_in_reg 0] (map of_nat [0..<19]) = Some 1" by code_simp
  then show "get_reg RC_INT (gen_start [int_in_reg 0]) = Inr (1, gen_start [int_in_reg 0])"
    by (simp add: get_reg_def gen_start_def)
qed (simp_all add: gen_start_def int_in_reg_def stack_btype_def)

section \<open>A spilled register keeps its value\<close>

lemma near_slot:
  assumes "imm12_ok l" "sv_ci sv = scast l"
  shows "near_offset sv" "ucast (sv_ci sv) = l"
proof -
  have "ucast (scast l :: u64) = l" by (rule bit_word_eqI) (auto simp: bit_simps)
  then show "near_offset sv" "ucast (sv_ci sv) = l" using assms by (simp_all add: near_offset_def)
qed

lemma store_slot:
  assumes "r < 8" "imm12_ok l" "bt = VT_INT \<or> bt = VT_PTR"
    and sv: "sv = \<lparr>sv_type = CType bt None, sv_r = VT_LOCAL OR VT_LVAL, sv_r2 = VT_CONST, sv_ci = scast l,
               sv_sym = None, cmp_op = 0, cmp_r = 0\<rparr>"
  shows "store r sv s = Inr (sv, o_insn (insn_S l (r + 10) 8 (store_funct3 Sw) 0x23) s)"
proof -
  have n: "near_offset sv" "ucast (sv_ci sv) = l"
    using near_slot [OF assms(2), of sv] by (simp_all add: sv)
  have "sv_r sv AND VT_SYM = 0" "stack_loc sv = VT_LOCAL" "sv_r sv AND VT_LVAL \<noteq> 0"
    "type_size (sv_type sv) = Inr (4, 4)" "stack_btype sv = bt" "\<not> is_float bt"
    using assms(3) by (auto simp: sv stack_loc_def stack_btype_def IS_ENUM_def is_float_def)
  then show ?thesis
    using n small_reg [OF assms(1)] assms(3)
    by (auto simp: store_def store_address_def load_symofs_near emit_store_o Let_def)
qed

definition spill_word :: "u16 \<Rightarrow> u32 \<Rightarrow> u32" where
  "spill_word r l = insn_S l (ucast r + 10) 8 (store_funct3 Sw) 0x23"

lemma spill_emits:
  assumes "stack_loc p < 8" "VT_CONST \<le> sv_r2 p" "bt = VT_INT \<or> bt = VT_PTR"
    and "get_temp_local_var 4 4 s = (l, s1)" "imm12_ok l"
  shows "spill p bt s = Inr (l, o_insn (spill_word (stack_loc p) l) s1)"
proof -
  have "type_size (CType bt None) = Inr (4, 4)" using assms(3) by (auto simp: IS_ENUM_def)
  moreover have "\<not> sv_r2 p < VT_CONST" using assms(2) by (simp add: not_less)
  ultimately show ?thesis
    using assms(4) store_slot [OF small_loc(1) [OF assms(1)] assms(5,3) refl, of s1]
    by (simp add: spill_def spill_word_def Let_def del: type_size.simps)
qed

text \<open>An entry that keeps one 32-bit word in a register: a pointer it refers through or its value.\<close>

definition word_entry :: "SValue \<Rightarrow> bool" where
  "word_entry p \<longleftrightarrow> VT_CONST \<le> sv_r2 p \<and> sv_r p AND VT_SYM = 0 \<and> stack_btype p \<noteq> VT_VOID \<and>
     (sv_r p AND VT_LVAL \<noteq> 0 \<or>
      load_op_of p = Some Lw \<and> stack_btype p \<in> {VT_INT, VT_PTR, VT_FUNC})"

definition marked :: "u16 \<Rightarrow> u32 \<Rightarrow> SValue \<Rightarrow> SValue" where
  "marked r l p = (if uses_reg r p then mark_saved l p else p)"

lemma save_loop_rest:
  assumes "l \<noteq> 0" "distinct js" "set js \<subseteq> {..<length (vstack s)}"
  shows "save_loop r js l s = Inr (s\<lparr>vstack := map (\<lambda>k. if k \<in> set js then marked r l (vstack s ! k)
    else vstack s ! k) [0..<length (vstack s)]\<rparr>)"
  using assms(2,3)
proof (induction js arbitrary: s)
  case Nil
  then show ?case by (simp add: map_nth)
next
  case (Cons j js)
  let ?vs = "(vstack s)[j := marked r l (vstack s ! j)]"
  have "save_loop r (j # js) l s = save_loop r js l (s\<lparr>vstack := ?vs\<rparr>)"
    using assms(1) by (auto simp: Let_def marked_def)
  also have "\<dots> = Inr (s\<lparr>vstack := map (\<lambda>k. if k \<in> set js then marked r l (?vs ! k) else ?vs ! k)
      [0..<length (vstack s)]\<rparr>)"
    using Cons by (subst Cons.IH) auto
  also have "map (\<lambda>k. if k \<in> set js then marked r l (?vs ! k) else ?vs ! k) [0..<length (vstack s)] =
      map (\<lambda>k. if k \<in> set (j # js) then marked r l (vstack s ! k) else vstack s ! k) [0..<length (vstack s)]"
    using Cons.prems by (intro map_cong) (auto simp: nth_list_update)
  finally show ?case .
qed

lemma save_loop_first:
  assumes "l \<noteq> 0" "distinct js" "set js \<subseteq> {..<length (vstack s)}"
    and "\<forall>k \<in> set js. uses_reg r (vstack s ! k) \<longrightarrow> word_entry (vstack s ! k)"
    and "r < 8" "get_temp_local_var 4 4 s = (l, s1)" "imm12_ok l"
    and "\<exists>k \<in> set js. uses_reg r (vstack s ! k)"
  shows "save_loop r js 0 s = Inr ((o_insn (spill_word r l) s1)\<lparr>vstack := map (\<lambda>k. if k \<in> set js
    then marked r l (vstack s ! k) else vstack s ! k) [0..<length (vstack s)]\<rparr>)"
  using assms(2,3,4,8)
proof (induction js)
  case (Cons j js)
  show ?case
  proof (cases "uses_reg r (vstack s ! j)")
    case False
    then have "save_loop r (j # js) 0 s = save_loop r js 0 s" by simp
    also have "\<dots> = Inr ((o_insn (spill_word r l) s1)\<lparr>vstack := map (\<lambda>k. if k \<in> set js
        then marked r l (vstack s ! k) else vstack s ! k) [0..<length (vstack s)]\<rparr>)"
      using Cons False by auto
    also have "map (\<lambda>k. if k \<in> set js then marked r l (vstack s ! k) else vstack s ! k) [0..<length (vstack s)] =
        map (\<lambda>k. if k \<in> set (j # js) then marked r l (vstack s ! k) else vstack s ! k) [0..<length (vstack s)]"
      using False by (intro map_cong) (auto simp: marked_def)
    finally show ?thesis .
  next
    case True
    let ?p = "vstack s ! j"
    let ?S = "o_insn (spill_word r l) s1"
    have w: "word_entry ?p" using True Cons.prems by auto
    then have "sv_r2 ?p \<noteq> r"
      using assms(5) by (auto simp: word_entry_def word_le_nat_alt word_less_nat_alt)
    then have "stack_loc ?p = r" using True by (auto simp: uses_reg_def)
    moreover have "(if sv_r ?p AND VT_LVAL \<noteq> 0 \<or> stack_btype ?p = VT_FUNC then VT_PTR else stack_btype ?p) = VT_INT \<or>
        (if sv_r ?p AND VT_LVAL \<noteq> 0 \<or> stack_btype ?p = VT_FUNC then VT_PTR else stack_btype ?p) = VT_PTR"
      using w by (auto simp: word_entry_def)
    ultimately have sp: "spill ?p (if sv_r ?p AND VT_LVAL \<noteq> 0 \<or> stack_btype ?p = VT_FUNC then VT_PTR
        else stack_btype ?p) s = Inr (l, ?S)"
      using spill_emits [of ?p _ s l s1] w assms(5-7) by (simp add: word_entry_def)
    have v: "vstack ?S = vstack s" using get_temp_vstack [OF assms(6)] by simp
    have "save_loop r (j # js) 0 s = save_loop r js l (?S\<lparr>vstack := (vstack s)[j := mark_saved l ?p]\<rparr>)"
      using True w sp v by (simp add: Let_def word_entry_def)
    also have "\<dots> = save_loop r (j # js) l ?S"
      using True assms(1) v by (simp add: Let_def)
    also have "\<dots> = Inr (?S\<lparr>vstack := map (\<lambda>k. if k \<in> set (j # js) then marked r l (vstack s ! k) else vstack s ! k)
        [0..<length (vstack s)]\<rparr>)"
      using save_loop_rest [OF assms(1) Cons.prems(1), of ?S r] Cons.prems(2) v by simp
    finally show ?thesis .
  qed
qed simp


text \<open>What an entry stands for: the place it refers to, as an lvalue, or its value.\<close>

abbreviation is_lval :: "SValue \<Rightarrow> bool" where
  "is_lval p \<equiv> sv_r p AND VT_LVAL \<noteq> 0"

definition denotes :: "bool \<Rightarrow> SValue \<Rightarrow> SValue \<Rightarrow> cpu \<Rightarrow> u32 option" where
  "denotes as_lval p vt c = (if as_lval then lvalue_address_spec p c else value_of p vt c)"

lemma mark_saved_loc:
  "sv_r p AND VT_LVAL \<noteq> 0 \<Longrightarrow> stack_loc (mark_saved l p) = VT_LLOCAL"
  "sv_r p AND VT_LVAL = 0 \<Longrightarrow> sv_r (mark_saved l p) = VT_LOCAL OR VT_LVAL"
  by (simp_all add: mark_saved_def stack_loc_def bit.conj_disj_distrib2 and.assoc or.commute)

lemma mark_saved_lval:
  assumes "sv_r p AND VT_LVAL \<noteq> 0"
  shows "sv_r (mark_saved l p) AND VT_LVAL = sv_r p AND VT_LVAL"
  using assms by (simp add: mark_saved_def bit.conj_disj_distrib2 and.assoc)

lemma denotes_saved:
  assumes "word_entry p" "sv_r p AND VT_LVAL \<noteq> 0 \<or> \<not> is_float (ct_t (sv_type p))" "imm12_ok l"
    and "mem_word (mem c) (rreg c 8 + l) = x"
  shows "denotes (is_lval p) (mark_saved l p) vt c = Some x"
proof -
  let ?q = "mark_saved l p"
  have n: "near_offset ?q" "ucast (sv_ci ?q) = l"
    using near_slot [OF assms(3), of ?q] by (simp_all add: mark_saved_def)
  show ?thesis
  proof (cases "sv_r p AND VT_LVAL = 0")
    case False
    then show ?thesis
      using n assms(4) mark_saved_loc(1) [OF False] mark_saved_lval [OF False]
      by (simp add: denotes_def lvalue_address_spec_def)
  next
    case True
    note r = mark_saved_loc(2) [OF True, of l]
    have same: "sv_type ?q = sv_type p" "stack_btype ?q = stack_btype p"
      by (simp_all add: stack_btype_def mark_saved_def)
    have "load_op_of ?q = load_op_of p" unfolding load_op_of_def sized_load_def same by (rule refl)
    with assms(1) True have "load_op_of ?q = Some Lw" by (simp add: word_entry_def)
    moreover have "\<not> is_float (ct_t (sv_type ?q))" using assms(2) True by (simp add: mark_saved_def)
    moreover have "lvalue_address_spec ?q c = Some (rreg c 8 + l)"
      using r n by (simp add: lvalue_address_spec_def stack_loc_def)
    ultimately show ?thesis
      using r assms(4) True by (simp add: denotes_def value_by_def load_val_def)
  qed
qed


lemma denotes_register:
  assumes "word_entry p" "stack_loc p = r" "r < 8" "sv_r p AND VT_LVAL \<noteq> 0 \<or> \<not> is_float (ct_t (sv_type p))"
  shows "denotes (is_lval p) p vt c = Some (rreg c (ucast r + 10))"
proof -
  have "r \<noteq> VT_LOCAL" "r \<noteq> VT_CONST" using assms(3) by auto
  then show ?thesis
    using assms by (auto simp: denotes_def lvalue_address_spec_def value_by_def word_entry_def Let_def)
qed

text \<open>
  C4: When every stack entry that uses a register keeps one 32-bit word there (a pointer it refers
  through, or a value of a type of four bytes) and get_temp_local_var gives a temporary within 2 KiB, spilling
  the register keeps what each of these entries stands for: after the store that save_reg emits has run, the
  saved entry refers to the same place, or has the same value, as before; no register has changed, and of the memory
  only the temporary. Values of one or two bytes and values in two registers are not covered.
\<close>

theorem save_reg_keeps:
  assumes "r < 8" and "nocode_wanted s = 0" and "\<forall>p \<in> set (vstack s). uses_reg r p \<longrightarrow> word_entry p"
    and "get_temp_local_var 4 4 s = (l, s1)" and "imm12_ok l" and "l \<noteq> 0"
    and "j < length (vstack s)" and "p = vstack s ! j" and "uses_reg r p"
    and "sv_r p AND VT_LVAL \<noteq> 0 \<or> \<not> is_float (ct_t (sv_type p))"
  shows "\<exists>w vs c'. save_reg r s = Inr ((o_insn w s1)\<lparr>vstack := vs\<rparr>) \<and> run [w] c = Some c' \<and>
    denotes (is_lval p) (vs ! j) vt c' = denotes (is_lval p) p vt c \<and> regs c' = regs c \<and>
    mem c' = store_val Sw (rreg c 8 + l) (rreg c (ucast r + 10)) (mem c)"
proof -
  let ?x = "rreg c (ucast r + 10)"
  let ?vs = "map (\<lambda>k. if k \<in> set (rev [0..<length (vstack s)]) then marked r l (vstack s ! k) else vstack s ! k)
    [0..<length (vstack s)]"
  let ?c' = "next_pc (c\<lparr>mem := store_val Sw (rreg c 8 + l) ?x (mem c)\<rparr>)"
  have we: "word_entry p" using assms(3,7-9) by auto
  then have "sv_r2 p \<noteq> r" using assms(1) by (auto simp: word_entry_def word_le_nat_alt word_less_nat_alt)
  then have loc: "stack_loc p = r" using assms(9) by (auto simp: uses_reg_def)
  have "r < VT_CONST" "r AND VT_VALMASK = r"
    using small_loc(2) [OF assms(1)] reg_class_small [of r] assms(1)
    by (auto simp: reg_class_def word_less_nat_alt)
  then have "save_reg r s = save_loop r (rev [0..<length (vstack s)]) 0 s"
    using assms(2) by (simp add: save_reg_def save_reg_upstack_def Let_def not_le [symmetric])
  also have "\<dots> = Inr ((o_insn (spill_word r l) s1)\<lparr>vstack := ?vs\<rparr>)"
    using assms by (intro save_loop_first) auto
  finally have sv: "save_reg r s = Inr ((o_insn (spill_word r l) s1)\<lparr>vstack := ?vs\<rparr>)" .
  have "sext12 l = l" using assms(5) by (rule imm12_ok_sext12)
  then have run: "run [spill_word r l] c = Some ?c'"
    using phys_fits(1) [OF small_loc(1) [OF assms(1)]]
    by (simp add: spill_word_def run_store fits)
  have "?vs ! j = mark_saved l p" using assms(7-9) by (simp add: marked_def)
  moreover have "denotes (is_lval p) (mark_saved l p) vt ?c' = Some ?x"
    using we assms(5,10) by (intro denotes_saved) (simp_all add: mem_word_store_val)
  moreover have "denotes (is_lval p) p vt c = Some ?x" using we loc assms(1,10) by (rule denotes_register)
  ultimately show ?thesis using sv run by (intro exI [of _ "spill_word r l"] exI [of _ ?vs] exI [of _ ?c']) simp
qed

lemma save_reg_keeps_witness:
  "\<exists>w vs c'. save_reg 3 (gen_start [int_in_reg 1, int_in_reg 3]) =
      Inr ((o_insn w ((gen_start [int_in_reg 1, int_in_reg 3])\<lparr>loc := - 20, temp_vars := [(- 20, 4, 4)]\<rparr>))\<lparr>vstack := vs\<rparr>) \<and>
    run [w] (zero_cpu 0) = Some c' \<and>
    denotes (is_lval (int_in_reg 3)) (vs ! 1) (int_in_reg 1) c' =
      denotes (is_lval (int_in_reg 3)) (int_in_reg 3) (int_in_reg 1) (zero_cpu 0) \<and>
    regs c' = regs (zero_cpu 0) \<and>
    mem c' = store_val Sw (rreg (zero_cpu 0) 8 + (- 20)) (rreg (zero_cpu 0) (ucast (3 :: u16) + 10)) (mem (zero_cpu 0))"
proof (rule save_reg_keeps)
  show "get_temp_local_var 4 4 (gen_start [int_in_reg 1, int_in_reg 3]) =
      (- 20, (gen_start [int_in_reg 1, int_in_reg 3])\<lparr>loc := - 20, temp_vars := [(- 20, 4, 4)]\<rparr>)"
    by (simp add: get_temp_local_var_def gen_start_def)
  show "\<forall>p \<in> set (vstack (gen_start [int_in_reg 1, int_in_reg 3])). uses_reg 3 p \<longrightarrow> word_entry p"
    by (simp add: gen_start_def uses_reg_def int_in_reg_def word_entry_def stack_loc_def
      stack_btype_def load_op_of_def sized_load_def IS_ENUM_def)
qed (simp_all add: gen_start_def int_in_reg_def uses_reg_def stack_loc_def imm12_ok_def is_float_def)

end
