(* ===== verification/Const_Fold.thy ===== *)
theory Const_Fold
  imports Value_Ops
begin

text \<open>
  The integer constant folder of tccgen.c (gen_opic). The calls that generate code, gv through
  vswap and the low-level generators gen_opi and gen_opl, are arguments of the definitions.
\<close>

abbreviation (input) TOK_LAND :: u32 where "TOK_LAND \<equiv> 0x90"
abbreviation (input) TOK_LOR :: u32 where "TOK_LOR \<equiv> 0x91"
abbreviation (input) TOK_UDIV :: u32 where "TOK_UDIV \<equiv> 0x83"
abbreviation (input) TOK_UMOD :: u32 where "TOK_UMOD \<equiv> 0x84"
abbreviation (input) TOK_PDIV :: u32 where "TOK_PDIV \<equiv> 0x85"
abbreviation (input) TOK_SHR :: u32 where "TOK_SHR \<equiv> 0x8b"
abbreviation (input) TOK_SHL :: u32 where "TOK_SHL \<equiv> 60"
abbreviation (input) TOK_SAR :: u32 where "TOK_SAR \<equiv> 62"
abbreviation (input) OP_ADD :: u32 where "OP_ADD \<equiv> 43"
abbreviation (input) OP_SUB :: u32 where "OP_SUB \<equiv> 45"
abbreviation (input) OP_MUL :: u32 where "OP_MUL \<equiv> 42"
abbreviation (input) OP_DIV :: u32 where "OP_DIV \<equiv> 47"
abbreviation (input) OP_MOD :: u32 where "OP_MOD \<equiv> 37"
abbreviation (input) OP_AND :: u32 where "OP_AND \<equiv> 38"
abbreviation (input) OP_OR :: u32 where "OP_OR \<equiv> 124"
abbreviation (input) OP_XOR :: u32 where "OP_XOR \<equiv> 94"

section \<open>64-bit helpers\<close>

definition gen_opic_sdiv :: "u64 \<Rightarrow> u64 \<Rightarrow> u64" where
  "gen_opic_sdiv a b =
     (let x = (if drop_bit 63 a \<noteq> 0 then - a else a) div (if drop_bit 63 b \<noteq> 0 then - b else b)
      in if drop_bit 63 (a XOR b) \<noteq> 0 then - x else x)"

definition gen_opic_lt :: "u64 \<Rightarrow> u64 \<Rightarrow> bool" where
  "gen_opic_lt a b \<longleftrightarrow> (a XOR push_bit 63 1) < (b XOR push_bit 63 1)"

text \<open>A value of type \<open>t\<close> narrower than 64 bits, extended by its sign unless it is unsigned.\<close>

definition opic_extend :: "u32 \<Rightarrow> u64 \<Rightarrow> u64" where
  "opic_extend t l =
     (if t AND VT_BTYPE \<noteq> VT_LLONG
      then ucast (ucast l :: u32) OR (if t AND VT_UNSIGNED \<noteq> 0 then 0 else - (l AND 0x80000000))
      else l)"

definition is_const :: "SValue \<Rightarrow> bool" where
  "is_const v \<longleftrightarrow> sv_r v AND (VT_VALMASK OR VT_LVAL OR VT_SYM) = VT_CONST"

section \<open>Two constants\<close>

text \<open>The value of an operation, or nothing when the general case has to do it.\<close>

definition opic_fold :: "u32 \<Rightarrow> u64 \<Rightarrow> u64 \<Rightarrow> u64 \<Rightarrow> u64 option" where
  "opic_fold op shm l1 l2 =
     (let truth = (\<lambda>b. Some (if b then 1 else 0)); n = unat (l2 AND shm) in
      if op = OP_ADD then Some (l1 + l2)
      else if op = OP_SUB then Some (l1 - l2)
      else if op = OP_AND then Some (l1 AND l2)
      else if op = OP_XOR then Some (l1 XOR l2)
      else if op = OP_OR then Some (l1 OR l2)
      else if op = OP_MUL then Some (l1 * l2)
      else if op \<in> {TOK_PDIV, OP_DIV, OP_MOD, TOK_UDIV, TOK_UMOD} then
        (if l2 = 0 then None
         else if op = OP_MOD then Some (l1 - l2 * gen_opic_sdiv l1 l2)
         else if op = TOK_UDIV then Some (l1 div l2)
         else if op = TOK_UMOD then Some (l1 mod l2)
         else Some (gen_opic_sdiv l1 l2))
      else if op = TOK_SHL then Some (push_bit n l1)
      else if op = TOK_SHR then Some (drop_bit n l1)
      else if op = TOK_SAR then
        Some (if drop_bit 63 l1 \<noteq> 0 then NOT (drop_bit n (NOT l1)) else drop_bit n l1)
      else if op = TOK_ULT then truth (l1 < l2)
      else if op = TOK_UGE then truth (l1 \<ge> l2)
      else if op = TOK_EQ then truth (l1 = l2)
      else if op = TOK_NE then truth (l1 \<noteq> l2)
      else if op = TOK_ULE then truth (l1 \<le> l2)
      else if op = TOK_UGT then truth (l1 > l2)
      else if op = TOK_LT then truth (gen_opic_lt l1 l2)
      else if op = TOK_GE then truth (\<not> gen_opic_lt l1 l2)
      else if op = TOK_LE then truth (\<not> gen_opic_lt l2 l1)
      else if op = TOK_GT then truth (gen_opic_lt l2 l1)
      else if op = TOK_LAND then truth (l1 \<noteq> 0 \<and> l2 \<noteq> 0)
      else if op = TOK_LOR then truth (l1 \<noteq> 0 \<or> l2 \<noteq> 0)
      else None)"

section \<open>One constant\<close>

definition is_shift :: "u32 \<Rightarrow> bool" where
  "is_shift op \<longleftrightarrow> op = TOK_SHL \<or> op = TOK_SHR \<or> op = TOK_SAR"

definition commutes :: "u32 \<Rightarrow> bool" where
  "commutes op \<longleftrightarrow> op \<in> {OP_ADD, OP_AND, OP_XOR, OP_OR, OP_MUL, TOK_EQ, TOK_NE}"

text \<open>A left operand that is the result: 0 << x, 0 >> x, -1 >> x.\<close>

definition absorbs_left :: "u32 \<Rightarrow> u64 \<Rightarrow> bool" where
  "absorbs_left op l1 \<longleftrightarrow> (l1 = 0 \<and> is_shift op) \<or> (l1 = - 1 \<and> op = TOK_SAR)"

text \<open>A right operand that decides the result: x & 0, x * 0, x | -1, x % 1.\<close>

definition absorbs_right :: "u32 \<Rightarrow> u32 \<Rightarrow> u64 \<Rightarrow> bool" where
  "absorbs_right op t2 l2 \<longleftrightarrow>
     (l2 = 0 \<and> (op = OP_AND \<or> op = OP_MUL)) \<or>
     (op = OP_OR \<and> (l2 = - 1 \<or> (l2 = 0xFFFFFFFF \<and> t2 \<noteq> VT_LLONG))) \<or>
     (l2 = 1 \<and> (op = OP_MOD \<or> op = TOK_UMOD))"

text \<open>A right operand that does nothing: x * 1, x - 0, x & -1.\<close>

definition neutral_right :: "u32 \<Rightarrow> u32 \<Rightarrow> u64 \<Rightarrow> bool" where
  "neutral_right op t2 l2 \<longleftrightarrow>
     ((op = OP_MUL \<or> op = OP_DIV \<or> op = TOK_UDIV \<or> op = TOK_PDIV) \<and> l2 = 1) \<or>
     ((op = OP_ADD \<or> op = OP_SUB \<or> op = OP_OR \<or> op = OP_XOR \<or> is_shift op) \<and> l2 = 0) \<or>
     (op = OP_AND \<and> (l2 = - 1 \<or> (l2 = 0xFFFFFFFF \<and> t2 \<noteq> VT_LLONG)))"

text \<open>The loop that counts the bits of a power of two; \<open>n\<close> starts at -1.\<close>

function log2_loop :: "u64 \<Rightarrow> u32 \<Rightarrow> u32" where
  "log2_loop l n = (if l \<noteq> 0 then log2_loop (drop_bit 1 l) (n + 1) else n)"
  by auto
termination
proof (relation "measure (\<lambda>(l, n). unat l)")
  fix l :: u64
  assume "l \<noteq> 0"
  then have "unat l div 2 < unat l" by (simp add: unat_gt_0)
  then show "((drop_bit 1 l, n + 1), l, n) \<in> measure (\<lambda>(l, n). unat l)" for n :: u32
    by (simp add: drop_bit_eq_div unat_div_distrib)
qed simp

declare log2_loop.simps [simp del]

definition is_power2 :: "u64 \<Rightarrow> bool" where
  "is_power2 l \<longleftrightarrow> l > 0 \<and> l AND (l - 1) = 0"

definition shift_for :: "u32 \<Rightarrow> u32" where
  "shift_for op = (if op = OP_MUL then TOK_SHL else if op = TOK_PDIV then TOK_SAR else TOK_SHR)"

definition has_symbol :: "SValue \<Rightarrow> bool" where
  "has_symbol v \<longleftrightarrow>
     sv_r v AND (VT_VALMASK OR VT_LVAL OR VT_SYM) = VT_CONST OR VT_SYM \<or>
     sv_r v AND (VT_VALMASK OR VT_LVAL) = VT_LOCAL"

text \<open>Keep the constant operand on top as the result, 0 in place of 1, and drop the other one.\<close>

definition keep_right :: "'a gen_call \<Rightarrow> u64 \<Rightarrow> 'a gen_call" where
  "keep_right gv l2 s =
     bindR (if l2 = 1 then set_vtop (\<lambda>v. v\<lparr>sv_ci := 0\<rparr>) s else Inr s) (\<lambda>s1.
     bindR (vswap gv s1) drop_vtop)"

section \<open>gen_opic\<close>

definition opic_general :: "(u32 \<Rightarrow> 'a gen_call) \<Rightarrow> (u32 \<Rightarrow> 'a gen_call) \<Rightarrow> u32 \<Rightarrow> u32 \<Rightarrow> u32 \<Rightarrow> 'a gen_call" where
  "opic_general gen_opi gen_opl t1 t2 op =
     (if t1 = VT_LLONG \<or> t2 = VT_LLONG then gen_opl op else gen_opi op)"

definition mark_nonconst :: "u16 \<Rightarrow> 'a gen_call" where
  "mark_nonconst nonconst = set_vtop (\<lambda>v. if sv_r v = VT_CONST then v\<lparr>sv_r := sv_r v OR nonconst\<rparr> else v)"

text \<open>The part for operands that are not both constants; \<open>c1\<close>, \<open>c2\<close>, \<open>l1\<close> and \<open>l2\<close> describe them.\<close>

definition opic_simplify :: "'a gen_call \<Rightarrow> (u32 \<Rightarrow> 'a gen_call) \<Rightarrow> u32 \<Rightarrow> u32 \<Rightarrow>
    bool \<Rightarrow> bool \<Rightarrow> u64 \<Rightarrow> u64 \<Rightarrow> 'a gen_call" where
  "opic_simplify gv general op t2 c1 c2' l1 l2' s0 =
     (let swap = (c1 \<and> commutes op);
          c2 = (if swap then c1 else c2'); l2 = (if swap then l1 else l2') in
      bindR (if swap then vswap gv s0 else Inr s0) (\<lambda>s.
      if const_wanted s = 0 \<and> c1 \<and> absorbs_left op l1 then drop_vtop s
      else if const_wanted s = 0 \<and> c2 \<and> absorbs_right op t2 l2 then keep_right gv l2 s
      else if c2 \<and> neutral_right op t2 l2 then drop_vtop s
      else if c2 \<and> (op = OP_MUL \<or> op = TOK_PDIV \<or> op = TOK_UDIV) then
        (if is_power2 l2
         then bindR (set_vtop (\<lambda>v. v\<lparr>sv_ci := scast (log2_loop l2 (- 1))\<rparr>) s) (general (shift_for op))
         else general op s)
      else if c2 \<and> (op = OP_ADD \<or> op = OP_SUB) then
        (case vstack s of
           v2 # v1 # vs \<Rightarrow>
             (let l = (if op = OP_SUB then - l2 else l2) + sv_ci v1 in
              if has_symbol v1 \<and> scast (ucast l :: u32) = l
              then Inr (s\<lparr>vstack := v1\<lparr>sv_ci := l\<rparr> # vs\<rparr>)
              else general op s)
         | _ \<Rightarrow> Inl MemFault)
      else general op s))"

definition gen_opic :: "'a gen_call \<Rightarrow> (u32 \<Rightarrow> 'a gen_call) \<Rightarrow> (u32 \<Rightarrow> 'a gen_call) \<Rightarrow> u32 \<Rightarrow> 'a gen_call" where
  "gen_opic gv gen_opi gen_opl op s =
     (case vstack s of
        v2 # v1 # vs \<Rightarrow>
          (let t1 = stack_btype v1; t2 = stack_btype v2; c1 = is_const v1; c2 = is_const v2;
               nonconst = (if c1 \<and> c2 then (sv_r v1 OR sv_r v2) AND VT_NONCONST else VT_NONCONST);
               l1 = opic_extend (ct_t (sv_type v1)) (if c1 then sv_ci v1 else 0);
               l2 = opic_extend (ct_t (sv_type v2)) (if c2 then sv_ci v2 else 0);
               shm = (if t1 = VT_LLONG then 63 else 31);
               general = opic_general gen_opi gen_opl t1 t2 in
           bindR
             (if c1 \<and> c2 then
                (case opic_fold op shm l1 l2 of
                   Some l \<Rightarrow> Inr (s\<lparr>vstack := v1\<lparr>sv_ci := opic_extend (ct_t (sv_type v1)) l\<rparr> # vs\<rparr>)
                 | None \<Rightarrow>
                     if op \<in> {TOK_PDIV, OP_DIV, OP_MOD, TOK_UDIV, TOK_UMOD} \<and> const_wanted s \<noteq> 0 \<and>
                        nocode_wanted s AND 0xffff = 0
                     then Inl (TccError ''division by zero in constant'')
                     else general op s)
              else opic_simplify gv general op t2 c1 c2 l1 l2 s)
             (mark_nonconst nonconst))
      | _ \<Rightarrow> Inl MemFault)"

end
