(* ===== verification/Lib_Int64.thy ===== *)
theory Lib_Int64
  imports Prelude
begin

text \<open>
  The runtime library of compiled programs (lib/libtcc1.c), as built by tcc for i386: 64-bit
  division and remainder out of 32-bit steps, 64-bit shifts, and the conversions of floating
  point numbers to 64-bit integers, which work on the bits of the number. The four assembler
  macros are modelled by the i386 instructions they consist of; a division that faults on the
  processor and a shift by an amount C leaves undefined are errors. Negation of a signed value
  wraps, as it does on the machine.
\<close>

section \<open>Halves of a 64-bit integer\<close>

text \<open>The union DWunion: \<open>make64 h l\<close> is its ll, \<open>low64\<close> and \<open>high64\<close> its s.low and s.high.\<close>

definition make64 :: "u32 \<Rightarrow> u32 \<Rightarrow> u64" where
  "make64 h l = push_bit 32 (ucast h) OR ucast l"

definition low64 :: "u64 \<Rightarrow> u32" where "low64 x = ucast x"
definition high64 :: "u64 \<Rightarrow> u32" where "high64 x = ucast (drop_bit 32 x)"

section \<open>The assembler macros\<close>

definition sub_ddmmss :: "u32 \<Rightarrow> u32 \<Rightarrow> u32 \<Rightarrow> u32 \<Rightarrow> u32 \<times> u32" where
  "sub_ddmmss ah al bh bl = (ah - bh - (if al < bl then 1 else 0), al - bl)"

definition umul_ppmm :: "u32 \<Rightarrow> u32 \<Rightarrow> u32 \<times> u32" where
  "umul_ppmm u v = (let p = (ucast u :: u64) * ucast v in (high64 p, low64 p))"

definition udiv_qrnnd :: "u32 \<Rightarrow> u32 \<Rightarrow> u32 \<Rightarrow> (u32 \<times> u32) res" where
  "udiv_qrnnd n1 n0 dv =
     (let n = make64 n1 n0 in
      if dv = 0 \<or> 2 ^ 32 \<le> n div ucast dv then Inl MemFault
      else Inr (ucast (n div ucast dv), ucast (n mod ucast dv)))"

text \<open>bsrl finds the highest bit set.\<close>

fun bsr_below :: "nat \<Rightarrow> u32 \<Rightarrow> nat" where
  "bsr_below 0 x = 0"
| "bsr_below (Suc k) x = (if bit x k then k else bsr_below k x)"

definition count_leading_zeros :: "u32 \<Rightarrow> nat" where
  "count_leading_zeros x = 31 - bsr_below 32 x"

section \<open>Division\<close>

text \<open>The divisor fits in one word.\<close>

definition udivmod_word :: "u32 \<Rightarrow> u32 \<Rightarrow> u32 \<Rightarrow> (u64 \<times> u64) res" where
  "udivmod_word n1 n0 d0 =
     (if d0 > n1
      then bindR (udiv_qrnnd n1 n0 d0) (\<lambda>(q0, r0). Inr (make64 0 q0, make64 0 r0))
      else if d0 = 0 then Inl MemFault
      else bindR (udiv_qrnnd 0 n1 d0) (\<lambda>(q1, r1).
           bindR (udiv_qrnnd r1 n0 d0) (\<lambda>(q0, r0).
             Inr (make64 q1 q0, make64 0 r0))))"

text \<open>The divisor has its highest bit set: the quotient is 0 or 1.\<close>

definition udivmod_top :: "u32 \<Rightarrow> u32 \<Rightarrow> u32 \<Rightarrow> u32 \<Rightarrow> u64 \<times> u64" where
  "udivmod_top n1 n0 d1 d0 =
     (if n1 > d1 \<or> n0 \<ge> d0
      then let (h, l) = sub_ddmmss n1 n0 d1 d0 in (make64 0 1, make64 h l)
      else (make64 0 0, make64 n1 n0))"

text \<open>The divisor is normalised by \<open>bm\<close> bits and the quotient estimated from the high words.\<close>

definition udivmod_norm :: "nat \<Rightarrow> u32 \<Rightarrow> u32 \<Rightarrow> u32 \<Rightarrow> u32 \<Rightarrow> (u64 \<times> u64) res" where
  "udivmod_norm bm n1 n0 d1 d0 =
     (let b = 32 - bm;
          d1' = push_bit bm d1 OR drop_bit b d0;
          d0' = push_bit bm d0;
          n2 = drop_bit b n1;
          n1' = push_bit bm n1 OR drop_bit b n0;
          n0' = push_bit bm n0 in
      bindR (udiv_qrnnd n2 n1' d1') (\<lambda>(q0, r1).
        let (m1, m0) = umul_ppmm q0 d0';
            (q0', m1', m0') =
              (if m1 > r1 \<or> (m1 = r1 \<and> m0 > n0')
               then let (h, l) = sub_ddmmss m1 m0 d1' d0' in (q0 - 1, h, l)
               else (q0, m1, m0));
            (r1', r0') = sub_ddmmss r1 n0' m1' m0'
        in Inr (make64 0 q0',
                make64 (drop_bit bm r1') (push_bit b r1' OR drop_bit bm r0'))))"

text \<open>udivmoddi4 returns the quotient and what it stores through its last argument.\<close>

definition udivmoddi4 :: "u64 \<Rightarrow> u64 \<Rightarrow> (u64 \<times> u64) res" where
  "udivmoddi4 n d =
     (let d0 = low64 d; d1 = high64 d; n0 = low64 n; n1 = high64 n in
      if d1 = 0 then udivmod_word n1 n0 d0
      else if d1 > n1 then Inr (make64 0 0, make64 n1 n0)
      else let bm = count_leading_zeros d1 in
        if bm = 0 then Inr (udivmod_top n1 n0 d1 d0)
        else udivmod_norm bm n1 n0 d1 d0)"

definition divdi3 :: "u64 \<Rightarrow> u64 \<Rightarrow> u64 res" where
  "divdi3 u v =
     (let c0 = 0;
          (c1, uu) = (if sint (high64 u) < 0 then (NOT c0, - u) else (c0, u));
          (c2, vv) = (if sint (high64 v) < 0 then (NOT c1, - v) else (c1, v)) in
      bindR (udivmoddi4 uu vv) (\<lambda>(w, _). Inr (if c2 \<noteq> (0 :: u32) then - w else w)))"

definition moddi3 :: "u64 \<Rightarrow> u64 \<Rightarrow> u64 res" where
  "moddi3 u v =
     (let c0 = 0;
          (c1, uu) = (if sint (high64 u) < 0 then (NOT c0, - u) else (c0, u));
          vv = (if sint (high64 v) < 0 then - v else v) in
      bindR (udivmoddi4 uu vv) (\<lambda>(_, w). Inr (if c1 \<noteq> (0 :: u32) then - w else w)))"

definition udivdi3 :: "u64 \<Rightarrow> u64 \<Rightarrow> u64 res" where
  "udivdi3 u v = bindR (udivmoddi4 u v) (\<lambda>(q, _). Inr q)"

definition umoddi3 :: "u64 \<Rightarrow> u64 \<Rightarrow> u64 res" where
  "umoddi3 u v = bindR (udivmoddi4 u v) (\<lambda>(_, w). Inr w)"

section \<open>Shifts\<close>

text \<open>C shifts of a 32-bit operand: the amount must lie between 0 and 31.\<close>

definition shl32 :: "u32 \<Rightarrow> int \<Rightarrow> u32 res" where
  "shl32 x k = (if 0 \<le> k \<and> k < 32 then Inr (push_bit (nat k) x) else Inl MemFault)"

definition shr32 :: "u32 \<Rightarrow> int \<Rightarrow> u32 res" where
  "shr32 x k = (if 0 \<le> k \<and> k < 32 then Inr (drop_bit (nat k) x) else Inl MemFault)"

definition sar32 :: "u32 \<Rightarrow> int \<Rightarrow> u32 res" where
  "sar32 x k = (if 0 \<le> k \<and> k < 32 then Inr (signed_drop_bit (nat k) x) else Inl MemFault)"

definition ashrdi3 :: "u64 \<Rightarrow> u32 \<Rightarrow> u64 res" where
  "ashrdi3 a b =
     (let h = high64 a; l = low64 a; b = sint b in
      if b \<ge> 32 then
        bindR (sar32 h (b - 32)) (\<lambda>l1. bindR (sar32 h 31) (\<lambda>h1. Inr (make64 h1 l1)))
      else if b \<noteq> 0 then
        bindR (shr32 l b) (\<lambda>x. bindR (shl32 h (32 - b)) (\<lambda>y.
          bindR (sar32 h b) (\<lambda>h1. Inr (make64 h1 (x OR y)))))
      else Inr a)"

definition lshrdi3 :: "u64 \<Rightarrow> u32 \<Rightarrow> u64 res" where
  "lshrdi3 a b =
     (let h = high64 a; l = low64 a; b = sint b in
      if b \<ge> 32 then bindR (shr32 h (b - 32)) (\<lambda>l1. Inr (make64 0 l1))
      else if b \<noteq> 0 then
        bindR (shr32 l b) (\<lambda>x. bindR (shl32 h (32 - b)) (\<lambda>y.
          bindR (shr32 h b) (\<lambda>h1. Inr (make64 h1 (x OR y)))))
      else Inr a)"

definition ashldi3 :: "u64 \<Rightarrow> u32 \<Rightarrow> u64 res" where
  "ashldi3 a b =
     (let h = high64 a; l = low64 a; b = sint b in
      if b \<ge> 32 then bindR (shl32 l (b - 32)) (\<lambda>h1. Inr (make64 h1 0))
      else if b \<noteq> 0 then
        bindR (shl32 h b) (\<lambda>x. bindR (shr32 l (32 - b)) (\<lambda>y.
          bindR (shl32 l b) (\<lambda>l1. Inr (make64 (x OR y) l1))))
      else Inr a)"

section \<open>Conversions from floating point\<close>

text \<open>Single precision numbers are given by their 32 bits, double precision ones by their 64.\<close>

abbreviation (input) SIGNBIT :: u32 where "SIGNBIT \<equiv> 0x80000000"
abbreviation (input) HIDDEN :: u32 where "HIDDEN \<equiv> push_bit 23 1"
abbreviation (input) HIDDEND_LL :: u64 where "HIDDEND_LL \<equiv> push_bit 52 1"

definition SIGN :: "u32 \<Rightarrow> u32" where "SIGN fp = fp AND SIGNBIT"
definition EXP :: "u32 \<Rightarrow> u32" where "EXP fp = drop_bit 23 fp AND 0xFF"
definition MANT :: "u32 \<Rightarrow> u32" where "MANT fp = (fp AND 0x7FFFFF) OR HIDDEN"
definition EXPD :: "u64 \<Rightarrow> u32" where "EXPD fp = signed_drop_bit 20 (high64 fp) AND 0x7FF"
definition SIGND :: "u64 \<Rightarrow> u32" where "SIGND fp = high64 fp AND SIGNBIT"
definition MANTD_LL :: "u64 \<Rightarrow> u64" where
  "MANTD_LL fp = (fp AND (HIDDEND_LL - 1)) OR HIDDEND_LL"

definition fixunssfdi :: "u32 \<Rightarrow> u64" where
  "fixunssfdi fl1 =
     (if fl1 = 0 then 0
      else
       let e = sint (EXP fl1) - 126 - 24; l = ucast (MANT fl1) :: u64 in
       if e \<ge> 41 then push_bit 63 1
       else if e < - 23 then 0
       else let l1 = (if e \<ge> 0 then push_bit (nat e) l else drop_bit (nat (- e)) l)
         in if SIGN fl1 \<noteq> 0 then - l1 else l1)"

definition fixunsdfdi :: "u64 \<Rightarrow> u64" where
  "fixunsdfdi dl1 =
     (if dl1 = 0 then 0
      else
       let e = sint (EXPD dl1) - 1022 - 53; l = MANTD_LL dl1 in
       if e \<ge> 12 then push_bit 63 1
       else if e < - 52 then 0
       else let l1 = (if e \<ge> 0 then push_bit (nat e) l else drop_bit (nat (- e)) l)
         in if SIGND dl1 \<noteq> 0 then - l1 else l1)"

text \<open>
  The comparison with 0 and the negation on floating point operands: a number is at least 0
  unless it is a NaN, or negative and not zero; negation flips the sign bit.
\<close>

definition sf_ge_0 :: "u32 \<Rightarrow> bool" where
  "sf_ge_0 x \<longleftrightarrow> \<not> (EXP x = 0xFF \<and> x AND 0x7FFFFF \<noteq> 0) \<and> (SIGN x = 0 \<or> x = SIGNBIT)"

definition df_ge_0 :: "u64 \<Rightarrow> bool" where
  "df_ge_0 x \<longleftrightarrow> \<not> (EXPD x = 0x7FF \<and> x AND (HIDDEND_LL - 1) \<noteq> 0) \<and>
     (SIGND x = 0 \<or> x = push_bit 63 1)"

definition fixsfdi :: "u32 \<Rightarrow> u64" where
  "fixsfdi a1 =
     (let s = sf_ge_0 a1; ret = fixunssfdi (if s then a1 else a1 XOR SIGNBIT)
      in if s then ret else - ret)"

definition fixdfdi :: "u64 \<Rightarrow> u64" where
  "fixdfdi a1 =
     (let s = df_ge_0 a1; ret = fixunsdfdi (if s then a1 else a1 XOR push_bit 63 1)
      in if s then ret else - ret)"

end
