(* ===== verification/Lib_Int64_Props.thy ===== *)
theory Lib_Int64_Props
  imports Lib_Int64
begin

text \<open>
  The 64-bit routines of the runtime library compute what the 64-bit operations mean: division
  out of 32-bit steps is division (its normalised case follows Knuth's algorithm D: the
  estimated digit is at most one too large), signed division truncates, shifts are shifts, and
  the conversions of floating point numbers truncate.
\<close>

section \<open>Halves\<close>

abbreviation (input) B32 :: nat where "B32 \<equiv> 4294967296"

lemma unat_u32: "unat (x :: u32) < 4294967296"
  using unsigned_less [of x, where 'a = nat] by simp

lemma unat_u64: "unat (x :: u64) < 18446744073709551616"
  using unsigned_less [of x, where 'a = nat] by simp

lemma unat_up: "unat (ucast (x :: u32) :: u64) = unat x"
  using unat_u32 [of x] by (simp add: unsigned_ucast_eq take_bit_nat_eq_self)

lemma bit_make64: "bit (make64 h l) n \<longleftrightarrow> (if n < 32 then bit l n else n < 64 \<and> bit h (n - 32))"
  by (auto simp: make64_def bit_simps dest: bit_imp_le_length)

lemma bit_low64: "bit (low64 x) n \<longleftrightarrow> n < 32 \<and> bit x n"
  by (auto simp: low64_def bit_simps)

lemma bit_high64: "bit (high64 x) n \<longleftrightarrow> n < 32 \<and> bit x (n + 32)"
  by (auto simp: high64_def bit_simps add.commute)

lemmas bit_halves = bit_make64 bit_low64 bit_high64

lemma make64_split [simp]: "make64 (high64 x) (low64 x) = x"
  by (rule bit_word_eqI) (auto simp: bit_halves)

lemma split_make64 [simp]: "high64 (make64 h l) = h" "low64 (make64 h l) = l"
  by (rule bit_word_eqI, simp add: bit_halves)+

lemma unat_make64: "unat (make64 h l) = unat h * 4294967296 + unat l"
proof -
  have "push_bit 32 (ucast h) AND (ucast l :: u64) = 0"
    by (rule bit_word_eqI) (auto simp: bit_simps dest: bit_imp_le_length)
  then have "make64 h l = ucast h * 4294967296 + (ucast l :: u64)"
    by (simp add: make64_def disjunctive_add_eq_or [symmetric] push_bit_eq_mult)
  also have "unat \<dots> = (unat h * 4294967296 + unat l) mod 18446744073709551616"
    by (simp add: unat_word_ariths unat_up mod_simps)
  also have "\<dots> = unat h * 4294967296 + unat l"
    using unat_u32 [of h] unat_u32 [of l] by simp
  finally show ?thesis .
qed

lemma unat_low64: "unat (low64 x) = unat x mod 4294967296"
  using unat_make64 [of "high64 x" "low64 x"] unat_u32 [of "low64 x"] by simp

lemma unat_high64: "unat (high64 x) = unat x div 4294967296"
  using unat_make64 [of "high64 x" "low64 x"] unat_u32 [of "low64 x"] by simp

lemma make64_eq_of_nat: "k < 18446744073709551616 \<Longrightarrow>
    make64 h l = of_nat k \<longleftrightarrow> unat h * 4294967296 + unat l = k"
  by (auto simp: word_unat_eq_iff unat_make64 unat_of_nat)

section \<open>The assembler macros\<close>

lemma make64_int: "make64 h l = word_of_int (uint h * 4294967296 + uint l)"
proof -
  have "make64 h l = word_of_nat (unat h * 4294967296 + unat l)"
    by (simp add: unat_make64 [symmetric] del: of_nat_add of_nat_mult)
  then show ?thesis by simp
qed

lemma high_of_int:
  "(word_of_int (uint (word_of_int k :: u32) * 4294967296 + m) :: u64) = word_of_int (k * 4294967296 + m)"
proof -
  have "(word_of_int (push_bit 32 (uint (word_of_int k :: u32))) :: u64) = word_of_int (push_bit 32 k)"
    by (rule bit_word_eqI) (auto simp: bit_simps)
  then show ?thesis by (simp add: push_bit_eq_mult)
qed

lemma sub_ddmmss_value:
  assumes "sub_ddmmss ah al bh bl = (h, l)"
  shows "make64 h l = make64 ah al - make64 bh bl"
proof -
  let ?c = "if al < bl then 1 else 0 :: int"
  have h: "h = word_of_int (uint ah - uint bh - ?c)" and l: "l = al - bl"
    using assms by (auto simp: sub_ddmmss_def)
  have "uint l = uint al - uint bl + ?c * 4294967296"
    unfolding l by (simp add: uint_sub_if' word_less_def)
  then have "make64 h l = word_of_int ((uint ah - uint bh - ?c) * 4294967296 + (uint al - uint bl + ?c * 4294967296))"
    unfolding make64_int h by (simp only: high_of_int)
  also have "(uint ah - uint bh - ?c) * 4294967296 + (uint al - uint bl + ?c * 4294967296) =
      (uint ah * 4294967296 + uint al) - (uint bh * 4294967296 + uint bl)"
    by (simp add: algebra_simps)
  finally show ?thesis by (simp only: make64_int of_int_diff)
qed

lemma umul_ppmm_value: "umul_ppmm u v = (h, l) \<Longrightarrow> unat (make64 h l) = unat u * unat v"
proof -
  assume "umul_ppmm u v = (h, l)"
  then have "make64 h l = ucast u * ucast v" by (auto simp: umul_ppmm_def Let_def)
  also have "unat \<dots> = unat u * unat v mod 18446744073709551616"
    by (simp add: unat_word_ariths unat_up)
  also have "\<dots> = unat u * unat v"
  proof -
    have "unat u * unat v < 4294967296 * 4294967296"
      using unat_u32 [of u] unat_u32 [of v] by (intro mult_strict_mono) simp_all
    then show ?thesis by simp
  qed
  finally show ?thesis .
qed

lemma udiv_qrnnd_ok:
  assumes "unat n1 < unat dv"
  shows "\<exists>q r. udiv_qrnnd n1 n0 dv = Inr (q, r) \<and>
    unat n1 * 4294967296 + unat n0 = unat q * unat dv + unat r \<and> unat r < unat dv"
proof -
  let ?n = "unat n1 * 4294967296 + unat n0"
  have dv: "dv \<noteq> 0" using assms by auto
  have "?n < unat dv * 4294967296"
    using assms unat_u32 [of n0] by (simp add: Suc_le_eq [symmetric])
  then have q: "?n div unat dv < 4294967296" by (simp add: div_less_iff_less_mult mult.commute assms)
  have "unat (make64 n1 n0 div ucast dv) = ?n div unat dv"
    "unat (make64 n1 n0 mod ucast dv) = ?n mod unat dv"
    by (simp_all add: unat_div_distrib unat_mod_distrib unat_up unat_make64)
  moreover have "?n mod unat dv < unat dv" using assms by simp
  moreover have "unat (ucast (x :: u64) :: u32) = unat x" if "unat x < 4294967296" for x
    using that by (simp add: unsigned_ucast_eq take_bit_nat_eq_self)
  moreover have "\<not> 2 ^ 32 \<le> make64 n1 n0 div ucast dv"
    using q calculation(1) by (simp add: word_le_nat_alt)
  ultimately show ?thesis
    using dv q unat_u32 [of dv] by (simp add: udiv_qrnnd_def Let_def)
qed


section \<open>Division by one word\<close>

definition divides :: "u64 \<Rightarrow> u64 \<Rightarrow> u64 \<times> u64 \<Rightarrow> bool" where
  "divides n d qr \<longleftrightarrow> unat n = unat (fst qr) * unat d + unat (snd qr) \<and> unat (snd qr) < unat d"

lemma divides_exact: "divides n d (q, r) \<Longrightarrow> q = n div d \<and> r = n mod d"
proof -
  assume "divides n d (q, r)"
  then have "unat n div unat d = unat q" "unat n mod unat d = unat r"
    by (auto simp: divides_def)
  then show "q = n div d \<and> r = n mod d"
    by (simp add: word_unat_eq_iff unat_div_distrib unat_mod_distrib)
qed

lemma udivmod_word_ok:
  assumes "d0 \<noteq> 0"
  shows "\<exists>qr. udivmod_word n1 n0 d0 = Inr qr \<and> divides (make64 n1 n0) (make64 0 d0) qr"
proof (cases "d0 > n1")
  case True
  then have "unat n1 < unat d0" by (simp add: word_less_nat_alt)
  from udiv_qrnnd_ok [OF this, of n0] True show ?thesis
    by (auto simp: udivmod_word_def divides_def unat_make64)
next
  case False
  have "unat (0 :: u32) < unat d0" using assms by (simp add: unat_gt_0)
  from udiv_qrnnd_ok [OF this, of n1] obtain q1 r1 where 1:
    "udiv_qrnnd 0 n1 d0 = Inr (q1, r1)" "unat n1 = unat q1 * unat d0 + unat r1" "unat r1 < unat d0"
    by auto
  from udiv_qrnnd_ok [OF 1(3), of n0] obtain q0 r0 where 2:
    "udiv_qrnnd r1 n0 d0 = Inr (q0, r0)"
    "unat r1 * 4294967296 + unat n0 = unat q0 * unat d0 + unat r0" "unat r0 < unat d0"
    by auto
  have "unat n1 * 4294967296 + unat n0 = unat q1 * unat d0 * 4294967296 + (unat r1 * 4294967296 + unat n0)"
    using 1(2) by (simp add: algebra_simps)
  also have "\<dots> = (unat q1 * 4294967296 + unat q0) * unat d0 + unat r0"
    using 2(2) by (simp add: algebra_simps)
  finally show ?thesis
    using False assms 1(1) 2 by (simp add: udivmod_word_def divides_def unat_make64)
qed

section \<open>Normalised division\<close>

lemma bsr_below: "bit x i \<Longrightarrow> i < k \<Longrightarrow>
    bsr_below k x < k \<and> bit x (bsr_below k x) \<and> (\<forall>j. bsr_below k x < j \<and> j < k \<longrightarrow> \<not> bit x j)"
  by (induction k) (auto simp: less_Suc_eq)

lemma clz_range:
  assumes "d \<noteq> 0"
  shows "count_leading_zeros d \<le> 31" "2 ^ (31 - count_leading_zeros d) \<le> unat d"
    "unat d < 2 ^ (32 - count_leading_zeros d)"
proof -
  obtain i where i: "bit d i" using assms bit_word_eqI [of d 0] by auto
  then have "i < 32" by (auto dest: bit_imp_le_length)
  let ?k = "bsr_below 32 d"
  have k: "?k < 32" "bit d ?k" "\<And>j. ?k < j \<Longrightarrow> j < 32 \<Longrightarrow> \<not> bit d j"
    using bsr_below [OF i \<open>i < 32\<close>] by blast+
  show "count_leading_zeros d \<le> 31" by (simp add: count_leading_zeros_def)
  have e: "31 - count_leading_zeros d = ?k" "32 - count_leading_zeros d = Suc ?k"
    using k(1) by (simp_all add: count_leading_zeros_def)
  have "fits_in (Suc ?k) d"
  proof (unfold fits_in_iff, intro allI impI)
    fix m assume m: "bit d m"
    then have "m < 32" by (auto dest: bit_imp_le_length)
    then show "m < Suc ?k" using k(3) [of m] m by (cases "?k < m") simp_all
  qed
  then show "unat d < 2 ^ (32 - count_leading_zeros d)" unfolding e by (rule fits_in_unat)
  have "\<not> fits_in ?k d" unfolding fits_in_iff using k(2) by blast
  then show "2 ^ (31 - count_leading_zeros d) \<le> unat d" unfolding e using fits_in_less by force
qed


text \<open>A 64-bit shift out of 32-bit ones.\<close>

lemma shift_left_halves:
  "0 < k \<Longrightarrow> k < 32 \<Longrightarrow>
   make64 (push_bit k h OR drop_bit (32 - k) l) (push_bit k l) = push_bit k (make64 h l)"
  by (rule bit_word_eqI) (auto simp: bit_make64 bit_simps add.commute dest: bit_imp_le_length)

lemma shift_right_halves:
  "0 < k \<Longrightarrow> k < 32 \<Longrightarrow>
   make64 (drop_bit k h) (push_bit (32 - k) h OR drop_bit k l) = drop_bit k (make64 h l)"
  by (rule bit_word_eqI) (auto simp: bit_make64 bit_simps add.commute dest: bit_imp_le_length)

lemma shift_right_signed_halves:
  "0 < k \<Longrightarrow> k < 32 \<Longrightarrow>
   make64 (signed_drop_bit k h) (push_bit (32 - k) h OR drop_bit k l) = signed_drop_bit k (make64 h l)"
  by (rule bit_word_eqI) (auto simp: bit_make64 bit_simps add.commute dest: bit_imp_le_length)

lemma make64_less: "make64 a b < make64 c d \<longleftrightarrow> a < c \<or> (a = c \<and> b < d)"
  unfolding word_less_nat_alt unat_make64 word_unat_eq_iff
  using unat_u32 [of a] unat_u32 [of b] unat_u32 [of c] unat_u32 [of d] by linarith

lemma unat_push_bit: "unat x * 2 ^ k < 2 ^ LENGTH('a) \<Longrightarrow> unat (push_bit k x) = unat x * 2 ^ k"
  for x :: "'a::len word"
  by (simp only: unsigned_push_bit_eq) (simp add: take_bit_nat_eq_self push_bit_eq_mult)

lemma unat_drop_bit: "unat (drop_bit k x) = unat x div 2 ^ k" for x :: "'a::len word"
  by (simp only: unsigned_drop_bit_eq) (simp add: drop_bit_eq_div take_bit_nat_eq_self)

text \<open>The estimate of the quotient digit is at most one too large.\<close>

lemma estimate_bound:
  fixes q d1 d0 r :: nat
  assumes "q * d1 + r < 2 ^ s * 4294967296" and "2147483648 \<le> d1" and "d0 + 2 ^ s \<le> 4294967296"
  shows "q * d0 \<le> d1 * 4294967296"
proof -
  have le: "d0 * 2 ^ s \<le> 4611686018427387904"
  proof -
    have "int (d0 + 2 ^ s) \<le> int 4294967296" using assms(3) by (simp only: of_nat_le_iff)
    then have "int d0 * 2 ^ s \<le> (4294967296 - 2 ^ s) * 2 ^ s"
      by (intro mult_right_mono) simp_all
    also have "\<dots> = 4611686018427387904 - (2147483648 - 2 ^ s) ^ 2"
      by (simp add: power2_eq_square algebra_simps)
    also have "\<dots> \<le> 4611686018427387904" using zero_le_power2 [of "2147483648 - 2 ^ s :: int"] by linarith
    finally have "int (d0 * 2 ^ s) \<le> int 4611686018427387904" by simp
    then show ?thesis by (simp only: of_nat_le_iff)
  qed
  have "q * d0 * d1 \<le> 2 ^ s * 4294967296 * d0"
  proof -
    have "q * d1 * d0 \<le> 2 ^ s * 4294967296 * d0" using assms(1) by (intro mult_le_mono1) linarith
    then show ?thesis by (simp add: ac_simps)
  qed
  also have "\<dots> = 4294967296 * (d0 * 2 ^ s)" by simp
  also have "\<dots> \<le> 4294967296 * (2147483648 * 2147483648)" using le by simp
  also have "\<dots> \<le> 4294967296 * (d1 * d1)" using assms(2) by (intro mult_le_mono2 mult_le_mono)
  finally have "q * d0 * d1 \<le> d1 * 4294967296 * d1" by (simp add: ac_simps)
  then show ?thesis using assms(2) by simp
qed


text \<open>The words of the normalised divisor and dividend.\<close>

lemma normalised_divisor:
  fixes d1 d0 :: u32
  assumes "0 < s" and "s < 32" and "2 ^ (31 - s) \<le> unat d1" and "unat d1 < 2 ^ (32 - s)"
  defines "d1' \<equiv> push_bit s d1 OR drop_bit (32 - s) d0" and "d0' \<equiv> push_bit s d0"
  shows "unat d1' * 4294967296 + unat d0' = unat (make64 d1 d0) * 2 ^ s"
    and "2147483648 \<le> unat d1'" and "unat d0' + 2 ^ s \<le> 4294967296"
proof -
  have e: "make64 d1' d0' = push_bit s (make64 d1 d0)"
    unfolding d1'_def d0'_def by (rule shift_left_halves [OF assms(1,2)])
  have p: "(2 :: nat) ^ (32 - s) * 2 ^ s = 4294967296" "(2 :: nat) ^ (31 - s) * 2 ^ s = 2147483648"
    using assms(1,2) by (simp_all add: power_add [symmetric])
  have lt: "unat (make64 d1 d0) * 2 ^ s < 18446744073709551616"
  proof -
    have "unat (make64 d1 d0) < Suc (unat d1) * 4294967296"
      using unat_u32 [of d0] by (simp add: unat_make64)
    also have "\<dots> \<le> 2 ^ (32 - s) * 4294967296" using assms(4) by (intro mult_le_mono1) simp
    finally have "unat (make64 d1 d0) * 2 ^ s < 2 ^ (32 - s) * 4294967296 * 2 ^ s" by simp
    also have "\<dots> = 2 ^ (32 - s) * 2 ^ s * 4294967296" by simp
    finally show ?thesis unfolding p by simp
  qed
  then show e2: "unat d1' * 4294967296 + unat d0' = unat (make64 d1 d0) * 2 ^ s"
    unfolding unat_make64 [symmetric] e by (intro unat_push_bit) simp
  have "2147483648 * 4294967296 \<le> unat (make64 d1 d0) * 2 ^ s"
  proof -
    have "2147483648 * 4294967296 = (2 :: nat) ^ (31 - s) * 4294967296 * 2 ^ s" using p by (simp add: mult.commute)
    also have "\<dots> \<le> unat (make64 d1 d0) * 2 ^ s"
      using assms(3) by (intro mult_le_mono1) (simp add: unat_make64)
    finally show ?thesis .
  qed
  then show "2147483648 \<le> unat d1'" using e2 unat_u32 [of d0'] by simp
  have "(2 :: nat) ^ s dvd 2 ^ 32" using assms(2) by (intro le_imp_power_dvd) simp
  then have "2 ^ s dvd unat d0'"
    unfolding d0'_def by (simp only: unsigned_push_bit_eq)
      (simp add: push_bit_eq_mult take_bit_eq_mod dvd_mod)
  then obtain k where k: "unat d0' = 2 ^ s * k" by (elim dvdE)
  then have "2 ^ s * k < 2 ^ s * 2 ^ (32 - s)" using unat_u32 [of d0'] p by (simp add: mult.commute)
  then have "Suc k \<le> 2 ^ (32 - s)" by simp
  then have "2 ^ s * Suc k \<le> 2 ^ s * 2 ^ (32 - s)" by (intro mult_le_mono2)
  then show "unat d0' + 2 ^ s \<le> 4294967296" using k p by (simp add: mult.commute)
qed

lemma normalised_dividend:
  fixes n1 n0 :: u32
  assumes "0 < s" and "s < 32"
  defines "n2 \<equiv> drop_bit (32 - s) n1" and "n1' \<equiv> push_bit s n1 OR drop_bit (32 - s) n0"
    and "n0' \<equiv> push_bit s n0"
  shows "(unat n2 * 4294967296 + unat n1') * 4294967296 + unat n0' = unat (make64 n1 n0) * 2 ^ s"
    and "unat n2 < 2 ^ s"
proof -
  have e: "make64 n1' n0' = push_bit s (make64 n1 n0)"
    unfolding n1'_def n0'_def by (rule shift_left_halves [OF assms(1,2)])
  then have "unat n1' * 4294967296 + unat n0' = unat (push_bit s (make64 n1 n0))"
    by (simp only: unat_make64 [symmetric])
  also have "\<dots> = unat (make64 n1 n0) * 2 ^ s mod 18446744073709551616"
    by (simp only: unsigned_push_bit_eq) (simp add: push_bit_eq_mult take_bit_eq_mod)
  finally have low: "unat n1' * 4294967296 + unat n0' = unat (make64 n1 n0) * 2 ^ s mod 18446744073709551616" .
  have p: "(18446744073709551616 :: nat) = 4294967296 * 2 ^ (32 - s) * 2 ^ s"
    using assms(1,2) by (simp add: power_add [symmetric] mult.assoc)
  have "unat n2 = unat n1 div 2 ^ (32 - s)" unfolding n2_def by (rule unat_drop_bit)
  also have "\<dots> = unat (make64 n1 n0) div (4294967296 * 2 ^ (32 - s))"
    by (simp add: unat_make64 div_mult2_eq unat_u32 div_add1_eq)
  also have "\<dots> = unat (make64 n1 n0) * 2 ^ s div 18446744073709551616"
    unfolding p by simp
  finally have "unat n2 * 18446744073709551616 + (unat n1' * 4294967296 + unat n0') = unat (make64 n1 n0) * 2 ^ s"
    unfolding low by simp
  then show "(unat n2 * 4294967296 + unat n1') * 4294967296 + unat n0' = unat (make64 n1 n0) * 2 ^ s"
    by (simp add: algebra_simps)
  have "unat n1 < 2 ^ s * 2 ^ (32 - s)"
    using unat_u32 [of n1] assms(1,2) by (simp add: power_add [symmetric])
  then show "unat n2 < 2 ^ s"
    unfolding n2_def unat_drop_bit by (simp add: less_mult_imp_div_less)
qed


lemma udivmod_norm_ok:
  assumes "0 < s" and "s < 32" and "2 ^ (31 - s) \<le> unat d1" and "unat d1 < 2 ^ (32 - s)"
  shows "\<exists>qr. udivmod_norm s n1 n0 d1 d0 = Inr qr \<and> divides (make64 n1 n0) (make64 d1 d0) qr"
proof -
  define d1' d0' where "d1' = push_bit s d1 OR drop_bit (32 - s) d0" and "d0' = push_bit s d0"
  define n2 n1' n0' where "n2 = drop_bit (32 - s) n1" and "n1' = push_bit s n1 OR drop_bit (32 - s) n0"
    and "n0' = push_bit s n0"
  let ?N = "unat (make64 n1 n0)" and ?D = "unat (make64 d1 d0)"
  note D1 = normalised_divisor(1) [OF assms, of d0, folded d1'_def d0'_def]
    and D2 = normalised_divisor(2) [OF assms, of d0, folded d1'_def]
    and D3 = normalised_divisor(3) [OF assms, of d0, folded d0'_def]
  note N1 = normalised_dividend(1) [OF assms(1,2), of n1 n0, folded n2_def n1'_def n0'_def]
    and N2 = normalised_dividend(2) [OF assms(1,2), of n1, folded n2_def]
  have "(2 :: nat) ^ s \<le> 2 ^ 31" using assms(2) by (intro power_increasing) simp_all
  with N2 D2 have "unat n2 < unat d1'" by simp
  from udiv_qrnnd_ok [OF this, of n1'] obtain q r where qr: "udiv_qrnnd n2 n1' d1' = Inr (q, r)"
    "unat n2 * 4294967296 + unat n1' = unat q * unat d1' + unat r" "unat r < unat d1'"
    by blast
  obtain m1 m0 where m: "umul_ppmm q d0' = (m1, m0)" by (cases "umul_ppmm q d0'")
  define a where "a = (if m1 > r \<or> (m1 = r \<and> m0 > n0') then
      (let (h, l) = sub_ddmmss m1 m0 d1' d0' in (q - 1, h, l)) else (q, m1, m0))"
  obtain q' h l where a': "a = (q', h, l)" by (cases a)
  obtain r1 r0 where rr: "sub_ddmmss r n0' h l = (r1, r0)" by (cases "sub_ddmmss r n0' h l")
  have val: "udivmod_norm s n1 n0 d1 d0 =
      Inr (make64 0 q', make64 (drop_bit s r1) (push_bit (32 - s) r1 OR drop_bit s r0))"
    using qr(1) m a' rr
    by (simp add: udivmod_norm_def Let_def d1'_def [symmetric] d0'_def [symmetric] n2_def [symmetric]
        n1'_def [symmetric] n0'_def [symmetric] a_def cong: if_cong)
  have "unat n2 * 4294967296 + unat n1' < Suc (unat n2) * 4294967296" using unat_u32 [of n1'] by simp
  also have "\<dots> \<le> 2 ^ s * 4294967296" using N2 by (intro mult_le_mono1) simp
  finally have "unat q * unat d1' + unat r < 2 ^ s * 4294967296" unfolding qr(2) .
  then have bound: "unat q * unat d0' \<le> unat d1' * 4294967296" using D2 D3 by (rule estimate_bound)
  let ?M = "unat q * unat d0'" and ?R = "unat r * 4294967296 + unat n0'"
    and ?E = "unat d1' * 4294967296 + unat d0'"
  have M: "unat (make64 m1 m0) = ?M" by (rule umul_ppmm_value [OF m])
  have R: "unat (make64 r n0') = ?R" and E: "unat (make64 d1' d0') = ?E" by (simp_all add: unat_make64)
  have total: "unat (make64 n1 n0) * 2 ^ s + ?M = unat q * ?E + ?R"
    using N1 qr(2) by (simp add: algebra_simps)
  have cmp: "m1 > r \<or> (m1 = r \<and> m0 > n0') \<longleftrightarrow> ?R < ?M"
    using make64_less [of r n0' m1 m0] unfolding word_less_nat_alt [of "make64 r n0'"] M R by auto
  have RE: "?R < ?E" using qr(3) unat_u32 [of n0'] by linarith
  have fin: "unat (make64 n1 n0) * 2 ^ s = unat q' * ?E + unat (make64 r1 r0) \<and> unat (make64 r1 r0) < ?E"
  proof (cases "m1 > r \<or> (m1 = r \<and> m0 > n0')")
    case True
    then have gt: "?R < ?M" using cmp by blast
    have q': "q' = q - 1" and hl: "make64 h l = make64 m1 m0 - make64 d1' d0'"
      using True a' by (auto simp: a_def sub_ddmmss_value split: prod.splits)
    have "make64 r1 r0 = make64 r n0' + make64 d1' d0' - make64 m1 m0"
      unfolding sub_ddmmss_value [OF rr] hl by simp
    also have "make64 r n0' + make64 d1' d0' - make64 m1 m0 = of_nat (?R + ?E - ?M)"
    proof -
      have "of_nat (?R + ?E - ?M) = (of_nat ?R :: u64) + of_nat ?E - of_nat ?M"
        using bound by (simp only: of_nat_diff of_nat_add)
      then show ?thesis by (simp only: M [symmetric] R [symmetric] E [symmetric] of_nat_unat ucast_id)
    qed
    also have "unat (of_nat (?R + ?E - ?M) :: u64) = ?R + ?E - ?M"
    proof -
      have "?R + ?E - ?M < 18446744073709551616"
        using gt unat_u64 [of "make64 d1' d0'"] unfolding E by linarith
      then show ?thesis by (simp only: unat_of_nat) simp
    qed
    finally have rem: "unat (make64 r1 r0) = ?R + ?E - ?M" .
    have "0 < unat q" using gt by (cases "unat q") simp_all
    then have "unat q' = unat q - 1" unfolding q'
      by (subst unat_sub) (simp_all add: word_le_nat_alt)
    then have "unat q' * ?E + ?E = unat q * ?E" using \<open>0 < unat q\<close> by (cases "unat q") simp_all
    then show ?thesis using rem total gt bound by (intro conjI) linarith+
  next
    case False
    then have "?M \<le> ?R" using cmp by (metis not_less)
    have q': "q' = q" and hl: "make64 h l = make64 m1 m0"
      using False a' by (auto simp: a_def)
    have "unat (make64 r1 r0) = ?R - ?M"
      unfolding sub_ddmmss_value [OF rr] hl using M R \<open>?M \<le> ?R\<close>
      by (subst unat_sub) (simp_all add: word_le_nat_alt)
    then show ?thesis unfolding q' using total RE \<open>?M \<le> ?R\<close> by (intro conjI) linarith+
  qed
  have D: "?E = unat (make64 d1 d0) * 2 ^ s" by (rule D1)
  have rem: "unat (make64 r1 r0) = (unat (make64 n1 n0) - unat q' * unat (make64 d1 d0)) * 2 ^ s"
    using fin unfolding D by (simp add: diff_mult_distrib mult.assoc)
  have "unat (drop_bit s (make64 r1 r0)) = unat (make64 n1 n0) - unat q' * unat (make64 d1 d0)"
    unfolding unat_drop_bit rem by simp
  moreover have "unat q' * unat (make64 d1 d0) \<le> unat (make64 n1 n0)"
    using fin unfolding D by (metis le_add1 mult.assoc mult_le_cancel2 zero_less_power zero_less_numeral)
  moreover have "unat (make64 n1 n0) - unat q' * unat (make64 d1 d0) < unat (make64 d1 d0)"
    using fin unfolding rem D by simp
  ultimately have "divides (make64 n1 n0) (make64 d1 d0) (make64 0 q', drop_bit s (make64 r1 r0))"
    by (simp add: divides_def unat_make64 [of 0 q'])
  then show ?thesis using val by (simp add: shift_right_halves [OF assms(1,2)])
qed


section \<open>Division\<close>

lemma udivmoddi4_ok:
  assumes "d \<noteq> 0"
  shows "\<exists>qr. udivmoddi4 n d = Inr qr \<and> divides n d qr"
proof -
  let ?d1 = "high64 d" and ?d0 = "low64 d" and ?n1 = "high64 n" and ?n0 = "low64 n"
  have split: "make64 ?n1 ?n0 = n" "make64 ?d1 ?d0 = d" by simp_all
  consider "?d1 = 0" | "?d1 \<noteq> 0" "?d1 > ?n1"
    | "?d1 \<noteq> 0" "?d1 \<le> ?n1" "count_leading_zeros ?d1 = 0"
    | "?d1 \<noteq> 0" "?d1 \<le> ?n1" "count_leading_zeros ?d1 \<noteq> 0"
    by fastforce
  then show ?thesis
  proof cases
    case 1
    then have "?d0 \<noteq> 0" using assms split(2) by (auto simp: make64_def)
    from udivmod_word_ok [OF this, of ?n1 ?n0] 1 split show ?thesis by (simp add: udivmoddi4_def Let_def)
  next
    case 2
    then have "n < d" using make64_less [of ?n1 ?n0 ?d1 ?d0] by simp
    with 2 show ?thesis
      by (simp add: udivmoddi4_def Let_def divides_def unat_make64 [of 0] word_less_nat_alt)
  next
    case 3
    have "2 ^ 31 \<le> unat ?d1" using clz_range(2) [OF 3(1)] 3(3) by simp
    then have big: "9223372036854775808 \<le> unat d" using unat_make64 [of ?d1 ?d0] by simp
    have cmp: "?n1 > ?d1 \<or> ?n0 \<ge> ?d0 \<longleftrightarrow> d \<le> n"
      using make64_less [of ?n1 ?n0 ?d1 ?d0] 3(2) by (auto simp: not_less)
    have "divides n d (udivmod_top ?n1 ?n0 ?d1 ?d0)"
    proof (cases "d \<le> n")
      case True
      obtain h l where s: "sub_ddmmss ?n1 ?n0 ?d1 ?d0 = (h, l)" by fastforce
      have "unat (make64 h l) = unat n - unat d"
        using True sub_ddmmss_value [OF s] by (simp add: unat_sub)
      then show ?thesis
        using True cmp s big unat_u64 [of n]
        by (simp add: udivmod_top_def divides_def unat_make64 [of 0] word_le_nat_alt)
    next
      case False
      then show ?thesis
        using cmp by (simp add: udivmod_top_def divides_def unat_make64 [of 0] word_le_nat_alt)
    qed
    with 3 show ?thesis
      by (cases "udivmod_top ?n1 ?n0 ?d1 ?d0") (simp add: udivmoddi4_def Let_def not_less [symmetric])
  next
    case 4
    from clz_range [OF 4(1)] udivmod_norm_ok [of "count_leading_zeros ?d1" ?d1 ?n1 ?n0 ?d0] 4 split
    show ?thesis by (auto simp: udivmoddi4_def Let_def not_less [symmetric])
  qed
qed

text \<open>
  C16: the 64-bit division made of 32-bit steps is the division of 64-bit numbers, for every
  dividend and every divisor but 0; division by 0 stops.
\<close>

theorem udivmoddi4_divides:
  "udivmoddi4 n d = (if d = 0 then Inl MemFault else Inr (n div d, n mod d))"
proof (cases "d = 0")
  case True
  have "high64 (0 :: u64) = 0" "low64 (0 :: u64) = 0" by (simp_all add: high64_def low64_def)
  with True show ?thesis by (simp add: udivmoddi4_def udivmod_word_def word_gt_0)
next
  case False
  from udivmoddi4_ok [OF this, of n] obtain q r where "udivmoddi4 n d = Inr (q, r)" "divides n d (q, r)"
    by auto
  with False divides_exact show ?thesis by auto
qed


section \<open>Signed division\<close>

lemma sign_of_high: "sint (high64 u) < 0 \<longleftrightarrow> sint u < 0"
proof -
  have "bit (high64 u) 31 \<longleftrightarrow> bit u 63" by (simp add: bit_high64)
  then show ?thesis using bit_last_iff [of "high64 u"] bit_last_iff [of u] by simp
qed

lemma uint_abs: "uint (if sint (u :: u64) < 0 then - u else u) = \<bar>sint u\<bar>"
proof -
  have r: "- 9223372036854775808 \<le> sint u" "sint u < 9223372036854775808"
    using sint_ge [of u] sint_lt [of u] by simp_all
  have "(if sint u < 0 then - u else u) = word_of_int \<bar>sint u\<bar>" by simp
  then have "uint (if sint u < 0 then - u else u) = \<bar>sint u\<bar> mod 18446744073709551616"
    by (simp only: uint_word_of_int) simp
  also have "\<dots> = \<bar>sint u\<bar>" using r by (intro mod_pos_pos_trivial) linarith+
  finally show ?thesis .
qed

text \<open>
  C38: Signed division rounds towards zero and the remainder takes the sign of the dividend, for
  every dividend and every divisor but 0 (the quotient of the least number by -1 wraps).
\<close>

theorem divdi3_moddi3:
  assumes "v \<noteq> 0"
  shows "divdi3 u v = Inr (word_of_int (sgn (sint u) * sgn (sint v) * (\<bar>sint u\<bar> div \<bar>sint v\<bar>))) \<and>
    moddi3 u v = Inr (word_of_int (sgn (sint u) * (\<bar>sint u\<bar> mod \<bar>sint v\<bar>)))"
proof -
  let ?u = "if sint u < 0 then - u else u" and ?v = "if sint v < 0 then - v else v"
  have v: "?v \<noteq> 0" using assms by simp
  from udivmoddi4_ok [OF v, of ?u] divides_exact
  have d: "udivmoddi4 ?u ?v = Inr (?u div ?v, ?u mod ?v)" by force
  have "?u div ?v = word_of_int (uint ?u div uint ?v)" "?u mod ?v = word_of_int (uint ?u mod uint ?v)"
    by (simp_all only: word_div_def word_mod_def)
  then have q: "?u div ?v = word_of_int (\<bar>sint u\<bar> div \<bar>sint v\<bar>)"
    and r: "?u mod ?v = word_of_int (\<bar>sint u\<bar> mod \<bar>sint v\<bar>)"
    by (simp_all only: uint_abs)
  have nz: "NOT 0 \<noteq> (0 :: u32)" by simp
  have v0: "sint v \<noteq> 0" using assms signed_eq_0_iff [of v] by blast
  have "divdi3 u v = Inr (if (sint u < 0) \<noteq> (sint v < 0) then - (?u div ?v) else ?u div ?v)"
    using d by (cases "sint u < 0"; cases "sint v < 0") (simp_all add: divdi3_def sign_of_high)
  moreover have "moddi3 u v = Inr (if sint u < 0 then - (?u mod ?v) else ?u mod ?v)"
    using d by (cases "sint u < 0"; cases "sint v < 0") (simp_all add: moddi3_def sign_of_high)
  ultimately show ?thesis
    unfolding q r using v0 by (auto simp: sgn_if)
qed

lemma divdi3_moddi3_witness:
  "divdi3 (- 7) 2 = Inr (word_of_int (sgn (sint (- 7 :: u64)) * sgn (sint (2 :: u64)) *
      (\<bar>sint (- 7 :: u64)\<bar> div \<bar>sint (2 :: u64)\<bar>))) \<and>
   moddi3 (- 7) 2 = Inr (word_of_int (sgn (sint (- 7 :: u64)) *
      (\<bar>sint (- 7 :: u64)\<bar> mod \<bar>sint (2 :: u64)\<bar>)))"
  by (rule divdi3_moddi3) simp

section \<open>Shifts\<close>

lemma shift_wide:
  assumes "32 \<le> k" "k < 64"
  shows "make64 (push_bit (k - 32) (low64 a)) 0 = push_bit k a"
    "make64 0 (drop_bit (k - 32) (high64 a)) = drop_bit k a"
    "make64 (signed_drop_bit 31 (high64 a)) (signed_drop_bit (k - 32) (high64 a)) = signed_drop_bit k a"
proof -
  have len: "bit a i \<Longrightarrow> i < 64" for i using bit_imp_le_length [of a i] by simp
  show "make64 (push_bit (k - 32) (low64 a)) 0 = push_bit k a"
    by (rule bit_word_eqI) (use assms in \<open>auto simp: bit_halves bit_simps\<close>)
  show "make64 0 (drop_bit (k - 32) (high64 a)) = drop_bit k a"
    by (rule bit_word_eqI) (use assms in \<open>auto simp: bit_halves bit_simps dest: len\<close>)
  show "make64 (signed_drop_bit 31 (high64 a)) (signed_drop_bit (k - 32) (high64 a)) = signed_drop_bit k a"
  proof (rule bit_word_eqI)
    fix n assume "n < LENGTH(64)"
    with assms show "bit (make64 (signed_drop_bit 31 (high64 a)) (signed_drop_bit (k - 32) (high64 a))) n =
        bit (signed_drop_bit k a) n"
      by (cases "n = 32") (auto simp: bit_halves bit_simps min_def)
  qed
qed


lemma sint_amount: "unat b < 64 \<Longrightarrow> sint (b :: u32) = uint b"
  "\<not> unat b < 64 \<Longrightarrow> sint b < 0 \<or> 64 \<le> sint b"
proof -
  show "unat b < 64 \<Longrightarrow> sint b = uint b" using sint_unat [of b] by simp
  have "unat b < 64" if "0 \<le> sint b" "sint b < 64"
    using sint_nonneg [OF that(1)] that(2) nat_uint_eq [of b] by linarith
  then show "\<not> unat b < 64 \<Longrightarrow> sint b < 0 \<or> 64 \<le> sint b" by linarith
qed

lemma nat_amount: "nat (32 - uint b) = 32 - unat b" "nat (uint b - 32) = unat b - 32" for b :: u32
proof -
  have "nat (32 - int m) = 32 - m" "nat (int m - 32) = m - 32" for m by simp_all
  from this [of "unat b"] show "nat (32 - uint b) = 32 - unat b" "nat (uint b - 32) = unat b - 32"
    by simp_all
qed

text \<open>
  The 64-bit shifts made of 32-bit ones are the shifts of 64-bit numbers for every amount
  from 0 to 63; any other amount reaches a shift C does not define.
\<close>

theorem shifts64:
  "ashldi3 a b = (if unat b < 64 then Inr (push_bit (unat b) a) else Inl MemFault) \<and>
   lshrdi3 a b = (if unat b < 64 then Inr (drop_bit (unat b) a) else Inl MemFault) \<and>
   ashrdi3 a b = (if unat b < 64 then Inr (signed_drop_bit (unat b) a) else Inl MemFault)"
proof (cases "unat b < 64")
  case False
  then show ?thesis using sint_amount(2) [OF False]
    by (auto simp: ashldi3_def lshrdi3_def ashrdi3_def shl32_def shr32_def sar32_def Let_def)
next
  case True
  note s = sint_amount(1) [OF True]
  consider "unat b = 0" | "0 < unat b" "unat b < 32" | "32 \<le> unat b" using True by linarith
  then show ?thesis
  proof cases
    case 1
    then have "b = 0" by (simp add: word_unat_eq_iff)
    then show ?thesis by (simp add: ashldi3_def lshrdi3_def ashrdi3_def)
  next
    case 2
    note h = shift_left_halves [OF 2, of "high64 a" "low64 a"] shift_right_halves [OF 2, of "high64 a" "low64 a"]
      shift_right_signed_halves [OF 2, of "high64 a" "low64 a"]
    have "0 < uint b" "uint b < 32" using 2 nat_uint_eq [of b] by linarith+
    with 2 h nat_amount [of b] show ?thesis
      by (simp add: s ashldi3_def lshrdi3_def ashrdi3_def shl32_def shr32_def sar32_def Let_def or.commute)
  next
    case 3
    have "32 \<le> uint b" "uint b < 64" using 3 True nat_uint_eq [of b] by linarith+
    with 3 True shift_wide [of "unat b" a] nat_amount [of b] show ?thesis
      by (simp add: s ashldi3_def lshrdi3_def ashrdi3_def shl32_def shr32_def sar32_def Let_def)
  qed
qed

section \<open>Conversions\<close>

text \<open>
  The magnitude of a finite number by its definition, in units of the smallest denormal number's
  half: \<open>2 ^ -150\<close> for single and \<open>2 ^ -1075\<close> for double precision.
\<close>

definition scaled :: "nat \<Rightarrow> nat \<Rightarrow> nat \<Rightarrow> nat" where
  "scaled p e frac = (if e = 0 then frac * 2 else (2 ^ p + frac) * 2 ^ e)"

definition sf_scaled :: "u32 \<Rightarrow> nat" where
  "sf_scaled x = scaled 23 (unat (EXP x)) (unat (take_bit 23 x))"

definition df_scaled :: "u64 \<Rightarrow> nat" where
  "df_scaled x = scaled 52 (unat (EXPD x)) (unat (take_bit 52 x))"

lemma scaled_div:
  assumes "frac < 2 ^ p" and "0 < p" and "p + 1 < bias" and "e < 2 ^ 31" and "bias < 2 ^ 31"
  shows "of_nat (scaled p e frac div 2 ^ bias) =
    (let k = int e - int bias; l = of_nat (2 ^ p + frac) in
     if k < - int p then 0 else if k \<ge> 0 then push_bit (nat k) l
     else of_nat ((2 ^ p + frac) div 2 ^ nat (- k)) :: u64)"
proof -
  let ?m = "2 ^ p + frac"
  have small: "frac * 2 < 2 ^ bias" "?m * 2 ^ e < 2 ^ bias" if "e + p < bias"
  proof -
    have "?m * 2 ^ e < 2 ^ Suc p * 2 ^ e" using assms(1) by simp
    also have "\<dots> = 2 ^ (Suc p + e)" by (simp only: power_add)
    also have "\<dots> \<le> 2 ^ bias" using that by (intro power_increasing) simp_all
    finally show "?m * 2 ^ e < 2 ^ bias" .
    have "frac * 2 < 2 ^ Suc p" using assms(1) by simp
    also have "(2 :: nat) ^ Suc p \<le> 2 ^ bias" using assms(3) by (intro power_increasing) simp_all
    finally show "frac * 2 < 2 ^ bias" .
  qed
  consider "e + p < bias" | "bias \<le> e" | "bias \<le> e + p" "e < bias" by linarith
  then show ?thesis
  proof cases
    case 1
    then have "scaled p e frac div 2 ^ bias = 0" using small by (simp add: scaled_def)
    with 1 show ?thesis by (simp add: Let_def)
  next
    case 2
    have "(2 :: nat) ^ e = 2 ^ (e - bias) * 2 ^ bias" using 2 by (simp add: power_add [symmetric])
    then have "scaled p e frac div 2 ^ bias = ?m * 2 ^ (e - bias)"
      using 2 assms(3) by (simp add: scaled_def)
    moreover have "nat (int e - int bias) = e - bias" by simp
    ultimately show ?thesis using 2 by (simp add: Let_def push_bit_eq_mult)
  next
    case 3
    have "(2 :: nat) ^ bias = 2 ^ (bias - e) * 2 ^ e" using 3 by (simp add: power_add [symmetric])
    then have "scaled p e frac div 2 ^ bias = ?m div 2 ^ (bias - e)"
      using 3 assms(3) by (simp add: scaled_def)
    moreover have "nat (int bias - int e) = bias - e" by simp
    ultimately show ?thesis using 3 by (simp add: Let_def)
  qed
qed


lemma unat_EXP: "unat (EXP x) = unat (take_bit 8 (drop_bit 23 x))" "unat (EXP x) < 256"
proof -
  have e: "EXP x = take_bit 8 (drop_bit 23 x)" by (simp add: EXP_def and_masks)
  then show "unat (EXP x) = unat (take_bit 8 (drop_bit 23 x))" by simp
  have "fits_in 8 (EXP x)" unfolding e by (rule fits_in_take_bit)
  then show "unat (EXP x) < 256" using fits_in_unat by fastforce
qed

lemma EXPD_eq: "EXPD x = ucast (take_bit 11 (drop_bit 52 x))" "unat (EXPD x) < 2048"
proof -
  have "(0x7FF :: u32) = mask 11" by (simp add: mask_eq_exp_minus_1)
  then have "EXPD x = take_bit 11 (signed_drop_bit 20 (high64 x))" by (simp only: EXPD_def and_mask_take_bit)
  also have "\<dots> = ucast (take_bit 11 (drop_bit 52 x))"
    by (rule bit_word_eqI) (auto simp: bit_halves bit_simps add.commute)
  finally show e: "EXPD x = ucast (take_bit 11 (drop_bit 52 x))" .
  have "fits_in 11 (EXPD x)" unfolding e fits_in_iff by (auto simp: bit_simps)
  then show "unat (EXPD x) < 2048" using fits_in_unat by fastforce
qed

lemma hidden_bit:
  fixes y :: "'a::len word"
  assumes "p < LENGTH('a)"
  shows "unat (take_bit p y OR push_bit p 1) = 2 ^ p + unat (take_bit p y)"
    and "unat (take_bit p y) < 2 ^ p"
proof -
  show lt: "unat (take_bit p y) < 2 ^ p" by (rule fits_in_unat [OF fits_in_take_bit])
  have "take_bit p y AND push_bit p 1 = 0" by (rule bit_word_eqI) (auto simp: bit_simps)
  then have "take_bit p y OR push_bit p 1 = take_bit p y + push_bit p 1"
    by (simp add: disjunctive_add_eq_or)
  also have "\<dots> = of_nat (2 ^ p + unat (take_bit p y))" by (simp add: push_bit_eq_mult)
  also have "unat \<dots> = 2 ^ p + unat (take_bit p y)"
  proof -
    have "2 ^ p + unat (take_bit p y) < 2 ^ Suc p" using lt by simp
    also have "(2 :: nat) ^ Suc p \<le> 2 ^ LENGTH('a)" using assms by (intro power_increasing) simp_all
    finally show ?thesis by (simp only: unat_of_nat) simp
  qed
  finally show "unat (take_bit p y OR push_bit p 1) = 2 ^ p + unat (take_bit p y)" .
qed

lemma drop_of_nat: "m < 2 ^ 64 \<Longrightarrow> drop_bit k (of_nat m :: u64) = of_nat (m div 2 ^ k)"
proof -
  assume "m < 2 ^ 64"
  moreover from this have "m div 2 ^ k < 2 ^ 64" by (rule le_less_trans [OF div_le_dividend])
  ultimately show ?thesis by (simp add: word_unat_eq_iff unat_drop_bit unat_of_nat)
qed

lemma fix_core:
  assumes l: "unat l = 2 ^ p + frac" and "frac < 2 ^ p" and "p < 63" and "0 < p" and "p + 1 < bias"
    and "e < 2 ^ 31" and "bias < 2 ^ 31" and k: "k = int e - int bias"
  shows "(if k < - int p then 0 else if k \<ge> 0 then push_bit (nat k) l else drop_bit (nat (- k)) l) =
    (of_nat (scaled p e frac div 2 ^ bias) :: u64)"
proof -
  have "l = of_nat (2 ^ p + frac)" unfolding l [symmetric] by simp
  moreover have "2 ^ p + frac < 2 ^ 64"
  proof -
    have "2 ^ p + frac < 2 ^ Suc p" using assms(2) by simp
    also have "(2 :: nat) ^ Suc p \<le> 2 ^ 64" using assms(3) by (intro power_increasing) simp_all
    finally show ?thesis .
  qed
  ultimately show ?thesis
    unfolding scaled_div [OF assms(2,4,5,6,7)] k Let_def by (simp only: drop_of_nat)
qed

lemma fixunssfdi_value:
  assumes "unat (EXP x) < 191"
  shows "fixunssfdi x = (let m = of_nat (sf_scaled x div 2 ^ 150) in if SIGN x \<noteq> 0 then - m else m)"
proof -
  let ?e = "unat (EXP x)" and ?frac = "unat (take_bit 23 x)"
  have "0x7FFFFF = (mask 23 :: u32)" by (simp add: mask_eq_exp_minus_1)
  then have M: "MANT x = take_bit 23 x OR push_bit 23 1"
    by (simp only: MANT_def and_mask_take_bit)
  have l: "unat (ucast (MANT x) :: u64) = 2 ^ 23 + ?frac"
    unfolding unat_up M by (rule hidden_bit(1)) simp
  have frac: "?frac < 2 ^ 23" by (rule hidden_bit(2)) simp
  have s: "sint (EXP x) = int ?e"
    using unat_EXP(2) [of x] by (intro sint_unat) simp
  define k where "k = int ?e - int 150"
  have k: "sint (EXP x) - 126 - 24 = k" "\<not> 41 \<le> k" using assms unfolding s k_def by linarith+
  define l1 where "l1 = (if k < - int 23 then 0 else if k \<ge> 0 then push_bit (nat k) (ucast (MANT x))
    else drop_bit (nat (- k)) (ucast (MANT x)) :: u64)"
  have l1: "l1 = of_nat (sf_scaled x div 2 ^ 150)"
    unfolding l1_def sf_scaled_def using assms
    by (intro fix_core [OF l frac _ _ _ _ _ k_def]) simp_all
  have "fixunssfdi x = (if SIGN x \<noteq> 0 then - l1 else l1)"
  proof (cases "x = 0")
    case True
    then have "sf_scaled x = 0" by (simp add: sf_scaled_def scaled_def EXP_def)
    with True l1 show ?thesis by (simp add: fixunssfdi_def)
  next
    case False
    then show ?thesis using k by (simp add: fixunssfdi_def Let_def l1_def)
  qed
  then show ?thesis unfolding l1 by (simp add: Let_def)
qed

lemma fixunsdfdi_value:
  assumes "unat (EXPD x) < 1087"
  shows "fixunsdfdi x = (let m = of_nat (df_scaled x div 2 ^ 1075) in if SIGND x \<noteq> 0 then - m else m)"
proof -
  let ?e = "unat (EXPD x)" and ?frac = "unat (take_bit 52 x)"
  have "push_bit 52 1 - 1 = (mask 52 :: u64)" by (simp add: mask_eq_exp_minus_1 push_bit_eq_mult)
  then have M: "MANTD_LL x = take_bit 52 x OR push_bit 52 1"
    by (simp only: MANTD_LL_def and_mask_take_bit)
  have l: "unat (MANTD_LL x) = 2 ^ 52 + ?frac" unfolding M by (rule hidden_bit(1)) simp
  have frac: "?frac < 2 ^ 52" by (rule hidden_bit(2)) simp
  have s: "sint (EXPD x) = int ?e"
    using EXPD_eq(2) [of x] by (intro sint_unat) simp
  define k where "k = int ?e - int 1075"
  have k: "sint (EXPD x) - 1022 - 53 = k" "\<not> 12 \<le> k" using assms unfolding s k_def by linarith+
  define l1 where "l1 = (if k < - int 52 then 0 else if k \<ge> 0 then push_bit (nat k) (MANTD_LL x)
    else drop_bit (nat (- k)) (MANTD_LL x))"
  have l1: "l1 = of_nat (df_scaled x div 2 ^ 1075)"
    unfolding l1_def df_scaled_def using assms
    by (intro fix_core [OF l frac _ _ _ _ _ k_def]) simp_all
  have "fixunsdfdi x = (if SIGND x \<noteq> 0 then - l1 else l1)"
  proof (cases "x = 0")
    case True
    then have "df_scaled x = 0" by (simp add: df_scaled_def scaled_def EXPD_eq)
    with True l1 show ?thesis by (simp add: fixunsdfdi_def)
  next
    case False
    then show ?thesis using k by (simp add: fixunsdfdi_def Let_def l1_def)
  qed
  then show ?thesis unfolding l1 by (simp add: Let_def)
qed


lemma sign_bits: "SIGN x \<noteq> 0 \<longleftrightarrow> bit x 31" "SIGND y \<noteq> 0 \<longleftrightarrow> bit y 63"
proof -
  have e: "SIGNBIT = 2 ^ 31" by simp
  show "SIGN x \<noteq> 0 \<longleftrightarrow> bit x 31" unfolding SIGN_def e and_exp_eq_0_iff_not_bit by simp
  show "SIGND y \<noteq> 0 \<longleftrightarrow> bit y 63" unfolding SIGND_def e and_exp_eq_0_iff_not_bit by (simp add: bit_high64)
qed

lemma sf_flip:
  "EXP (x XOR SIGNBIT) = EXP x" "sf_scaled (x XOR SIGNBIT) = sf_scaled x"
  "SIGN (x XOR SIGNBIT) \<noteq> 0 \<longleftrightarrow> SIGN x = 0"
proof -
  have e: "SIGNBIT = push_bit 31 1" by simp
  have E: "EXP y = take_bit 8 (drop_bit 23 y)" for y by (simp add: EXP_def and_masks)
  show 1: "EXP (x XOR SIGNBIT) = EXP x"
    unfolding e E by (rule bit_word_eqI) (auto simp: bit_simps)
  have "take_bit 23 (x XOR SIGNBIT) = take_bit 23 x"
    unfolding e by (rule bit_word_eqI) (auto simp: bit_simps)
  then show "sf_scaled (x XOR SIGNBIT) = sf_scaled x" unfolding sf_scaled_def 1 by simp
  have "bit (x XOR SIGNBIT) 31 \<longleftrightarrow> \<not> bit x 31" unfolding e by (simp add: bit_simps)
  then show "SIGN (x XOR SIGNBIT) \<noteq> 0 \<longleftrightarrow> SIGN x = 0" unfolding sign_bits(1) using sign_bits(1) [of x] by blast
qed

lemma df_flip:
  "EXPD (x XOR push_bit 63 1) = EXPD x" "df_scaled (x XOR push_bit 63 1) = df_scaled x"
  "SIGND (x XOR push_bit 63 1) \<noteq> 0 \<longleftrightarrow> SIGND x = 0"
proof -
  show 1: "EXPD (x XOR push_bit 63 1) = EXPD x"
    unfolding EXPD_eq by (rule bit_word_eqI) (auto simp: bit_simps)
  have "take_bit 52 (x XOR push_bit 63 1) = take_bit 52 x"
    by (rule bit_word_eqI) (auto simp: bit_simps)
  then show "df_scaled (x XOR push_bit 63 1) = df_scaled x" unfolding df_scaled_def 1 by simp
  have "bit (x XOR push_bit 63 1) 63 \<longleftrightarrow> \<not> bit x 63" by (simp add: bit_simps)
  then show "SIGND (x XOR push_bit 63 1) \<noteq> 0 \<longleftrightarrow> SIGND x = 0"
    unfolding sign_bits(2) using sign_bits(2) [of x] by blast
qed

text \<open>
  The conversions round towards zero: for a single precision number below 2 to the 63 in
  magnitude, and for such a double precision number, the result is the whole part of the
  magnitude with the sign of the number.
\<close>

theorem fix_truncates:
  assumes "unat (EXP x) < 190" and "unat (EXPD y) < 1086"
  shows "fixsfdi x = (if SIGN x = 0 then of_nat (sf_scaled x div 2 ^ 150)
      else - of_nat (sf_scaled x div 2 ^ 150)) \<and>
    fixdfdi y = (if SIGND y = 0 then of_nat (df_scaled y div 2 ^ 1075)
      else - of_nat (df_scaled y div 2 ^ 1075))"
proof
  have f: "fixunssfdi z = (if SIGN z \<noteq> 0 then - of_nat (sf_scaled x div 2 ^ 150) else of_nat (sf_scaled x div 2 ^ 150))"
    if "z = x \<or> z = x XOR SIGNBIT" for z
    using fixunssfdi_value [of z] that assms(1) by (auto simp: Let_def sf_flip)
  have zero: "sf_scaled x div 2 ^ 150 = 0" if "x = SIGNBIT"
    using that by (simp add: sf_scaled_def scaled_def EXP_def and_masks take_bit_eq_mod)
  have "EXP x \<noteq> 0xFF" using assms(1) by auto
  then have s: "sf_ge_0 x \<longleftrightarrow> SIGN x = 0 \<or> x = SIGNBIT" by (simp add: sf_ge_0_def)
  show "fixsfdi x = (if SIGN x = 0 then of_nat (sf_scaled x div 2 ^ 150)
      else - of_nat (sf_scaled x div 2 ^ 150))"
  proof (cases "sf_ge_0 x")
    case True
    with s zero f [of x] show ?thesis by (auto simp: fixsfdi_def Let_def)
  next
    case False
    with s f [of "x XOR SIGNBIT"] sf_flip(3) [of x] show ?thesis by (simp add: fixsfdi_def Let_def)
  qed
  have g: "fixunsdfdi z = (if SIGND z \<noteq> 0 then - of_nat (df_scaled y div 2 ^ 1075) else of_nat (df_scaled y div 2 ^ 1075))"
    if "z = y \<or> z = y XOR push_bit 63 1" for z
    using fixunsdfdi_value [of z] that assms(2) by (auto simp: Let_def df_flip simp del: push_bit_of_1)
  have zerod: "df_scaled y div 2 ^ 1075 = 0" if "y = push_bit 63 1"
  proof -
    have "EXPD y = 0" unfolding that EXPD_eq by (rule bit_word_eqI) (auto simp: bit_simps)
    moreover have "take_bit 52 y = 0" unfolding that by (rule bit_word_eqI) (auto simp: bit_simps)
    ultimately show ?thesis by (simp add: df_scaled_def scaled_def)
  qed
  have "EXPD y \<noteq> 0x7FF" using assms(2) by auto
  then have sd: "df_ge_0 y \<longleftrightarrow> SIGND y = 0 \<or> y = push_bit 63 1" by (simp add: df_ge_0_def)
  show "fixdfdi y = (if SIGND y = 0 then of_nat (df_scaled y div 2 ^ 1075)
      else - of_nat (df_scaled y div 2 ^ 1075))"
  proof (cases "df_ge_0 y")
    case True
    with sd zerod g [of y] show ?thesis by (auto simp: fixdfdi_def Let_def)
  next
    case False
    with sd g [of "y XOR push_bit 63 1"] df_flip(3) [of y] show ?thesis
      by (simp add: fixdfdi_def Let_def del: push_bit_of_1)
  qed
qed


lemma fix_truncates_witness:
  "fixsfdi 0xC0490FDB = - of_nat (sf_scaled 0xC0490FDB div 2 ^ 150) \<and>
   fixdfdi 0x4005BF0A8B145769 = of_nat (df_scaled 0x4005BF0A8B145769 div 2 ^ 1075)"
proof -
  have "unat (EXP 0xC0490FDB) < 190" "SIGN 0xC0490FDB \<noteq> 0" by code_simp+
  moreover have "unat (EXPD 0x4005BF0A8B145769) < 1086" "SIGND 0x4005BF0A8B145769 = 0" by code_simp+
  ultimately show ?thesis using fix_truncates [of "0xC0490FDB" "0x4005BF0A8B145769"] by simp
qed

end
