(* ===== verification/Const_Fold_Props.thy ===== *)
theory Const_Fold_Props
  imports Const_Fold Riscv_Load_Props Lib_Int64_Props
begin

text \<open>
  Constant folding against the machine: a value narrower than 64 bits is kept extended to 64, and
  what gen_opic computes with 64-bit operations is what the RISC-V instruction for the operator
  computes with 32-bit ones, negative operands of TOK_PDIV excepted.
\<close>

section \<open>Values narrower than 64 bits\<close>

definition ext :: "bool \<Rightarrow> u32 \<Rightarrow> u64" where
  "ext unsgn x = (if unsgn then ucast x else scast x)"

lemma and_one_bit: "x AND push_bit k 1 = (if bit x k then push_bit k 1 else 0)" for x :: "'a::len word"
  by (rule bit_word_eqI) (auto simp: bit_simps)

lemma neg_one_bit: "- push_bit k 1 = (push_bit k (- 1) :: 'a::len word)"
  by (simp only: push_bit_eq_mult) simp

lemma opic_extend_eq:
  assumes "t AND VT_BTYPE \<noteq> VT_LLONG"
  shows "opic_extend t l = ext (t AND VT_UNSIGNED \<noteq> 0) (ucast l)"
proof -
  have "l AND 0x80000000 = (if bit l 31 then 0x80000000 else 0)"
    using and_one_bit [of l 31] by simp
  moreover have "ucast (ucast l :: u32) OR (- 0x80000000 :: u64) = scast (ucast l :: u32)" if "bit l 31"
  proof -
    have m: "(- 0x80000000 :: u64) = push_bit 31 (- 1)"
      using neg_one_bit [of 31, where 'a = 64] by simp
    show ?thesis unfolding m using that by (intro bit_word_eqI) (auto simp: bit_simps)
  qed
  moreover have "ucast (ucast l :: u32) = (scast (ucast l :: u32) :: u64)" if "\<not> bit l 31"
    using that by (intro bit_word_eqI) (auto simp: bit_simps min_def le_less split: if_splits)
  ultimately show ?thesis using assms by (auto simp: opic_extend_def ext_def)
qed

lemma ucast_ext [simp]: "ucast (ext u x) = x"
  by (rule bit_word_eqI) (auto simp: ext_def bit_simps)

lemma ucast_opic_extend: "t AND VT_BTYPE \<noteq> VT_LLONG \<Longrightarrow> (ucast (opic_extend t l) :: u32) = ucast l"
  by (simp add: opic_extend_eq)

lemma ext_inject [simp]: "ext u x = ext u y \<longleftrightarrow> x = y"
  using ucast_ext by metis

lemma sint_ext: "sint (ext False x) = sint x"
  using sint_ge [of x] sint_lt [of x] by (simp add: ext_def signed_scast_eq signed_take_bit_int_eq_self_iff)

lemma unat_ext: "unat (ext True x) = unat x"
  by (simp add: ext_def unat_up)

lemma ext_0 [simp]: "ext u x = 0 \<longleftrightarrow> x = 0" "ext u 0 = 0"
proof -
  show z: "ext u 0 = 0" by (simp add: ext_def)
  show "ext u x = 0 \<longleftrightarrow> x = 0" using ext_inject [of u x 0] unfolding z .
qed

lemma uint_signed: "uint z = (if sint z < 0 then sint z + 4294967296 else sint z)" for z :: u32
proof -
  have r: "- 2147483648 \<le> sint z" "sint z < 2147483648" using sint_ge [of z] sint_lt [of z] by simp_all
  have "uint z = take_bit 32 (sint z)" using uint_sint [of z] by simp
  then have m: "uint z = sint z mod 4294967296" by (simp add: take_bit_eq_mod)
  have m2: "uint (z) = (sint z + 4294967296) mod 4294967296" unfolding m by simp
  show ?thesis
  proof (cases "sint z < 0")
    case True
    then have "(sint z + 4294967296) mod 4294967296 = sint z + 4294967296"
      using r by (intro mod_pos_pos_trivial) linarith+
    from trans [OF m2 this] True show ?thesis by simp
  next
    case False
    then have "sint z mod 4294967296 = sint z" using r by (intro mod_pos_pos_trivial) linarith+
    from trans [OF m this] False show ?thesis by simp
  qed
qed

lemma uint_ext: "uint (ext False z) = (if sint z < 0 then sint z + 18446744073709551616 else sint z)"
proof -
  have r: "- 2147483648 \<le> sint z" "sint z < 2147483648" using sint_ge [of z] sint_lt [of z] by simp_all
  have "uint (ext False z) = take_bit 64 (sint z)" using uint_sint [of "ext False z"] by (simp add: sint_ext)
  then have m: "uint (ext False z) = sint z mod 18446744073709551616" by (simp add: take_bit_eq_mod)
  have m2: "uint (ext False z) = (sint z + 18446744073709551616) mod 18446744073709551616" unfolding m by simp
  show ?thesis
  proof (cases "sint z < 0")
    case True
    then have "(sint z + 18446744073709551616) mod 18446744073709551616 = sint z + 18446744073709551616"
      using r by (intro mod_pos_pos_trivial) linarith+
    from trans [OF m2 this] True show ?thesis by simp
  next
    case False
    then have "sint z mod 18446744073709551616 = sint z" using r by (intro mod_pos_pos_trivial) linarith+
    from trans [OF m this] False show ?thesis by simp
  qed
qed

lemma ext_less: "ext u x < ext u y \<longleftrightarrow> x < y"
proof (cases u)
  case False
  have r: "- 2147483648 \<le> sint x" "sint x < 2147483648" "- 2147483648 \<le> sint y" "sint y < 2147483648"
    using sint_ge [of x] sint_lt [of x] sint_ge [of y] sint_lt [of y] by simp_all
  have "ext False x < ext False y \<longleftrightarrow> uint (ext False x) < uint (ext False y)" by (simp add: word_less_def)
  also have "\<dots> \<longleftrightarrow> uint x < uint y"
    unfolding uint_ext uint_signed [of x] uint_signed [of y] using r by (auto split: if_splits)
  finally show ?thesis using False by (simp add: word_less_def)
qed (simp add: word_less_nat_alt unat_ext)


section \<open>The operations of the machine\<close>

text \<open>
  The instruction gen_opi emits for an operator: DIVU for TOK_PDIV as well, the division of a difference of
  pointers. gen_opic folds TOK_PDIV as a signed division, so both agree only where no operand is negative.
\<close>

definition op_word :: "u32 \<Rightarrow> u32 \<Rightarrow> u32 \<Rightarrow> u32 option" where
  "op_word op x y =
     (if op = OP_ADD then Some (alu Add x y) else if op = OP_SUB then Some (alu Sub x y)
      else if op = OP_AND then Some (alu And x y) else if op = OP_OR then Some (alu Or x y)
      else if op = OP_XOR then Some (alu Xor x y) else if op = OP_MUL then Some (alu Mul x y)
      else if op = OP_DIV then Some (alu Div x y)
      else if op = OP_MOD then Some (alu Rem x y)
      else if op = TOK_UDIV \<or> op = TOK_PDIV then Some (alu Divu x y) else if op = TOK_UMOD then Some (alu Remu x y)
      else if op = TOK_SHL then Some (alu Sll x y) else if op = TOK_SHR then Some (alu Srl x y)
      else if op = TOK_SAR then Some (alu Sra x y)
      else if op \<in> comparisons then Some (bool32 (compare_holds op x y))
      else if op = TOK_LAND then Some (bool32 (x \<noteq> 0 \<and> y \<noteq> 0))
      else if op = TOK_LOR then Some (bool32 (x \<noteq> 0 \<or> y \<noteq> 0))
      else None)"

definition pdiv_fits :: "u32 \<Rightarrow> u32 \<Rightarrow> u32 \<Rightarrow> bool" where
  "pdiv_fits op x y \<longleftrightarrow> op = TOK_PDIV \<longrightarrow> 0 \<le> sint x \<and> 0 \<le> sint y"

text \<open>A negative difference of pointers, -12 bytes over objects of three: folded, and as the code divides it.\<close>

lemma pdiv_folds_signed:
  "opic_fold TOK_PDIV 31 (- 12) 3 = Some (- 4)" "op_word TOK_PDIV (- 12) 3 = Some 0x55555551"
  by (simp_all add: opic_fold_def gen_opic_sdiv_def op_word_def alu_def)

text \<open>gen_op gives signed operators signed operands, and unsigned ones unsigned operands.\<close>

definition sign_fits :: "u32 \<Rightarrow> bool \<Rightarrow> bool" where
  "sign_fits op unsgn \<longleftrightarrow>
     (if op \<in> {OP_DIV, OP_MOD, TOK_PDIV, TOK_SAR, TOK_LT, TOK_GE, TOK_LE, TOK_GT} then \<not> unsgn
      else if op \<in> {TOK_UDIV, TOK_UMOD, TOK_SHR} then unsgn else True)"

lemma top_bit: "drop_bit 63 a \<noteq> 0 \<longleftrightarrow> sint a < 0" for a :: u64
proof -
  have "drop_bit 63 a \<noteq> 0 \<longleftrightarrow> bit a 63"
  proof
    assume "drop_bit 63 a \<noteq> 0"
    then obtain n where "bit a (63 + n)" by (auto simp: bit_eq_iff bit_simps)
    with bit_imp_le_length [OF this] show "bit a 63" by simp
  next
    assume "bit a 63"
    then have "bit (drop_bit 63 a) 0" by (simp add: bit_drop_bit_eq)
    then show "drop_bit 63 a \<noteq> 0" by auto
  qed
  also have "\<dots> \<longleftrightarrow> sint a < 0" using bit_last_iff [of a] by simp
  finally show ?thesis .
qed

lemma sdiv64:
  assumes "b \<noteq> 0"
  shows "gen_opic_sdiv a b = word_of_int (sgn (sint a) * sgn (sint b) * (\<bar>sint a\<bar> div \<bar>sint b\<bar>))"
proof -
  let ?a = "if sint a < 0 then - a else a" and ?b = "if sint b < 0 then - b else b"
  have "?a div ?b = word_of_int (uint ?a div uint ?b)" by (simp only: word_div_def)
  then have q: "?a div ?b = word_of_int (\<bar>sint a\<bar> div \<bar>sint b\<bar>)" by (simp only: uint_abs)
  have x: "sint (a XOR b) < 0 \<longleftrightarrow> (sint a < 0) \<noteq> (sint b < 0)"
    using bit_last_iff [of "a XOR b"] bit_last_iff [of a] bit_last_iff [of b]
    by (simp add: bit_xor_iff)
  have b0: "sint b \<noteq> 0" using assms signed_eq_0_iff [of b] by blast
  show ?thesis
    unfolding gen_opic_sdiv_def top_bit x Let_def q using b0
    by (auto simp: sgn_if)
qed

lemma flip_top: "z XOR push_bit 63 1 = z + push_bit 63 1" for z :: u64
proof -
  have low: "y + push_bit 63 1 = y XOR push_bit 63 1" if "\<not> bit y 63" for y :: u64
  proof -
    have "y AND push_bit 63 1 = 0" using and_one_bit [of y 63] that by simp
    then show ?thesis by (rule disjunctive_add_eq_xor)
  qed
  show ?thesis
  proof (cases "bit z 63")
    case True
    let ?y = "z XOR push_bit 63 1"
    have "\<not> bit ?y 63" using True by (simp add: bit_xor_iff bit_push_bit_iff del: push_bit_numeral)
    from low [OF this] have e: "?y + push_bit 63 1 = z" by (simp add: xor.assoc)
    have "z + push_bit 63 1 = (?y + push_bit 63 1) + push_bit 63 1" by (simp only: e)
    also have "\<dots> = ?y + (push_bit 63 1 + push_bit 63 1)" by (rule add.assoc)
    also have "push_bit 63 1 + push_bit 63 1 = (0 :: u64)" by simp
    finally show ?thesis by simp
  next
    case False
    from low [OF this] show ?thesis by (rule sym)
  qed
qed

lemma lt64: "gen_opic_lt a b \<longleftrightarrow> sint a < sint b"
proof -
  have f: "uint (z XOR push_bit 63 1) = sint z + 9223372036854775808" for z :: u64
  proof -
    have r: "- 9223372036854775808 \<le> sint z" "sint z < 9223372036854775808"
      using sint_ge [of z] sint_lt [of z] by simp_all
    have "z XOR push_bit 63 1 = word_of_int (sint z + 9223372036854775808)"
      unfolding flip_top by (simp only: of_int_add) simp
    then have "uint (z XOR push_bit 63 1) = (sint z + 9223372036854775808) mod 18446744073709551616"
      by (simp only: uint_word_of_int) simp
    also have "\<dots> = sint z + 9223372036854775808" using r by (intro mod_pos_pos_trivial) linarith+
    finally show ?thesis .
  qed
  show ?thesis unfolding gen_opic_lt_def word_less_def f by simp
qed


lemma ext_amount: "unat (ext u y AND 31) = shift_amount y"
proof -
  have "ext u y AND 31 = ucast (take_bit 5 y)"
    unfolding and_masks by (rule bit_word_eqI) (auto simp: ext_def bit_simps min_def)
  then show ?thesis by (simp add: shift_amount_def unat_up)
qed

lemma shift_amount_less: "shift_amount y < 32"
proof -
  have "unat (take_bit 5 y) = take_bit 5 (unat y)" by (rule unsigned_take_bit_eq)
  also have "\<dots> < 2 ^ 5" by (rule take_bit_nat_less_exp)
  finally show ?thesis by (simp add: shift_amount_def)
qed

lemma fold_div:
  assumes "y \<noteq> 0"
  shows "ucast (gen_opic_sdiv (ext False x) (ext False y)) = sdiv32 x y"
    "ucast (ext False x - ext False y * gen_opic_sdiv (ext False x) (ext False y)) = srem32 x y"
proof -
  have nz: "ext False y \<noteq> 0" using assms by simp
  show q: "ucast (gen_opic_sdiv (ext False x) (ext False y)) = sdiv32 x y"
    unfolding sdiv64 [OF nz] sint_ext down_of_int sdiv32_def using assms by simp
  have "ucast (ext False x - ext False y * gen_opic_sdiv (ext False x) (ext False y)) = x - y * sdiv32 x y"
    unfolding down_arith q by simp
  also have "\<dots> = word_of_int (sint x - sint y * (sgn (sint x) * sgn (sint y) * (\<bar>sint x\<bar> div \<bar>sint y\<bar>)))"
    using assms by (simp add: sdiv32_def)
  also have "sint x - sint y * (sgn (sint x) * sgn (sint y) * (\<bar>sint x\<bar> div \<bar>sint y\<bar>)) =
      sgn (sint x) * (\<bar>sint x\<bar> mod \<bar>sint y\<bar>)"
  proof -
    have "\<bar>sint y\<bar> * (\<bar>sint x\<bar> div \<bar>sint y\<bar>) + \<bar>sint x\<bar> mod \<bar>sint y\<bar> = \<bar>sint x\<bar>" by simp
    then have m: "\<bar>sint x\<bar> mod \<bar>sint y\<bar> = \<bar>sint x\<bar> - \<bar>sint y\<bar> * (\<bar>sint x\<bar> div \<bar>sint y\<bar>)" by linarith
    have "sint x = sgn (sint x) * \<bar>sint x\<bar>" "\<bar>sint y\<bar> = sint y * sgn (sint y)"
      by (simp add: sgn_mult_abs, rule abs_sgn)
    then show ?thesis unfolding m by (simp add: algebra_simps)
  qed
  finally show "ucast (ext False x - ext False y * gen_opic_sdiv (ext False x) (ext False y)) = srem32 x y"
    using assms by (simp add: srem32_def)
qed

lemma fold_udiv: "ucast (ext True x div ext True y) = x div y" "ucast (ext True x mod ext True y) = x mod y"
proof -
  have d: "unat x div unat y < 4294967296" "unat x mod unat y < 4294967296"
    using unat_u32 [of x] by (metis div_le_dividend le_less_trans, metis mod_less_eq_dividend le_less_trans)
  show "ucast (ext True x div ext True y) = x div y" "ucast (ext True x mod ext True y) = x mod y"
    unfolding word_unat_eq_iff using d
    by (simp_all add: unat_div_distrib unat_mod_distrib unat_ext unsigned_ucast_eq take_bit_nat_eq_self)
qed

lemma fold_shifts:
  assumes "n < 32"
  shows "(ucast (push_bit n (ext u x)) :: u32) = push_bit n x"
    "(ucast (drop_bit n (ext True x)) :: u32) = drop_bit n x"
    "(ucast (if drop_bit 63 (ext False x) \<noteq> 0 then NOT (drop_bit n (NOT (ext False x)))
       else drop_bit n (ext False x)) :: u32) = signed_drop_bit n x"
proof -
  have "(ucast (2 ^ n :: u64) :: u32) = 2 ^ n" using down_of_nat [of "2 ^ n"] by simp
  then show "(ucast (push_bit n (ext u x)) :: u32) = push_bit n x"
    by (simp only: push_bit_eq_mult down_arith ucast_ext)
  show "(ucast (drop_bit n (ext True x)) :: u32) = drop_bit n x"
    by (rule bit_word_eqI) (auto simp: ext_def bit_simps dest: bit_imp_le_length)
  have s: "drop_bit 63 (ext False x) \<noteq> 0 \<longleftrightarrow> bit x 31"
    unfolding top_bit sint_ext using bit_last_iff [of x] by simp
  show "(ucast (if drop_bit 63 (ext False x) \<noteq> 0 then NOT (drop_bit n (NOT (ext False x)))
       else drop_bit n (ext False x)) :: u32) = signed_drop_bit n x"
    unfolding s using assms
    by (intro bit_word_eqI) (auto simp: ext_def bit_simps min_def le_less)
qed

lemma ext_le: "ext u x \<le> ext u y \<longleftrightarrow> x \<le> y"
  using ext_less [of u y x] by (simp add: not_less [symmetric])

definition foldable :: "u32 set" where
  "foldable = {OP_ADD, OP_SUB, OP_AND, OP_XOR, OP_OR, OP_MUL, TOK_PDIV, OP_DIV, OP_MOD, TOK_UDIV, TOK_UMOD,
     TOK_SHL, TOK_SHR, TOK_SAR, TOK_ULT, TOK_UGE, TOK_EQ, TOK_NE, TOK_ULE, TOK_UGT, TOK_LT, TOK_GE,
     TOK_LE, TOK_GT, TOK_LAND, TOK_LOR}"

lemma opic_fold_foldable: "opic_fold op shm l1 l2 = Some l \<Longrightarrow> op \<in> foldable"
  by (auto simp: opic_fold_def foldable_def Let_def split: if_split_asm)

lemma op_word_ops:
  "op_word OP_ADD x y = Some (x + y)" "op_word OP_SUB x y = Some (x - y)"
  "op_word OP_AND x y = Some (x AND y)" "op_word OP_OR x y = Some (x OR y)"
  "op_word OP_XOR x y = Some (x XOR y)" "op_word OP_MUL x y = Some (x * y)"
  "op_word OP_DIV x y = Some (sdiv32 x y)"
  "op_word TOK_PDIV x y = Some (if y = 0 then - 1 else x div y)"
  "op_word OP_MOD x y = Some (srem32 x y)"
  "op_word TOK_UDIV x y = Some (if y = 0 then - 1 else x div y)"
  "op_word TOK_UMOD x y = Some (if y = 0 then x else x mod y)"
  "op_word TOK_SHL x y = Some (push_bit (shift_amount y) x)"
  "op_word TOK_SHR x y = Some (drop_bit (shift_amount y) x)"
  "op_word TOK_SAR x y = Some (signed_drop_bit (shift_amount y) x)"
  "op_word TOK_ULT x y = Some (bool32 (x < y))" "op_word TOK_UGE x y = Some (bool32 (y \<le> x))"
  "op_word TOK_EQ x y = Some (bool32 (x = y))" "op_word TOK_NE x y = Some (bool32 (x \<noteq> y))"
  "op_word TOK_ULE x y = Some (bool32 (x \<le> y))" "op_word TOK_UGT x y = Some (bool32 (y < x))"
  "op_word TOK_LT x y = Some (bool32 (sint x < sint y))" "op_word TOK_GE x y = Some (bool32 (sint y \<le> sint x))"
  "op_word TOK_LE x y = Some (bool32 (sint x \<le> sint y))" "op_word TOK_GT x y = Some (bool32 (sint y < sint x))"
  "op_word TOK_LAND x y = Some (bool32 (x \<noteq> 0 \<and> y \<noteq> 0))"
  "op_word TOK_LOR x y = Some (bool32 (x \<noteq> 0 \<or> y \<noteq> 0))"
  by (simp_all add: op_word_def alu_def comparisons_def compare_holds_def)

lemma opic_fold_ops:
  "opic_fold OP_ADD m a b = Some (a + b)" "opic_fold OP_SUB m a b = Some (a - b)"
  "opic_fold OP_AND m a b = Some (a AND b)" "opic_fold OP_XOR m a b = Some (a XOR b)"
  "opic_fold OP_OR m a b = Some (a OR b)" "opic_fold OP_MUL m a b = Some (a * b)"
  "opic_fold TOK_PDIV m a b = (if b = 0 then None else Some (gen_opic_sdiv a b))"
  "opic_fold OP_DIV m a b = (if b = 0 then None else Some (gen_opic_sdiv a b))"
  "opic_fold OP_MOD m a b = (if b = 0 then None else Some (a - b * gen_opic_sdiv a b))"
  "opic_fold TOK_UDIV m a b = (if b = 0 then None else Some (a div b))"
  "opic_fold TOK_UMOD m a b = (if b = 0 then None else Some (a mod b))"
  "opic_fold TOK_SHL m a b = Some (push_bit (unat (b AND m)) a)"
  "opic_fold TOK_SHR m a b = Some (drop_bit (unat (b AND m)) a)"
  "opic_fold TOK_SAR m a b = Some (if drop_bit 63 a \<noteq> 0 then NOT (drop_bit (unat (b AND m)) (NOT a))
     else drop_bit (unat (b AND m)) a)"
  by (simp_all add: opic_fold_def Let_def)

lemma opic_fold_tests:
  "opic_fold TOK_ULT m a b = Some (if a < b then 1 else 0)" "opic_fold TOK_UGE m a b = Some (if b \<le> a then 1 else 0)"
  "opic_fold TOK_EQ m a b = Some (if a = b then 1 else 0)" "opic_fold TOK_NE m a b = Some (if a = b then 0 else 1)"
  "opic_fold TOK_ULE m a b = Some (if a \<le> b then 1 else 0)" "opic_fold TOK_UGT m a b = Some (if b < a then 1 else 0)"
  "opic_fold TOK_LT m a b = Some (if gen_opic_lt a b then 1 else 0)"
  "opic_fold TOK_GE m a b = Some (if gen_opic_lt a b then 0 else 1)"
  "opic_fold TOK_LE m a b = Some (if gen_opic_lt b a then 0 else 1)"
  "opic_fold TOK_GT m a b = Some (if gen_opic_lt b a then 1 else 0)"
  "opic_fold TOK_LAND m a b = Some (if a \<noteq> 0 \<and> b \<noteq> 0 then 1 else 0)"
  "opic_fold TOK_LOR m a b = Some (if a \<noteq> 0 \<or> b \<noteq> 0 then 1 else 0)"
  by (simp_all add: opic_fold_def Let_def)

lemma sign_fits_ops:
  "sign_fits OP_DIV u = (\<not> u)" "sign_fits OP_MOD u = (\<not> u)" "sign_fits TOK_PDIV u = (\<not> u)"
  "sign_fits TOK_SAR u = (\<not> u)" "sign_fits TOK_LT u = (\<not> u)" "sign_fits TOK_GE u = (\<not> u)"
  "sign_fits TOK_LE u = (\<not> u)" "sign_fits TOK_GT u = (\<not> u)"
  "sign_fits TOK_UDIV u = u" "sign_fits TOK_UMOD u = u" "sign_fits TOK_SHR u = u"
  by (simp_all add: sign_fits_def)

lemma fold_truth:
  "ucast (if P then 1 else 0 :: u64) = bool32 P" "ucast (if P then 0 else 1 :: u64) = bool32 (\<not> P)"
  by (simp_all add: bool32_def)

lemma fold_map_shift:
  assumes "is_shift op" "sign_fits op u"
  shows "map_option ucast (opic_fold op 31 (ext u x) (ext u' y)) = op_word op x y"
proof -
  have "op = TOK_SHL \<or> op = TOK_SHR \<and> u \<or> op = TOK_SAR \<and> \<not> u"
    using assms by (auto simp: is_shift_def sign_fits_ops)
  then show ?thesis
    by (elim disjE conjE)
      (simp_all only: opic_fold_ops op_word_ops option.map ext_amount fold_shifts shift_amount_less simp_thms)
qed

lemma sdiv32_nonneg:
  assumes "0 \<le> sint x" "0 \<le> sint y"
  shows "sdiv32 x y = (if y = 0 then - 1 else x div y)"
proof (cases "y = 0")
  case False
  have "sint x = uint x" "sint y = uint y" using assms uint_signed [of x] uint_signed [of y] by simp_all
  moreover have "0 < uint y" using False unfolding word_neq_0_conv by (simp add: word_less_def)
  then have "sgn (uint x) * sgn (uint y) * (\<bar>uint x\<bar> div \<bar>uint y\<bar>) = uint x div uint y"
    by (cases "uint x = 0") (simp_all add: sgn_if order_less_le)
  ultimately show ?thesis using False by (simp add: sdiv32_def word_div_def)
qed (simp add: sdiv32_def)

lemma fold_map_div:
  assumes "op \<in> {TOK_PDIV, OP_DIV, OP_MOD, TOK_UDIV, TOK_UMOD}" "sign_fits op u" and p: "pdiv_fits op x y"
    and "opic_fold op 31 (ext u x) (ext u y) \<noteq> None"
  shows "map_option ucast (opic_fold op 31 (ext u x) (ext u y)) = op_word op x y"
proof -
  have "ext u y \<noteq> 0" using assms(1,4) by (auto simp: opic_fold_def)
  then have y: "y \<noteq> 0" by simp
  have d: "x div y = sdiv32 x y" if "op = TOK_PDIV" using p that sdiv32_nonneg [of x y] y by (simp add: pdiv_fits_def)
  show ?thesis
    using assms(1,2)
    apply (elim insertE emptyE)
    apply (simp_all only: sign_fits_ops opic_fold_ops op_word_ops ext_0 y if_False option.map not_True_eq_False
      not_False_eq_True fold_udiv simp_thms)
    apply (simp_all only: fold_div [OF y] d simp_thms)
    done
qed

lemma fold_map:
  assumes "sign_fits op u" "pdiv_fits op x y" "opic_fold op 31 (ext u x) (ext u y) \<noteq> None"
  shows "map_option ucast (opic_fold op 31 (ext u x) (ext u y)) = op_word op x y"
proof -
  have "op \<in> foldable" using assms(3) opic_fold_foldable by fastforce
  then consider "is_shift op" | "op \<in> {TOK_PDIV, OP_DIV, OP_MOD, TOK_UDIV, TOK_UMOD}"
    | "op \<in> {OP_ADD, OP_SUB, OP_AND, OP_XOR, OP_OR, OP_MUL}"
    | "op \<in> {TOK_ULT, TOK_UGE, TOK_EQ, TOK_NE, TOK_ULE, TOK_UGT, TOK_LT, TOK_GE, TOK_LE, TOK_GT, TOK_LAND, TOK_LOR}"
    by (auto simp: foldable_def is_shift_def)
  then show ?thesis
  proof cases
    case 1
    with assms show ?thesis by (simp add: fold_map_shift)
  next
    case 2
    with assms show ?thesis by (simp add: fold_map_div)
  next
    case 3
    then show ?thesis
      by (elim insertE emptyE)
        (simp_all only: opic_fold_ops op_word_ops option.map down_arith ucast_ext unsigned_and_eq unsigned_or_eq
          unsigned_xor_eq)
  next
    case 4
    then show ?thesis
      using assms(1)
      by (elim insertE emptyE)
        (simp_all only: sign_fits_ops opic_fold_tests op_word_ops option.map fold_truth ext_inject ext_less ext_le
          lt64 sint_ext not_less ext_0 simp_thms)
  qed
qed

section \<open>One operand known\<close>

lemma ext_cases: "ext u w = c \<Longrightarrow> w = ucast c"
  by (metis ucast_ext)

lemma sdiv_srem_1: "sdiv32 x 1 = x" "srem32 x 1 = 0"
  by (simp_all add: sdiv32_def srem32_def sgn_mult_abs)

lemma shift_0: "shift_amount 0 = 0"
  by (simp add: shift_amount_def)

lemma minus_1_down: "(ucast (- 1 :: u64) :: u32) = - 1" "(ucast (0xFFFFFFFF :: u64) :: u32) = - 1"
  by (rule bit_word_eqI, simp add: bit_simps) simp

lemma sra_minus_1: "signed_drop_bit n (- 1 :: u32) = - 1"
  by (rule bit_word_eqI) (simp add: bit_simps)

lemma absorbs_left_word:
  assumes "absorbs_left op (ext u x)"
  shows "op_word op x y = Some x"
proof -
  have "op_word op 0 y = Some 0" if "is_shift op"
    using that unfolding is_shift_def by (elim disjE) (simp_all add: op_word_ops)
  moreover have "x = - 1" if "ext u x = - 1" using ext_cases [OF that] unfolding minus_1_down .
  moreover have "op_word TOK_SAR (- 1) y = Some (- 1)" by (simp only: op_word_ops sra_minus_1)
  ultimately show ?thesis using assms unfolding absorbs_left_def by force
qed

lemma ext_known:
  "ext u w = 1 \<Longrightarrow> w = 1" "ext u w = - 1 \<or> ext u w = 0xFFFFFFFF \<Longrightarrow> w = - 1" "w = - 1 \<Longrightarrow> ext u w \<noteq> 1"
proof -
  show one: "ext u w = 1 \<Longrightarrow> w = 1" for w using ext_cases [of u w 1] by simp
  show "ext u w = - 1 \<or> ext u w = 0xFFFFFFFF \<Longrightarrow> w = - 1"
    using ext_cases [of u w "- 1"] ext_cases [of u w "0xFFFFFFFF"] unfolding minus_1_down by blast
  show "w = - 1 \<Longrightarrow> ext u w \<noteq> 1" using one [of w] by auto
qed

lemma absorbs_right_word:
  assumes "absorbs_right op t (ext u w)"
  shows "op_word op x w = Some (if ext u w = 1 then 0 else w)"
proof -
  consider "w = 0" "op = OP_AND \<or> op = OP_MUL" | "w = - 1" "op = OP_OR" "ext u w \<noteq> 1"
    | "w = 1" "ext u w = 1" "op = OP_MOD \<or> op = TOK_UMOD"
    using assms ext_known(1,2) [of u w] ext_known(3) [of w u] ext_0(1) [of u w] unfolding absorbs_right_def by blast
  then show ?thesis
    by cases (auto simp: op_word_ops sdiv_srem_1 ext_def)
qed

lemma neutral_right_word:
  assumes "neutral_right op t (ext u w)"
  shows "op_word op x w = Some x"
proof -
  consider "w = 1" "op = OP_MUL \<or> op = OP_DIV \<or> op = TOK_UDIV \<or> op = TOK_PDIV"
    | "w = 0" "op = OP_ADD \<or> op = OP_SUB \<or> op = OP_OR \<or> op = OP_XOR \<or> is_shift op"
    | "w = - 1" "op = OP_AND"
    using assms ext_known(1,2) [of u w] ext_known(3) [of w u] ext_0(1) [of u w] unfolding neutral_right_def by blast
  then show ?thesis
    by cases (auto simp: op_word_ops sdiv_srem_1 shift_0 is_shift_def)
qed

lemma op_word_commutes:
  assumes "commutes op"
  shows "op_word op x y = op_word op y x"
  using assms unfolding commutes_def
  by (elim insertE emptyE) (auto simp: op_word_ops ac_simps eq_commute [of x y])

section \<open>Nothing is generated\<close>

text \<open>The value of an operand; a value that is not constant is \<open>x\<close> when the program runs.\<close>

definition operand :: "u32 \<Rightarrow> SValue \<Rightarrow> u32" where
  "operand x v = (if is_const v then ucast (sv_ci v) else x)"

abbreviation no_call :: "'a gen_call" where "no_call \<equiv> \<lambda>_. Inl NoReturn"

definition narrow :: "SValue \<Rightarrow> bool" where
  "narrow v \<longleftrightarrow> stack_btype v \<noteq> VT_LLONG"

definition unsigned_type :: "SValue \<Rightarrow> bool" where
  "unsigned_type v \<longleftrightarrow> ct_t (sv_type v) AND VT_UNSIGNED \<noteq> 0"

lemma operand_extend:
  "narrow v \<Longrightarrow> is_const v \<Longrightarrow> opic_extend (ct_t (sv_type v)) (sv_ci v) = ext (unsigned_type v) (operand x v)"
  by (simp add: narrow_def stack_btype_def opic_extend_eq unsigned_type_def operand_def)

lemma operand_ci [simp]: "is_const (v\<lparr>sv_ci := l\<rparr>) = is_const v"
  by (simp add: is_const_def)

lemma operand_mark:
  "operand x (if sv_r v = VT_CONST then v\<lparr>sv_r := sv_r v OR (n AND VT_NONCONST)\<rparr> else v) = operand x v"
  by (simp add: operand_def is_const_def bit.conj_disj_distrib2 and.assoc)

text \<open>What remains once the constant is on top.\<close>

lemma const_on_top:
  assumes "vstack s = a # b # vs" "is_const a" "\<not> is_const b" "l = ext u (operand x a)"
  shows "absorbs_right op t l \<Longrightarrow>
      keep_right gv l s = Inr s' \<Longrightarrow>
      \<exists>v. vstack s' = v # vs \<and> op_word op (operand x b) (operand x a) = Some (operand x v)"
    and "neutral_right op t l \<Longrightarrow> drop_vtop s = Inr s' \<Longrightarrow>
      \<exists>v. vstack s' = v # vs \<and> op_word op (operand x b) (operand x a) = Some (operand x v)"
proof -
  have cmp: "sv_r a \<noteq> VT_CMP" using assms(2) by (auto simp: is_const_def)
  let ?a = "if l = 1 then a\<lparr>sv_ci := 0\<rparr> else a"
  show "\<exists>v. vstack s' = v # vs \<and> op_word op (operand x b) (operand x a) = Some (operand x v)"
    if "absorbs_right op t l"
      and "keep_right gv l s = Inr s'"
  proof -
    have "vstack s' = ?a # vs"
      using that(2) assms(1) cmp
      by (auto simp: keep_right_def set_vtop_def vswap_def vcheck_cmp_def drop_vtop_def split: if_splits)
    moreover have "operand x ?a = (if l = 1 then 0 else operand x a)"
      using assms(2) by (simp add: operand_def)
    ultimately show ?thesis
      using absorbs_right_word [of op t u "operand x a"] that(1) assms(4) by simp
  qed
  show "\<exists>v. vstack s' = v # vs \<and> op_word op (operand x b) (operand x a) = Some (operand x v)"
    if "neutral_right op t l" and "drop_vtop s = Inr s'"
  proof -
    have "vstack s' = b # vs" using that(2) assms(1) by (auto simp: drop_vtop_def)
    then show ?thesis using neutral_right_word [of op t u "operand x a"] that(1) assms(4) by simp
  qed
qed

lemma opic_simplify_word:
  assumes "opic_simplify no_call (\<lambda>_. no_call) op t2 (is_const v1) (is_const v2) l1 l2 s = Inr s'"
    and "vstack s = v2 # v1 # vs" and "\<not> (is_const v1 \<and> is_const v2)"
    and l1: "l1 = (if is_const v1 then ext u1 (operand x v1) else 0)"
    and l2: "l2 = (if is_const v2 then ext u2 (operand x v2) else 0)"
    and "\<not> has_symbol v1" "\<not> has_symbol v2"
  shows "\<exists>v. vstack s' = v # vs \<and> op_word op (operand x v1) (operand x v2) = Some (operand x v)"
proof (cases "is_const v1 \<and> commutes op")
  case True
  then have nl: "\<not> absorbs_left op l1" by (auto simp: commutes_def absorbs_left_def is_shift_def)
  let ?s = "s\<lparr>vstack := v1 # v2 # vs\<rparr>"
  have "sv_r v2 \<noteq> VT_CMP \<or> nocode_wanted s \<noteq> 0"
    using assms(1,2) True by (auto simp: opic_simplify_def Let_def vswap_def vcheck_cmp_def split: if_splits)
  then have sw: "vswap no_call s = Inr ?s"
    using assms(2) by (auto simp: vswap_def vcheck_cmp_def)
  have "absorbs_right op t2 l1 \<and> keep_right no_call l1 ?s = Inr s' \<or> neutral_right op t2 l1 \<and> drop_vtop ?s = Inr s'"
    using assms(1,7) True sw nl
    by (simp add: opic_simplify_def Let_def set_vtop_def split: if_split_asm)
  then have "\<exists>v. vstack s' = v # vs \<and> op_word op (operand x v2) (operand x v1) = Some (operand x v)"
    using const_on_top [of ?s v1 v2 vs l1 u1 x] True assms(3) l1 by auto
  then show ?thesis using op_word_commutes True by metis
next
  case False
  show ?thesis
  proof (cases "is_const v1")
    case c1: True
    then have "absorbs_left op l1 \<and> drop_vtop s = Inr s'"
      using assms(1,3) False by (simp add: opic_simplify_def Let_def set_vtop_def split: if_split_asm)
    then show ?thesis
      using absorbs_left_word [of op u1 "operand x v1"] l1 c1 assms(2) by (auto simp: drop_vtop_def)
  next
    case c1: False
    then have "is_const v2 \<and> (absorbs_right op t2 l2 \<and> keep_right no_call l2 s = Inr s' \<or> neutral_right op t2 l2 \<and> drop_vtop s = Inr s')"
      using assms(1,2,6) by (simp add: opic_simplify_def Let_def set_vtop_def split: if_split_asm)
    then show ?thesis
      using const_on_top [of s v2 v1 vs l2 u2 x] c1 assms(2) l2 by auto
  qed
qed

lemma opic_general_none: "opic_general (\<lambda>_. no_call) (\<lambda>_. no_call) t1 t2 = (\<lambda>_. no_call)"
  by (intro HOL.ext) (simp add: opic_general_def)

text \<open>
  C3: whenever gen_opic gets by without generating code, on operands of at most 32 bits of which none is
  a symbol plus a constant, the value it leaves is what the instruction gen_opi emits for the operator would
  compute from the operands, whatever
  the one that is not constant holds: folding, constants that absorb the other operand and neutral constants are
  right for every operator. TOK_PDIV is right only when no operand is negative.
\<close>

theorem gen_opic_no_code:
  assumes "gen_opic no_call (\<lambda>_. no_call) (\<lambda>_. no_call) op s = Inr s'" and "vstack s = v2 # v1 # vs"
    and "narrow v1" "narrow v2" and "unsigned_type v1 = unsigned_type v2 \<or> is_shift op"
    and "sign_fits op (unsigned_type v1)" and "\<not> has_symbol v1" "\<not> has_symbol v2"
    and "pdiv_fits op (operand x v1) (operand x v2)"
  shows "\<exists>v. vstack s' = v # vs \<and> op_word op (operand x v1) (operand x v2) = Some (operand x v)"
proof -
  let ?l = "\<lambda>v. opic_extend (ct_t (sv_type v)) (if is_const v then sv_ci v else 0)"
  have ext: "?l v = (if is_const v then ext (unsigned_type v) (operand x v) else 0)" if "narrow v" for v
  proof (cases "is_const v")
    case True
    then show ?thesis using operand_extend [OF that] by simp
  qed (simp add: opic_extend_def)
  have "\<exists>v n t. vstack t = v # vs \<and> mark_nonconst (n AND VT_NONCONST) t = Inr s' \<and>
      op_word op (operand x v1) (operand x v2) = Some (operand x v)"
  proof (cases "is_const v1 \<and> is_const v2")
    case True
    then obtain l where "opic_fold op 31 (?l v1) (?l v2) = Some l"
      and m: "mark_nonconst ((sv_r v1 OR sv_r v2) AND VT_NONCONST)
        (s\<lparr>vstack := v1\<lparr>sv_ci := opic_extend (ct_t (sv_type v1)) l\<rparr> # vs\<rparr>) = Inr s'"
      using assms(1-4)
      by (auto simp: gen_opic_def Let_def narrow_def opic_general_def split: option.splits if_splits)
    then have f: "opic_fold op 31 (ext (unsigned_type v1) (operand x v1)) (ext (unsigned_type v2) (operand x v2)) = Some l"
      using True ext [OF assms(3)] ext [OF assms(4)] by simp
    have "op_word op (operand x v1) (operand x v2) = Some (ucast l)"
    proof (cases "is_shift op")
      case True
      show ?thesis
        using fold_map_shift [OF True assms(6), where x = "operand x v1" and u' = "unsigned_type v2" and y = "operand x v2"] f
        by simp
    next
      case False
      with assms(5) have "unsigned_type v2 = unsigned_type v1" by simp
      with f fold_map [OF assms(6,9)] show ?thesis by simp
    qed
    moreover have "operand x (v1\<lparr>sv_ci := opic_extend (ct_t (sv_type v1)) l\<rparr>) = ucast l"
      using True assms(3) by (simp add: operand_def narrow_def stack_btype_def ucast_opic_extend)
    ultimately show ?thesis
      using m by (intro exI [of _ "v1\<lparr>sv_ci := opic_extend (ct_t (sv_type v1)) l\<rparr>"] exI conjI) auto
  next
    case False
    then obtain s1 where s1: "opic_simplify no_call (\<lambda>_. no_call) op (stack_btype v2) (is_const v1) (is_const v2)
        (?l v1) (?l v2) s = Inr s1" "mark_nonconst VT_NONCONST s1 = Inr s'"
      using assms(1-4)
      by (auto simp: gen_opic_def Let_def narrow_def opic_general_none bindR_Inr_iff cong: if_cong)
    have "?l v1 = (if is_const v1 then ext (unsigned_type v1) (operand x v1) else 0)"
      "?l v2 = (if is_const v2 then ext (unsigned_type v2) (operand x v2) else 0)"
      using ext assms(3,4) by blast+
    from opic_simplify_word [OF s1(1) assms(2) False this assms(7,8)] obtain v where
      "vstack s1 = v # vs" "op_word op (operand x v1) (operand x v2) = Some (operand x v)" by blast
    moreover have "mark_nonconst (VT_NONCONST AND VT_NONCONST) s1 = Inr s'" using s1(2) by simp
    ultimately show ?thesis by blast
  qed
  then obtain v n t where t: "vstack t = v # vs" "mark_nonconst (n AND VT_NONCONST) t = Inr s'"
    "op_word op (operand x v1) (operand x v2) = Some (operand x v)" by blast
  from t(1,2) have "vstack s' = (if sv_r v = VT_CONST then v\<lparr>sv_r := sv_r v OR (n AND VT_NONCONST)\<rparr> else v) # vs"
    by (auto simp: mark_nonconst_def set_vtop_def)
  then show ?thesis using t(3) operand_mark [of x v n] by auto
qed

definition int_const :: "u64 \<Rightarrow> SValue" where
  "int_const k = \<lparr>sv_type = CType VT_INT None, sv_r = VT_CONST, sv_r2 = VT_CONST, sv_ci = k, sv_sym = None,
     cmp_op = 0, cmp_r = 0\<rparr>"

definition int_loaded :: SValue where
  "int_loaded = \<lparr>sv_type = CType VT_INT None, sv_r = 3, sv_r2 = VT_CONST, sv_ci = 0, sv_sym = None,
     cmp_op = 0, cmp_r = 0\<rparr>"

lemmas int_operand_defs = int_const_def int_loaded_def is_const_def stack_btype_def narrow_def
  unsigned_type_def has_symbol_def

lemma gen_opic_no_code_witness:
  "\<exists>v. vstack (gen_start [int_const 0x1000]) = v # [] \<and>
     op_word OP_AND (operand 0xABCD (int_const 0x1234)) (operand 0xABCD (int_const 0xF000)) = Some (operand 0xABCD v)"
proof (rule gen_opic_no_code)
  show "gen_opic no_call (\<lambda>_. no_call) (\<lambda>_. no_call) OP_AND (gen_start [int_const 0xF000, int_const 0x1234]) =
      Inr (gen_start [int_const 0x1000])"
    by (simp add: gen_opic_def gen_start_def int_operand_defs opic_fold_ops opic_extend_def
      mark_nonconst_def set_vtop_def Let_def)
qed (simp_all add: gen_start_def int_operand_defs sign_fits_def pdiv_fits_def)

section \<open>Multiplication and division by powers of two\<close>

lemma log2_loop_power: "n < 64 \<Longrightarrow> log2_loop (push_bit n 1) m = m + of_nat (Suc n)"
proof (induction n arbitrary: m)
  case 0
  then show ?case by (simp add: log2_loop.simps [of 1] log2_loop.simps [of 0])
next
  case (Suc n)
  have "bit (push_bit (Suc n) (1 :: u64)) (Suc n)"
    unfolding bit_push_bit_iff using Suc.prems by simp
  then have "push_bit (Suc n) (1 :: u64) \<noteq> 0" by (metis bit_0_eq bot_apply bot_bool_def)
  moreover have "drop_bit 1 (push_bit (Suc n) 1) = (push_bit n 1 :: u64)"
    using Suc.prems by (intro bit_word_eqI) (auto simp: bit_simps)
  ultimately have "log2_loop (push_bit (Suc n) 1) m = log2_loop (push_bit n 1) (m + 1)"
    by (subst log2_loop.simps) (simp only: if_True simp_thms)
  with Suc show ?case by simp
qed

lemma odd_minus_1:
  assumes "bit l 0"
  shows "l AND (l - 1) = (l - 1 :: u64)"
proof -
  have "(l AND NOT 1) + 1 = (l AND NOT 1) OR 1"
    by (rule disjunctive_add_eq_or) (simp add: and.assoc)
  also have "\<dots> = l" using assms by (intro bit_word_eqI) (auto simp: bit_simps)
  finally have "l - 1 = l AND NOT 1" by (simp add: diff_eq_eq)
  then show ?thesis by (simp add: and.assoc [symmetric])
qed

lemma even_minus_1:
  assumes "\<not> bit l 0" "l \<noteq> 0"
  shows "drop_bit 1 (l - 1) = drop_bit 1 l - 1" "l = (push_bit 1 (drop_bit 1 l) :: u64)"
proof -
  show l: "l = push_bit 1 (drop_bit 1 l)"
  proof (rule bit_word_eqI)
    fix n
    assume "n < LENGTH(64)"
    then show "bit l n = bit (push_bit 1 (drop_bit 1 l)) n"
      using assms(1) by (cases n) (simp_all add: bit_push_bit_iff bit_drop_bit_eq del: bit_0)
  qed
  have "\<not> bit (unat l) 0" using assms(1) by (simp only: bit_unsigned_iff) simp
  then have e: "even (unat l)" by (simp add: bit_0)
  have p: "0 < unat l" using assms(2) by (simp add: unat_gt_0)
  with e have k: "0 < unat l div 2" by (auto elim!: evenE)
  then have "drop_bit 1 l \<noteq> 0" by (auto simp: unat_drop_bit simp flip: unat_gt_0)
  then have "unat (drop_bit 1 l - 1) = unat l div 2 - 1" by (simp add: unat_minus_one unat_drop_bit)
  moreover have "unat (drop_bit 1 (l - 1)) = (unat l - 1) div 2"
    using assms(2) by (simp add: unat_drop_bit unat_minus_one)
  moreover have "(unat l - 1) div 2 = unat l div 2 - 1" using e p by (auto elim!: evenE)
  ultimately show "drop_bit 1 (l - 1) = drop_bit 1 l - 1" by (simp add: word_unat_eq_iff)
qed

lemma power2_push: "is_power2 l \<Longrightarrow> \<exists>n < 64. l = push_bit n 1"
proof (induction "unat l" arbitrary: l rule: less_induct)
  case less
  then have l0: "l \<noteq> 0" by (auto simp: is_power2_def)
  show ?case
  proof (cases "bit l 0")
    case True
    then have "l = 1" using less.prems odd_minus_1 [of l] by (simp add: is_power2_def)
    then show ?thesis by (intro exI [of _ 0]) simp
  next
    case False
    note ev = even_minus_1 [OF False l0]
    let ?k = "drop_bit 1 l"
    have "?k AND (?k - 1) = drop_bit 1 (l AND (l - 1))" by (simp only: ev(1) [symmetric] drop_bit_and)
    moreover have "l AND (l - 1) = 0" using less.prems by (simp add: is_power2_def)
    ultimately have k: "?k AND (?k - 1) = 0" by (simp only: drop_bit_of_0)
    have k0: "?k \<noteq> 0" using ev(2) l0 by (metis push_bit_of_0)
    have "unat ?k < unat l" using l0 by (simp add: unat_drop_bit unat_gt_0)
    moreover have "is_power2 ?k" using k k0 by (simp add: is_power2_def word_neq_0_conv)
    ultimately obtain n where n: "n < 64" "?k = push_bit n 1" using less.hyps by blast
    have "l = push_bit 1 (push_bit n 1)" using ev(2) unfolding n(2) .
    then have l: "l = push_bit (Suc n) 1" by (simp only: push_bit_push_bit plus_1_eq_Suc)
    have "Suc n \<noteq> 64"
    proof
      assume "Suc n = 64"
      then have "l = push_bit 64 1" using l by simp
      then show False using l0 by simp
    qed
    then show ?thesis using l n(1) by (intro exI [of _ "Suc n"]) simp
  qed
qed

lemma power2_word:
  assumes "is_power2 (ext u w)"
  shows "\<exists>n < 32. ext u w = push_bit n 1 \<and> w = push_bit n 1 \<and> log2_loop (ext u w) (- 1) = of_nat n"
proof -
  obtain n where n: "n < 64" "ext u w = push_bit n 1" using power2_push [OF assms] by blast
  have w: "w = push_bit n 1"
    using ext_cases [OF n(2)] by (intro bit_word_eqI) (auto simp: bit_simps)
  moreover have "n < 32"
  proof (rule ccontr)
    assume "\<not> n < 32"
    then have "w = 0" unfolding w by (intro bit_word_eqI) (auto simp: bit_simps)
    then show False using assms by (simp add: is_power2_def)
  qed
  moreover have "log2_loop (ext u w) (- 1) = of_nat n" using log2_loop_power [OF n(1), of "- 1"] n(2) by simp
  ultimately show ?thesis using n(2) by blast
qed


lemma shift_amount_nat: "n < 32 \<Longrightarrow> shift_amount (of_nat n) = n"
proof -
  assume n: "n < 32"
  have "unat (take_bit 5 (of_nat n :: u32)) = take_bit 5 (unat (of_nat n :: u32))" by (rule unsigned_take_bit_eq)
  also have "\<dots> = n" using n by (simp add: unat_of_nat take_bit_nat_eq_self)
  finally show ?thesis by (simp add: shift_amount_def)
qed

text \<open>
  C23: a multiplication or an unsigned division by a power of two goes to the code generator as a
  shift by the right amount: the shift computes the same word.
\<close>

theorem gen_opic_power2:
  assumes "vstack s = v2 # v1 # vs" and "\<not> is_const v1" "is_const v2" and "narrow v1" "narrow v2"
    and "op = OP_MUL \<or> op = TOK_UDIV" and "l = opic_extend (ct_t (sv_type v2)) (sv_ci v2)"
    and "is_power2 l" and "l \<noteq> 1"
  shows "\<exists>n. gen_opic gv gi gl op s =
      bindR (gi (shift_for op) (s\<lparr>vstack := v2\<lparr>sv_ci := of_nat n\<rparr> # v1 # vs\<rparr>)) (mark_nonconst VT_NONCONST) \<and>
    op_word (shift_for op) x (of_nat n) = op_word op x (operand x v2)"
proof -
  have l: "l = ext (unsigned_type v2) (operand x v2)"
    using operand_extend [OF assms(5,3)] assms(7) by simp
  obtain n where n: "n < 32" "operand x v2 = push_bit n 1" "log2_loop l (- 1) = of_nat n"
    using power2_word assms(8) unfolding l by blast
  have nz: "l \<noteq> 0" using assms(8) by (auto simp: is_power2_def)
  have ci: "scast (of_nat n :: u32) = (of_nat n :: u64)"
  proof -
    have s: "sint (of_nat n :: u32) = int n" using n(1) by (subst sint_unat) (simp_all add: unat_of_nat)
    have "scast (of_nat n :: u32) = (word_of_int (sint (of_nat n :: u32)) :: u64)" by simp
    then show ?thesis unfolding s by (simp only: of_int_of_nat_eq)
  qed
  have no: "\<not> absorbs_right op (stack_btype v2) l" "\<not> neutral_right op (stack_btype v2) l"
    using assms(6,9) nz by (auto simp: absorbs_right_def neutral_right_def is_shift_def)
  have "gen_opic gv gi gl op s =
      bindR (gi (shift_for op) (s\<lparr>vstack := v2\<lparr>sv_ci := of_nat n\<rparr> # v1 # vs\<rparr>)) (mark_nonconst VT_NONCONST)"
    using assms(1-8) no n(3) ci
    by (auto simp: gen_opic_def opic_simplify_def opic_general_def narrow_def set_vtop_def Let_def)
  moreover have "op_word (shift_for op) x (of_nat n) = op_word op x (operand x v2)"
    using assms(6) n nz l by (auto simp: shift_for_def op_word_ops shift_amount_nat push_bit_eq_mult drop_bit_eq_div)
  ultimately show ?thesis by blast
qed

lemma gen_opic_power2_witness:
  "\<exists>n. gen_opic Inr (\<lambda>_. Inr) (\<lambda>_. Inr) OP_MUL (gen_start [int_const 8, int_loaded]) =
      bindR ((\<lambda>_. Inr) (shift_for OP_MUL) ((gen_start [int_const 8, int_loaded])\<lparr>vstack :=
        (int_const 8)\<lparr>sv_ci := of_nat n\<rparr> # int_loaded # []\<rparr>)) (mark_nonconst VT_NONCONST) \<and>
    op_word (shift_for OP_MUL) 5 (of_nat n) = op_word OP_MUL 5 (operand 5 (int_const 8))"
  by (rule gen_opic_power2 [of _ _ _ _ _ 8])
    (simp_all add: gen_start_def int_operand_defs opic_extend_def is_power2_def)

end
