(* ===== verification/Riscv_Frame.thy ===== *)
theory Riscv_Frame
  imports Reg_Alloc
begin

text \<open>
  Function frames and calls of riscv32-gen.c: how a type is passed (reg_pass), the entry and the
  exit of a function (gfunc_prolog, gfunc_epilog), calls and indirect jumps (gcall_or_jmp, the
  stack space gfunc_call takes), and the stack pointer of variable-length arrays. Bounds checking
  is off.
\<close>

text \<open>
  The statics of the file, and what gfunc_prolog tells the rest of the compiler through sym_push:
  the type, location flags and offset of each parameter.
\<close>

record frame_state = gen_state +
  func_sub_sp_offset :: nat
  num_va_regs :: u32
  func_va_list_ofs :: u32
  params :: "(ctype \<times> u16 \<times> u32) list"

abbreviation (input) XLEN :: u32 where "XLEN \<equiv> 4"
abbreviation (input) VT_UNION :: u32 where "VT_UNION \<equiv> 0x100007"
abbreviation (input) R_RISCV_CALL_PLT :: nat where "R_RISCV_CALL_PLT \<equiv> 19"

section \<open>How a type is passed\<close>

text \<open>
  \<open>rc\<close> is the array prc: the number of registers and their classes; \<open>fo\<close> is fieldofs. The
  number is -1 once the type cannot be passed field by field.
\<close>

type_synonym passing = "u32 list \<times> u32 list"

text \<open>rc[++rc[0]] and fieldofs[rc[0]].\<close>

definition add_reg :: "u32 \<Rightarrow> u32 \<Rightarrow> passing \<Rightarrow> passing res" where
  "add_reg cls f p = (case p of (rc, fo) \<Rightarrow>
     let n = unat (rc ! 0 + 1); rc' = rc[0 := rc ! 0 + 1, n := cls] in
     if n < 3 \<and> unat (rc' ! 0) < 3 then Inr (rc', fo[unat (rc' ! 0) := f]) else Inl MemFault)"

definition not_by_fields :: "passing \<Rightarrow> passing" where
  "not_by_fields p = (case p of (rc, fo) \<Rightarrow> (rc[0 := - 1], fo))"

definition pass_scalar :: "u32 \<Rightarrow> u32 \<Rightarrow> passing \<Rightarrow> passing res" where
  "pass_scalar t ofs p = (case p of (rc, fo) \<Rightarrow>
     let bt = t AND VT_BTYPE in
     if rc ! 0 = 2 \<or> sint (rc ! 0) < 0 \<or> bt = VT_LDOUBLE then Inr (not_by_fields p)
     else if rc ! 0 = 0 \<or> rc ! 1 = RC_FLOAT \<or> is_float t then
       add_reg (if is_float t then RC_FLOAT else RC_INT)
         (push_bit 4 ofs OR (if bt = VT_PTR then VT_LLONG else bt)) p
     else Inr (not_by_fields p))"

text \<open>The second element of a two-element array, after the first was passed.\<close>

definition pass_second :: "u32 \<Rightarrow> u32 \<Rightarrow> u32 \<Rightarrow> u32 \<Rightarrow> passing \<Rightarrow> passing res" where
  "pass_second c sz et ofs p = (case p of (rc, fo) \<Rightarrow>
     if sint (rc ! 0) > 2 \<or> (rc ! 0 = 2 \<and> sint c > 1) then Inr (not_by_fields p)
     else if c = 2 \<and> rc ! 0 \<noteq> 0 \<and> rc ! 1 = RC_FLOAT
     then add_reg RC_FLOAT (push_bit 4 (ofs + sz) OR (et AND VT_BTYPE)) p
     else if c = 2 then Inr (not_by_fields p) else Inr p)"

fun reg_pass_rec :: "ctype \<Rightarrow> u32 \<Rightarrow> passing \<Rightarrow> passing res"
  and reg_pass_fields :: "tsym option \<Rightarrow> u32 \<Rightarrow> passing \<Rightarrow> passing res" where
  "reg_pass_rec (CType t (Some (TSym ty r c nx))) ofs p =
     (if t AND VT_BTYPE = VT_STRUCT then
        (if ct_t ty = VT_UNION then Inr (not_by_fields p) else reg_pass_fields nx ofs p)
      else if t AND VT_ARRAY \<noteq> 0 then
        (if sint c < 0 \<or> sint c > 2 then Inr (not_by_fields p)
         else bindR (type_size ty) (\<lambda>(sz, a).
           bindR (reg_pass_rec ty ofs p) (pass_second c sz (ct_t ty) ofs)))
      else pass_scalar t ofs p)"
| "reg_pass_rec (CType t None) ofs p =
     (if t AND VT_BTYPE = VT_STRUCT \<or> t AND VT_ARRAY \<noteq> 0 then Inl MemFault
      else pass_scalar t ofs p)"
| "reg_pass_fields None ofs p = Inr p"
| "reg_pass_fields (Some (TSym ty r c nx)) ofs p =
     bindR (reg_pass_rec ty (ofs + c) p) (reg_pass_fields nx ofs)"

text \<open>The basic type of the \<open>n\<close>-th eight bytes of an object of size \<open>sz\<close>.\<close>

definition chunk_type :: "u32 \<Rightarrow> u32 \<Rightarrow> u32" where
  "chunk_type base sz =
     (if sint sz \<le> sint (base + 1) then VT_BYTE else if sint sz \<le> sint (base + 2) then VT_SHORT
      else if sint sz \<le> sint (base + 4) then VT_INT else VT_LLONG)"

definition reg_pass :: "ctype \<Rightarrow> bool \<Rightarrow> passing \<Rightarrow> passing res" where
  "reg_pass ty named p0 = (case p0 of (rc0, fo0) \<Rightarrow>
     bindR (reg_pass_rec ty 0 (rc0[0 := 0], fo0)) (\<lambda>(rc, fo).
     if sint (rc ! 0) \<le> 0 \<or> \<not> named then
       bindR (type_size ty) (\<lambda>(sz, a).
         Inr ([signed_drop_bit 3 (sz + 7), RC_INT, RC_INT],
              [fo ! 0, chunk_type 0 sz, push_bit 4 8 OR chunk_type 8 sz]))
     else Inr (rc, fo)))"

section \<open>Entry\<close>

definition char_pointer_type :: ctype where
  "char_pointer_type = CType VT_PTR (Some (TSym (CType VT_BYTE None) 0 0xFFFFFFFF None))"

text \<open>The registers used so far: integer registers, floating-point registers, stack bytes.\<close>

type_synonym arg_regs = "u32 \<times> u32 \<times> u32"

definition no_regs_left :: "u32 list \<Rightarrow> arg_regs \<Rightarrow> bool" where
  "no_regs_left prc ar = (case ar of (ai, af, addr) \<Rightarrow>
     let areg = (\<lambda>cls. if cls = RC_INT then ai else af) in
     sint (areg (prc ! 1)) \<ge> 8 \<or>
     (prc ! 0 = 2 \<and>
       ((prc ! 1 = RC_FLOAT \<and> prc ! 2 = RC_FLOAT \<and> sint af \<ge> 7) \<or>
        (prc ! 1 \<noteq> prc ! 2 \<and> (sint af \<ge> 8 \<or> sint ai \<ge> 8)))))"

text \<open>The loop that stores the registers of one parameter into its local; \<open>n\<close> counts them down.\<close>

fun store_param :: "nat \<Rightarrow> u32 \<Rightarrow> u32 list \<Rightarrow> arg_regs \<Rightarrow> 'a gen_state_scheme \<Rightarrow>
    (arg_regs \<times> 'a gen_state_scheme) res" where
  "store_param 0 i prc ar s = Inr (ar, s)"
| "store_param (Suc n) i prc (ai, af, addr) s =
     (if sint (if prc ! unat (1 + i) = RC_INT then ai else af) \<ge> 8 then
        bindR (assertR (i = 1 \<and> prc ! 0 = 2 \<and> addr AND 7 = 0)) (\<lambda>_.
        store_param n (i + 1) prc (ai, af, addr + XLEN)
          (emit_SW 8 5 (loc s + i * 4) (emit_LW 5 8 addr s)))
      else if prc ! unat (1 + i) = RC_FLOAT then Inl (TccError ''unimp: floating point support'')
      else bindR (ireg ai) (\<lambda>a.
        store_param n (i + 1) prc (ai + 1, af, addr) (emit_SW 8 a (loc s + i * XLEN) s)))"

definition define_param :: "ctype \<Rightarrow> arg_regs \<Rightarrow> 'a frame_state_scheme \<Rightarrow>
    (arg_regs \<times> 'a frame_state_scheme) res" where
  "define_param ty0 ar s =
     bindR (type_size ty0) (\<lambda>(size0, align0).
     let byref = sint size0 > 8;
         ty = (if byref then char_pointer_type else ty0);
         sz = (if byref then 8 else size0); al = (if byref then 8 else align0);
         push = (\<lambda>a s. s\<lparr>params := params s @
           [(ty0, (if byref then VT_LLOCAL else VT_LOCAL) OR VT_LVAL, a)]\<rparr>) in
     bindR (reg_pass ty True ([0, 0, 0], [0, 0, 0])) (\<lambda>(prc, fo).
     if no_regs_left prc ar then
       (case ar of (ai, af, addr0) \<Rightarrow>
         let al1 = (if sint al < 4 then XLEN else al);
             addr = (addr0 + al1 - 1) AND - al1 in
         Inr ((ai, af, addr + sz), push addr s))
     else
       (let s1 = s\<lparr>loc := loc s - prc ! 0 * 8\<rparr> in
        bindR (store_param (if sint (prc ! 0) < 0 then 0 else unat (prc ! 0)) 0 prc ar s1) (\<lambda>(ar1, s2).
          Inr (ar1, push (loc s1) s2)))))"

fun define_params :: "tsym option \<Rightarrow> arg_regs \<Rightarrow> 'a frame_state_scheme \<Rightarrow>
    (arg_regs \<times> 'a frame_state_scheme) res" where
  "define_params None ar s = Inr (ar, s)"
| "define_params (Some (TSym ty r c nx)) ar s =
     bindR (define_param ty ar s) (\<lambda>(ar1, s1). define_params nx ar1 s1)"

lemma sint_of_int_small:
  "- 2147483648 \<le> i \<Longrightarrow> i < 2147483648 \<Longrightarrow> sint (word_of_int i :: u32) = i"
  unfolding sint_sbintrunc' by (intro signed_take_bit_int_eq_self) simp_all

text \<open>The registers a variadic function saves; \<open>a\<close> runs from the first unused one to 8.\<close>

function save_va_regs :: "u32 \<Rightarrow> 'a frame_state_scheme \<Rightarrow> 'a frame_state_scheme res" where
  "save_va_regs a s =
     (if sint a < 8 then
        (let n = num_va_regs s + 1; s1 = s\<lparr>num_va_regs := n\<rparr> in
         bindR (ireg a) (\<lambda>r. save_va_regs (a + 1) (emit_SW 8 r (- 8 + n * 8) s1)))
      else Inr s)"
  by pat_completeness auto
termination
proof (relation "measure (\<lambda>(a, s). nat (8 - sint a))", simp)
  fix a n x :: u32 and s s1 :: "'a frame_state_scheme"
  assume a: "sint a < 8"
  have "sint (word_of_int (sint a + 1) :: u32) = sint a + 1"
    using a sint_ge [of a] by (intro sint_of_int_small) simp_all
  then have "sint (a + 1) = sint a + 1" by simp
  with a show "((a + 1, emit_SW 8 x (- 8 + n * 8) s1), a, s) \<in> measure (\<lambda>(a, s). nat (8 - sint a))"
    by simp
qed

declare save_va_regs.simps [simp del]

text \<open>
  gfunc_prolog, for the function type \<open>fty\<close>, the return type \<open>vt\<close> (func_vt) and whether the
  function is variadic (func_var). The space of five instructions is filled by gfunc_epilog.
\<close>

definition gfunc_prolog :: "ctype \<Rightarrow> ctype \<Rightarrow> bool \<Rightarrow> 'a frame_state_scheme \<Rightarrow>
    'a frame_state_scheme res" where
  "gfunc_prolog fty vt variadic s =
     (case ct_ref fty of None \<Rightarrow> Inl MemFault
      | Some (TSym ty r c nx) \<Rightarrow>
        (let s1 = s\<lparr>loc := - 16, func_sub_sp_offset := ind s, ind := ind s + 5 * 4\<rparr> in
         bindR (type_size vt) (\<lambda>(sz, al).
         if sint sz > 8
         then Inl (InternalError ''I don't think we are handling this case correctly'')
         else bindR (define_params nx (0, 0, 0) s1) (\<lambda>((ai, af, addr), s2).
           let s3 = s2\<lparr>func_va_list_ofs := addr, num_va_regs := 0\<rparr> in
           if variadic then save_va_regs ai s3 else Inr s3))))"

section \<open>Exit\<close>

text \<open>
  The frame size v, and whether it is too large for one ADDI. A large frame is entered with the
  16 bytes for ra and s0 first; the rest of the entry stands after the exit.
\<close>

definition frame_size :: "'a frame_state_scheme \<Rightarrow> u32" where
  "frame_size s = (- loc s + 15) AND - 16"

definition gfunc_epilog :: "'a frame_state_scheme \<Rightarrow> 'a frame_state_scheme" where
  "gfunc_epilog s0 =
     (let n = num_va_regs s0 * 4;
          s = s0\<lparr>loc := loc s0 - n\<rparr>;
          v = frame_size s;
          large = sint v \<ge> 2048;
          d = (if large then 16 else v);
          s1 = (if large then emit_ADD 2 2 5 (emit_LI 5 v s) else s);
          s2 = emit_RET (emit_ADDI 2 2 d (emit_LW 8 2 (d - 2 * 4 - n) (emit_LW 1 2 (d - 4 - n) s1)));
          large_ofs_ind = ind s2;
          p = func_sub_sp_offset s0;
          s3 = (if large
                then gjmp_addr (of_nat (p + 5 * 4)) (emit_SUB 2 2 5 (emit_LI 5 v (emit_ADDI 8 2 (d - n) s2)))
                else s2);
          s4 = emit_SW 2 8 (d - 2 * 4 - n) (emit_SW 2 1 (d - 4 - n) (emit_ADDI 2 2 (- d) (s3\<lparr>ind := p\<rparr>)));
          s5 = (if large then gjmp_addr (of_nat large_ofs_ind) s4 else emit_ADDI 8 2 (d - n) s4);
          s6 = (if ind s5 - p \<noteq> 5 * 4 then emit_NOP s5 else s5)
      in s6\<lparr>ind := ind s3\<rparr>)"

section \<open>Calls\<close>

text \<open>A call, or a jump to a computed address, to the value on top of the stack.\<close>

definition gcall_or_jmp :: "nat \<Rightarrow> bool \<Rightarrow> 'a gen_call" where
  "gcall_or_jmp k docall s =
     bindR (vtop s) (\<lambda>v.
     let tr = (if docall then 1 else 5); i = ucast (sv_ci v) :: u32 in
     if sv_r v AND (VT_VALMASK OR VT_LVAL) = VT_CONST \<and> sv_r v AND VT_SYM \<noteq> 0 \<and> sv_ci v = scast i
     then Inr (emit_JALR tr tr 0 (emit_AUIPC tr 0 (greloca (sv_sym v) R_RISCV_CALL_PLT i s)))
     else if sv_r v < VT_CONST then bindR (ireg (ucast (sv_r v))) (\<lambda>r. Inr (emit_JALR tr r 0 s))
     else bindR (load k 17 v s) (\<lambda>(v1, s1).
       bindR (set_vtop (\<lambda>_. v1) s1) (\<lambda>s2.
       bindR (ireg 17) (\<lambda>r. Inr (emit_JALR tr r 0 s2)))))"

definition ggoto :: "nat \<Rightarrow> 'a gen_call" where
  "ggoto k s = bindR (gcall_or_jmp k False s) drop_vtop"

text \<open>The stack space gfunc_call takes before it passes the arguments, and gives back afterwards.\<close>

definition call_space :: "u32 \<Rightarrow> 'a emit_state_scheme \<Rightarrow> 'a emit_state_scheme" where
  "call_space a s =
     (if a = 0 then s
      else if sint a \<ge> 0x1000
      then emit_ADD 2 2 5 (emit_ADDI 5 5 (IMM_LOW (- a)) (emit_LUI 5 (IMM_HIGH (- a)) s))
      else emit_ADDI 2 2 (IMM_LOW (- a)) s)"

definition call_space_back :: "u32 \<Rightarrow> 'a emit_state_scheme \<Rightarrow> 'a emit_state_scheme" where
  "call_space_back a s =
     (if a = 0 then s
      else if sint a \<ge> 0x1000
      then emit_ADD 2 2 5 (emit_ADDI 5 5 (IMM_LOW a) (emit_LUI 5 (IMM_HIGH a) s))
      else emit_ADDI 2 2 a s)"

text \<open>
  How gfunc_sret returns a structure: the number of registers (0 in memory, -1 not possible),
  the type of each of them, the alignment and the register size.
\<close>

definition gfunc_sret :: "ctype \<Rightarrow> (u32 \<times> u32 option \<times> u32 \<times> u32) res" where
  "gfunc_sret vt =
     bindR (type_size vt) (\<lambda>(sz, al).
     if sint sz > 16 then Inr (0, None, 1, 8)
     else bindR (reg_pass vt True ([0, 0, 0], [0, 0, 0])) (\<lambda>(prc, fo).
       if prc ! 0 = 2 \<and> prc ! 1 \<noteq> prc ! 2 then Inr (- 1, None, 1, 8)
       else Inr (prc ! 0, Some (fo ! 1 AND VT_BTYPE), 1,
         if prc ! 1 = RC_FLOAT then sz div (prc ! 0) else 8)))"

section \<open>Variable-length arrays\<close>

text \<open>\<open>gv\<close> is the call vset may make to settle a pending comparison.\<close>

definition gen_va_start :: "('a frame_state_scheme \<Rightarrow> 'a frame_state_scheme res) \<Rightarrow>
    'a frame_state_scheme \<Rightarrow> 'a frame_state_scheme res" where
  "gen_va_start gv s =
     bindR (drop_vtop s) (\<lambda>s1. vset gv char_pointer_type VT_LOCAL (func_va_list_ofs s1) s1)"

definition gen_vla_sp_save :: "u32 \<Rightarrow> 'a emit_state_scheme \<Rightarrow> 'a emit_state_scheme" where
  "gen_vla_sp_save addr = emit_SW 8 2 addr"

definition gen_vla_sp_restore :: "u32 \<Rightarrow> 'a emit_state_scheme \<Rightarrow> 'a emit_state_scheme" where
  "gen_vla_sp_restore addr = emit_LW 2 8 addr"

text \<open>\<open>gv\<close> puts the top value into an integer register, whose number it returns.\<close>

definition gen_vla_alloc :: "nat \<Rightarrow>
    ('a gen_state_scheme \<Rightarrow> (u32 \<times> 'a gen_state_scheme) res) \<Rightarrow> 'a gen_call" where
  "gen_vla_alloc k gv s =
     bindR (gv s) (\<lambda>(r, s1). bindR (ireg r) (\<lambda>rr.
     bindR (EI 0x13 0 rr rr 15 s1) (\<lambda>s2.
     bindR (EI 0x13 7 rr rr (- 16) s2) (\<lambda>s3.
     vpop k (ER 0x33 0 2 2 rr 0x20 s3)))))"

end
