(* ===== verification/Riscv_Frame_Props.thy ===== *)
theory Riscv_Frame_Props
  imports Riscv_Frame Riscv_Run
begin

text \<open>
  The entry and the exit of a function fit together: the five words gfunc_prolog left room for set
  up the frame, and the words gfunc_epilog appends give back the stack pointer, the frame pointer
  and the return address, for small frames and for those entered through the code after the exit.
\<close>

section \<open>Straight-line code in place\<close>

text \<open>Words after which the next instruction follows.\<close>

definition falls_through :: "u32 \<Rightarrow> bool" where
  "falls_through w \<longleftrightarrow> (\<forall>c c'. run [w] c = Some c' \<longrightarrow> pc c' = pc c + 4)"

lemma run_Cons: "run (w # ws) c = (case run [w] c of None \<Rightarrow> None | Some c1 \<Rightarrow> run ws c1)"
  by (simp add: run.simps split: option.splits)

lemma run_Cons2: "run [w] c = Some c1 \<Longrightarrow> run (w # v # ws) c = run (v # ws) c1"
  by (simp add: run_Cons [of w "v # ws"])

lemma falls_throughI: "(\<And>c. \<exists>c'. run [w] c = Some c' \<and> pc c' = pc c + 4) \<Longrightarrow> falls_through w"
  unfolding falls_through_def by (metis option.inject)

lemma falls_through_words [simp]:
  "fits_in 5 rs \<Longrightarrow> fits_in 5 rd \<Longrightarrow> falls_through (insn_I imm rs 0 rd 0x13)"
  "fits_in 5 rs \<Longrightarrow> fits_in 5 rd \<Longrightarrow> falls_through (insn_I imm rs (load_funct3 l) rd 0x03)"
  "fits_in 5 a \<Longrightarrow> fits_in 5 b \<Longrightarrow> falls_through (insn_S imm b a (store_funct3 t) 0x23)"
  "fits_in 5 rd \<Longrightarrow> falls_through (insn_U imm rd 0x37)"
  "fits_in 5 a \<Longrightarrow> fits_in 5 b \<Longrightarrow> fits_in 5 rd \<Longrightarrow> falls_through (insn_R 0 b a 0 rd 0x33)"
  "fits_in 5 a \<Longrightarrow> fits_in 5 b \<Longrightarrow> fits_in 5 rd \<Longrightarrow> falls_through (insn_R 0x20 b a 0 rd 0x33)"
  by (auto intro!: falls_throughI simp: run_ADDI run_load run_store run_LUI run_op [of _ _ _ _ _ Add]
      run_op [of _ _ _ _ _ Sub] fits decode_op_def)

lemma run_at_words:
  assumes "code_words s q (length ws) = ws" and "list_all falls_through ws"
    and "pc c = base + of_nat q" and "q + 4 * length ws < 2 ^ 32" and "run ws c = Some c'"
  shows "run_at (length ws + n) s base c = run_at n s base c'" and "pc c' = base + of_nat (q + 4 * length ws)"
proof -
  have "run_at (length ws + n) s base c = run_at n s base c' \<and> pc c' = base + of_nat (q + 4 * length ws)"
    using assms
  proof (induction ws arbitrary: q c)
    case Nil
    then show ?case by simp
  next
    case (Cons w ws)
    obtain c1 where c1: "run [w] c = Some c1" "run ws c1 = Some c'"
      using Cons.prems(5) unfolding run_Cons [of w ws] by (auto split: option.splits)
    have w: "code_word s q = w" "code_words s (q + 4) (length ws) = ws"
      using Cons.prems(1) unfolding code_words_def
      by (simp_all add: upt_conv_Cons map_Suc_upt [symmetric] comp_def algebra_simps del: upt_Suc)
    have "pc c1 = pc c + 4" using Cons.prems(2) c1(1) by (simp add: falls_through_def)
    then have pc1: "pc c1 = base + of_nat (q + 4)" using Cons.prems(3) by simp
    show ?case
      using Cons.IH [of "q + 4" c1] Cons.prems c1 w pc1
      by (simp add: run_at_1 [OF Cons.prems(3)] algebra_simps)
  qed
  then show "run_at (length ws + n) s base c = run_at n s base c'" "pc c' = base + of_nat (q + 4 * length ws)"
    by simp_all
qed

section \<open>Writing code at an earlier place\<close>

lemma patch_code:
  assumes "nocode_wanted t = 0" and "p + 4 * length ws \<le> data_allocated (text_sec t)"
  shows "\<exists>d. fold o_insn ws (t\<lparr>ind := p\<rparr>) = (set_text (\<lambda>_. d) t)\<lparr>ind := p + 4 * length ws\<rparr> \<and>
    length d = data_allocated (text_sec t) \<and>
    (\<forall>q. q + 4 \<le> p \<or> p + 4 * length ws \<le> q \<longrightarrow> read32le d q = code_word t q)"
  using assms
proof (induction ws arbitrary: t p)
  case Nil
  then show ?case by (intro exI [of _ "sdata (text_sec t)"]) (simp add: code_word_def set_text_def)
next
  case (Cons w ws)
  let ?t = "set_text (\<lambda>d. write32le d p w) t"
  from Cons.IH [of ?t "p + 4"] Cons.prems obtain d where
    "fold o_insn ws (?t\<lparr>ind := p + 4\<rparr>) = (set_text (\<lambda>_. d) ?t)\<lparr>ind := p + 4 + 4 * length ws\<rparr>"
    "length d = data_allocated (text_sec t)"
    "\<forall>q. q + 4 \<le> p + 4 \<or> p + 4 + 4 * length ws \<le> q \<longrightarrow> read32le d q = code_word ?t q"
    by auto
  with Cons.prems show ?case
    by (intro exI [of _ d]) (auto simp: o_insn_at comp_def read32le_write32le_other code_word_def)
qed

lemma patched_code:
  assumes "emitting t" and "p + 4 * length ws \<le> ind t"
    and "s' = (fold o_insn ws ((fold o_insn us t)\<lparr>ind := p\<rparr>))\<lparr>ind := i\<rparr>"
  shows "code_words s' p (length ws) = ws" and "code_words s' (ind t) (length us) = us"
proof -
  let ?t = "fold o_insn us t"
  have em: "emitting ?t" by (rule tsink.active_fold [OF assms(1)])
  have i: "ind ?t = ind t + 4 * length us" by (rule tsink.pos_fold [OF assms(1)])
  have em2: "emitting (?t\<lparr>ind := p\<rparr>)" using em i assms(2) by (simp add: emitting_def)
  show "code_words s' p (length ws) = ws"
    using tsink.words_fold [OF em2, of ws] assms(3) by (simp add: code_words_def)
  have "nocode_wanted ?t = 0" "p + 4 * length ws \<le> data_allocated (text_sec ?t)"
    using em i assms(2) by (simp_all add: emitting_def)
  from patch_code [OF this] obtain d where
    d: "fold o_insn ws (?t\<lparr>ind := p\<rparr>) = (set_text (\<lambda>_. d) ?t)\<lparr>ind := p + 4 * length ws\<rparr>"
    and old: "\<And>q. p + 4 * length ws \<le> q \<Longrightarrow> read32le d q = code_word ?t q" by blast
  have "code_words s' (ind t) (length us) = code_words ?t (ind t) (length us)"
    unfolding code_words_def assms(3) d using assms(2) by (intro map_cong refl) (simp add: old)
  also have "\<dots> = us" using tsink.words_fold [OF assms(1), of us] by (simp add: code_words_def)
  finally show "code_words s' (ind t) (length us) = us" .
qed

lemma code_words_parts:
  assumes "code_words s q (length (us @ vs)) = us @ vs"
  shows "code_words s q (length us) = us" and "code_words s (q + 4 * length us) (length vs) = vs"
proof -
  have w: "code_word s (q + 4 * i) = (us @ vs) ! i" if "i < length us + length vs" for i
    using arg_cong [OF assms, of "\<lambda>l. l ! i"] that by (simp add: code_words_def)
  show "code_words s q (length us) = us"
    by (rule nth_equalityI) (simp_all add: code_words_def w nth_append)
  show "code_words s (q + 4 * length us) (length vs) = vs"
  proof (rule nth_equalityI)
    fix i assume "i < length (code_words s (q + 4 * length us) (length vs))"
    then have i: "i < length vs" by (simp add: code_words_def)
    with w [of "length us + i"] show "code_words s (q + 4 * length us) (length vs) ! i = vs ! i"
      by (simp add: code_words_def algebra_simps nth_append)
  qed (simp add: code_words_def)
qed

section \<open>The words of entry and exit\<close>

text \<open>Frame size and the bytes of the register save area of a variadic function.\<close>

definition epilog_size :: "'a frame_state_scheme \<Rightarrow> u32" where
  "epilog_size s = frame_size (s\<lparr>loc := loc s - num_va_regs s * 4\<rparr>)"

definition va_bytes :: "'a frame_state_scheme \<Rightarrow> u32" where
  "va_bytes s = num_va_regs s * 4"

definition restore_words :: "u32 \<Rightarrow> u32 \<Rightarrow> u32 list" where
  "restore_words d n =
     [insn_I (d - 4 - n) 2 (load_funct3 Lw) 1 0x03, insn_I (d - 2 * 4 - n) 2 (load_funct3 Lw) 8 0x03,
      insn_I d 2 0 2 0x13]"

definition save_words :: "u32 \<Rightarrow> u32 \<Rightarrow> u32 list" where
  "save_words d n =
     [insn_I (- d) 2 0 2 0x13, insn_S (d - 4 - n) 1 2 (store_funct3 Sw) 0x23,
      insn_S (d - 2 * 4 - n) 8 2 (store_funct3 Sw) 0x23]"

definition ret_word :: u32 where "ret_word = insn_I 0 1 0 0 0x67"

text \<open>ADD or SUB of the constant v to the stack pointer, through t0.\<close>

definition grow_words :: "u32 \<Rightarrow> u32 \<Rightarrow> u32 list" where
  "grow_words f7 v =
     [insn_U (IMM_HIGH (v + 0x800)) 5 0x37, insn_I (IMM_LOW v) 5 0 5 0x13, insn_R f7 5 2 0 2 0x33]"

definition jump_to :: "nat \<Rightarrow> nat \<Rightarrow> u32" where
  "jump_to q p = insn_J (of_nat q - of_nat p) 0 0x6f"

lemma epilog_parts:
  assumes "v = epilog_size s" and "n = va_bytes s" and "p = func_sub_sp_offset s"
  shows "frame_size (s\<lparr>loc := loc s - n\<rparr>) = v" "num_va_regs s * 4 = n" "func_sub_sp_offset s = p"
  using assms by (simp_all add: epilog_size_def va_bytes_def)

lemma epilog_small:
  assumes "sint (epilog_size s) < 2048" and "emitting s" and "func_sub_sp_offset s + 20 \<le> ind s"
    and "v = epilog_size s" and "n = va_bytes s" and "p = func_sub_sp_offset s"
  shows "gfunc_epilog s = (fold o_insn (save_words v n @ [insn_I (v - n) 2 0 8 0x13, insn_I 0 0 0 0 0x13])
      ((fold o_insn (restore_words v n @ [ret_word]) (s\<lparr>loc := loc s - n\<rparr>))\<lparr>ind := p\<rparr>))
      \<lparr>ind := ind s + 16\<rparr>"
proof -
  let ?t = "s\<lparr>loc := loc s - n\<rparr>"
  have em: "emitting ?t" using assms(2) by (simp add: emitting_def)
  have i: "ind (fold o_insn (restore_words v n @ [ret_word]) ?t) = ind s + 16"
    using tsink.pos_fold [OF em, of "restore_words v n @ [ret_word]"]
    by (simp add: restore_words_def)
  have "emitting (fold o_insn (restore_words v n @ [ret_word]) ?t)"
    by (rule tsink.active_fold [OF em])
  then have em2: "emitting ((fold o_insn (restore_words v n @ [ret_word]) ?t)\<lparr>ind := p\<rparr>)"
    using i assms(3,6) by (simp add: emitting_def)
  have i2: "ind (fold o_insn (save_words v n @ [insn_I (v - n) 2 0 8 0x13])
      ((fold o_insn (restore_words v n @ [ret_word]) ?t)\<lparr>ind := p\<rparr>)) = p + 16"
    using tsink.pos_fold [OF em2, of "save_words v n @ [insn_I (v - n) 2 0 8 0x13]"]
    by (simp add: save_words_def)
  have "sint v < 2048" using assms(1,4) by simp
  then show ?thesis
    using i i2 epilog_parts [OF assms(4-6)]
    by (simp add: gfunc_epilog_def Let_def restore_words_def save_words_def ret_word_def
        emit_ADDI_o emit_load_o emit_store_o insn_defs emit_I_def)
qed

lemma near_distance:
  assumes "a < 2 ^ 31" and "b < 2 ^ 31" and "even a" and "even b" and "a < b + 2 ^ 20" and "b < a + 2 ^ 20"
  shows "in_reach (of_nat a - of_nat b)"
proof -
  have w: "of_nat a - of_nat b = (word_of_int (int a - int b) :: u32)" by simp
  have "sint (word_of_int (int a - int b) :: u32) = int a - int b"
    using assms(1,2) by (intro sint_of_int_small) simp_all
  moreover have "\<not> bit (word_of_int (int a - int b) :: u32) 0"
    using assms(3,4) by (simp only: bit_word_of_int_iff) (simp add: bit_0)
  ultimately show ?thesis
    using assms(5,6) unfolding w in_reach_def by simp
qed

lemma epilog_large:
  assumes "\<not> sint (epilog_size s) < 2048" and "emitting s" and "func_sub_sp_offset s + 20 \<le> ind s"
    and "v = epilog_size s" and "n = va_bytes s" and "p = func_sub_sp_offset s"
    and "ind s + 48 < p + 2 ^ 20" and "q = ind s" and "ind s + 48 < 2 ^ 31"
    and "4 dvd ind s" and "4 dvd p"
  shows "gfunc_epilog s = (fold o_insn (save_words 16 n @ [jump_to (q + 28) (p + 12), insn_I 0 0 0 0 0x13])
      ((fold o_insn (grow_words 0 v @ restore_words 16 n @ [ret_word, insn_I (16 - n) 2 0 8 0x13] @
          grow_words 0x20 v @ [jump_to (p + 20) (q + 44)])
        (s\<lparr>loc := loc s - n\<rparr>))\<lparr>ind := p\<rparr>))\<lparr>ind := q + 48\<rparr>"
proof -
  let ?t = "s\<lparr>loc := loc s - n\<rparr>"
  let ?ws = "grow_words 0 v @ restore_words 16 n @ [ret_word]"
  let ?us = "insn_I (16 - n) 2 0 8 0x13 # grow_words 0x20 v"
  let ?j1 = "jump_to (p + 20) (q + 44)"
  have em: "emitting ?t" using assms(2) by (simp add: emitting_def)
  have i1: "ind (fold o_insn ?ws ?t) = q + 28"
    using tsink.pos_fold [OF em, of ?ws] assms(8) by (simp add: restore_words_def grow_words_def)
  have i2: "ind (fold o_insn ?us (fold o_insn ?ws ?t)) = q + 44"
    using tsink.pos_fold [OF em, of "?ws @ ?us"] assms(8) by (simp add: restore_words_def grow_words_def)
  have i3: "ind (fold o_insn (?ws @ ?us @ [?j1]) ?t) = q + 48"
    using tsink.pos_fold [OF em, of "?ws @ ?us @ [?j1]"] assms(8) by (simp add: restore_words_def grow_words_def)
  have "emitting (fold o_insn (?ws @ ?us @ [?j1]) ?t)"
    by (rule tsink.active_fold [OF em])
  then have em2: "emitting ((fold o_insn (?ws @ ?us @ [?j1]) ?t)\<lparr>ind := p\<rparr>)"
    using i3 assms(3,6,8) by (simp add: emitting_def)
  have i4: "ind (fold o_insn (save_words 16 n) ((fold o_insn (?ws @ ?us @ [?j1]) ?t)\<lparr>ind := p\<rparr>)) = p + 12"
    using tsink.pos_fold [OF em2, of "save_words 16 n"] by (simp add: save_words_def)
  have i5: "ind (fold o_insn (save_words 16 n @ [jump_to (q + 28) (p + 12)])
      ((fold o_insn (?ws @ ?us @ [?j1]) ?t)\<lparr>ind := p\<rparr>)) = p + 16"
    using tsink.pos_fold [OF em2, of "save_words 16 n @ [jump_to (q + 28) (p + 12)]"]
    by (simp add: save_words_def)
  have near: "\<not> far_jump (of_nat (p + 20) - of_nat (q + 44))" "\<not> far_jump (of_nat (q + 28) - of_nat (p + 12))"
  proof -
    have e: "even (q + 44)" "even (p + 20)" "even (q + 28)" "even (p + 12)"
      using assms(6,8,10,11) dvd_trans [of 2 "4 :: nat"] by auto
    from assms(3,6-9) show "\<not> far_jump (of_nat (p + 20) - of_nat (q + 44))"
      "\<not> far_jump (of_nat (q + 28) - of_nat (p + 12))"
      by (intro in_reach_near near_distance e; simp)+
  qed
  have "\<not> sint v < 2048" using assms(1,4) by simp
  then show ?thesis
    using i1 i2 i3 i4 i5 epilog_parts [OF assms(4-6)] near
    by (simp add: gfunc_epilog_def Let_def restore_words_def save_words_def ret_word_def grow_words_def
        emit_ADDI_o emit_load_o emit_store_o insn_defs emit_I_def emit_R_def emit_U_def gjmp_addr_near jump_to_def
        del: of_nat_add)
qed

section \<open>Running them\<close>

lemma sext12_minus:
  assumes "0 \<le> sint v" and "sint v < 2048" and "unat k \<le> 40"
  shows "sext12 (v - k) = v - k" and "sext12 (- v) = - v" and "sext12 v = v"
proof -
  have k: "sint k = int (unat k)" using assms(3) by (intro sint_unat) simp
  have "v - k = word_of_int (sint v - sint k)" by simp
  moreover have "sint (word_of_int (sint v - sint k) :: u32) = sint v - sint k"
    using assms k by (intro sint_of_int_small) linarith+
  ultimately have "sint (v - k) = sint v - sint k" by simp
  then have "- 2048 \<le> sint (v - k) \<and> sint (v - k) < 2048" using assms k by linarith
  then show "sext12 (v - k) = v - k" by (intro imm12_ok_sext12) (simp add: imm12_ok_iff)
  have "- v = word_of_int (- sint v)" by simp
  moreover have "sint (word_of_int (- sint v) :: u32) = - sint v"
    using assms by (intro sint_of_int_small) simp_all
  ultimately have "sint (- v) = - sint v" by simp
  then show "sext12 (- v) = - v"
    using assms by (intro imm12_ok_sext12) (simp add: imm12_ok_iff)
  show "sext12 v = v" using assms by (intro imm12_ok_sext12) (simp add: imm12_ok_iff)
qed

text \<open>The state after the stack pointer moved down by d and ra and s0 were stored.\<close>

lemma run_save_words:
  assumes "0 \<le> sint d" and "sint d < 2048" and "unat n \<le> 32"
  shows "run (save_words d n) c = Some (c\<lparr>pc := pc c + 12, regs := (regs c)(2 := rreg c 2 - d),
    mem := store_val Sw (rreg c 2 - n - 8) (rreg c 8) (store_val Sw (rreg c 2 - n - 4) (rreg c 1) (mem c))\<rparr>)"
proof -
  have n: "unat (4 + n) \<le> 40" "unat (8 + n) \<le> 40"
    using assms(3) unat_plus_if' [of 4 n] unat_plus_if' [of 8 n] by (simp_all split: if_splits)
  have s: "sext12 (d - 4 - n) = d - 4 - n" "sext12 (d - 8 - n) = d - 8 - n" "sext12 (- d) = - d"
    using sext12_minus [OF assms(1,2) n(1)] sext12_minus [OF assms(1,2) n(2)] by (simp_all add: algebra_simps)
  let ?m = "store_val Sw (rreg c 2 - n - 4) (rreg c 1) (mem c)"
  let ?c1 = "c\<lparr>pc := pc c + 4, regs := (regs c)(2 := rreg c 2 - d)\<rparr>"
  let ?c2 = "c\<lparr>pc := pc c + 8, regs := (regs c)(2 := rreg c 2 - d), mem := ?m\<rparr>"
  have a: "rreg c 2 - d + (d - 4 - n) = rreg c 2 - n - 4" "rreg c 2 - d + (d - 8 - n) = rreg c 2 - n - 8"
    by simp_all
  have r: "rreg ?c1 2 = rreg c 2 - d" "rreg ?c1 1 = rreg c 1" "rreg ?c2 2 = rreg c 2 - d" "rreg ?c2 8 = rreg c 8"
    by (simp_all add: rreg_def)
  have 1: "run [insn_I (- d) 2 0 2 0x13] c = Some ?c1"
    by (simp add: run_ADDI fits s wreg_def)
  have 2: "run [insn_S (d - 4 - n) 1 2 (store_funct3 Sw) 0x23] ?c1 = Some ?c2"
    unfolding run_store [OF fits_8(5,4)] r s a by simp
  have 3: "run [insn_S (d - 8 - n) 8 2 (store_funct3 Sw) 0x23] ?c2 = Some (c\<lparr>pc := pc c + 12,
      regs := (regs c)(2 := rreg c 2 - d), mem := store_val Sw (rreg c 2 - n - 8) (rreg c 8) ?m\<rparr>)"
    unfolding run_store [OF fits_8(5,1)] r s a by simp
  have e: "d - 2 * 4 - n = d - 8 - n" by simp
  show ?thesis
    unfolding save_words_def e run_Cons2 [OF 1] run_Cons2 [OF 2] by (rule 3)
qed

lemma run_restore_words:
  assumes "0 \<le> sint d" and "sint d < 2048" and "unat n \<le> 32"
    and "mem_word (mem c) (rreg c 2 + d - n - 4) = a" and "mem_word (mem c) (rreg c 2 + d - n - 8) = f"
  shows "run (restore_words d n) c = Some (c\<lparr>pc := pc c + 12,
    regs := (regs c)(1 := a, 8 := f, 2 := rreg c 2 + d)\<rparr>)"
proof -
  have n: "unat (4 + n) \<le> 40" "unat (8 + n) \<le> 40"
    using assms(3) unat_plus_if' [of 4 n] unat_plus_if' [of 8 n] by (simp_all split: if_splits)
  have s: "sext12 (d - 4 - n) = d - 4 - n" "sext12 (d - 8 - n) = d - 8 - n" "sext12 d = d"
    using sext12_minus [OF assms(1,2) n(1)] sext12_minus [OF assms(1,2) n(2)] by (simp_all add: algebra_simps)
  let ?c1 = "c\<lparr>pc := pc c + 4, regs := (regs c)(1 := a)\<rparr>"
  let ?c2 = "c\<lparr>pc := pc c + 8, regs := (regs c)(1 := a, 8 := f)\<rparr>"
  have a: "rreg c 2 + (d - 4 - n) = rreg c 2 + d - n - 4" "rreg c 2 + (d - 8 - n) = rreg c 2 + d - n - 8"
    by simp_all
  have r: "rreg ?c1 2 = rreg c 2" "rreg ?c2 2 = rreg c 2" by (simp_all add: rreg_def)
  have 1: "run [insn_I (d - 4 - n) 2 (load_funct3 Lw) 1 0x03] c = Some ?c1"
    unfolding run_load [OF fits_8(5,4)] s a by (simp add: load_val_def assms(4) wreg_def)
  have 2: "run [insn_I (d - 8 - n) 2 (load_funct3 Lw) 8 0x03] ?c1 = Some ?c2"
    unfolding run_load [OF fits_8(5,1)] r s a by (simp add: load_val_def assms(5) wreg_def)
  have 3: "run [insn_I d 2 0 2 0x13] ?c2 = Some (c\<lparr>pc := pc c + 12,
      regs := (regs c)(1 := a, 8 := f, 2 := rreg c 2 + d)\<rparr>)"
    unfolding run_ADDI [OF fits_8(5,5)] r s by (simp add: wreg_def)
  have e: "d - 2 * 4 - n = d - 8 - n" by simp
  show ?thesis
    unfolding restore_words_def e run_Cons2 [OF 1] run_Cons2 [OF 2] by (rule 3)
qed

lemma run_grow_words:
  assumes "f7 = 0 \<and> op = Add \<or> f7 = 0x20 \<and> op = Sub"
  shows "run (grow_words f7 v) c = Some (c\<lparr>pc := pc c + 12,
    regs := (regs c)(5 := v, 2 := alu op (rreg c 2) v)\<rparr>)"
proof -
  have "run (grow_words f7 v) c = run [insn_R f7 5 2 0 2 0x33] (wreg 5 v (c\<lparr>pc := pc c + 8\<rparr>))"
    using run_append [of "[insn_U (IMM_HIGH (v + 0x800)) 5 0x37, insn_I (IMM_LOW v) 5 0 5 0x13]" "[insn_R f7 5 2 0 2 0x33]" c]
    by (simp add: grow_words_def run_upper_addi fits hi_lo_sum)
  also have "\<dots> = Some (c\<lparr>pc := pc c + 12, regs := (regs c)(5 := v, 2 := alu op (rreg c 2) v)\<rparr>)"
    using assms
    by (auto simp: run_op [of _ _ _ _ _ Add] run_op [of _ _ _ _ _ Sub] fits decode_op_def wreg_def rreg_def)
  finally show ?thesis .
qed

lemma run_ret: "run [ret_word] c = Some (c\<lparr>pc := rreg c 1 AND NOT 1\<rparr>)"
  by (simp add: ret_word_def run.simps decode_insn_I_jalr fits exec_def wreg_def sext12_1)

text \<open>One instruction in place, then the rest.\<close>

lemma run_at_word:
  assumes "code_words s q 1 = [w]" and "pc c = base + of_nat q" and "q < 2 ^ 32" and "run [w] c = Some c1"
  shows "run_at (Suc n) s base c = run_at n s base c1"
  using assms by (simp add: run_at_1 code_words_def)

lemma run_jump_to:
  assumes "in_reach (of_nat q - of_nat p)" and "pc c = base + of_nat p"
  shows "run [jump_to q p] c = Some (c\<lparr>pc := base + of_nat q\<rparr>)"
proof -
  have "sext21 (of_nat q - of_nat p) = of_nat q - of_nat p"
    using assms(1) by (intro sext21_near) (simp_all add: in_reach_def)
  then show ?thesis using assms(2) by (simp add: jump_to_def run_insn_J)
qed

text \<open>The entry of a frame of v bytes, of which n hold the registers of a variadic function.\<close>

definition entered :: "u32 \<Rightarrow> u32 \<Rightarrow> cpu \<Rightarrow> cpu" where
  "entered v n c = c\<lparr>regs := (regs c)(2 := rreg c 2 - v, 8 := rreg c 2 - n),
    mem := store_val Sw (rreg c 2 - n - 8) (rreg c 8) (store_val Sw (rreg c 2 - n - 4) (rreg c 1) (mem c))\<rparr>"

lemma enter_small:
  assumes "code_words s p 5 = save_words v n @ [insn_I (v - n) 2 0 8 0x13, insn_I 0 0 0 0 0x13]"
    and "pc c = base + of_nat p" and "p + 20 < 2 ^ 32"
    and "0 \<le> sint v" and "sint v < 2048" and "unat n \<le> 32"
  shows "run_at 5 s base c = Some ((entered v n c)\<lparr>pc := base + of_nat (p + 20)\<rparr>)"
proof -
  let ?ws = "save_words v n @ [insn_I (v - n) 2 0 8 0x13, insn_I 0 0 0 0 0x13]"
  let ?c1 = "c\<lparr>pc := pc c + 12, regs := (regs c)(2 := rreg c 2 - v),
    mem := store_val Sw (rreg c 2 - n - 8) (rreg c 8) (store_val Sw (rreg c 2 - n - 4) (rreg c 1) (mem c))\<rparr>"
  have s: "sext12 (v - n) = v - n" using assms(4-6) by (intro sext12_minus) simp_all
  have r: "rreg ?c1 2 + (v - n) = rreg c 2 - n" by (simp add: rreg_def)
  have 1: "run [insn_I (v - n) 2 0 8 0x13] ?c1 = Some ((entered v n c)\<lparr>pc := pc c + 16\<rparr>)"
    unfolding run_ADDI [OF fits_8(5,1)] s r by (simp add: wreg_def entered_def)
  have 2: "run [insn_I 0 0 0 0 0x13] ((entered v n c)\<lparr>pc := pc c + 16\<rparr>) =
      Some ((entered v n c)\<lparr>pc := pc c + 20\<rparr>)"
    unfolding run_ADDI [OF fits_8(2,2)] by (simp add: wreg_def)
  have run: "run ?ws c = Some ((entered v n c)\<lparr>pc := pc c + 20\<rparr>)"
    unfolding run_append run_save_words [OF assms(4-6)] option.case run_Cons2 [OF 1] by (rule 2)
  have l: "length ?ws = 5" "list_all falls_through ?ws" by (simp_all add: save_words_def fits)
  have "run_at (5 + 0) s base c = run_at 0 s base ((entered v n c)\<lparr>pc := pc c + 20\<rparr>)"
    using run_at_words(1) [of s p ?ws c base _ 0, unfolded l(1), OF assms(1) l(2) assms(2) _ run] assms(3) by simp
  then show ?thesis using assms(2) by (simp add: algebra_simps)
qed

lemma leave_small:
  assumes "code_words s q 4 = restore_words v n @ [ret_word]"
    and "pc c = base + of_nat q" and "q + 16 < 2 ^ 32"
    and "0 \<le> sint v" and "sint v < 2048" and "unat n \<le> 32"
    and "mem_word (mem c) (rreg c 2 + v - n - 4) = a" and "mem_word (mem c) (rreg c 2 + v - n - 8) = f"
  shows "run_at 4 s base c = Some (c\<lparr>pc := a AND NOT 1, regs := (regs c)(1 := a, 8 := f, 2 := rreg c 2 + v)\<rparr>)"
proof -
  have l: "length (restore_words v n) = 3" "list_all falls_through (restore_words v n)"
    by (simp_all add: restore_words_def fits)
  have w: "code_words s q 3 = restore_words v n" "code_words s (q + 12) 1 = [ret_word]"
    using code_words_parts [of s q "restore_words v n" "[ret_word]"] assms(1) l by simp_all
  let ?c1 = "c\<lparr>pc := pc c + 12, regs := (regs c)(1 := a, 8 := f, 2 := rreg c 2 + v)\<rparr>"
  have "run_at 4 s base c = run_at 1 s base ?c1"
    using run_at_words(1) [of s q "restore_words v n" c base ?c1 1] w(1) l assms(2,3)
      run_restore_words [OF assms(4-8)] by simp
  also have "\<dots> = Some (?c1\<lparr>pc := a AND NOT 1\<rparr>)"
    using run_at_word [OF w(2), of ?c1 base _ 0] assms(2,3)
    by (simp add: run_ret rreg_def add.assoc)
  finally show ?thesis by simp
qed

text \<open>A frame too large for one ADDI: the entry goes on after the exit and comes back.\<close>

lemma enter_large:
  assumes "code_words s p 5 = save_words 16 n @ [jump_to r (p + 12), insn_I 0 0 0 0 0x13]"
    and "code_words s r 5 = (insn_I (16 - n) 2 0 8 0x13 # grow_words 0x20 v) @ [jump_to (p + 20) (r + 16)]"
    and "pc c = base + of_nat p" and "p + 20 < 2 ^ 32" and "r + 20 < 2 ^ 32" and "unat n \<le> 32"
    and "in_reach (of_nat r - of_nat (p + 12))" and "in_reach (of_nat (p + 20) - of_nat (r + 16))"
  shows "run_at 9 s base c = Some ((entered (16 + v) n c)\<lparr>
    regs := (regs (entered (16 + v) n c))(5 := v), pc := base + of_nat (p + 20)\<rparr>)"
proof -
  let ?us = "insn_I (16 - n) 2 0 8 0x13 # grow_words 0x20 v"
  have s16: "0 \<le> sint (16 :: u32)" "sint (16 :: u32) < 2048" by simp_all
  have l: "length (save_words 16 n) = 3" "list_all falls_through (save_words 16 n)"
    "length ?us = 4" "list_all falls_through ?us"
    by (simp_all add: save_words_def grow_words_def fits)
  have w: "code_words s p 3 = save_words 16 n" "code_words s (p + 12) 1 = [jump_to r (p + 12)]"
    using code_words_parts [of s p "save_words 16 n" "[jump_to r (p + 12), insn_I 0 0 0 0 0x13]"] assms(1) l
      code_words_parts(1) [of s "p + 12" "[jump_to r (p + 12)]" "[insn_I 0 0 0 0 0x13]"]
    by (simp_all add: numeral_2_eq_2)
  have u: "code_words s r 4 = ?us" "code_words s (r + 16) 1 = [jump_to (p + 20) (r + 16)]"
    using code_words_parts [of s r ?us "[jump_to (p + 20) (r + 16)]"] assms(2) l by simp_all
  let ?m = "store_val Sw (rreg c 2 - n - 8) (rreg c 8) (store_val Sw (rreg c 2 - n - 4) (rreg c 1) (mem c))"
  let ?c1 = "c\<lparr>pc := pc c + 12, regs := (regs c)(2 := rreg c 2 - 16), mem := ?m\<rparr>"
  let ?c2 = "?c1\<lparr>pc := base + of_nat r\<rparr>"
  let ?c3 = "?c2\<lparr>pc := base + of_nat r + 4, regs := (regs ?c2)(8 := rreg c 2 - n)\<rparr>"
  let ?c4 = "?c3\<lparr>pc := base + of_nat r + 16, regs := (regs ?c3)(5 := v, 2 := rreg c 2 - 16 - v)\<rparr>"
  have 1: "run_at 9 s base c = run_at 6 s base ?c1"
    using run_at_words(1) [of s p "save_words 16 n" c base ?c1 6] w(1) l assms(3,4)
      run_save_words [OF s16 assms(6), of c] by simp
  have 2: "run_at 6 s base ?c1 = run_at 5 s base ?c2"
    using run_at_word [OF w(2), of ?c1 base ?c2 5] run_jump_to [OF assms(7), of ?c1 base] assms(3,4) by simp
  have x: "sext12 (16 - n) = 16 - n" "rreg ?c2 2 + (16 - n) = rreg c 2 - n" "rreg ?c3 2 = rreg c 2 - 16"
    using assms(6) sext12_minus(1) [OF s16, of n] by (simp_all add: rreg_def)
  have "run [insn_I (16 - n) 2 0 8 0x13] ?c2 = Some ?c3"
    unfolding run_ADDI [OF fits_8(5,1)] x by (simp add: wreg_def)
  then have "run ?us ?c2 = Some ?c4"
    using run_grow_words [of "0x20" Sub v ?c3] x(3)
    by (simp add: run_Cons2 grow_words_def alu_def)
  then have 3: "run_at 5 s base ?c2 = run_at 1 s base ?c4"
    using run_at_words(1) [of s r ?us ?c2 base ?c4 1, unfolded l(3), OF u(1) l(4)] assms(5) by simp
  have 4: "run_at 1 s base ?c4 = Some (?c4\<lparr>pc := base + of_nat (p + 20)\<rparr>)"
    using run_at_word [OF u(2), of ?c4 base _ 0] run_jump_to [OF assms(8), of ?c4 base] assms(5)
    by (simp add: add.assoc)
  have f: "(regs c)(8 := x, 5 := v, 2 := y) = (regs c)(2 := y, 8 := x, 5 := v)" for x y
    by (auto simp: fun_upd_def)
  show ?thesis
    unfolding 1 2 3 4 by (simp add: entered_def f algebra_simps)
qed

lemma leave_large:
  assumes "code_words s q 7 = grow_words 0 v @ restore_words 16 n @ [ret_word]"
    and "pc c = base + of_nat q" and "q + 28 < 2 ^ 32" and "unat n \<le> 32"
    and "mem_word (mem c) (rreg c 2 + v + 16 - n - 4) = a" and "mem_word (mem c) (rreg c 2 + v + 16 - n - 8) = f"
  shows "run_at 7 s base c = Some (c\<lparr>pc := a AND NOT 1,
    regs := (regs c)(5 := v, 1 := a, 8 := f, 2 := rreg c 2 + v + 16)\<rparr>)"
proof -
  have l: "length (grow_words 0 v) = 3" "list_all falls_through (grow_words 0 v)" "length (restore_words 16 n) = 3"
    by (simp_all add: grow_words_def restore_words_def fits)
  have w: "code_words s q 3 = grow_words 0 v" "code_words s (q + 12) 4 = restore_words 16 n @ [ret_word]"
    using code_words_parts [of s q "grow_words 0 v" "restore_words 16 n @ [ret_word]"] assms(1) l by simp_all
  let ?c1 = "c\<lparr>pc := base + of_nat (q + 12), regs := (regs c)(5 := v, 2 := rreg c 2 + v)\<rparr>"
  have r: "rreg ?c1 2 = rreg c 2 + v" by (simp add: rreg_def)
  have "run (grow_words 0 v) c = Some ?c1"
    using run_grow_words [of 0 Add v c] assms(2) by (simp add: alu_def algebra_simps)
  then have "run_at 7 s base c = run_at 4 s base ?c1"
    using run_at_words(1) [of s q "grow_words 0 v" c base ?c1 4] w(1) l assms(2,3) by simp
  also have "\<dots> = Some (?c1\<lparr>pc := a AND NOT 1, regs := (regs ?c1)(1 := a, 8 := f, 2 := rreg ?c1 2 + 16)\<rparr>)"
    using assms(3-6) r by (intro leave_small [OF w(2)]) simp_all
  finally show ?thesis unfolding r by (simp add: fun_upd_twist)
qed

section \<open>A function returns to its caller\<close>

definition frame_total :: "'a frame_state_scheme \<Rightarrow> u32" where
  "frame_total s = (if sint (epilog_size s) < 2048 then epilog_size s else 16 + epilog_size s)"

text \<open>The code of a function whose body is complete: aligned, and short enough for its jumps.\<close>

definition body_done :: "'a frame_state_scheme \<Rightarrow> bool" where
  "body_done s \<longleftrightarrow> emitting s \<and> func_sub_sp_offset s + 20 \<le> ind s \<and> 4 dvd ind s \<and>
     4 dvd func_sub_sp_offset s \<and> ind s + 48 < func_sub_sp_offset s + 2 ^ 20 \<and> ind s + 48 < 2 ^ 31 \<and>
     0 \<le> sint (epilog_size s) \<and> unat (num_va_regs s) \<le> 8"

lemma va_bytes_le: "body_done s \<Longrightarrow> unat (va_bytes s) \<le> 32"
proof -
  assume "body_done s"
  then have "unat (num_va_regs s) \<le> 8" by (simp add: body_done_def)
  then show ?thesis
    unfolding va_bytes_def by (subst unat_mult_lem [THEN iffD1]) simp_all
qed

lemma frame_enters:
  assumes b: "body_done s" and e: "gfunc_epilog s = s'"
    and pc: "pc c = base + of_nat (func_sub_sp_offset s)"
  obtains rs where "run_at (if sint (epilog_size s) < 2048 then 5 else 9) s' base c =
    Some ((entered (frame_total s) (va_bytes s) c)\<lparr>regs := rs,
      pc := base + of_nat (func_sub_sp_offset s + 20)\<rparr>)"
    "rs 2 = rreg c 2 - frame_total s" "rs 8 = rreg c 2 - va_bytes s"
    "\<And>r. r \<notin> {2, 8, 5} \<Longrightarrow> rs r = regs c r"
proof -
  let ?v = "epilog_size s" and ?n = "va_bytes s" and ?p = "func_sub_sp_offset s" and ?q = "ind s"
  let ?t = "s\<lparr>loc := loc s - ?n\<rparr>"
  note bd = b [unfolded body_done_def]
  have em: "emitting ?t" "ind ?t = ?q" using bd by (simp_all add: emitting_def)
  note n = va_bytes_le [OF b]
  show thesis
  proof (cases "sint ?v < 2048")
    case True
    let ?ws = "save_words ?v ?n @ [insn_I (?v - ?n) 2 0 8 0x13, insn_I 0 0 0 0 0x13]"
    have l: "length ?ws = 5" by (simp add: save_words_def)
    have "s' = (fold o_insn ?ws ((fold o_insn (restore_words ?v ?n @ [ret_word]) ?t)\<lparr>ind := ?p\<rparr>))\<lparr>ind := ?q + 16\<rparr>"
      using epilog_small [OF True] bd e by simp
    from patched_code(1) [OF em(1) _ this] bd l em have "code_words s' ?p 5 = ?ws" by simp
    then have "run_at 5 s' base c = Some ((entered ?v ?n c)\<lparr>pc := base + of_nat (?p + 20)\<rparr>)"
      using pc bd n True by (intro enter_small) simp_all
    then show thesis
      using True by (intro that [of "regs (entered ?v ?n c)"]) (simp_all add: frame_total_def entered_def)
  next
    case False
    let ?ws = "save_words 16 ?n @ [jump_to (?q + 28) (?p + 12), insn_I 0 0 0 0 0x13]"
    let ?us = "grow_words 0 ?v @ restore_words 16 ?n @ [ret_word, insn_I (16 - ?n) 2 0 8 0x13] @
          grow_words 0x20 ?v @ [jump_to (?p + 20) (?q + 44)]"
    let ?us1 = "grow_words 0 ?v @ restore_words 16 ?n @ [ret_word]"
    let ?us2 = "(insn_I (16 - ?n) 2 0 8 0x13 # grow_words 0x20 ?v) @ [jump_to (?p + 20) (?q + 28 + 16)]"
    have l: "length ?ws = 5" "length ?us1 = 7" "length ?us2 = 5" "?us = ?us1 @ ?us2"
      by (simp_all add: save_words_def grow_words_def restore_words_def add.commute [of 44])
    have "s' = (fold o_insn ?ws ((fold o_insn ?us ?t)\<lparr>ind := ?p\<rparr>))\<lparr>ind := ?q + 48\<rparr>"
      using epilog_large [OF False] bd e by simp
    from patched_code [OF em(1) _ this] bd l(1) em
    have w: "code_words s' ?p 5 = ?ws" and u: "code_words s' ?q (length ?us) = ?us" by simp_all
    have u2: "code_words s' (?q + 28) 5 = ?us2"
      using code_words_parts(2) [OF u [unfolded l(4)], unfolded l(2,3)] by simp
    have ev: "even ?p" "even ?q" using bd dvd_trans [of 2 "4 :: nat"] by auto
    have r: "in_reach (of_nat (?q + 28) - of_nat (?p + 12))" "in_reach (of_nat (?p + 20) - of_nat (?q + 28 + 16))"
      using bd ev by (auto intro!: near_distance simp del: of_nat_add)
    have lt: "?p + 20 < 2 ^ 32" "?q + 28 + 20 < 2 ^ 32" using bd by auto
    have "run_at 9 s' base c = Some ((entered (16 + ?v) ?n c)\<lparr>
        regs := (regs (entered (16 + ?v) ?n c))(5 := ?v), pc := base + of_nat (?p + 20)\<rparr>)"
      by (rule enter_large [OF w u2 pc lt n r])
    then show thesis
      using False by (intro that [of "(regs (entered (16 + ?v) ?n c))(5 := ?v)"])
        (simp_all add: frame_total_def entered_def)
  qed
qed

lemma frame_leaves:
  assumes b: "body_done s" and e: "gfunc_epilog s = s'"
    and pc: "pc c = base + of_nat (ind s)"
    and "mem_word (mem c) (rreg c 2 + frame_total s - va_bytes s - 4) = a"
    and "mem_word (mem c) (rreg c 2 + frame_total s - va_bytes s - 8) = f"
  obtains c' where "run_at (if sint (epilog_size s) < 2048 then 4 else 7) s' base c = Some c'"
    "pc c' = a AND NOT 1" "rreg c' 1 = a" "rreg c' 8 = f" "rreg c' 2 = rreg c 2 + frame_total s"
    "mem c' = mem c" "\<And>r. r \<notin> {1, 2, 5, 8} \<Longrightarrow> rreg c' r = rreg c r"
proof -
  let ?v = "epilog_size s" and ?n = "va_bytes s" and ?p = "func_sub_sp_offset s" and ?q = "ind s"
  let ?t = "s\<lparr>loc := loc s - ?n\<rparr>"
  note bd = b [unfolded body_done_def]
  have em: "emitting ?t" "ind ?t = ?q" using bd by (simp_all add: emitting_def)
  note n = va_bytes_le [OF b]
  have lt: "?q + 16 < 2 ^ 32" "?q + 28 < 2 ^ 32" using bd by auto
  show thesis
  proof (cases "sint ?v < 2048")
    case True
    let ?ws = "save_words ?v ?n @ [insn_I (?v - ?n) 2 0 8 0x13, insn_I 0 0 0 0 0x13]"
    let ?us = "restore_words ?v ?n @ [ret_word]"
    have l: "length ?ws = 5" "length ?us = 4" by (simp_all add: save_words_def restore_words_def)
    have "s' = (fold o_insn ?ws ((fold o_insn ?us ?t)\<lparr>ind := ?p\<rparr>))\<lparr>ind := ?q + 16\<rparr>"
      using epilog_small [OF True] bd e by simp
    from patched_code(2) [OF em(1) _ this] bd l em have "code_words s' ?q 4 = ?us" by simp
    then have "run_at 4 s' base c =
        Some (c\<lparr>pc := a AND NOT 1, regs := (regs c)(1 := a, 8 := f, 2 := rreg c 2 + ?v)\<rparr>)"
      using bd True assms(4,5) by (intro leave_small [OF _ pc lt(1) _ _ n]) (simp_all add: frame_total_def)
    then show thesis
      using True
      by (intro that [of "c\<lparr>pc := a AND NOT 1, regs := (regs c)(1 := a, 8 := f, 2 := rreg c 2 + ?v)\<rparr>"])
        (simp_all add: frame_total_def rreg_def)
  next
    case False
    let ?ws = "save_words 16 ?n @ [jump_to (?q + 28) (?p + 12), insn_I 0 0 0 0 0x13]"
    let ?us = "grow_words 0 ?v @ restore_words 16 ?n @ [ret_word, insn_I (16 - ?n) 2 0 8 0x13] @
          grow_words 0x20 ?v @ [jump_to (?p + 20) (?q + 44)]"
    let ?us1 = "grow_words 0 ?v @ restore_words 16 ?n @ [ret_word]"
    let ?us2 = "(insn_I (16 - ?n) 2 0 8 0x13 # grow_words 0x20 ?v) @ [jump_to (?p + 20) (?q + 44)]"
    have l: "length ?ws = 5" "length ?us1 = 7" "?us = ?us1 @ ?us2"
      by (simp_all add: save_words_def grow_words_def restore_words_def)
    have "s' = (fold o_insn ?ws ((fold o_insn ?us ?t)\<lparr>ind := ?p\<rparr>))\<lparr>ind := ?q + 48\<rparr>"
      using epilog_large [OF False] bd e by simp
    from patched_code(2) [OF em(1) _ this] bd l(1) em
    have u: "code_words s' ?q (length ?us) = ?us" by simp
    have u1: "code_words s' ?q 7 = ?us1"
      using code_words_parts(1) [OF u [unfolded l(3)]] l(2) by simp
    have "run_at 7 s' base c = Some (c\<lparr>pc := a AND NOT 1,
        regs := (regs c)(5 := ?v, 1 := a, 8 := f, 2 := rreg c 2 + ?v + 16)\<rparr>)"
      using False assms(4,5)
      by (intro leave_large [OF u1 pc lt(2) n]) (simp_all add: frame_total_def algebra_simps)
    then show thesis
      using False
      by (intro that [of "c\<lparr>pc := a AND NOT 1,
          regs := (regs c)(5 := ?v, 1 := a, 8 := f, 2 := rreg c 2 + ?v + 16)\<rparr>"])
        (simp_all add: frame_total_def rreg_def)
  qed
qed

text \<open>
  C8: a function returns to its caller. For every frame size, the words at its entry put the
  frame below the stack pointer, set the frame pointer above it and store the return address and
  the caller's frame pointer; if the body leaves the stack pointer and these two words alone, the
  words of its exit jump to the return address (its lowest bit cleared, as jalr does) with the stack
  pointer, the frame pointer and the return address the caller had, and write no memory.
\<close>

theorem frame_returns:
  assumes "body_done s" and "gfunc_epilog s = s'"
    and "pc c = base + of_nat (func_sub_sp_offset s)"
    and "pc c2 = base + of_nat (ind s)" and "rreg c2 2 = rreg c 2 - frame_total s"
    and "mem_word (mem c2) (rreg c 2 - va_bytes s - 4) = rreg c 1"
    and "mem_word (mem c2) (rreg c 2 - va_bytes s - 8) = rreg c 8"
  shows "\<exists>c1 c3 n m. run_at n s' base c = Some c1 \<and>
    pc c1 = base + of_nat (func_sub_sp_offset s + 20) \<and>
    rreg c1 2 = rreg c 2 - frame_total s \<and> rreg c1 8 = rreg c 2 - va_bytes s \<and>
    mem_word (mem c1) (rreg c1 8 - 4) = rreg c 1 \<and> mem_word (mem c1) (rreg c1 8 - 8) = rreg c 8 \<and>
    run_at m s' base c2 = Some c3 \<and> pc c3 = rreg c 1 AND NOT 1 \<and>
    rreg c3 2 = rreg c 2 \<and> rreg c3 8 = rreg c 8 \<and> rreg c3 1 = rreg c 1 \<and> mem c3 = mem c2"
proof -
  obtain rs where 1: "run_at (if sint (epilog_size s) < 2048 then 5 else 9) s' base c =
    Some ((entered (frame_total s) (va_bytes s) c)\<lparr>regs := rs,
      pc := base + of_nat (func_sub_sp_offset s + 20)\<rparr>)"
    "rs 2 = rreg c 2 - frame_total s" "rs 8 = rreg c 2 - va_bytes s"
    by (rule frame_enters [OF assms(1-3)])
  obtain c3 where 2: "run_at (if sint (epilog_size s) < 2048 then 4 else 7) s' base c2 = Some c3"
    "pc c3 = rreg c 1 AND NOT 1" "rreg c3 1 = rreg c 1" "rreg c3 8 = rreg c 8"
    "rreg c3 2 = rreg c2 2 + frame_total s" "mem c3 = mem c2"
    using assms(5-7) by (auto intro: frame_leaves [OF assms(1,2,4)])
  let ?c1 = "(entered (frame_total s) (va_bytes s) c)\<lparr>regs := rs,
      pc := base + of_nat (func_sub_sp_offset s + 20)\<rparr>"
  let ?a = "rreg c 2 - va_bytes s - 8"
  have a: "rreg c 2 - va_bytes s - 4 = ?a + 4" by simp
  have me: "mem ?c1 = store_val Sw ?a (rreg c 8) (store_val Sw (?a + 4) (rreg c 1) (mem c))"
    by (simp add: entered_def)
  have m: "mem_word (mem ?c1) (rreg c 2 - va_bytes s - 8) = rreg c 8"
    "mem_word (mem ?c1) (rreg c 2 - va_bytes s - 4) = rreg c 1"
    unfolding me a mem_word_store_below by (rule mem_word_store_val)+
  have r: "rreg ?c1 2 = rreg c 2 - frame_total s" "rreg ?c1 8 = rreg c 2 - va_bytes s"
    using 1(2,3) by (simp_all add: rreg_def)
  show ?thesis
    using 1(1) 2 m r assms(5)
    by (intro exI [of _ ?c1] exI [of _ c3] exI [of _ "if sint (epilog_size s) < 2048 then 5 else 9"]
        exI [of _ "if sint (epilog_size s) < 2048 then 4 else 7"] conjI) (simp_all del: run_at.simps)
qed

text \<open>A function with 4 KiB of locals and an empty body, and a caller that enters and leaves it.\<close>

definition frame_sample :: "nat \<Rightarrow> frame_state" where
  "frame_sample i = \<lparr>text_sec = text_sec jump_state, ind = i, nocode_wanted = 0, syms = [], elf_syms = [],
     relocs = [], vstack = [], loc = - 4096, temp_vars = [], const_wanted = 0,
     func_sub_sp_offset = 0, num_va_regs = 0, func_va_list_ofs = 0, params = []\<rparr>"

lemma frame_returns_witness:
  defines "s \<equiv> frame_sample 20" and "c \<equiv> zero_cpu 0x80000000"
    and "c2 \<equiv> wreg 2 (- 4112) (zero_cpu 0x80000014)"
  shows "\<exists>c1 c3 n m. run_at n (gfunc_epilog s) 0x80000000 c = Some c1 \<and>
    pc c1 = 0x80000000 + of_nat (func_sub_sp_offset s + 20) \<and>
    rreg c1 2 = rreg c 2 - frame_total s \<and> rreg c1 8 = rreg c 2 - va_bytes s \<and>
    mem_word (mem c1) (rreg c1 8 - 4) = rreg c 1 \<and> mem_word (mem c1) (rreg c1 8 - 8) = rreg c 8 \<and>
    run_at m (gfunc_epilog s) 0x80000000 c2 = Some c3 \<and> pc c3 = rreg c 1 AND NOT 1 \<and>
    rreg c3 2 = rreg c 2 \<and> rreg c3 8 = rreg c 8 \<and> rreg c3 1 = rreg c 1 \<and> mem c3 = mem c2"
proof (rule frame_returns)
  have v: "epilog_size s = 4096"
    by (simp add: s_def frame_sample_def epilog_size_def frame_size_def)
  show "body_done s"
    unfolding body_done_def v
    by (simp add: s_def frame_sample_def emitting_def)
  show "rreg c2 2 = rreg c 2 - frame_total s"
    unfolding frame_total_def v by (simp add: c_def c2_def rreg_def wreg_def)
qed (simp_all add: s_def c_def c2_def frame_sample_def rreg_def mem_word_def mem_half_def)

end
