(* ===== verification/Riscv_Params_Props.thy ===== *)
theory Riscv_Params_Props
  imports Riscv_Frame_Props
begin

text \<open>
  Where a function finds its parameters, and the stack space of a call: gfunc_prolog stores each
  argument register into the local it announces for the parameter, and the code of gfunc_call that
  takes stack space moves the stack pointer by that space, but for the sizes where it does not.
\<close>

section \<open>Parameters\<close>

lemma mem_word_store_apart:
  assumes "4 \<le> unat (a - b)" and "4 \<le> unat (b - a)"
  shows "mem_word (store_val Sw b v m) a = mem_word m a"
proof -
  have "a + i \<noteq> b + j" if "unat i < 4" "unat j < 4" for i j
  proof
    assume e: "a + i = b + j"
    show False
    proof (cases "i \<le> j")
      case True
      have "a - b = j - i" using e by (simp add: algebra_simps)
      then have "unat (a - b) = unat j - unat i" using True by (simp add: unat_sub)
      with assms(1) that show False by simp
    next
      case False
      have "b - a = i - j" using e by (simp add: algebra_simps)
      then have "unat (b - a) = unat i - unat j" using False by (simp add: unat_sub)
      with assms(2) that show False by simp
    qed
  qed
  from this [of 0 0] this [of 0 1] this [of 0 2] this [of 0 3] this [of 1 0] this [of 1 1]
    this [of 1 2] this [of 1 3] this [of 2 0] this [of 2 1] this [of 2 2] this [of 2 3]
    this [of 3 0] this [of 3 1] this [of 3 2] this [of 3 3]
  show ?thesis by (simp add: mem_word_def mem_half_def store_val_def add.assoc)
qed

text \<open>A parameter that one integer register holds: an integer of at most 32 bits or a pointer.\<close>

definition word_type :: "ctype \<Rightarrow> bool" where
  "word_type ty \<longleftrightarrow> ct_t ty AND VT_BTYPE \<in> {VT_BYTE, VT_SHORT, VT_INT, VT_PTR} \<and>
     ct_t ty AND VT_ARRAY = 0 \<and> \<not> IS_ENUM (ct_t ty)"

lemma word_type_passing:
  assumes "word_type ty"
  shows "\<exists>sz al. type_size ty = Inr (sz, al) \<and> sint sz \<le> 4"
    and "\<exists>fo. reg_pass ty True ([0, 0, 0], [0, 0, 0]) = Inr ([1, RC_INT, 0], fo)"
proof -
  obtain t r where ty: "ty = CType t r" by (cases ty)
  have b: "t AND VT_BTYPE \<in> {VT_BYTE, VT_SHORT, VT_INT, VT_PTR}" "t AND VT_ARRAY = 0" "\<not> IS_ENUM t"
    using assms ty by (simp_all add: word_type_def)
  show "\<exists>sz al. type_size ty = Inr (sz, al) \<and> sint sz \<le> 4"
    unfolding ty using b by (cases r; cases "the r") (auto simp: Let_def)
  have "\<not> is_float t" using b(1) by (auto simp: is_float_def)
  then show "\<exists>fo. reg_pass ty True ([0, 0, 0], [0, 0, 0]) = Inr ([1, RC_INT, 0], fo)"
    unfolding ty using b
    by (cases r; cases "the r") (auto simp: reg_pass_def pass_scalar_def add_reg_def Let_def)
qed

lemma o_insn_frame:
  "o_insn w (s\<lparr>loc := l\<rparr>) = (o_insn w s)\<lparr>loc := l\<rparr>"
  "o_insn w (s\<lparr>params := ps\<rparr>) = (o_insn w s)\<lparr>params := ps\<rparr>"
  "params (o_insn w s) = params s" "loc (o_insn w s) = loc s"
  by (simp_all add: o_insn_def reserve_def set_text_def Let_def)


fun chain_types :: "tsym option \<Rightarrow> ctype list" where
  "chain_types None = []"
| "chain_types (Some (TSym ty r c nx)) = ty # chain_types nx"

text \<open>The word that stores argument register k at offset l from the frame pointer.\<close>

definition param_word :: "nat \<Rightarrow> u32 \<Rightarrow> u32" where
  "param_word k l = insn_S l (of_nat k + 10) 8 (store_funct3 Sw) 0x23"

lemma small_nat: "k < 8 \<Longrightarrow> sint (of_nat k :: u32) = int k" "k < 8 \<Longrightarrow> (of_nat k :: u32) < 8"
proof -
  assume k: "k < 8"
  then have u: "unat (of_nat k :: u32) = k" by (simp add: unat_of_nat)
  with k show "sint (of_nat k :: u32) = int k" by (subst sint_unat) simp_all
  show "(of_nat k :: u32) < 8" using u k by (simp add: word_less_nat_alt)
qed

lemma define_word_param:
  assumes "word_type ty" and "k < 8"
  shows "define_param ty (of_nat k, af, ad) s = Inr ((of_nat (Suc k), af, ad),
    (o_insn (param_word k (loc s - 8)) s)\<lparr>loc := loc s - 8,
      params := params s @ [(ty, VT_LOCAL OR VT_LVAL, loc s - 8)]\<rparr>)"
proof -
  obtain sz al where sz: "type_size ty = Inr (sz, al)" "sint sz \<le> 4"
    using word_type_passing(1) [OF assms(1)] by blast
  obtain fo where rp: "reg_pass ty True ([0, 0, 0], [0, 0, 0]) = Inr ([1, RC_INT, 0], fo)"
    using word_type_passing(2) [OF assms(1)] by blast
  have k: "\<not> 8 \<le> sint (of_nat k :: u32)" using small_nat(1) [OF assms(2)] assms(2) by simp
  have i: "ireg (of_nat k) = Inr (of_nat k + 10)" using small_nat(2) [OF assms(2)] by (rule small_reg)
  have "store_param (Suc 0) 0 [1, RC_INT, 0] (of_nat k, af, ad) t =
      Inr ((of_nat (Suc k), af, ad), o_insn (param_word k (loc t)) t)" for t
    using k i by (simp add: emit_store_o param_word_def add.commute)
  then show ?thesis
    using sz k i
    by (simp add: define_param_def rp no_regs_left_def Let_def o_insn_frame emit_store_o param_word_def add.commute)
qed

definition param_words :: "nat \<Rightarrow> nat \<Rightarrow> u32 \<Rightarrow> u32 list" where
  "param_words k n l = map (\<lambda>i. param_word (k + i) (l - 8 * of_nat (Suc i))) [0..<n]"

lemma param_words_Suc: "param_words k (Suc n) l = param_word k (l - 8) # param_words (Suc k) n (l - 8)"
  unfolding param_words_def map_upt_Suc by (simp add: algebra_simps)

definition param_entries :: "ctype list \<Rightarrow> u32 \<Rightarrow> (ctype \<times> u16 \<times> u32) list" where
  "param_entries tys l = map (\<lambda>i. (tys ! i, VT_LOCAL OR VT_LVAL, l - 8 * of_nat (Suc i))) [0..<length tys]"

lemma param_entries_Cons: "param_entries (ty # tys) l = (ty, VT_LOCAL OR VT_LVAL, l - 8) # param_entries tys (l - 8)"
  unfolding param_entries_def list.size add_Suc_right add_0_right map_upt_Suc by (simp add: algebra_simps)

lemma define_word_params:
  assumes "list_all word_type (chain_types nx)" and "k + length (chain_types nx) \<le> 8"
  shows "define_params nx (of_nat k, af, ad) s =
    Inr ((of_nat (k + length (chain_types nx)), af, ad),
      (fold o_insn (param_words k (length (chain_types nx)) (loc s)) s)\<lparr>
        loc := loc s - 8 * of_nat (length (chain_types nx)),
        params := params s @ param_entries (chain_types nx) (loc s)\<rparr>)"
  using assms
proof (induction nx arbitrary: k s rule: chain_types.induct)
  case 1
  then show ?case by (simp add: param_words_def param_entries_def)
next
  case (2 ty r c nx)
  have "k < 8" using 2 by simp
  note d = define_word_param [OF _ this, of ty af ad s]
  have fo: "fold o_insn ws (t\<lparr>loc := l, params := ps\<rparr>) = (fold o_insn ws t)\<lparr>loc := l, params := ps\<rparr>" for ws l ps
    and t :: "'a frame_state_scheme"
    by (induction ws arbitrary: t) (simp_all add: o_insn_frame)
  show ?case
    using 2 d 2(1) [of "Suc k"]
    by (simp add: param_words_Suc param_entries_Cons fo o_insn_frame algebra_simps)
qed


definition param_mem :: "nat \<Rightarrow> nat \<Rightarrow> u32 \<Rightarrow> cpu \<Rightarrow> (u32 \<Rightarrow> u8)" where
  "param_mem k n l c = fold (\<lambda>i. store_val Sw (rreg c 8 + (l - 8 * of_nat (Suc i))) (rreg c (of_nat (k + i) + 10)))
     [0..<n] (mem c)"

lemma run_param_words:
  assumes "k + n \<le> 8" and "\<forall>i < n. imm12_ok (l - 8 * of_nat (Suc i))"
  shows "run (param_words k n l) c = Some (c\<lparr>pc := pc c + 4 * of_nat n, mem := param_mem k n l c\<rparr>)"
  using assms
proof (induction n)
  case 0
  then show ?case by (simp add: param_words_def param_mem_def)
next
  case (Suc n)
  let ?c = "c\<lparr>pc := pc c + 4 * of_nat n, mem := param_mem k n l c\<rparr>"
  have IH: "run (param_words k n l) c = Some ?c" using Suc by simp
  have f: "fits_in 5 (of_nat (k + n) + 10 :: u32)"
    using Suc.prems(1) by (intro phys_fits small_nat) simp
  have s: "sext12 (l - 8 * of_nat (Suc n)) = l - 8 * of_nat (Suc n)"
    using Suc.prems(2) imm12_ok_sext12 by blast
  have "param_words k (Suc n) l = param_words k n l @ [param_word (k + n) (l - 8 * of_nat (Suc n))]"
    by (simp add: param_words_def)
  moreover have "run [param_word (k + n) (l - 8 * of_nat (Suc n))] ?c =
      Some (c\<lparr>pc := pc c + 4 * of_nat (Suc n), mem := param_mem k (Suc n) l c\<rparr>)"
    unfolding param_word_def run_store [OF fits_8(1) f] s
    by (simp add: param_mem_def algebra_simps)
  ultimately show ?case by (simp add: run_append IH)
qed

lemma unat_minus_ge:
  fixes x :: u32
  assumes "0 < unat x" and "unat x < 1024"
  shows "4 \<le> unat (- x)"
proof (rule ccontr)
  assume "\<not> 4 \<le> unat (- x)"
  with assms have "unat (x + - x) = unat x + unat (- x)"
    by (subst unat_add_lem [THEN iffD1]) simp_all
  with assms show False by simp
qed

lemma param_mem_slot:
  assumes "i < n" and "n \<le> 8"
  shows "mem_word (param_mem k n l c) (rreg c 8 + (l - 8 * of_nat (Suc i))) = rreg c (of_nat (k + i) + 10)"
  using assms
proof (induction n)
  case 0
  then show ?case by simp
next
  case (Suc n)
  let ?a = "\<lambda>i. rreg c 8 + (l - 8 * of_nat (Suc i))"
  have e: "param_mem k (Suc n) l c = store_val Sw (?a n) (rreg c (of_nat (k + n) + 10)) (param_mem k n l c)"
    by (simp add: param_mem_def)
  show ?case
  proof (cases "i = n")
    case True
    show ?thesis unfolding True e by (rule mem_word_store_val)
  next
    case False
    with Suc.prems have i: "i < n" by simp
    have d: "?a i - ?a n = of_nat (8 * (n - i))"
      using i by (simp add: of_nat_diff algebra_simps)
    have u: "unat (of_nat (8 * (n - i)) :: u32) = 8 * (n - i)"
      unfolding unat_of_nat using Suc.prems by simp
    have d2: "?a n - ?a i = - of_nat (8 * (n - i))"
      unfolding d [symmetric] by simp
    have g: "4 \<le> unat (?a i - ?a n)" unfolding d u using i by simp
    have "4 \<le> unat (?a n - ?a i)"
      unfolding d2 using u i Suc.prems by (intro unat_minus_ge) simp_all
    with g have "mem_word (store_val Sw (?a n) (rreg c (of_nat (k + n) + 10)) (param_mem k n l c)) (?a i) =
        mem_word (param_mem k n l c) (?a i)"
      by (rule mem_word_store_apart)
    then show ?thesis unfolding e using Suc.IH i Suc.prems by simp
  qed
qed

text \<open>
  C32: For a function that is not variadic, with at most eight parameters, each of a char, short, int or pointer
  type, gfunc_prolog reserves the words of the entry, which must lie in the allocated part of the section, and then
  stores the argument registers: running the stores leaves the i-th argument register in the local that is recorded for
  the i-th parameter, and no register changes.
\<close>

theorem prolog_stores_params:
  assumes "list_all word_type (chain_types nx)" and "length (chain_types nx) \<le> 8"
    and "i < length (chain_types nx)"
    and "type_size vt = Inr (sz, al)" and "sint sz \<le> 8"
    and "nocode_wanted s = 0" and "ind s + 20 \<le> data_allocated (text_sec s)"
  shows "\<exists>s' c' l. gfunc_prolog (CType t (Some (TSym rty r cc nx))) vt False s = Inr s' \<and>
    func_sub_sp_offset s' = ind s \<and> ind s' = ind s + 20 + 4 * length (chain_types nx) \<and>
    run (code_words s' (ind s + 20) (length (chain_types nx))) c = Some c' \<and> regs c' = regs c \<and>
    params s' ! (length (params s) + i) = (chain_types nx ! i, VT_LOCAL OR VT_LVAL, l) \<and>
    mem_word (mem c') (rreg c 8 + l) = rreg c (of_nat i + 10)"
proof -
  let ?n = "length (chain_types nx)"
  let ?s1 = "s\<lparr>loc := - 16, func_sub_sp_offset := ind s, ind := ind s + 20\<rparr>"
  let ?ws = "param_words 0 ?n (- 16)"
  let ?f = "fold o_insn ?ws ?s1"
  let ?s' = "?f\<lparr>loc := - 16 - 8 * of_nat ?n, params := params s @ param_entries (chain_types nx) (- 16),
    func_va_list_ofs := 0, num_va_regs := 0\<rparr>"
  have "gfunc_prolog (CType t (Some (TSym rty r cc nx))) vt False s = Inr ?s'"
    using define_word_params [OF assms(1), of 0 0 0 ?s1] assms(2,4,5)
    by (simp add: gfunc_prolog_def Let_def)
  moreover have em: "emitting ?s1" using assms(6,7) by (simp add: emitting_def)
  have l: "length ?ws = ?n" by (simp add: param_words_def)
  have "code_words ?s' (ind s + 20) ?n = ?ws"
    using tsink.words_fold [OF em, of ?ws] l by (simp add: code_words_def code_word_def)
  moreover have "ind ?s' = ind s + 20 + 4 * ?n" using tsink.pos_fold [OF em, of ?ws] l by simp
  moreover have fs: "func_sub_sp_offset (o_insn w t) = func_sub_sp_offset t" for w and t :: "'a frame_state_scheme"
    by (simp add: o_insn_def reserve_def set_text_def Let_def)
  have "func_sub_sp_offset (fold o_insn ws t) = func_sub_sp_offset t" for ws and t :: "'a frame_state_scheme"
    by (induction ws arbitrary: t) (simp_all add: fs)
  then have "func_sub_sp_offset ?s' = ind s" by simp
  moreover have "\<forall>i < ?n. imm12_ok (- 16 - 8 * of_nat (Suc i))"
  proof (intro allI impI)
    fix j assume "j < ?n"
    then have j: "j < 8" using assms(2) by simp
    have "(- 16 - 8 * of_nat (Suc j) :: u32) = word_of_int (- 24 - 8 * int j)" by simp
    moreover have "sint (word_of_int (- 24 - 8 * int j) :: u32) = - 24 - 8 * int j"
      using j by (intro sint_of_int_small) simp_all
    ultimately show "imm12_ok (- 16 - 8 * of_nat (Suc j))"
      using j by (simp add: imm12_ok_iff)
  qed
  ultimately show ?thesis
    using run_param_words [of 0 ?n "- 16" c] assms(2,3) param_mem_slot [OF assms(3,2), of 0 "- 16" c]
    by (intro exI [of _ ?s'] exI [of _ "c\<lparr>pc := pc c + 4 * of_nat ?n, mem := param_mem 0 ?n (- 16) c\<rparr>"]
        exI [of _ "- 16 - 8 * of_nat (Suc i)"]) (simp add: nth_append param_entries_def)
qed

lemma prolog_stores_params_witness:
  defines "nx \<equiv> Some (TSym (CType 3 None) 0 0 (Some (TSym (CType 5 (Some (TSym (CType 1 None) 0 0 None))) 0 0 None)))"
    and "s \<equiv> frame_sample 0" and "c \<equiv> zero_cpu 0"
  shows "\<exists>s' c' l. gfunc_prolog (CType 6 (Some (TSym (CType 3 None) 0 0 nx))) (CType 3 None) False s = Inr s' \<and>
    func_sub_sp_offset s' = ind s \<and> ind s' = ind s + 20 + 4 * length (chain_types nx) \<and>
    run (code_words s' (ind s + 20) (length (chain_types nx))) c = Some c' \<and> regs c' = regs c \<and>
    params s' ! (length (params s) + 1) = (chain_types nx ! 1, VT_LOCAL OR VT_LVAL, l) \<and>
    mem_word (mem c') (rreg c 8 + l) = rreg c (of_nat 1 + 10)"
  by (rule prolog_stores_params [of nx 1 "CType 3 None" 4 4])
    (simp_all add: nx_def s_def frame_sample_def word_type_def IS_ENUM_def)

section \<open>Stack space of a call\<close>

lemma take_bit_12_add: "take_bit 12 (4096 + 0x800 - a) = take_bit 12 (0x800 - a)" for a :: u32
proof -
  have *: "uint (take_bit 12 (x - a)) = (uint x - uint a) mod 4096" for x
    unfolding unsigned_take_bit_eq unfolding take_bit_eq_mod uint_word_ariths
    by (simp add: mod_mod_cancel)
  have "(uint (4096 + 0x800 :: u32) - uint a) mod 4096 = (uint (0x800 :: u32) - uint a) mod 4096"
    using mod_add_self2 [of "2048 - uint a" 4096] by simp
  then show ?thesis by (simp only: * word_uint_eq_iff)
qed

lemma sext12_unsigned:
  fixes a :: u32
  assumes "unat a < 0x1000"
  shows "sext12 (- a) = (if 0x800 < unat a then 4096 - a else - a)"
proof (cases "0x800 < unat a")
  case True
  have "uint (4096 + 0x800 - a) < 4096"
  proof -
    have "a \<le> 4096 + 0x800" using assms by (simp add: word_le_nat_alt)
    then have "unat (4096 + 0x800 - a) = 4096 + 0x800 - unat a"
      using unat_sub [of a "4096 + 0x800"] by simp
    then show ?thesis using True uint_nat [of "4096 + 0x800 - a"] by linarith
  qed
  then have "fits_in 12 (4096 + 0x800 - a)" by (simp add: fits_in_uint_iff)
  then have "take_bit 12 (4096 + 0x800 - a) = 4096 + 0x800 - a" by (simp add: fits_in_def)
  moreover have "take_bit 12 (4096 + 0x800 - a) = take_bit 12 (0x800 - a)"
    by (rule take_bit_12_add)
  ultimately show ?thesis using True by (simp add: sext12_shift)
next
  case False
  have a: "sint a = int (unat a)" using assms by (intro sint_unat) simp
  have "- a = word_of_int (- sint a)" by simp
  moreover have "sint (word_of_int (- sint a) :: u32) = - sint a"
    using assms a by (intro sint_of_int_small) linarith+
  ultimately have "sint (- a) = - sint a" by simp
  then have "- 2048 \<le> sint (- a) \<and> sint (- a) < 2048" using False a by linarith
  then show ?thesis using False by (simp add: imm12_ok_iff imm12_ok_sext12)
qed

text \<open>
  The code that takes the stack space of a call moves the stack pointer down by it, for sizes up
  to 2048. Between there and 4096 the constant does not fit the ADDI that adds it, and the stack
  pointer moves up instead; from 4096 on it is 4096 bytes too low when bit 11 of the negated
  size is set, since the upper part is not rounded.
\<close>

theorem call_space_moves:
  assumes "0 < sint a"
  shows "\<exists>ws c'. appends s ws (call_space a s) \<and> run ws c = Some c' \<and> only_changes {2, 5} c c' \<and>
    rreg c' 2 = rreg c 2 - a +
      (if 0x800 < unat a \<and> unat a < 0x1000 then 4096
       else if 0x1000 \<le> unat a \<and> bit (- a) 11 then - 4096 else 0)"
proof (cases "sint a \<ge> 0x1000")
  case True
  then have u: "0x1000 \<le> unat a" using assms sint_nonneg [of a] uint_nat [of a] by linarith
  let ?ws = "[insn_U (IMM_HIGH (- a)) 5 0x37, insn_I (IMM_LOW (- a)) 5 0 5 0x13, insn_R 0 5 2 0 2 0x33]"
  let ?v = "push_bit 12 (IMM_HIGH (- a)) + sext12 (- a)"
  have "appends s ?ws (call_space a s)"
    using True by (auto simp: call_space_def appends_def emit_ADDI_o emit_LUI_o insn_defs emit_R_def)
  moreover have "run [insn_R 0 5 2 0 2 0x33] d = Some (next_pc (wreg 2 (rreg d 2 + rreg d 5) d))" for d
    using run_op [of 2 5 2 0 0 Add d] by (simp add: fits decode_op_def alu_def)
  then have "run ?ws c = Some (wreg 2 (rreg c 2 + ?v) (wreg 5 ?v (c\<lparr>pc := pc c + 12\<rparr>)))"
    using run_append [of "[insn_U (IMM_HIGH (- a)) 5 0x37, insn_I (IMM_LOW (- a)) 5 0 5 0x13]" "[insn_R 0 5 2 0 2 0x33]" c]
    by (simp add: run_upper_addi [OF fits_8(3)] wreg_pc)
  ultimately show ?thesis
    using u unrounded_sum [of "- a"]
    by (intro exI [of _ ?ws] exI [of _ "wreg 2 (rreg c 2 + ?v) (wreg 5 ?v (c\<lparr>pc := pc c + 12\<rparr>))"])
      (simp add: only_changes_def)
next
  case False
  have "unat a < 0x1000" using False assms sint_nonneg [of a] uint_nat [of a] by linarith
  with sext12_unsigned [of a] False assms show ?thesis
    by (intro exI [of _ "[insn_I (IMM_LOW (- a)) 2 0 2 0x13]"] exI [of _ "next_pc (wreg 2 (rreg c 2 + sext12 (- a)) c)"])
      (auto simp: call_space_def appends_def emit_ADDI_o run_ADDI fits only_changes_def)
qed

lemma call_space_moves_witness:
  "\<exists>ws c'. appends start_state ws (call_space 2064 start_state) \<and> run ws (zero_cpu 0) = Some c' \<and>
    only_changes {2, 5} (zero_cpu 0) c' \<and>
    rreg c' 2 = rreg (zero_cpu 0) 2 - 2064 +
      (if 0x800 < unat (2064 :: u32) \<and> unat (2064 :: u32) < 0x1000 then 4096
       else if 0x1000 \<le> unat (2064 :: u32) \<and> bit (- 2064 :: u32) 11 then - 4096 else 0)"
  by (rule call_space_moves) simp

end
