(* ===== verification/Elf_Symtab.thy ===== *)
theory Elf_Symtab
  imports Prelude
begin

text \<open>
  The symbol tables of tccelf.c: the string table (put_elf_str), the hash table that finds a
  symbol by its name (elf_hash, rebuild_hash, put_elf_sym, find_elf_sym), the definition of a symbol
  that may exist already (set_elf_sym, get_sym_addr) and the sorting of local symbols before the
  others (sort_syms). A section that holds an array of structures or ints is the list of its
  elements. The symbol 0 is the null symbol.
\<close>

section \<open>State\<close>

record Elf32_Sym =
  sy_name :: u32
  sy_value :: u32
  sy_size :: u32
  sy_info :: u8
  sy_other :: u8
  sy_shndx :: u16

text \<open>
  A symbol table with its string table (link) and its hash section, which is absent while a file is
  compiled. Of TCCState it uses new_undef_sym, the count of errors reported without leaving, and
  the number of the bss section; \<open>is_dynsym\<close> is the flag SHF_DYNSYM of the table.
\<close>

record symtab =
  entries :: "Elf32_Sym list"
  strtab :: "u8 list"
  hash_sec :: "nat list option"
  nb_hashed_syms :: nat
  is_dynsym :: bool
  bss_num :: u16
  new_undef_sym :: bool
  nb_errors :: nat

text \<open>A C string is the list of its bytes before the terminating zero.\<close>

type_synonym cname = "u8 list"

definition cstring :: "u8 list \<Rightarrow> nat \<Rightarrow> cname" where
  "cstring bs off = takeWhile (\<lambda>b. b \<noteq> 0) (drop off bs)"

definition sym_name :: "symtab \<Rightarrow> nat \<Rightarrow> cname" where
  "sym_name t i = cstring (strtab t) (unat (sy_name (entries t ! i)))"

abbreviation (input) STB_LOCAL :: u8 where "STB_LOCAL \<equiv> 0"
abbreviation (input) STB_GLOBAL :: u8 where "STB_GLOBAL \<equiv> 1"
abbreviation (input) STB_WEAK :: u8 where "STB_WEAK \<equiv> 2"
abbreviation (input) STV_DEFAULT :: u8 where "STV_DEFAULT \<equiv> 0"
abbreviation (input) STV_INTERNAL :: u8 where "STV_INTERNAL \<equiv> 1"
abbreviation (input) STV_HIDDEN :: u8 where "STV_HIDDEN \<equiv> 2"
abbreviation (input) SHN_UNDEF :: u16 where "SHN_UNDEF \<equiv> 0"
abbreviation (input) SHN_LORESERVE :: u16 where "SHN_LORESERVE \<equiv> 0xff00"
abbreviation (input) SHN_COMMON :: u16 where "SHN_COMMON \<equiv> 0xfff2"
abbreviation (input) ST_ASM_SET :: u8 where "ST_ASM_SET \<equiv> 4"

definition ST_BIND :: "u8 \<Rightarrow> u8" where "ST_BIND v = drop_bit 4 v"
definition ST_TYPE :: "u8 \<Rightarrow> u8" where "ST_TYPE v = v AND 0xf"
definition ST_INFO :: "u8 \<Rightarrow> u8 \<Rightarrow> u8" where "ST_INFO b t = push_bit 4 b + (t AND 0xf)"
definition ST_VISIBILITY :: "u8 \<Rightarrow> u8" where "ST_VISIBILITY v = v AND 3"

section \<open>Strings\<close>

definition put_elf_str :: "cname \<Rightarrow> symtab \<Rightarrow> nat \<times> symtab" where
  "put_elf_str name t = (length (strtab t), t\<lparr>strtab := strtab t @ name @ [0]\<rparr>)"

text \<open>The hash is an unsigned long, which has 32 bits on the host.\<close>

definition elf_hash_step :: "u8 \<Rightarrow> u32 \<Rightarrow> u32" where
  "elf_hash_step c h0 =
     (let h = push_bit 4 h0 + ucast c; g = h AND 0xf0000000 in
      (if g \<noteq> 0 then h XOR drop_bit 24 g else h) AND NOT g)"

definition elf_hash :: "cname \<Rightarrow> u32" where
  "elf_hash name = fold elf_hash_step name 0"

section \<open>The hash table\<close>

text \<open>
  The hash section is an array of ints: the number of buckets, the number of symbols, the buckets,
  then for every symbol the next one of its bucket. Accesses outside it are faults.
\<close>

definition hget :: "nat list \<Rightarrow> nat \<Rightarrow> nat res" where
  "hget H i = (if i < length H then Inr (H ! i) else Inl MemFault)"

definition hset :: "nat \<Rightarrow> nat \<Rightarrow> nat list \<Rightarrow> nat list res" where
  "hset i x H = (if i < length H then Inr (H[i := x]) else Inl MemFault)"

definition bucket :: "nat \<Rightarrow> cname \<Rightarrow> nat res" where
  "bucket nb name = (if nb = 0 then Inl MemFault else Inr (unat (elf_hash name) mod nb))"

text \<open>
  Symbol \<open>i\<close>, whose chain entry is at \<open>p\<close>: at the head of its bucket, or nowhere when it is local.
  \<open>buckets\<close> is the position of the buckets in the array.
\<close>

definition chain_sym :: "nat \<Rightarrow> symtab \<Rightarrow> nat \<Rightarrow> nat \<Rightarrow> nat list \<Rightarrow> nat list res" where
  "chain_sym nb t i p H =
     (if ST_BIND (sy_info (entries t ! i)) \<noteq> STB_LOCAL then
        bindR (bucket nb (sym_name t i)) (\<lambda>h.
        bindR (hget H (2 + h)) (\<lambda>first.
        bindR (hset p first H) (hset (2 + h) i)))
      else hset p 0 H)"

fun rebuild_loop :: "nat \<Rightarrow> symtab \<Rightarrow> nat list \<Rightarrow> nat list \<Rightarrow> nat list res" where
  "rebuild_loop nb t [] H = Inr H"
| "rebuild_loop nb t (i # is) H = bindR (chain_sym nb t i (2 + nb + i) H) (rebuild_loop nb t is)"

definition rebuild_hash :: "nat \<Rightarrow> symtab \<Rightarrow> symtab res" where
  "rebuild_hash nb_buckets t =
     (case hash_sec t of None \<Rightarrow> Inl MemFault
      | Some H0 \<Rightarrow>
        bindR (if nb_buckets = 0 then hget H0 0 else Inr nb_buckets) (\<lambda>nb.
        let n = length (entries t) in
        bindR (rebuild_loop nb t [1..<n] ([nb, n] @ replicate (nb + n) 0)) (\<lambda>H.
          Inr (t\<lparr>hash_sec := Some H\<rparr>))))"

definition hash_new_sym :: "nat \<Rightarrow> symtab \<Rightarrow> symtab res" where
  "hash_new_sym i t =
     (case hash_sec t of None \<Rightarrow> Inr t
      | Some H0 \<Rightarrow>
        bindR (hget H0 0) (\<lambda>nb.
        bindR (chain_sym nb t i (length H0) (H0 @ [0])) (\<lambda>H.
        bindR (hget H 1) (\<lambda>c. bindR (hset 1 (c + 1) H) (\<lambda>H1.
        let t1 = t\<lparr>hash_sec := Some H1\<rparr> in
        if ST_BIND (sy_info (entries t ! i)) \<noteq> STB_LOCAL
        then let t2 = t1\<lparr>nb_hashed_syms := nb_hashed_syms t1 + 1\<rparr> in
          (if nb_hashed_syms t2 > 2 * nb then rebuild_hash (2 * nb) t2 else Inr t2)
        else Inr t1)))))"

text \<open>put_elf_sym; no name is the empty name. It returns the index of the symbol.\<close>

definition put_elf_sym :: "u32 \<Rightarrow> u32 \<Rightarrow> u8 \<Rightarrow> u8 \<Rightarrow> u16 \<Rightarrow> cname \<Rightarrow> symtab \<Rightarrow> (nat \<times> symtab) res" where
  "put_elf_sym value sz info other shndx name t =
     (let (off, t1) = (if name \<noteq> [] then put_elf_str name t else (0, t));
          i = length (entries t);
          sym = \<lparr>sy_name = of_nat off, sy_value = value, sy_size = sz, sy_info = info,
                 sy_other = other, sy_shndx = shndx\<rparr> in
      bindR (hash_new_sym i (t1\<lparr>entries := entries t1 @ [sym]\<rparr>)) (\<lambda>t2. Inr (i, t2)))"

fun find_loop :: "nat \<Rightarrow> nat \<Rightarrow> cname \<Rightarrow> symtab \<Rightarrow> nat list \<Rightarrow> nat \<Rightarrow> nat res" where
  "find_loop 0 nb name t H i = Inl NoReturn"
| "find_loop (Suc k) nb name t H i =
     (if i = 0 then Inr 0
      else if i \<ge> length (entries t) then Inl MemFault
      else if name = sym_name t i then Inr i
      else bindR (hget H (2 + nb + i)) (find_loop k nb name t H))"

definition find_elf_sym :: "nat \<Rightarrow> cname \<Rightarrow> symtab \<Rightarrow> nat res" where
  "find_elf_sym k name t =
     (case hash_sec t of None \<Rightarrow> Inr 0
      | Some H \<Rightarrow>
        bindR (hget H 0) (\<lambda>nb.
        bindR (bucket nb name) (\<lambda>h.
        bindR (hget H (2 + h)) (find_loop k nb name t H))))"

text \<open>new_symtab, for the bss section number and flag of the table.\<close>

definition new_symtab :: "bool \<Rightarrow> u16 \<Rightarrow> symtab res" where
  "new_symtab dyn bss =
     (let t = \<lparr>entries = [], strtab = [], hash_sec = None, nb_hashed_syms = 0, is_dynsym = dyn,
          bss_num = bss, new_undef_sym = False, nb_errors = 0\<rparr>;
          (off, t1) = put_elf_str [] t in
      bindR (put_elf_sym 0 0 0 0 0 [] t1) (\<lambda>(i, t2). Inr (t2\<lparr>hash_sec := Some [1, 1, 0, 0]\<rparr>)))"

section \<open>Defining a symbol\<close>

text \<open>The visibility of a symbol seen twice: the most constraining one.\<close>

definition merge_vis :: "u8 \<Rightarrow> u8 \<Rightarrow> u8" where
  "merge_vis esym_vis sym_vis =
     (if esym_vis = STV_DEFAULT then sym_vis
      else if sym_vis = STV_DEFAULT then esym_vis
      else if esym_vis < sym_vis then esym_vis else sym_vis)"

definition set_entry :: "nat \<Rightarrow> (Elf32_Sym \<Rightarrow> Elf32_Sym) \<Rightarrow> symtab \<Rightarrow> symtab" where
  "set_entry i f t = t\<lparr>entries := (entries t)[i := f (entries t ! i)]\<rparr>"

text \<open>do_patch: the new definition takes the place of the entry.\<close>

definition patch_sym :: "nat \<Rightarrow> u32 \<Rightarrow> u32 \<Rightarrow> u8 \<Rightarrow> u16 \<Rightarrow> symtab \<Rightarrow> symtab" where
  "patch_sym i value sz info shndx t =
     (set_entry i (\<lambda>e. e\<lparr>sy_info := ST_INFO (ST_BIND info) (ST_TYPE info), sy_shndx := shndx,
        sy_value := value, sy_size := sz\<rparr>) t)\<lparr>new_undef_sym := True\<rparr>"

text \<open>What happens to a symbol \<open>e\<close> that is defined already: keep it, patch it, or complain.\<close>

datatype verdict = Keep | Patch | Twice

definition redefine :: "bool \<Rightarrow> u16 \<Rightarrow> Elf32_Sym \<Rightarrow> u8 \<Rightarrow> u8 \<Rightarrow> u16 \<Rightarrow> verdict" where
  "redefine dyn bss e sym_bind sym_vis shndx =
     (let esym_bind = ST_BIND (sy_info e) in
      if shndx = SHN_UNDEF then Keep
      else if sym_bind = STB_GLOBAL \<and> esym_bind = STB_WEAK then Patch
      else if sym_bind = STB_WEAK \<and> esym_bind = STB_GLOBAL then Keep
      else if sym_bind = STB_WEAK \<and> esym_bind = STB_WEAK then Keep
      else if sym_vis = STV_HIDDEN \<or> sym_vis = STV_INTERNAL then Keep
      else if (sy_shndx e = SHN_COMMON \<or> sy_shndx e = bss) \<and> shndx < SHN_LORESERVE \<and> shndx \<noteq> bss
      then Patch
      else if shndx = SHN_COMMON \<or> shndx = bss then Keep
      else if dyn then Keep
      else if sy_other e AND ST_ASM_SET \<noteq> 0 then Patch
      else Twice)"

definition set_elf_sym :: "nat \<Rightarrow> u32 \<Rightarrow> u32 \<Rightarrow> u8 \<Rightarrow> u8 \<Rightarrow> u16 \<Rightarrow> cname \<Rightarrow> symtab \<Rightarrow> (nat \<times> symtab) res" where
  "set_elf_sym k value sz info other shndx name t =
     (let sym_bind = ST_BIND info; sym_vis = ST_VISIBILITY other;
          do_def = put_elf_sym value sz (ST_INFO sym_bind (ST_TYPE info)) other shndx name t in
      if sym_bind = STB_LOCAL then do_def
      else bindR (find_elf_sym k name t) (\<lambda>i.
        if i = 0 then do_def
        else let e = entries t ! i in
          if sy_value e = value \<and> sy_size e = sz \<and> sy_info e = info \<and> sy_other e = other \<and> sy_shndx e = shndx
          then Inr (i, t)
          else if sy_shndx e \<noteq> SHN_UNDEF then
            (let t1 = set_entry i (\<lambda>e. e\<lparr>sy_other := (sy_other e AND NOT 3) OR
                   merge_vis (ST_VISIBILITY (sy_other e)) sym_vis\<rparr>) t in
             case redefine (is_dynsym t) (bss_num t) (entries t1 ! i) sym_bind sym_vis shndx of
               Keep \<Rightarrow> Inr (i, t1)
             | Patch \<Rightarrow> Inr (i, patch_sym i value sz info shndx t1)
             | Twice \<Rightarrow> Inr (i, t1\<lparr>nb_errors := nb_errors t1 + 1\<rparr>))
          else Inr (i, patch_sym i value sz info shndx (set_entry i (\<lambda>e. e\<lparr>sy_other := other\<rparr>) t))))"

definition get_sym_addr :: "nat \<Rightarrow> bool \<Rightarrow> cname \<Rightarrow> bool \<Rightarrow> bool \<Rightarrow> symtab \<Rightarrow> u32 res" where
  "get_sym_addr k leading_underscore name err forc t =
     bindR (find_elf_sym k (if forc \<and> leading_underscore then 0x5f # take 254 name else name) t) (\<lambda>i.
     if i = 0 \<or> sy_shndx (entries t ! i) = SHN_UNDEF
     then (if err then Inl (TccError ''not defined'') else Inr (- 1))
     else Inr (sy_value (entries t ! i)))"

section \<open>Sorting\<close>

text \<open>A relocation entry as far as sorting changes it: offset, symbol and type.\<close>

type_synonym rel_entry = "u32 \<times> nat \<times> nat"

fun sort_pass :: "(Elf32_Sym \<Rightarrow> bool) \<Rightarrow> nat \<Rightarrow> Elf32_Sym list \<Rightarrow> nat list \<times> Elf32_Sym list \<Rightarrow>
    nat list \<times> Elf32_Sym list" where
  "sort_pass P i [] r = r"
| "sort_pass P i (p # ps) (old_to_new, q) =
     sort_pass P (i + 1) ps (if P p then (old_to_new[i := length q], q @ [p]) else (old_to_new, q))"

fun modify_relocations :: "nat list \<Rightarrow> rel_entry list \<Rightarrow> rel_entry list res" where
  "modify_relocations old_to_new [] = Inr []"
| "modify_relocations old_to_new ((off, i, ty) # rels) =
     bindR (hget old_to_new i) (\<lambda>j.
     bindR (modify_relocations old_to_new rels) (\<lambda>rs. Inr ((off, j, ty) # rs)))"

text \<open>
  sort_syms, for the entries of all relocation sections of the table; it also returns the number of
  local symbols, the sh_info of the table.
\<close>

definition is_local_sym :: "Elf32_Sym \<Rightarrow> bool" where
  "is_local_sym p \<longleftrightarrow> ST_BIND (sy_info p) = STB_LOCAL"

definition sort_syms :: "rel_entry list \<Rightarrow> symtab \<Rightarrow> (nat \<times> rel_entry list \<times> symtab) res" where
  "sort_syms rels t =
     (let n = length (entries t);
          (m1, q1) = sort_pass is_local_sym 0 (entries t) (replicate n 0, []);
          (m2, q2) = sort_pass (\<lambda>p. \<not> is_local_sym p) 0 (entries t) (m1, q1) in
      bindR (modify_relocations m2 rels) (\<lambda>rs. Inr (length q1, rs, t\<lparr>entries := q2\<rparr>)))"

end
