(* ===== verification/Elf_Symtab_Props.thy ===== *)
theory Elf_Symtab_Props
  imports Elf_Symtab
begin

text \<open>
  The hash table of a symbol table finds what was put into it: the chain of a bucket holds exactly the
  symbols that are not local and whose names hash to the bucket, newest first, and every operation
  keeps it so, also when the table is rebuilt with more buckets. So a lookup gives the newest symbol
  of that name. Defining a symbol twice resolves to one entry, and sorting keeps what relocations mean.
\<close>

section \<open>Chains\<close>

fun chained :: "nat list \<Rightarrow> nat \<Rightarrow> nat \<Rightarrow> nat list \<Rightarrow> bool" where
  "chained H nb j [] \<longleftrightarrow> j = 0"
| "chained H nb j (i # is) \<longleftrightarrow> j = i \<and> 0 < i \<and> chained H nb (H ! (2 + nb + i)) is"

text \<open>The symbols below \<open>m\<close> of a bucket, newest first; \<open>key i\<close> is the bucket of a symbol, if any.\<close>

definition in_bucket :: "(nat \<Rightarrow> nat option) \<Rightarrow> nat \<Rightarrow> nat \<Rightarrow> nat list" where
  "in_bucket key m h = rev (filter (\<lambda>i. key i = Some h) [1..<m])"

definition chains_ok :: "(nat \<Rightarrow> nat option) \<Rightarrow> nat \<Rightarrow> nat \<Rightarrow> nat list \<Rightarrow> bool" where
  "chains_ok key nb m H \<longleftrightarrow> 0 < nb \<and> 0 < m \<and> 2 + nb + m \<le> length H \<and>
     (\<forall>h < nb. chained H nb (H ! (2 + h)) (in_bucket key m h))"

lemma in_bucket_lt: "i \<in> set (in_bucket key m h) \<Longrightarrow> 0 < i \<and> i < m"
  by (auto simp: in_bucket_def)

lemma in_bucket_Suc: "0 < m \<Longrightarrow> in_bucket key (Suc m) h = (if key m = Some h then m # in_bucket key m h else in_bucket key m h)"
  by (simp add: in_bucket_def)

lemma chained_cong:
  "chained H nb j is \<Longrightarrow> (\<And>i. i \<in> set is \<Longrightarrow> H' ! (2 + nb + i) = H ! (2 + nb + i)) \<Longrightarrow> chained H' nb j is"
  by (induction "is" arbitrary: j) auto

lemma chains_ok_insert:
  assumes "chains_ok key nb m H" and "2 + nb + m < length H" and "key m = Some h" and "h < nb"
  shows "chains_ok key nb (Suc m) (H[2 + nb + m := H ! (2 + h), 2 + h := m])"
proof -
  let ?H = "H[2 + nb + m := H ! (2 + h), 2 + h := m]"
  note ok = assms(1) [unfolded chains_ok_def]
  have old: "chained ?H nb (H ! (2 + g)) (in_bucket key m g)" if "g < nb" for g
  proof (rule chained_cong)
    show "chained H nb (H ! (2 + g)) (in_bucket key m g)" using ok that by blast
    show "?H ! (2 + nb + i) = H ! (2 + nb + i)" if "i \<in> set (in_bucket key m g)" for i
      using in_bucket_lt [OF that] assms(2,4) by (simp add: nth_list_update)
  qed
  have "chained ?H nb (?H ! (2 + g)) (in_bucket key (Suc m) g)" if g: "g < nb" for g
    using old [OF g] old [OF assms(4)] assms g ok by (auto simp: in_bucket_Suc nth_list_update)
  then show ?thesis using ok assms(2) by (simp add: chains_ok_def)
qed

lemma chains_ok_skip:
  assumes "chains_ok key nb m H" and "2 + nb + m < length H" and "key m = None"
  shows "chains_ok key nb (Suc m) (H[2 + nb + m := 0])"
proof -
  note ok = assms(1) [unfolded chains_ok_def]
  have "chained (H[2 + nb + m := 0]) nb (H ! (2 + g)) (in_bucket key m g)" if "g < nb" for g
  proof (rule chained_cong)
    show "chained H nb (H ! (2 + g)) (in_bucket key m g)" using ok that by blast
    show "H[2 + nb + m := 0] ! (2 + nb + i) = H ! (2 + nb + i)" if "i \<in> set (in_bucket key m g)" for i
      using in_bucket_lt [OF that] assms(2) by (simp add: nth_list_update)
  qed
  then show ?thesis using ok assms(2,3) by (simp add: chains_ok_def in_bucket_Suc)
qed

section \<open>Names and keys\<close>

definition hashed :: "symtab \<Rightarrow> nat \<Rightarrow> bool" where
  "hashed t i \<longleftrightarrow> ST_BIND (sy_info (entries t ! i)) \<noteq> STB_LOCAL"

definition key_of :: "symtab \<Rightarrow> nat \<Rightarrow> nat \<Rightarrow> nat option" where
  "key_of t nb i = (if hashed t i then Some (unat (elf_hash (sym_name t i)) mod nb) else None)"

lemma chain_sym_ok:
  assumes "chains_ok (key_of t nb) nb m H" and "2 + nb + m < length H"
  obtains H' where "chain_sym nb t m (2 + nb + m) H = Inr H'" "chains_ok (key_of t nb) nb (Suc m) H'"
    "length H' = length H" "\<And>i. i < 2 \<Longrightarrow> H' ! i = H ! i"
proof (cases "hashed t m")
  case True
  let ?h = "unat (elf_hash (sym_name t m)) mod nb"
  have nb: "0 < nb" using assms(1) by (simp add: chains_ok_def)
  then have h: "?h < nb" by simp
  have "chain_sym nb t m (2 + nb + m) H = Inr (H[2 + nb + m := H ! (2 + ?h), 2 + ?h := m])"
    using True nb h assms(2) by (simp add: chain_sym_def hashed_def bucket_def hget_def hset_def)
  moreover have "chains_ok (key_of t nb) nb (Suc m) (H[2 + nb + m := H ! (2 + ?h), 2 + ?h := m])"
    using True h by (intro chains_ok_insert assms) (simp_all add: key_of_def)
  ultimately show thesis by (rule that) simp_all
next
  case False
  have "chain_sym nb t m (2 + nb + m) H = Inr (H[2 + nb + m := 0])"
    using False assms(2) by (simp add: chain_sym_def hashed_def hset_def)
  moreover have "chains_ok (key_of t nb) nb (Suc m) (H[2 + nb + m := 0])"
    using False by (intro chains_ok_skip assms) (simp_all add: key_of_def)
  ultimately show thesis by (rule that) simp_all
qed

lemma rebuild_loop_ok:
  assumes "chains_ok (key_of t nb) nb m H" and "m \<le> n" and "length H = 2 + nb + n"
  shows "\<exists>H'. rebuild_loop nb t [m..<n] H = Inr H' \<and> chains_ok (key_of t nb) nb n H' \<and>
    length H' = length H \<and> (\<forall>i < 2. H' ! i = H ! i)"
  using assms
proof (induction "n - m" arbitrary: m H)
  case 0
  then show ?case by simp
next
  case (Suc d)
  then have m: "m < n" by simp
  then obtain H1 where H1: "chain_sym nb t m (2 + nb + m) H = Inr H1" "chains_ok (key_of t nb) nb (Suc m) H1"
    "length H1 = length H" "\<And>i. i < 2 \<Longrightarrow> H1 ! i = H ! i"
    using chain_sym_ok [of t nb m H] Suc.prems by auto
  have "d = n - Suc m" using Suc.hyps(2) by simp
  from Suc.hyps(1) [OF this H1(2)] Suc.prems H1 m
  obtain H' where "rebuild_loop nb t [Suc m..<n] H1 = Inr H'" "chains_ok (key_of t nb) nb n H'"
    "length H' = length H1" "\<forall>i < 2. H' ! i = H1 ! i" by auto
  with H1 m show ?case by (simp add: upt_conv_Cons)
qed

definition names_ok :: "symtab \<Rightarrow> bool" where
  "names_ok t \<longleftrightarrow> strtab t \<noteq> [] \<and> hd (strtab t) = 0 \<and> last (strtab t) = 0 \<and>
     (\<forall>i < length (entries t). unat (sy_name (entries t ! i)) < length (strtab t))"

text \<open>The invariant of a symbol table with a hash table.\<close>

definition symtab_ok :: "symtab \<Rightarrow> bool" where
  "symtab_ok t \<longleftrightarrow> names_ok t \<and>
     (case hash_sec t of None \<Rightarrow> False
      | Some H \<Rightarrow> length H = 2 + H ! 0 + length (entries t) \<and> H ! 1 = length (entries t) \<and>
          chains_ok (key_of t (H ! 0)) (H ! 0) (length (entries t)) H)"

lemma cstring_append:
  assumes "bs \<noteq> []" and "last bs = 0" and "off < length bs"
  shows "cstring (bs @ cs) off = cstring bs off"
proof -
  have "last (drop off bs) = 0" "drop off bs \<noteq> []" using assms by simp_all
  then have "0 \<in> set (drop off bs)" by (metis last_in_set)
  then show ?thesis using assms(3) by (simp add: cstring_def takeWhile_append1)
qed

lemma cstring_new: "0 \<notin> set name \<Longrightarrow> cstring (bs @ name @ [0]) (length bs) = name"
  by (induction name) (simp_all add: cstring_def)

lemma cstring_empty: "bs \<noteq> [] \<Longrightarrow> hd bs = 0 \<Longrightarrow> cstring bs 0 = []"
  by (cases bs) (simp_all add: cstring_def)

lemma in_bucket_cong: "(\<And>i. i < m \<Longrightarrow> key i = key' i) \<Longrightarrow> in_bucket key m h = in_bucket key' m h"
  by (auto simp: in_bucket_def intro!: filter_cong)

lemma chains_ok_cong:
  assumes "chains_ok key nb m H" and "\<And>i. i < m \<Longrightarrow> key i = key' i"
  shows "chains_ok key' nb m H"
  using assms in_bucket_cong [of m key key'] by (simp add: chains_ok_def)

lemma chains_ok_extend:
  assumes "chains_ok key nb m H" and "2 + nb + m = length H"
  shows "chains_ok key nb m (H @ [x])"
proof -
  note ok = assms(1) [unfolded chains_ok_def]
  have "chained (H @ [x]) nb (H ! (2 + g)) (in_bucket key m g)" if "g < nb" for g
  proof (rule chained_cong)
    show "chained H nb (H ! (2 + g)) (in_bucket key m g)" using ok that by blast
    show "(H @ [x]) ! (2 + nb + i) = H ! (2 + nb + i)" if "i \<in> set (in_bucket key m g)" for i
      using in_bucket_lt [OF that] assms(2) by (simp add: nth_append)
  qed
  then show ?thesis using ok assms(2) by (simp add: chains_ok_def nth_append)
qed

lemma chains_ok_fresh: "0 < nb \<Longrightarrow> 1 \<le> n \<Longrightarrow> chains_ok key nb 1 ([nb, n] @ replicate (nb + n) 0)"
  by (auto simp: chains_ok_def in_bucket_def nth_append nth_Cons')

lemma rebuild_hash_ok:
  assumes "hash_sec t = Some H0" and "entries t \<noteq> []" and "0 < nb"
  shows "\<exists>H. rebuild_hash nb t = Inr (t\<lparr>hash_sec := Some H\<rparr>) \<and> H ! 0 = nb \<and>
    length H = 2 + nb + length (entries t) \<and> H ! 1 = length (entries t) \<and>
    chains_ok (key_of t nb) nb (length (entries t)) H"
proof -
  let ?n = "length (entries t)"
  let ?H = "[nb, ?n] @ replicate (nb + ?n) 0"
  have n: "1 \<le> ?n" using assms(2) by (cases "entries t") simp_all
  obtain H' where "rebuild_loop nb t [1..<?n] ?H = Inr H'" "chains_ok (key_of t nb) nb ?n H'"
    "length H' = length ?H" "\<forall>i < 2. H' ! i = ?H ! i"
    using rebuild_loop_ok [OF chains_ok_fresh [OF assms(3) n] n] by auto
  then show ?thesis using assms(1,3) by (auto simp: rebuild_hash_def Let_def)
qed

lemma hash_new_sym_ok:
  assumes "hash_sec t = Some H0" and "entries t = es @ [sy]" and "es \<noteq> []"
    and "length H0 = 2 + H0 ! 0 + length es" and "H0 ! 1 = length es"
    and "chains_ok (key_of t (H0 ! 0)) (H0 ! 0) (length es) H0"
  shows "\<exists>H n. hash_new_sym (length es) t = Inr (t\<lparr>hash_sec := Some H, nb_hashed_syms := n\<rparr>) \<and>
    length H = 2 + H ! 0 + length (entries t) \<and> H ! 1 = length (entries t) \<and>
    chains_ok (key_of t (H ! 0)) (H ! 0) (length (entries t)) H"
proof -
  let ?nb = "H0 ! 0" and ?n = "length es"
  have key: "key_of (t\<lparr>hash_sec := h, nb_hashed_syms := m\<rparr>) = key_of t" for h m
    by (simp add: key_of_def hashed_def sym_name_def fun_eq_iff)
  have ok: "chains_ok (key_of t ?nb) ?nb ?n (H0 @ [0])"
    using assms(4,6) by (intro chains_ok_extend) simp_all
  then obtain H where H: "chain_sym ?nb t ?n (2 + ?nb + ?n) (H0 @ [0]) = Inr H"
    "chains_ok (key_of t ?nb) ?nb (Suc ?n) H" "length H = length (H0 @ [0])"
    "\<And>i. i < 2 \<Longrightarrow> H ! i = (H0 @ [0]) ! i"
    using chain_sym_ok [of t ?nb ?n "H0 @ [0]"] assms(4) by auto
  let ?H = "H[1 := Suc ?n]"
  have ok1: "chains_ok (key_of t ?nb) ?nb (Suc ?n) ?H"
  proof -
    note o = H(2) [unfolded chains_ok_def]
    have "chained ?H ?nb (H ! (2 + g)) (in_bucket (key_of t ?nb) (Suc ?n) g)" if "g < ?nb" for g
      by (rule chained_cong [of H]) (use o that in auto)
    then show ?thesis using o by (simp add: chains_ok_def)
  qed
  have h: "H ! 0 = ?nb" "H ! 1 = ?n" "length H = 3 + ?nb + ?n"
    using H(3) H(4) [of 0] H(4) [of 1] assms(4,5) by (simp_all add: nth_append)
  have r: "hget H0 0 = Inr ?nb" "hget H 1 = Inr ?n" "hset 1 (?n + 1) H = Inr ?H"
    using assms(4) h by (simp_all add: hget_def hset_def)
  have c: "chain_sym ?nb t ?n (length H0) (H0 @ [0]) = Inr H" using H(1) assms(4) by simp
  let ?t2 = "t\<lparr>hash_sec := Some ?H, nb_hashed_syms := nb_hashed_syms t + 1\<rparr>"
  show ?thesis
  proof (cases "hashed t ?n \<and> nb_hashed_syms t + 1 > 2 * ?nb")
    case True
    have "0 < ?nb" using ok by (simp add: chains_ok_def)
    then obtain H' where H': "rebuild_hash (2 * ?nb) ?t2 = Inr (?t2\<lparr>hash_sec := Some H'\<rparr>)" "H' ! 0 = 2 * ?nb"
      "length H' = 2 + 2 * ?nb + length (entries t)" "H' ! 1 = length (entries t)"
      "chains_ok (key_of t (2 * ?nb)) (2 * ?nb) (length (entries t)) H'"
      using rebuild_hash_ok [of ?t2 ?H "2 * ?nb"] assms(2) by (auto simp: key)
    have "hash_new_sym ?n t = Inr (t\<lparr>hash_sec := Some H', nb_hashed_syms := nb_hashed_syms t + 1\<rparr>)"
      using True H'(1) assms(1) r c by (simp add: hash_new_sym_def hashed_def)
    with H' show ?thesis by (intro exI [of _ H'] exI [of _ "nb_hashed_syms t + 1"]) simp
  next
    case False
    from False have "\<exists>m. hash_new_sym ?n t = Inr (t\<lparr>hash_sec := Some ?H, nb_hashed_syms := m\<rparr>)"
      using assms(1) r c
      by (intro exI [of _ "if hashed t ?n then nb_hashed_syms t + 1 else nb_hashed_syms t"])
        (auto simp: hash_new_sym_def hashed_def Let_def simp del: One_nat_def)
    with ok1 h assms(2) show ?thesis by (auto intro!: exI [of _ ?H])
  qed
qed

section \<open>Adding a symbol\<close>

text \<open>The table after a symbol was appended, but for its hash table.\<close>

definition with_sym :: "u32 \<Rightarrow> u32 \<Rightarrow> u8 \<Rightarrow> u8 \<Rightarrow> u16 \<Rightarrow> cname \<Rightarrow> symtab \<Rightarrow> symtab" where
  "with_sym vl sz info other shndx name t = t\<lparr>
     strtab := (if name = [] then strtab t else strtab t @ name @ [0]),
     entries := entries t @ [\<lparr>sy_name = (if name = [] then 0 else of_nat (length (strtab t))), sy_value = vl,
       sy_size = sz, sy_info = info, sy_other = other, sy_shndx = shndx\<rparr>]\<rparr>"

lemma with_sym_names:
  assumes "names_ok t" and "0 \<notin> set name" and "length (strtab t) < 2 ^ 32"
  shows "names_ok (with_sym vl sz info other shndx name t)"
    and "sym_name (with_sym vl sz info other shndx name t) (length (entries t)) = name"
    and "i < length (entries t) \<Longrightarrow> sym_name (with_sym vl sz info other shndx name t) i = sym_name t i"
proof -
  let ?t = "with_sym vl sz info other shndx name t"
  note n = assms(1) [unfolded names_ok_def]
  have u: "unat (of_nat (length (strtab t)) :: u32) = length (strtab t)"
    using assms(3) by (simp add: unat_of_nat)
  show "names_ok ?t"
    using n u by (auto simp: names_ok_def with_sym_def nth_append less_Suc_eq)
  show "sym_name ?t (length (entries t)) = name"
    using n u assms(2) by (simp add: sym_name_def with_sym_def cstring_new cstring_empty)
  show "sym_name ?t i = sym_name t i" if "i < length (entries t)"
    using n that cstring_append [of "strtab t"] by (auto simp: sym_name_def with_sym_def nth_append)
qed

lemma put_elf_sym_ok:
  assumes "symtab_ok t" and "0 \<notin> set name" and "length (strtab t) < 2 ^ 32"
  obtains H n where "put_elf_sym vl sz info other shndx name t =
      Inr (length (entries t), (with_sym vl sz info other shndx name t)\<lparr>hash_sec := Some H, nb_hashed_syms := n\<rparr>)"
    and "symtab_ok ((with_sym vl sz info other shndx name t)\<lparr>hash_sec := Some H, nb_hashed_syms := n\<rparr>)"
proof -
  let ?t = "with_sym vl sz info other shndx name t"
  note nm = with_sym_names [where vl = vl and sz = sz and info = info and other = other and shndx = shndx, OF _ assms(2,3)]
  obtain H0 where H0: "hash_sec t = Some H0" "length H0 = 2 + H0 ! 0 + length (entries t)"
    "H0 ! 1 = length (entries t)" "chains_ok (key_of t (H0 ! 0)) (H0 ! 0) (length (entries t)) H0"
    and no: "names_ok t"
    using assms(1) by (auto simp: symtab_ok_def split: option.splits)
  have e: "entries ?t = entries t @ [entries ?t ! length (entries t)]" "hash_sec ?t = Some H0"
    using H0(1) by (simp_all add: with_sym_def)
  have ne: "entries t \<noteq> []" using H0(4) by (auto simp: chains_ok_def)
  have "key_of t nb i = key_of ?t nb i" if "i < length (entries t)" for nb i
    using nm(3) [OF no that] that by (simp add: key_of_def hashed_def with_sym_def nth_append)
  then have "chains_ok (key_of ?t (H0 ! 0)) (H0 ! 0) (length (entries t)) H0"
    by (rule chains_ok_cong [OF H0(4)])
  from hash_new_sym_ok [OF e(2) e(1) ne H0(2,3) this] obtain H n where
    r: "hash_new_sym (length (entries t)) ?t = Inr (?t\<lparr>hash_sec := Some H, nb_hashed_syms := n\<rparr>)"
    and H: "length H = 2 + H ! 0 + length (entries ?t)" "H ! 1 = length (entries ?t)"
      "chains_ok (key_of ?t (H ! 0)) (H ! 0) (length (entries ?t)) H" by blast
  have key: "key_of (?t\<lparr>hash_sec := h, nb_hashed_syms := m\<rparr>) = key_of ?t" for h m
    by (simp add: key_of_def hashed_def sym_name_def fun_eq_iff)
  have "put_elf_sym vl sz info other shndx name t = Inr (length (entries t), ?t\<lparr>hash_sec := Some H, nb_hashed_syms := n\<rparr>)"
    using r by (cases "name = []") (simp_all add: put_elf_sym_def put_elf_str_def with_sym_def)
  moreover have "symtab_ok (?t\<lparr>hash_sec := Some H, nb_hashed_syms := n\<rparr>)"
    using H nm(1) [OF no] by (simp add: symtab_ok_def key names_ok_def)
  ultimately show thesis by (rule that)
qed

section \<open>Looking up\<close>

text \<open>What a lookup should give: the newest symbol of that name that is not local, or 0.\<close>

definition newest :: "cname \<Rightarrow> symtab \<Rightarrow> nat" where
  "newest name t = (case filter (\<lambda>i. hashed t i \<and> sym_name t i = name) (rev [1..<length (entries t)]) of
     [] \<Rightarrow> 0 | i # _ \<Rightarrow> i)"

lemma find_loop_chain:
  assumes "chained H nb j is" and "\<forall>i \<in> set is. i < length (entries t)" and "2 + nb + length (entries t) \<le> length H"
    and "length is < k"
  shows "find_loop k nb name t H j = Inr (case filter (\<lambda>i. sym_name t i = name) is of [] \<Rightarrow> 0 | i # _ \<Rightarrow> i)"
  using assms
proof (induction "is" arbitrary: j k)
  case Nil
  then show ?case by (cases k) simp_all
next
  case (Cons i "is")
  then obtain k' where k: "k = Suc k'" by (cases k) auto
  show ?case
    using Cons by (auto simp: k hget_def)
qed

lemma find_elf_sym_newest:
  assumes "symtab_ok t" and "length (entries t) \<le> k"
  shows "find_elf_sym k name t = Inr (newest name t)"
proof -
  obtain H where H: "hash_sec t = Some H" "length H = 2 + H ! 0 + length (entries t)"
    "chains_ok (key_of t (H ! 0)) (H ! 0) (length (entries t)) H"
    using assms(1) by (auto simp: symtab_ok_def split: option.splits)
  let ?nb = "H ! 0" and ?n = "length (entries t)"
  let ?h = "unat (elf_hash name) mod ?nb"
  let ?is = "in_bucket (key_of t ?nb) ?n ?h"
  have nb: "0 < ?nb" "0 < ?n" using H(3) by (simp_all add: chains_ok_def)
  then have h: "?h < ?nb" by simp
  have "chained H ?nb (H ! (2 + ?h)) ?is" using H(3) h by (simp add: chains_ok_def)
  moreover have "\<forall>i \<in> set ?is. i < ?n" using in_bucket_lt by blast
  moreover have "length ?is < k"
  proof -
    have "length ?is \<le> length [1..<?n]" unfolding in_bucket_def length_rev by (rule length_filter_le)
    then have "length ?is \<le> ?n - 1" by simp
    then show ?thesis using nb(2) assms(2) by linarith
  qed
  ultimately have "find_loop k ?nb name t H (H ! (2 + ?h)) =
      Inr (case filter (\<lambda>i. sym_name t i = name) ?is of [] \<Rightarrow> 0 | i # _ \<Rightarrow> i)"
    using H(2) by (intro find_loop_chain) simp_all
  moreover have "filter (\<lambda>i. sym_name t i = name) ?is =
      filter (\<lambda>i. hashed t i \<and> sym_name t i = name) (rev [1..<?n])"
    unfolding in_bucket_def rev_filter filter_filter
    by (intro filter_cong) (auto simp: key_of_def)
  ultimately show ?thesis
    using H(1,2) nb h by (simp add: find_elf_sym_def hget_def bucket_def newest_def)
qed

lemma newest_cong:
  assumes "length (entries t') = length (entries t)"
    and "\<And>i. i < length (entries t) \<Longrightarrow> hashed t' i = hashed t i \<and> sym_name t' i = sym_name t i"
  shows "newest name t' = newest name t"
proof -
  have "filter (\<lambda>i. hashed t' i \<and> sym_name t' i = name) (rev [1..<length (entries t)]) =
      filter (\<lambda>i. hashed t i \<and> sym_name t i = name) (rev [1..<length (entries t)])"
    using assms(2) by (intro filter_cong) auto
  then show ?thesis using assms(1) by (simp add: newest_def)
qed

lemma newest_with_sym:
  assumes "names_ok t" and "0 \<notin> set name" and "length (strtab t) < 2 ^ 32" and "entries t \<noteq> []"
  shows "newest q ((with_sym vl sz info other shndx name t)\<lparr>hash_sec := H, nb_hashed_syms := n\<rparr>) =
    (if q = name \<and> ST_BIND info \<noteq> STB_LOCAL then length (entries t) else newest q t)"
proof -
  let ?t = "(with_sym vl sz info other shndx name t)\<lparr>hash_sec := H, nb_hashed_syms := n\<rparr>"
  let ?n = "length (entries t)"
  note nm = with_sym_names [where vl = vl and sz = sz and info = info and other = other and shndx = shndx, OF assms(1-3)]
  have s: "sym_name ?t i = sym_name (with_sym vl sz info other shndx name t) i" for i
    by (simp add: sym_name_def)
  have old: "hashed ?t i = hashed t i" "sym_name ?t i = sym_name t i" if "i < ?n" for i
    using nm(3) [OF that] that unfolding s by (simp_all add: hashed_def with_sym_def nth_append)
  have "rev [1..<length (entries ?t)] = ?n # rev [1..<?n]"
    using assms(4) by (simp add: with_sym_def Suc_le_eq)
  moreover have "filter (\<lambda>i. hashed ?t i \<and> sym_name ?t i = q) (rev [1..<?n]) =
      filter (\<lambda>i. hashed t i \<and> sym_name t i = q) (rev [1..<?n])"
    by (intro filter_cong) (auto simp: old)
  moreover have "hashed ?t ?n \<longleftrightarrow> ST_BIND info \<noteq> STB_LOCAL" "sym_name ?t ?n = name"
    using nm(2) unfolding s by (simp_all add: hashed_def with_sym_def)
  ultimately show ?thesis by (auto simp: newest_def)
qed

text \<open>
  C10: put_elf_sym keeps the invariant of the hash table, whether or not it has to rebuild it with
  twice the buckets, and a lookup afterwards gives the new symbol for its name, unless it is local,
  and what it gave before for every other name. The loop of the lookup ends within as many
  steps as there are symbols.
\<close>

theorem put_elf_sym_lookup:
  assumes "symtab_ok t" and "0 \<notin> set name" and "length (strtab t) < 2 ^ 32" and "length (entries t) < k"
  shows "\<exists>t'. put_elf_sym vl sz info other shndx name t = Inr (length (entries t), t') \<and> symtab_ok t' \<and>
    sym_name t' (length (entries t)) = name \<and>
    find_elf_sym k q t' = (if q = name \<and> ST_BIND info \<noteq> STB_LOCAL then Inr (length (entries t))
                           else find_elf_sym k q t)"
proof -
  obtain H n where p: "put_elf_sym vl sz info other shndx name t =
      Inr (length (entries t), (with_sym vl sz info other shndx name t)\<lparr>hash_sec := Some H, nb_hashed_syms := n\<rparr>)"
    and ok: "symtab_ok ((with_sym vl sz info other shndx name t)\<lparr>hash_sec := Some H, nb_hashed_syms := n\<rparr>)"
    by (rule put_elf_sym_ok [OF assms(1-3)])
  have no: "names_ok t" and ne: "entries t \<noteq> []"
    using assms(1) by (auto simp: symtab_ok_def chains_ok_def split: option.splits)
  let ?t = "(with_sym vl sz info other shndx name t)\<lparr>hash_sec := Some H, nb_hashed_syms := n\<rparr>"
  have l: "length (entries ?t) \<le> k" using assms(4) by (simp add: with_sym_def)
  have "sym_name ?t (length (entries t)) = name"
    using with_sym_names(2) [OF no assms(2,3)] by (simp add: sym_name_def)
  moreover have "find_elf_sym k q ?t = (if q = name \<and> ST_BIND info \<noteq> STB_LOCAL then Inr (length (entries t))
      else find_elf_sym k q t)"
    using find_elf_sym_newest [OF ok l] find_elf_sym_newest [OF assms(1)] assms(4)
      newest_with_sym [OF no assms(2,3) ne] by simp
  ultimately show ?thesis using p ok by blast
qed

lemma new_symtab_ok: "\<exists>t. new_symtab dyn bss = Inr t \<and> symtab_ok t \<and> strtab t = [0] \<and> length (entries t) = 1"
proof -
  have "chains_ok (key_of t 1) 1 1 [1, 1, 0, 0]" for t
    by (simp add: chains_ok_def in_bucket_def)
  then show ?thesis
    by (simp add: new_symtab_def put_elf_str_def put_elf_sym_def hash_new_sym_def symtab_ok_def names_ok_def)
qed

lemma put_elf_sym_lookup_witness:
  "\<exists>t t'. new_symtab False 4 = Inr t \<and>
    put_elf_sym 0x400 8 0x12 0 1 [109, 97, 105, 110] t = Inr (length (entries t), t') \<and> symtab_ok t' \<and>
    sym_name t' (length (entries t)) = [109, 97, 105, 110] \<and>
    find_elf_sym 2 [109, 97, 105, 110] t' =
      (if [109, 97, 105, 110] = ([109, 97, 105, 110] :: cname) \<and> ST_BIND 0x12 \<noteq> STB_LOCAL then Inr (length (entries t))
       else find_elf_sym 2 [109, 97, 105, 110] t)"
proof -
  obtain t where "new_symtab False 4 = Inr t" "symtab_ok t" "strtab t = [0]" "length (entries t) = 1"
    using new_symtab_ok by blast
  with put_elf_sym_lookup [of t "[109, 97, 105, 110]" 2 "0x400" 8 "0x12" 0 1 "[109, 97, 105, 110]"]
  show ?thesis by fastforce
qed

section \<open>Defining a symbol that may exist\<close>

lemma ST_INFO_id [simp]: "ST_INFO (ST_BIND v) (ST_TYPE v) = v"
proof -
  have m: "(v AND 0xf) AND 0xf = take_bit 4 v"
    by (rule bit_word_eqI) (auto simp: and_masks)
  show ?thesis
    unfolding ST_INFO_def ST_BIND_def ST_TYPE_def m by (rule bits_ident)
qed

lemma newest_cases:
  assumes "newest name t = i"
  obtains "i = 0" | "0 < i" "i < length (entries t)" "hashed t i" "sym_name t i = name"
proof (cases "filter (\<lambda>i. hashed t i \<and> sym_name t i = name) (rev [1..<length (entries t)])")
  case Nil
  then show thesis using assms that(1) by (simp add: newest_def)
next
  case (Cons j js)
  then have "j \<in> set (filter (\<lambda>i. hashed t i \<and> sym_name t i = name) (rev [1..<length (entries t)]))" by simp
  then show thesis using Cons assms that(2) by (auto simp: newest_def)
qed

text \<open>A change of an entry that keeps its name and whether it is local.\<close>

definition same_names :: "symtab \<Rightarrow> symtab \<Rightarrow> bool" where
  "same_names t t' \<longleftrightarrow> strtab t' = strtab t \<and> hash_sec t' = hash_sec t \<and> length (entries t') = length (entries t) \<and>
     (\<forall>i < length (entries t). sy_name (entries t' ! i) = sy_name (entries t ! i) \<and> hashed t' i = hashed t i)"

lemma same_names_keep:
  assumes "same_names t t'" and "symtab_ok t"
  shows "symtab_ok t'" and "newest q t' = newest q t"
proof -
  note s = assms(1) [unfolded same_names_def]
  have n: "sym_name t' i = sym_name t i" if "i < length (entries t)" for i
    using s that by (simp add: sym_name_def)
  then have k: "key_of t nb i = key_of t' nb i" if "i < length (entries t)" for nb i
    using s that by (simp add: key_of_def)
  show "newest q t' = newest q t" using s n by (intro newest_cong) auto
  obtain H where H: "hash_sec t = Some H" "length H = 2 + H ! 0 + length (entries t)"
    "H ! 1 = length (entries t)" "chains_ok (key_of t (H ! 0)) (H ! 0) (length (entries t)) H" and no: "names_ok t"
    using assms(2) by (auto simp: symtab_ok_def split: option.splits)
  have "chains_ok (key_of t' (H ! 0)) (H ! 0) (length (entries t)) H"
    by (rule chains_ok_cong [OF H(4) k])
  then show "symtab_ok t'" using H no s by (simp add: symtab_ok_def names_ok_def)
qed

lemma same_names_trans: "same_names t t1 \<Longrightarrow> same_names t1 t2 \<Longrightarrow> same_names t t2"
  by (simp add: same_names_def)

lemma same_names_set_entry:
  assumes "sy_name (f (entries t ! i)) = sy_name (entries t ! i)"
    and "ST_BIND (sy_info (f (entries t ! i))) = 0 \<longleftrightarrow> ST_BIND (sy_info (entries t ! i)) = 0"
  shows "same_names t (set_entry i f t)"
  using assms
  by (cases "i < length (entries t)") (auto simp: same_names_def set_entry_def hashed_def nth_list_update)

lemma same_names_patch:
  assumes "hashed t i" and "ST_BIND info \<noteq> 0"
  shows "same_names t (patch_sym i vl sz info shndx t)"
proof -
  have "same_names t (set_entry i (\<lambda>e. e\<lparr>sy_info := ST_INFO (ST_BIND info) (ST_TYPE info), sy_shndx := shndx,
      sy_value := vl, sy_size := sz\<rparr>) t)"
    using assms by (intro same_names_set_entry) (simp_all add: hashed_def)
  then show ?thesis by (simp add: same_names_def patch_sym_def hashed_def)
qed

lemma same_names_fields [simp]:
  "same_names t (t\<lparr>nb_errors := e\<rparr>)"
  by (simp add: same_names_def hashed_def)

definition merged :: "Elf32_Sym \<Rightarrow> u8 \<Rightarrow> Elf32_Sym" where
  "merged e other = e\<lparr>sy_other := (sy_other e AND NOT 3) OR
     merge_vis (ST_VISIBILITY (sy_other e)) (ST_VISIBILITY other)\<rparr>"

lemma redefine_merged [simp]:
  "sy_value (merged e other) = sy_value e" "sy_size (merged e other) = sy_size e"
  "sy_info (merged e other) = sy_info e" "sy_shndx (merged e other) = sy_shndx e" "sy_name (merged e other) = sy_name e"
  by (simp_all add: merged_def)

text \<open>set_elf_sym on a name that exists: the entry it leaves.\<close>

definition new_entry :: "symtab \<Rightarrow> Elf32_Sym \<Rightarrow> u32 \<Rightarrow> u32 \<Rightarrow> u8 \<Rightarrow> u8 \<Rightarrow> u16 \<Rightarrow> Elf32_Sym" where
  "new_entry t e vl sz info other shndx =
     (let put = (\<lambda>e. e\<lparr>sy_info := info, sy_shndx := shndx, sy_value := vl, sy_size := sz\<rparr>) in
      if sy_value e = vl \<and> sy_size e = sz \<and> sy_info e = info \<and> sy_other e = other \<and> sy_shndx e = shndx then e
      else if sy_shndx e = SHN_UNDEF then put (e\<lparr>sy_other := other\<rparr>)
      else if redefine (is_dynsym t) (bss_num t) (merged e other) (ST_BIND info) (ST_VISIBILITY other) shndx = Patch
      then put (merged e other) else merged e other)"

lemma set_elf_sym_existing:
  assumes "find_elf_sym k name t = Inr i" and "0 < i" and "i < length (entries t)" and "hashed t i"
    and "ST_BIND info \<noteq> 0"
  shows "\<exists>t'. set_elf_sym k vl sz info other shndx name t = Inr (i, t') \<and> same_names t t' \<and>
    entries t' = (entries t)[i := new_entry t (entries t ! i) vl sz info other shndx] \<and>
    is_dynsym t' = is_dynsym t \<and> bss_num t' = bss_num t"
proof -
  let ?e = "entries t ! i"
  let ?t1 = "set_entry i (\<lambda>e. e\<lparr>sy_other := (sy_other e AND NOT 3) OR
                   merge_vis (ST_VISIBILITY (sy_other e)) (ST_VISIBILITY other)\<rparr>) t"
  let ?t2 = "set_entry i (\<lambda>e. e\<lparr>sy_other := other\<rparr>) t"
  have e1: "entries ?t1 = (entries t)[i := merged ?e other]" "entries ?t1 ! i = merged ?e other"
    using assms(3) by (simp_all add: set_entry_def merged_def)
  have s: "same_names t ?t1" "same_names t ?t2" by (rule same_names_set_entry; simp)+
  have h: "hashed ?t1 i" "hashed ?t2 i" using s assms(3,4) by (simp_all add: same_names_def)
  note p = same_names_trans [OF s(1) same_names_patch [OF h(1) assms(5)]]
    same_names_trans [OF s(2) same_names_patch [OF h(2) assms(5)]]
    same_names_trans [OF s(1) same_names_fields]
  have f: "is_dynsym (set_entry j g u) = is_dynsym u" "bss_num (set_entry j g u) = bss_num u" for j g u
    by (simp_all add: set_entry_def)
  have refl: "same_names t t" by (simp add: same_names_def)
  show ?thesis
  proof (cases "sy_value ?e = vl \<and> sy_size ?e = sz \<and> sy_info ?e = info \<and> sy_other ?e = other \<and> sy_shndx ?e = shndx")
    case True
    then show ?thesis using assms refl by (simp add: set_elf_sym_def new_entry_def)
  next
    case False
    show ?thesis
    proof (cases "sy_shndx ?e = 0")
      case True
      have "set_elf_sym k vl sz info other shndx name t = Inr (i, patch_sym i vl sz info shndx ?t2)"
        using assms True False by (auto simp: set_elf_sym_def Let_def)
      then show ?thesis
        using p(2) True False assms(3) f by (auto simp: new_entry_def patch_sym_def set_entry_def)
    next
      case def: False
      let ?v = "redefine (is_dynsym t) (bss_num t) (merged ?e other) (ST_BIND info) (ST_VISIBILITY other) shndx"
      have "set_elf_sym k vl sz info other shndx name t = Inr (i, case ?v of Keep \<Rightarrow> ?t1
          | Patch \<Rightarrow> patch_sym i vl sz info shndx ?t1 | Twice \<Rightarrow> ?t1\<lparr>nb_errors := nb_errors ?t1 + 1\<rparr>)"
        using assms False def e1 by (auto simp: set_elf_sym_def Let_def split: verdict.splits)
      then show ?thesis
        using s p e1 False def assms(3) f
        by (cases ?v) (auto simp: new_entry_def patch_sym_def set_entry_def merged_def)
    qed
  qed
qed

text \<open>
  C22: set_elf_sym of a symbol that is not local leaves one entry that lookups of the name find, keeps
  the invariant, and never loses a definition: the symbol is defined afterwards exactly if it
  was defined before or is defined now.
\<close>

theorem set_elf_sym_defines:
  assumes "symtab_ok t" and "0 \<notin> set name" and "length (strtab t) < 2 ^ 32" and "length (entries t) < k"
    and "ST_BIND info \<noteq> STB_LOCAL" and "find_elf_sym k name t = Inr j"
  shows "\<exists>i t'. set_elf_sym k vl sz info other shndx name t = Inr (i, t') \<and> symtab_ok t' \<and> 0 < i \<and>
    find_elf_sym k name t' = Inr i \<and>
    (sy_shndx (entries t' ! i) \<noteq> SHN_UNDEF \<longleftrightarrow>
       shndx \<noteq> SHN_UNDEF \<or> 0 < j \<and> sy_shndx (entries t ! j) \<noteq> SHN_UNDEF)"
proof -
  have nj: "newest name t = j" using find_elf_sym_newest [OF assms(1)] assms(4,6) by simp
  have ne: "entries t \<noteq> []" "names_ok t"
    using assms(1) by (auto simp: symtab_ok_def chains_ok_def split: option.splits)
  show ?thesis
  proof (cases rule: newest_cases [OF nj])
    case 1
    obtain H n where p: "put_elf_sym vl sz info other shndx name t =
      Inr (length (entries t), (with_sym vl sz info other shndx name t)\<lparr>hash_sec := Some H, nb_hashed_syms := n\<rparr>)"
      and ok: "symtab_ok ((with_sym vl sz info other shndx name t)\<lparr>hash_sec := Some H, nb_hashed_syms := n\<rparr>)"
      by (rule put_elf_sym_ok [OF assms(1-3)])
    let ?t = "(with_sym vl sz info other shndx name t)\<lparr>hash_sec := Some H, nb_hashed_syms := n\<rparr>"
    have "set_elf_sym k vl sz info other shndx name t = Inr (length (entries t), ?t)"
      using assms(5,6) p 1 by (simp add: set_elf_sym_def Let_def)
    moreover have "find_elf_sym k name ?t = Inr (length (entries t))"
      using find_elf_sym_newest [OF ok, of k] assms(4) newest_with_sym [OF ne(2) assms(2,3) ne(1)] assms(5)
      by (simp add: with_sym_def)
    moreover have "sy_shndx (entries ?t ! length (entries t)) = shndx" by (simp add: with_sym_def)
    ultimately show ?thesis using ok ne(1) 1 by auto
  next
    case 2
    from set_elf_sym_existing [OF assms(6) 2(1-3) assms(5)] obtain t' where
      t': "set_elf_sym k vl sz info other shndx name t = Inr (j, t')" "same_names t t'"
      "entries t' = (entries t)[j := new_entry t (entries t ! j) vl sz info other shndx]" by blast
    have ok: "symtab_ok t'" and nw: "newest name t' = j"
      using same_names_keep [OF t'(2) assms(1)] nj by simp_all
    have "length (entries t') \<le> k" using t'(3) assms(4) by simp
    then have "find_elf_sym k name t' = Inr j" using find_elf_sym_newest [OF ok] nw by simp
    moreover have "sy_shndx (entries t' ! j) \<noteq> 0 \<longleftrightarrow> shndx \<noteq> 0 \<or> 0 < j \<and> sy_shndx (entries t ! j) \<noteq> 0"
      using t'(3) 2(1,2) by (auto simp: new_entry_def redefine_def Let_def split: if_splits)
    ultimately show ?thesis using t'(1) ok 2(1) by blast
  qed
qed

lemma set_elf_sym_defines_witness:
  "\<exists>t i t'. new_symtab False 4 = Inr t \<and> set_elf_sym 9 0x400 8 0x12 0 1 [102] t = Inr (i, t') \<and> symtab_ok t' \<and> 0 < i \<and>
    find_elf_sym 9 [102] t' = Inr i \<and>
    (sy_shndx (entries t' ! i) \<noteq> SHN_UNDEF \<longleftrightarrow>
       (1 :: u16) \<noteq> SHN_UNDEF \<or> 0 < (0 :: nat) \<and> sy_shndx (entries t ! 0) \<noteq> SHN_UNDEF)"
proof -
  obtain t where t: "new_symtab False 4 = Inr t" "symtab_ok t" "strtab t = [0]" "length (entries t) = 1"
    using new_symtab_ok by blast
  have "newest [102] t = 0" using t(4) by (simp add: newest_def)
  then have "find_elf_sym 9 [102] t = Inr 0" using find_elf_sym_newest [OF t(2)] t(4) by simp
  with t set_elf_sym_defines [of t "[102]" 9 "0x12" 0 "0x400" 8 0 1] show ?thesis by (auto simp: ST_BIND_def)
qed

lemma merge_vis_commute: "merge_vis a b = merge_vis b a"
  by (auto simp: merge_vis_def not_less)

lemma merged_visibility: "ST_VISIBILITY (sy_other (merged e other)) = merge_vis (ST_VISIBILITY (sy_other e)) (ST_VISIBILITY other)"
proof -
  have v: "ST_VISIBILITY v = take_bit 2 v" for v
    unfolding ST_VISIBILITY_def by (rule bit_word_eqI) (auto simp: and_masks)
  have m: "take_bit 2 (merge_vis (take_bit 2 a) (take_bit 2 b)) = merge_vis (take_bit 2 a) (take_bit 2 b)" for a b
    by (simp add: merge_vis_def)
  have "take_bit 2 ((x AND NOT 3) OR y) = take_bit 2 y" for x y :: u8
    by (rule bit_word_eqI) (auto simp: bit_simps)
  then show ?thesis unfolding merged_def v by (simp add: m)
qed

text \<open>
  C25: a weak and a global definition of the same new name give the same symbol in either order: the
  value, size, section and binding of the global one and the stricter of the two visibilities.
\<close>

theorem weak_and_strong_commute:
  assumes "symtab_ok t" and "0 \<notin> set name" and "length (strtab t) < 2 ^ 32" and "Suc (length (entries t)) < k"
    and "find_elf_sym k name t = Inr 0"
    and "ST_BIND wi = STB_WEAK" and "ST_BIND gi = STB_GLOBAL" and "wsh \<noteq> SHN_UNDEF" and "gsh \<noteq> SHN_UNDEF"
  shows "\<exists>t1 t2 e1 e2 vis.
    bindR (set_elf_sym k wv wsz wi wo wsh name t) (\<lambda>(i, t'). set_elf_sym k gv gsz gi go gsh name t') =
      Inr (length (entries t), t1) \<and>
    bindR (set_elf_sym k gv gsz gi go gsh name t) (\<lambda>(i, t'). set_elf_sym k wv wsz wi wo wsh name t') =
      Inr (length (entries t), t2) \<and>
    entries t1 = entries t @ [e1] \<and> entries t2 = entries t @ [e2] \<and>
    (sy_value e1, sy_size e1, sy_info e1, sy_shndx e1, ST_VISIBILITY (sy_other e1)) = (gv, gsz, gi, gsh, vis) \<and>
    (sy_value e2, sy_size e2, sy_info e2, sy_shndx e2, ST_VISIBILITY (sy_other e2)) = (gv, gsz, gi, gsh, vis)"
proof -
  have ne: "entries t \<noteq> []" "names_ok t"
    using assms(1) by (auto simp: symtab_ok_def chains_ok_def split: option.splits)
  have two: "\<exists>t2. bindR (set_elf_sym k av asz ai ao ash name t) (\<lambda>(i, t'). set_elf_sym k bv bsz bi bo bsh name t') =
      Inr (length (entries t), t2) \<and> entries t2 = entries t @ [new_entry t \<lparr>sy_name =
        (if name = [] then 0 else of_nat (length (strtab t))), sy_value = av, sy_size = asz, sy_info = ai,
        sy_other = ao, sy_shndx = ash\<rparr> bv bsz bi bo bsh]"
    if b: "ST_BIND ai \<noteq> 0" "ST_BIND bi \<noteq> 0" for av asz ai ao ash bv bsz bi bo bsh
  proof -
    obtain H n where p: "put_elf_sym av asz ai ao ash name t =
      Inr (length (entries t), (with_sym av asz ai ao ash name t)\<lparr>hash_sec := Some H, nb_hashed_syms := n\<rparr>)"
      and ok: "symtab_ok ((with_sym av asz ai ao ash name t)\<lparr>hash_sec := Some H, nb_hashed_syms := n\<rparr>)"
      by (rule put_elf_sym_ok [OF assms(1-3)])
    let ?t = "(with_sym av asz ai ao ash name t)\<lparr>hash_sec := Some H, nb_hashed_syms := n\<rparr>"
    let ?n = "length (entries t)"
    have 1: "set_elf_sym k av asz ai ao ash name t = Inr (?n, ?t)"
      using assms(5) b(1) p by (simp add: set_elf_sym_def Let_def)
    have "length (entries ?t) \<le> k" using assms(4) by (simp add: with_sym_def)
    then have f: "find_elf_sym k name ?t = Inr ?n"
      using find_elf_sym_newest [OF ok] newest_with_sym [OF ne(2) assms(2,3) ne(1)] b(1) by simp
    have "0 < ?n" "?n < length (entries ?t)" "hashed ?t ?n"
      using ne(1) b(1) by (simp_all add: with_sym_def hashed_def)
    from set_elf_sym_existing [OF f this b(2), of bv bsz bo bsh] 1 show ?thesis
      by (auto simp: with_sym_def new_entry_def)
  qed
  have b: "ST_BIND wi \<noteq> 0" "ST_BIND gi \<noteq> 0" "wi \<noteq> gi" using assms(6,7) by auto
  from two [OF b(1,2), of wv wsz wo wsh gv gsz go gsh] two [OF b(2,1), of gv gsz go gsh wv wsz wo wsh]
  show ?thesis
    using assms(6-9) b(3) merge_vis_commute [of "ST_VISIBILITY wo" "ST_VISIBILITY go"]
    by (auto simp: new_entry_def redefine_def Let_def merged_visibility)
qed

lemma weak_and_strong_commute_witness:
  "\<exists>t t1 t2 e1 e2 vis. new_symtab False 4 = Inr t \<and>
    bindR (set_elf_sym 9 0x10 4 0x22 0 1 [102] t) (\<lambda>(i, t'). set_elf_sym 9 0x20 8 0x12 2 1 [102] t') =
      Inr (length (entries t), t1) \<and>
    bindR (set_elf_sym 9 0x20 8 0x12 2 1 [102] t) (\<lambda>(i, t'). set_elf_sym 9 0x10 4 0x22 0 1 [102] t') =
      Inr (length (entries t), t2) \<and>
    entries t1 = entries t @ [e1] \<and> entries t2 = entries t @ [e2] \<and>
    (sy_value e1, sy_size e1, sy_info e1, sy_shndx e1, ST_VISIBILITY (sy_other e1)) = (0x20, 8, 0x12, 1, vis) \<and>
    (sy_value e2, sy_size e2, sy_info e2, sy_shndx e2, ST_VISIBILITY (sy_other e2)) = (0x20, 8, 0x12, 1, vis)"
proof -
  obtain t where t: "new_symtab False 4 = Inr t" "symtab_ok t" "strtab t = [0]" "length (entries t) = 1"
    using new_symtab_ok by blast
  have "newest [102] t = 0" using t(4) by (simp add: newest_def)
  then have "find_elf_sym 9 [102] t = Inr 0" using find_elf_sym_newest [OF t(2)] t(4) by simp
  moreover have "ST_BIND 0x22 = STB_WEAK" "ST_BIND 0x12 = STB_GLOBAL" by (simp_all add: ST_BIND_def)
  ultimately show ?thesis
    using t(1) weak_and_strong_commute [of t "[102]" 9 "0x22" "0x12" 1 1 "0x10" 4 0 "0x20" 8 2] t(2-4) by simp
qed

section \<open>Sorting\<close>

lemma sort_pass_maps:
  assumes "i + length ps \<le> length m" and "sort_pass P i ps (m, q) = (m', q')"
  shows "q' = q @ filter P ps \<and> length m' = length m \<and>
    (\<forall>j. j < i \<or> i + length ps \<le> j \<longrightarrow> m' ! j = m ! j) \<and>
    (\<forall>j < length ps. if P (ps ! j) then m' ! (i + j) < length q' \<and> q' ! (m' ! (i + j)) = ps ! j
                     else m' ! (i + j) = m ! (i + j))"
  using assms
proof (induction ps arbitrary: i m q)
  case Nil
  then show ?case by simp
next
  case (Cons p ps)
  let ?m = "if P p then m[i := length q] else m" and ?q = "if P p then q @ [p] else q"
  have s: "sort_pass P (Suc i) ps (?m, ?q) = (m', q')" using Cons.prems(2) by (auto split: if_splits)
  have "Suc i + length ps \<le> length ?m" using Cons.prems(1) by simp
  note IH = Cons.IH [OF this s]
  show ?case
  proof (intro conjI allI impI)
    fix j assume "j < length (p # ps)"
    show "if P ((p # ps) ! j) then m' ! (i + j) < length q' \<and> q' ! (m' ! (i + j)) = (p # ps) ! j
        else m' ! (i + j) = m ! (i + j)"
    proof (cases j)
      case 0
      have "m' ! i = ?m ! i" using IH by simp
      then show ?thesis using 0 IH Cons.prems(1) by (auto simp: nth_append)
    next
      case (Suc j')
      then have "j' < length ps" using \<open>j < length (p # ps)\<close> by simp
      then show ?thesis using Suc IH by auto
    qed
  qed (use IH Cons.prems(1) in auto)
qed

text \<open>
  C26: sort_syms puts the local symbols before the others, each group in its old order, returns the
  number of local ones, and renumbers the relocations so that every one still refers to the symbol
  it referred to.
\<close>

theorem sort_syms_keeps:
  assumes "list_all (\<lambda>(off, i, ty). i < length (entries t)) rels"
  shows "\<exists>n rs t'. sort_syms rels t = Inr (n, rs, t') \<and>
    take n (entries t') = filter is_local_sym (entries t) \<and>
    drop n (entries t') = filter (\<lambda>p. \<not> is_local_sym p) (entries t) \<and>
    map (\<lambda>(off, i, ty). (off, entries t' ! i, ty)) rs = map (\<lambda>(off, i, ty). (off, entries t ! i, ty)) rels"
proof -
  let ?n = "length (entries t)" and ?g = "\<lambda>p. \<not> is_local_sym p"
  obtain m1 q1 where 1: "sort_pass is_local_sym 0 (entries t) (replicate ?n 0, []) = (m1, q1)"
    by (meson surj_pair)
  obtain m2 q2 where 2: "sort_pass ?g 0 (entries t) (m1, q1) = (m2, q2)" by (meson surj_pair)
  note p1 = sort_pass_maps [OF _ 1, simplified]
  have l1: "0 + ?n \<le> length m1" using p1 by simp
  note p2 = sort_pass_maps [OF l1 2, simplified]
  have m2: "m2 ! i < length q2" "q2 ! (m2 ! i) = entries t ! i" if "i < ?n" for i
    using p1 p2 that by (cases "is_local_sym (entries t ! i)"; force simp: nth_append)+
  have len: "length m2 = ?n" using p1 p2 by simp
  have "\<exists>rs. modify_relocations m2 rels = Inr rs \<and>
      map (\<lambda>(off, i, ty). (off, q2 ! i, ty)) rs = map (\<lambda>(off, i, ty). (off, entries t ! i, ty)) rels"
    using assms
  proof (induction rels)
    case Nil
    then show ?case by simp
  next
    case (Cons r rels)
    obtain off i ty where r: "r = (off, i, ty)" by (metis prod_cases3)
    show ?case using Cons m2 len by (auto simp: r hget_def)
  qed
  then show ?thesis using 1 2 p1 p2 by (auto simp: sort_syms_def Let_def)
qed

lemma sort_syms_keeps_witness:
  defines "g \<equiv> \<lparr>sy_name = 1, sy_value = 0x40, sy_size = 4, sy_info = 0x12, sy_other = 0, sy_shndx = 1\<rparr>"
    and "l \<equiv> \<lparr>sy_name = 3, sy_value = 0x80, sy_size = 4, sy_info = 0x02, sy_other = 0, sy_shndx = 1\<rparr>"
  defines "t \<equiv> \<lparr>entries = [l, g, l], strtab = [0, 103, 0, 108, 0], hash_sec = None, nb_hashed_syms = 0,
      is_dynsym = False, bss_num = 4, new_undef_sym = False, nb_errors = 0\<rparr>"
  shows "\<exists>n rs t'. sort_syms [(0, 1, 2), (8, 2, 2)] t = Inr (n, rs, t') \<and>
    take n (entries t') = filter is_local_sym (entries t) \<and>
    drop n (entries t') = filter (\<lambda>p. \<not> is_local_sym p) (entries t) \<and>
    map (\<lambda>(off, i, ty). (off, entries t' ! i, ty)) rs =
      map (\<lambda>(off, i, ty). (off, entries t ! i, ty)) [(0, 1, 2), (8, 2, 2)]"
  by (rule sort_syms_keeps) (simp add: t_def)

section \<open>The hash\<close>

text \<open>The hash keeps to 28 bits, so the shift of its next step loses nothing.\<close>

lemma elf_hash_step_bound: "elf_hash_step c h AND 0xf0000000 = 0"
proof -
  have m: "(0xf0000000 :: u32) = push_bit 28 (mask 4)"
    by (simp add: mask_eq_exp_minus_1 push_bit_eq_mult)
  have "(if x AND push_bit 28 (mask 4) \<noteq> 0 then x XOR drop_bit 24 (x AND push_bit 28 (mask 4)) else x) AND
      NOT (x AND push_bit 28 (mask 4)) AND push_bit 28 (mask 4) = 0" for x :: u32
    by (rule bit_word_eqI) (auto simp: bit_simps)
  then show ?thesis unfolding elf_hash_step_def Let_def m by (simp only: and.assoc)
qed

lemma elf_hash_bound: "elf_hash name AND 0xf0000000 = 0"
  by (cases name rule: rev_cases) (simp_all add: elf_hash_def elf_hash_step_bound)

end
