(* ===== verification/Struct_Layout.thy ===== *)
theory Struct_Layout
  imports Value_Stack
begin

text \<open>
  The layout of structures and unions (struct_layout of tccgen.c): the offset of every member, the
  position of every bit-field, size and alignment of the type, with the PCC and the Microsoft
  rules for bit-fields, attributes packed and aligned, and pragma pack. Sizes and offsets are C ints
  and never come near their limits, so they are integers here.
\<close>

section \<open>Members\<close>

abbreviation (input) VT_STRUCT_SHIFT :: nat where "VT_STRUCT_SHIFT \<equiv> 20"
abbreviation (input) VT_BITFIELD :: u32 where "VT_BITFIELD \<equiv> 0x80"

definition BIT_POS :: "u32 \<Rightarrow> u32" where "BIT_POS t = drop_bit VT_STRUCT_SHIFT t AND 0x3f"
definition BIT_SIZE :: "u32 \<Rightarrow> u32" where "BIT_SIZE t = drop_bit (VT_STRUCT_SHIFT + 6) t AND 0x3f"

definition set_bit_pos :: "int \<Rightarrow> u32 \<Rightarrow> u32" where
  "set_bit_pos p t = (t AND NOT (push_bit VT_STRUCT_SHIFT 0x3f)) OR push_bit VT_STRUCT_SHIFT (word_of_int p)"

text \<open>
  A member (Sym): its type flags and the rest of its type, the attributes aligned (log2 + 1, 0 for
  none) and packed, whether it has no name, its offset and the type to access a bit-field by (-1:
  its own). That the reference of a bit-field's type becomes the member itself is left out; no size
  depends on it.
\<close>

record member =
  m_t :: u32
  m_ref :: "tsym option"
  m_aligned :: nat
  m_packed :: bool
  m_anon :: bool
  m_c :: int
  m_auxtype :: int

definition is_bitfield :: "member \<Rightarrow> bool" where
  "is_bitfield f \<longleftrightarrow> m_t f AND VT_BITFIELD \<noteq> 0"

definition member_size :: "member \<Rightarrow> (int \<times> int) res" where
  "member_size f = bindR (type_size (CType (m_t f) (m_ref f))) (\<lambda>(sz, al). Inr (sint sz, sint al))"

text \<open>pcc, the pack value of pragma pack (0: none), union, and the attributes of the type.\<close>

record layout_opts =
  lo_pcc :: bool
  lo_pack :: int
  lo_union :: bool
  lo_packed :: bool
  lo_aligned :: nat

text \<open>The locals of the loop over the members.\<close>

record layout =
  ly_c :: int
  ly_bit_pos :: int
  ly_maxalign :: int
  ly_offset :: int
  ly_prevbt :: u32
  ly_prev_bit_size :: int

section \<open>One member\<close>

definition attr_align :: "nat \<Rightarrow> int" where
  "attr_align n = (if n \<noteq> 0 then 2 ^ (n - 1) else 0)"

definition align_up :: "int \<Rightarrow> int \<Rightarrow> int" where
  "align_up c a = (c + a - 1) AND - a"

text \<open>The alignment a member gets, and whether it is packed; \<open>align\<close> is that of its type.\<close>

definition member_align :: "layout_opts \<Rightarrow> member \<Rightarrow> int \<Rightarrow> int \<Rightarrow> int \<times> bool" where
  "member_align op f bit_size align0 =
     (let pcc = lo_pcc op; pack = lo_pack op; a0 = attr_align (m_aligned f);
          (align, packed, a) =
            (if pcc \<and> bit_size = 0 then (align0, False, a0)
             else let (al, pk) = (if pcc \<and> (m_packed f \<or> lo_packed op) then (1, True) else (align0, False)) in
               if pack \<noteq> 0 then (if pack < al then pack else al, True, if pcc \<and> pack < a0 then 0 else a0)
               else (al, pk, a0))
      in (if a \<noteq> 0 then a else align, packed))"

text \<open>The loop that moves whole alignment units from the bit position to the offset.\<close>

function carry_bits :: "int \<Rightarrow> int \<Rightarrow> int \<Rightarrow> (int \<times> int) res" where
  "carry_bits align c bit_pos =
     (if bit_pos \<ge> align * 8
      then (if align \<le> 0 then Inl NoReturn else carry_bits align (c + align) (bit_pos - align * 8))
      else Inr (c, bit_pos))"
  by pat_completeness auto
termination
  by (relation "measure (\<lambda>(align, c, bit_pos). nat bit_pos)") auto

declare carry_bits.simps [simp del]

text \<open>A bit-field by the PCC rules: its new type, the alignment it contributes, and the locals.\<close>

definition pcc_bitfield :: "member \<Rightarrow> int \<Rightarrow> int \<Rightarrow> bool \<Rightarrow> int \<Rightarrow> layout \<Rightarrow> (u32 \<times> int \<times> layout) res" where
  "pcc_bitfield f sz align packed bit_size l =
     (let new_field = bit_size = 0 \<or> m_aligned f \<noteq> 0 \<or>
            (\<not> packed \<and> ((ly_c l * 8 + ly_bit_pos l) mod (align * 8) + bit_size + align * 8 - 1) div (align * 8)
               > sz div align);
          (c, bit_pos) = (if new_field then (align_up (ly_c l + (ly_bit_pos l + 7) div 8) align, 0)
                          else (ly_c l, ly_bit_pos l));
          t = (if sz = 8 \<and> bit_size \<le> 32 then (m_t f AND NOT VT_BTYPE) OR VT_INT else m_t f) in
      bindR (carry_bits align c bit_pos) (\<lambda>(c1, bit_pos1).
        Inr (t, if m_anon f then 1 else align, l\<lparr>ly_c := c1, ly_bit_pos := bit_pos1, ly_offset := c1\<rparr>)))"

text \<open>A bit-field by the Microsoft rules.\<close>

definition ms_bitfield :: "member \<Rightarrow> int \<Rightarrow> int \<Rightarrow> int \<Rightarrow> layout \<Rightarrow> int \<times> layout" where
  "ms_bitfield f sz align bit_size l =
     (let bt = m_t f AND VT_BTYPE;
          l1 = (if ly_bit_pos l + bit_size > sz * 8 \<or> (bit_size > 0) = (bt \<noteq> ly_prevbt l)
                then let c = align_up (ly_c l) align in
                  l\<lparr>ly_offset := c, ly_bit_pos := 0,
                    ly_c := (if bit_size \<noteq> 0 \<or> ly_prev_bit_size l \<noteq> 0 then c + sz else c)\<rparr>
                else l)
      in (if bit_size = 0 \<and> ly_prevbt l1 \<noteq> bt then 1 else align,
          l1\<lparr>ly_prevbt := bt, ly_prev_bit_size := bit_size\<rparr>))"

definition layout_member :: "layout_opts \<Rightarrow> member \<Rightarrow> layout \<Rightarrow> (member \<times> layout) res" where
  "layout_member op f l =
     (let bit_size = (if is_bitfield f then uint (BIT_SIZE (m_t f)) else - 1) in
      bindR (member_size f) (\<lambda>(sz, align0).
      let (align, packed) = member_align op f bit_size align0;
          place = (\<lambda>t al l1. Inr (f\<lparr>m_t := t, m_c := ly_offset l1\<rparr>,
            l1\<lparr>ly_maxalign := (if al > ly_maxalign l1 then al else ly_maxalign l1)\<rparr>)) in
      if lo_union op then
        (let size1 = (if lo_pcc op \<and> bit_size \<ge> 0 then (bit_size + 7) div 8 else sz) in
         place (m_t f) align (l\<lparr>ly_offset := 0, ly_c := (if size1 > ly_c l then size1 else ly_c l)\<rparr>))
      else if bit_size < 0 then
        (let c0 = (if lo_pcc op then ly_c l + (ly_bit_pos l + 7) div 8 else ly_c l);
             c = align_up c0 align in
         place (m_t f) align (l\<lparr>ly_offset := c, ly_c := (if sz > 0 then c + sz else c), ly_bit_pos := 0,
           ly_prevbt := VT_STRUCT, ly_prev_bit_size := 0\<rparr>))
      else
        bindR (if lo_pcc op then pcc_bitfield f sz align packed bit_size l
               else let (al, l1) = ms_bitfield f sz align bit_size l in Inr (m_t f, al, l1))
          (\<lambda>(t, al, l1). place (set_bit_pos (ly_bit_pos l1) t) al
            (l1\<lparr>ly_bit_pos := ly_bit_pos l1 + bit_size\<rparr>))))"

fun layout_members :: "layout_opts \<Rightarrow> member list \<Rightarrow> layout \<Rightarrow> (member list \<times> layout) res" where
  "layout_members op [] l = Inr ([], l)"
| "layout_members op (f # fs) l =
     bindR (layout_member op f l) (\<lambda>(f1, l1).
     bindR (layout_members op fs l1) (\<lambda>(fs1, l2). Inr (f1 # fs1, l2)))"

section \<open>Access to bit-fields\<close>

text \<open>
  The search for a type that can access the bits at absolute position px0: the bit position and
  offset found, the bytes the type covers and the type. \<open>c0\<close> is the offset of the previous round.
\<close>

fun access_loop :: "nat \<Rightarrow> int \<Rightarrow> int \<Rightarrow> int \<Rightarrow> int \<Rightarrow> int \<Rightarrow> u32 \<Rightarrow> (int \<times> int \<times> int \<times> u32) res" where
  "access_loop 0 px0 bit_size c0 s align t = Inl NoReturn"
| "access_loop (Suc k) px0 bit_size c0 s align t =
     (let cx = (px0 div 8) AND - align; px = px0 - cx * 8 in
      if c0 = cx then Inr (px, cx, s, t)
      else let bytes = (px + bit_size + 7) div 8;
               (t1, s1) = (if bytes > 4 then (VT_LLONG, 8) else if bytes > 2 then (VT_INT, 4)
                           else if bytes > 1 then (VT_SHORT, 2) else (VT_BYTE, 1))
           in access_loop k px0 bit_size cx s1 s1 t1)"

definition fix_access :: "nat \<Rightarrow> int \<Rightarrow> member \<Rightarrow> member res" where
  "fix_access k c f =
     (if \<not> is_bitfield f then Inr f
      else let f1 = f\<lparr>m_auxtype := - 1\<rparr>; bit_size = uint (BIT_SIZE (m_t f)) in
        if bit_size = 0 then Inr f1
        else let bit_pos = uint (BIT_POS (m_t f)) in
          bindR (member_size f) (\<lambda>(sz, align).
          if bit_pos + bit_size \<le> sz * 8 \<and> m_c f + sz \<le> c then Inr f1
          else bindR (access_loop k (m_c f * 8 + bit_pos) bit_size (- 1) 1 1 VT_BYTE) (\<lambda>(px, cx, s, t).
            if px + bit_size \<le> s * 8 \<and> cx + s \<le> c
            then Inr (f1\<lparr>m_c := cx, m_t := set_bit_pos px (m_t f), m_auxtype := (if s \<noteq> sz then uint t else - 1)\<rparr>)
            else Inr (f1\<lparr>m_auxtype := uint VT_STRUCT\<rparr>))))"

fun fix_members :: "nat \<Rightarrow> int \<Rightarrow> member list \<Rightarrow> member list res" where
  "fix_members k c [] = Inr []"
| "fix_members k c (f # fs) =
     bindR (fix_access k c f) (\<lambda>f1. bindR (fix_members k c fs) (\<lambda>fs1. Inr (f1 # fs1)))"

section \<open>The whole type\<close>

text \<open>The members with their places, the alignment and the size of the type.\<close>

definition struct_layout :: "nat \<Rightarrow> layout_opts \<Rightarrow> member list \<Rightarrow> (member list \<times> int \<times> int) res" where
  "struct_layout k op fs =
     bindR (layout_members op fs \<lparr>ly_c = 0, ly_bit_pos = 0, ly_maxalign = 1, ly_offset = 0,
         ly_prevbt = VT_STRUCT, ly_prev_bit_size = 0\<rparr>) (\<lambda>(fs1, l).
     let c = (if lo_pcc op then ly_c l + (ly_bit_pos l + 7) div 8 else ly_c l);
         bt = (if lo_aligned op \<noteq> 0 then attr_align (lo_aligned op) else 1);
         r = (if bt < ly_maxalign l then ly_maxalign l else bt);
         a = (if lo_pack op \<noteq> 0 \<and> lo_pack op < ly_maxalign l \<and> \<not> lo_pcc op
              then (if lo_pack op < bt then bt else lo_pack op) else r);
         sz = align_up c a in
     bindR (fix_members k sz fs1) (\<lambda>fs2. Inr (fs2, r, sz)))"

end
