(* ===== verification/Struct_Layout_Props.thy ===== *)
theory Struct_Layout_Props
  imports Struct_Layout
begin

text \<open>
  The members of a structure do not share a bit: by the PCC rules every member, bit-field or not,
  lies behind the one before it and inside the structure, whatever is packed or aligned, and the
  access type chosen for a bit-field afterwards does not move it.
\<close>

section \<open>Alignment\<close>

definition pow2 :: "int \<Rightarrow> bool" where
  "pow2 a \<longleftrightarrow> (\<exists>k :: nat. a = 2 ^ k)"

lemma pow2_pos: "pow2 a \<Longrightarrow> 0 < a"
  by (auto simp: pow2_def)

lemma pow2_1 [simp]: "pow2 1"
  unfolding pow2_def by (rule exI [of _ 0]) simp

lemma pow2_attr: "n \<noteq> 0 \<Longrightarrow> pow2 (attr_align n)"
  by (auto simp: pow2_def attr_align_def)

lemma round_down: "pow2 a \<Longrightarrow> x AND - a = x - x mod a" for x :: int
proof -
  assume "pow2 a"
  then obtain k :: nat where a: "a = 2 ^ k" by (auto simp: pow2_def)
  have "x AND - a = push_bit k (drop_bit k x)"
    unfolding a minus_exp_eq_not_mask by (rule bit_eqI) (auto simp: bit_simps)
  also have "\<dots> = x - take_bit k x" using bits_ident [of k x] by simp
  finally show ?thesis by (simp add: a take_bit_eq_mod)
qed

lemma align_up_props:
  assumes "pow2 a"
  shows "c \<le> align_up c a" and "align_up c a mod a = 0"
proof -
  have e: "align_up c a = (c + a - 1) - (c + a - 1) mod a"
    using assms by (simp add: align_up_def round_down)
  then show "c \<le> align_up c a" using pow2_pos [OF assms] pos_mod_bound [of a "c + a - 1"] by linarith
  show "align_up c a mod a = 0" unfolding e by (simp add: mod_diff_eq)
qed

lemma carry_bits_sum:
  assumes "0 < align" and "0 \<le> b"
  shows "\<exists>c' b'. carry_bits align c b = Inr (c', b') \<and> c' * 8 + b' = c * 8 + b \<and> c \<le> c' \<and> 0 \<le> b' \<and> b' < align * 8"
  using assms
proof (induction align c b rule: carry_bits.induct)
  case (1 align c b)
  show ?case
  proof (cases "b \<ge> align * 8")
    case True
    have "\<exists>c' b'. carry_bits align (c + align) (b - align * 8) = Inr (c', b') \<and>
        c' * 8 + b' = (c + align) * 8 + (b - align * 8) \<and> c + align \<le> c' \<and> 0 \<le> b' \<and> b' < align * 8"
      using True 1(2,3) by (intro 1(1)) simp_all
    then obtain c' b' where r: "carry_bits align (c + align) (b - align * 8) = Inr (c', b')"
      "c' * 8 + b' = (c + align) * 8 + (b - align * 8)" "c + align \<le> c'" "0 \<le> b'" "b' < align * 8" by blast
    have "carry_bits align c b = Inr (c', b')"
      unfolding carry_bits.simps [of align c b] using True 1(2) r(1) by simp
    moreover have "c' * 8 + b' = c * 8 + b" "c \<le> c'" using r(2,3) 1(2) by simp_all
    ultimately show ?thesis using r(4,5) by blast
  next
    case False
    have "carry_bits align c b = Inr (c, b)"
      unfolding carry_bits.simps [of align c b] using False by simp
    with False 1(3) show ?thesis by simp
  qed
qed

section \<open>Positions inside a type\<close>

lemma set_bit_pos_fields:
  assumes "0 \<le> p" and "p < 64"
  shows "uint (BIT_POS (set_bit_pos p t)) = p" and "BIT_SIZE (set_bit_pos p t) = BIT_SIZE t"
    and "set_bit_pos p t AND 0xff = t AND 0xff"
proof -
  have m: "(0x3f :: u32) = mask 6" "(0xff :: u32) = mask 8" by (simp_all add: mask_eq_exp_minus_1)
  have "fits_in 6 (word_of_int p :: u32)" using assms by (simp add: fits_in_uint_iff uint_word_of_int)
  then have p: "take_bit 6 (word_of_int p :: u32) = word_of_int p" by (simp add: fits_in_def)
  have "take_bit 6 p = p" using assms by (simp add: take_bit_int_eq_self_iff)
  then have high: "\<not> bit p (6 + n)" for n by (metis bit_take_bit_iff not_add_less1)
  have "BIT_POS (set_bit_pos p t) = take_bit 6 (word_of_int p)"
    unfolding BIT_POS_def set_bit_pos_def m by (rule bit_word_eqI) (auto simp: bit_simps)
  then show "uint (BIT_POS (set_bit_pos p t)) = p"
    unfolding p using assms by (simp add: uint_word_of_int)
  show "BIT_SIZE (set_bit_pos p t) = BIT_SIZE t"
    unfolding BIT_SIZE_def set_bit_pos_def m
    by (rule bit_word_eqI) (auto simp: bit_simps high)
  show "set_bit_pos p t AND 0xff = t AND 0xff"
    unfolding set_bit_pos_def m by (rule bit_word_eqI) (auto simp: bit_simps)
qed

section \<open>Members\<close>

definition first_bit :: "member \<Rightarrow> int" where
  "first_bit f = m_c f * 8 + (if is_bitfield f then uint (BIT_POS (m_t f)) else 0)"

definition bit_len :: "member \<Rightarrow> int" where
  "bit_len f = (if is_bitfield f then uint (BIT_SIZE (m_t f))
     else case member_size f of Inr (sz, al) \<Rightarrow> if 0 < sz then 8 * sz else 0 | Inl e \<Rightarrow> 0)"

text \<open>
  A member as the parser makes them: a bit-field has an integer type, not yet a position, and no
  more bits than its type; any other type has a size and an alignment that is a power of two.
\<close>

definition bitfield_type :: "u32 \<Rightarrow> bool" where
  "bitfield_type t \<longleftrightarrow> t AND VT_BITFIELD \<noteq> 0 \<and> t AND VT_BTYPE \<in> {VT_BYTE, VT_SHORT, VT_INT, VT_LLONG, 11}"

definition wf_member :: "member \<Rightarrow> bool" where
  "wf_member f \<longleftrightarrow>
     (if is_bitfield f then bitfield_type (m_t f) \<and> (\<exists>sz al. member_size f = Inr (sz, al) \<and> uint (BIT_SIZE (m_t f)) \<le> 8 * sz)
      else \<exists>sz al. member_size f = Inr (sz, al) \<and> pow2 al)"

lemma bitfield_not_enum: "t AND VT_BITFIELD \<noteq> 0 \<Longrightarrow> \<not> IS_ENUM t"
proof
  assume t: "t AND VT_BITFIELD \<noteq> 0" and "IS_ENUM t"
  then have "t AND VT_STRUCT_MASK AND VT_BITFIELD = VT_ENUM AND VT_BITFIELD"
    unfolding IS_ENUM_def by (simp only: and.assoc [symmetric])
  moreover have "t AND VT_STRUCT_MASK AND VT_BITFIELD = t AND VT_BITFIELD"
    by simp
  ultimately show False using t by simp
qed

lemma bitfield_size:
  assumes "bitfield_type t"
  shows "type_size (CType t r) = Inr (scalar_size (t AND VT_BTYPE))"
proof -
  have "\<not> IS_ENUM t" "t AND VT_BTYPE \<noteq> VT_STRUCT" "t AND VT_BTYPE \<noteq> VT_PTR"
    using assms bitfield_not_enum by (auto simp: bitfield_type_def)
  then show ?thesis by (cases r; cases "the r") (auto simp: Let_def)
qed

lemma bitfield_member_size:
  assumes "bitfield_type (m_t f)"
  obtains sz where "member_size f = Inr (sz, sz)" "sz \<in> {1, 2, 4, 8}"
    "\<And>g. m_t g AND 0xff = m_t f AND 0xff \<Longrightarrow> member_size g = member_size f"
proof -
  let ?bt = "m_t f AND VT_BTYPE"
  obtain s :: int where s: "scalar_size ?bt = (word_of_int s, word_of_int s)" "s \<in> {1, 2, 4, 8}"
  proof -
    have "scalar_size ?bt \<in> {(1, 1), (2, 2), (4, 4), (8, 8)}"
      using assms by (auto simp: bitfield_type_def)
    then show thesis using that [of 1] that [of 2] that [of 4] that [of 8] by auto
  qed
  then have 1: "member_size f = Inr (s, s)"
    by (auto simp: member_size_def bitfield_size [OF assms])
  have "member_size g = member_size f" if "m_t g AND 0xff = m_t f AND 0xff" for g
  proof -
    have "m_t g AND VT_BITFIELD = m_t f AND VT_BITFIELD" "m_t g AND VT_BTYPE = m_t f AND VT_BTYPE"
      using arg_cong [OF that, of "\<lambda>x. x AND VT_BITFIELD"] arg_cong [OF that, of "\<lambda>x. x AND VT_BTYPE"]
      by (simp_all add: and.assoc)
    then show ?thesis
      using assms bitfield_size [of "m_t g"] bitfield_size [OF assms]
      by (simp add: member_size_def bitfield_type_def)
  qed
  with 1 s(2) show thesis by (rule that)
qed

section \<open>The access type\<close>

text \<open>The type for a number of bytes, and the offset the search has for an alignment.\<close>

definition access_size :: "int \<Rightarrow> int" where
  "access_size bytes = (if bytes > 4 then 8 else if bytes > 2 then 4 else if bytes > 1 then 2 else 1)"

definition access_at :: "int \<Rightarrow> int \<Rightarrow> int" where
  "access_at px0 a = (px0 div 8) AND - a"

lemma access_loop_Suc:
  "access_loop (Suc k) px0 bs c0 s a t =
     (let cx = access_at px0 a; px = px0 - cx * 8 in
      if c0 = cx then Inr (px, cx, s, t)
      else let s1 = access_size ((px + bs + 7) div 8)
           in access_loop k px0 bs cx s1 s1
                (if s1 = 8 then VT_LLONG else if s1 = 4 then VT_INT else if s1 = 2 then VT_SHORT else VT_BYTE))"
  by (simp add: access_at_def access_size_def Let_def)

declare access_loop.simps(2) [simp del]

lemma access_size_mono: "x \<le> y \<Longrightarrow> access_size x \<le> access_size y"
  by (simp add: access_size_def)

lemma access_size_cases: "access_size x \<in> {1, 2, 4, 8}"
  by (simp add: access_size_def)

lemma pow2_access: "a \<in> {1, 2, 4, 8} \<Longrightarrow> pow2 a"
proof -
  have "pow2 2" unfolding pow2_def by (rule exI [of _ 1]) simp
  moreover have "pow2 4" unfolding pow2_def by (rule exI [of _ 2]) simp
  moreover have "pow2 8" unfolding pow2_def by (rule exI [of _ 3]) simp
  ultimately show "a \<in> {1, 2, 4, 8} \<Longrightarrow> pow2 a" by auto
qed

lemma access_at_bounds:
  assumes "a \<in> {1, 2, 4, 8}" and "0 \<le> px0"
  shows "0 \<le> access_at px0 a" and "access_at px0 a * 8 \<le> px0"
proof -
  have e: "access_at px0 a = px0 div 8 - px0 div 8 mod a"
    using assms by (simp add: access_at_def round_down pow2_access)
  have "0 \<le> px0 div 8 div a" using assms by (auto simp: pos_imp_zdiv_nonneg_iff)
  then have "0 \<le> a * (px0 div 8 div a)" using assms by auto
  then show "0 \<le> access_at px0 a" unfolding e by (simp only: minus_mod_eq_mult_div)
  have "0 \<le> px0 div 8 mod a" using assms by auto
  moreover have "px0 div 8 * 8 \<le> px0" by presburger
  moreover have "0 \<le> m \<Longrightarrow> d * 8 \<le> px0 \<Longrightarrow> (d - m) * 8 \<le> px0" for d m :: int
    by (simp add: left_diff_distrib)
  ultimately show "access_at px0 a * 8 \<le> px0" unfolding e by blast
qed

lemma access_at_mono:
  assumes "a \<in> {1, 2, 4, 8}" and "b \<in> {1, 2, 4, 8}" and "a \<le> b"
  shows "access_at px0 b \<le> access_at px0 a"
proof -
  have "a dvd b" using assms by auto
  then have "px0 div 8 mod a = px0 div 8 mod b mod a" by (rule mod_mod_cancel [symmetric])
  also have "\<dots> \<le> px0 div 8 mod b" using assms(2) by (intro zmod_le_nonneg_dividend) auto
  finally have "px0 div 8 mod a \<le> px0 div 8 mod b" .
  then show ?thesis using assms by (simp add: access_at_def round_down pow2_access)
qed

text \<open>The alignment grows from round to round until it stays, at most three times.\<close>

lemma access_loop_ends:
  assumes "0 \<le> px0" and "a \<in> {1, 2, 4, 8}" and "prev \<in> {1, 2, 4, 8}" and "prev \<le> a"
    and "a = access_size ((px0 - access_at px0 prev * 8 + bs + 7) div 8)"
    and "(if prev = a then 1 else if a = 2 then 4 else if a = 4 then 3 else 2) \<le> k"
  shows "\<exists>px cx s1 t1. access_loop k px0 bs (access_at px0 prev) a a t = Inr (px, cx, s1, t1) \<and>
    px = px0 - cx * 8 \<and> 0 \<le> cx \<and> 0 \<le> px \<and> s1 \<in> {1, 2, 4, 8}"
  using assms(2-)
proof (induction k arbitrary: a prev t)
  case 0
  then show ?case by (auto split: if_splits)
next
  case (Suc k)
  note b = access_at_bounds [OF Suc.prems(1) assms(1)]
  show ?case
  proof (cases "access_at px0 prev = access_at px0 a")
    case True
    then show ?thesis using b Suc.prems(1) by (simp add: access_loop_Suc Let_def)
  next
    case False
    define a1 where "a1 = access_size ((px0 - access_at px0 a * 8 + bs + 7) div 8)"
    define t1 where "t1 = (if a1 = 8 then VT_LLONG else if a1 = 4 then VT_INT else if a1 = 2 then VT_SHORT else VT_BYTE)"
    have grows: "a \<le> a1"
    proof -
      have "access_at px0 a \<le> access_at px0 prev" by (rule access_at_mono [OF Suc.prems(2,1,3)])
      then have "(px0 - access_at px0 prev * 8 + bs + 7) div 8 \<le> (px0 - access_at px0 a * 8 + bs + 7) div 8"
        by (intro zdiv_mono1) simp_all
      then show ?thesis unfolding a1_def by (subst Suc.prems(4)) (rule access_size_mono)
    qed
    have step: "access_loop (Suc k) px0 bs (access_at px0 prev) a a t = access_loop k px0 bs (access_at px0 a) a1 a1 t1"
      using False by (simp add: access_loop_Suc Let_def a1_def t1_def)
    have a1: "a1 \<in> {1, 2, 4, 8}" unfolding a1_def by (rule access_size_cases)
    have "prev < a" using False Suc.prems(3) by (cases "prev = a") auto
    then have "(if a = a1 then 1 else if a1 = 2 then 4 else if a1 = 4 then 3 else 2) \<le> k"
      using Suc.prems(1,2,5) a1 grows by auto
    from Suc.IH [OF a1 Suc.prems(1) grows a1_def this] show ?thesis unfolding step .
  qed
qed

lemma access_loop_result:
  assumes "0 \<le> px0" and "5 \<le> k"
  shows "\<exists>px cx s1 t1. access_loop k px0 bs (- 1) 1 1 t = Inr (px, cx, s1, t1) \<and>
    px = px0 - cx * 8 \<and> 0 \<le> cx \<and> 0 \<le> px \<and> s1 \<in> {1, 2, 4, 8}"
proof -
  obtain j where k: "k = Suc j" "4 \<le> j" using assms(2) by (cases k) auto
  define a where "a = access_size ((px0 - access_at px0 1 * 8 + bs + 7) div 8)"
  have a: "a \<in> {1, 2, 4, 8}" unfolding a_def by (rule access_size_cases)
  have ne: "access_at px0 1 \<noteq> - 1" using access_at_bounds(1) [of 1 px0] assms(1) by simp
  have "access_loop k px0 bs (- 1) 1 1 t = access_loop j px0 bs (access_at px0 1) a a
      (if a = 8 then VT_LLONG else if a = 4 then VT_INT else if a = 2 then VT_SHORT else VT_BYTE)"
    using ne unfolding k(1) access_loop_Suc Let_def a_def by simp
  then show ?thesis using access_loop_ends [OF assms(1) a _ _ a_def] a k(2) by auto
qed

lemma fix_access_keeps:
  assumes "5 \<le> k" and "wf_member f" and "0 \<le> m_c f"
  shows "\<exists>f'. fix_access k c f = Inr f' \<and> first_bit f' = first_bit f \<and> bit_len f' = bit_len f"
proof (cases "is_bitfield f \<and> uint (BIT_SIZE (m_t f)) \<noteq> 0")
  case False
  then show ?thesis
    by (auto simp: fix_access_def Let_def first_bit_def bit_len_def is_bitfield_def member_size_def)
next
  case True
  then have "bitfield_type (m_t f)" using assms(2) by (simp add: wf_member_def)
  then obtain sz where sz: "member_size f = Inr (sz, sz)" by (rule bitfield_member_size) blast
  let ?p = "uint (BIT_POS (m_t f))" and ?b = "uint (BIT_SIZE (m_t f))"
  have px0: "0 \<le> m_c f * 8 + ?p" using assms(3) by simp
  obtain px cx s1 t1 where r: "access_loop k (m_c f * 8 + ?p) ?b (- 1) 1 1 VT_BYTE = Inr (px, cx, s1, t1)"
    "px = m_c f * 8 + ?p - cx * 8" "0 \<le> cx" "0 \<le> px" "s1 \<in> {1, 2, 4, 8}"
    using access_loop_result [OF px0 assms(1)] by blast
  have b: "1 \<le> ?b" using True uint_ge_0 [of "BIT_SIZE (m_t f)"] by linarith
  consider (own) "?p + ?b \<le> sz * 8 \<and> m_c f + sz \<le> c"
    | (typed) "\<not> (?p + ?b \<le> sz * 8 \<and> m_c f + sz \<le> c)" "px + ?b \<le> s1 * 8 \<and> cx + s1 \<le> c"
    | (bytes) "\<not> (?p + ?b \<le> sz * 8 \<and> m_c f + sz \<le> c)" "\<not> (px + ?b \<le> s1 * 8 \<and> cx + s1 \<le> c)" by blast
  then show ?thesis
  proof cases
    case own
    then show ?thesis using True sz by (simp add: fix_access_def Let_def first_bit_def bit_len_def is_bitfield_def)
  next
    case typed
    have "px + ?b \<le> s1 * 8" using typed(2) by blast
    then have px: "px < 64" using r(5) b by auto
    note s = set_bit_pos_fields [OF r(4) px, of "m_t f"]
    have bf: "set_bit_pos px (m_t f) AND VT_BITFIELD = m_t f AND VT_BITFIELD"
      using arg_cong [OF s(3), of "\<lambda>x. x AND VT_BITFIELD"] by (simp add: and.assoc)
    have "fix_access k c f = Inr (f\<lparr>m_c := cx, m_t := set_bit_pos px (m_t f), m_auxtype := (if s1 \<noteq> sz then uint t1 else - 1)\<rparr>)"
      using True sz r(1) typed by (auto simp: fix_access_def Let_def)
    then show ?thesis using True r(2) bf s(1,2)
      by (simp add: first_bit_def bit_len_def is_bitfield_def)
  next
    case bytes
    then show ?thesis using True sz r(1)
      by (auto simp: fix_access_def Let_def first_bit_def bit_len_def is_bitfield_def)
  qed
qed

section \<open>One member after the other\<close>

text \<open>The first bit no member has taken.\<close>

definition next_bit :: "layout \<Rightarrow> int" where
  "next_bit l = ly_c l * 8 + ly_bit_pos l"

definition wf_layout :: "layout \<Rightarrow> bool" where
  "wf_layout l \<longleftrightarrow> 0 \<le> ly_c l \<and> 0 \<le> ly_bit_pos l \<and> pow2 (ly_maxalign l)"

lemma member_align_pow2:
  assumes "pow2 al" and "lo_pack op = 0 \<or> pow2 (lo_pack op)"
  shows "pow2 (fst (member_align op f b al))"
  using assms pow2_attr [of "m_aligned f"]
  by (auto simp: member_align_def Let_def attr_align_def)

lemma member_align_le:
  assumes "m_aligned f = 0" and "0 < lo_pack op \<or> lo_pack op = 0" and "1 \<le> al"
  shows "fst (member_align op f b al) \<le> al"
  using assms by (auto simp: member_align_def Let_def attr_align_def)

lemma layout_plain:
  assumes "lo_pcc op" "\<not> lo_union op" "lo_pack op = 0 \<or> pow2 (lo_pack op)"
    and "wf_member f" and "wf_layout l" and f: "\<not> is_bitfield f"
  shows "\<exists>f' l'. layout_member op f l = Inr (f', l') \<and> wf_layout l' \<and> wf_member f' \<and> 0 \<le> m_c f' \<and>
    bit_len f' = bit_len f \<and> next_bit l \<le> first_bit f' \<and> first_bit f' + bit_len f' \<le> next_bit l'"
proof -
  obtain sz al where sz: "member_size f = Inr (sz, al)" "pow2 al"
    using assms(4) f by (auto simp: wf_member_def)
  obtain a packed where a: "member_align op f (- 1) al = (a, packed)" by (cases "member_align op f (- 1) al")
  have pa: "pow2 a" using member_align_pow2 [OF sz(2) assms(3), of f "- 1"] a by simp
  let ?c = "align_up (ly_c l + (ly_bit_pos l + 7) div 8) a"
  have c: "ly_c l + (ly_bit_pos l + 7) div 8 \<le> ?c" by (rule align_up_props(1) [OF pa])
  have nn: "0 \<le> ly_c l" "0 \<le> ly_bit_pos l" "pow2 (ly_maxalign l)" using assms(5) by (simp_all add: wf_layout_def)
  have up: "ly_bit_pos l \<le> (ly_bit_pos l + 7) div 8 * 8" by presburger
  have c8: "next_bit l \<le> ?c * 8" "0 \<le> ?c" using c up nn unfolding next_bit_def by linarith+
  let ?f = "f\<lparr>m_c := ?c\<rparr>"
  have ms: "member_size ?f = Inr (sz, al)" "is_bitfield ?f = is_bitfield f"
    using sz(1) by (simp_all add: member_size_def is_bitfield_def)
  have "layout_member op f l = Inr (?f, l\<lparr>ly_offset := ?c, ly_c := (if sz > 0 then ?c + sz else ?c), ly_bit_pos := 0,
           ly_prevbt := VT_STRUCT, ly_prev_bit_size := 0, ly_maxalign := (if a > ly_maxalign l then a else ly_maxalign l)\<rparr>)"
    using assms(1,2) f sz(1) a by (simp add: layout_member_def Let_def)
  then show ?thesis using c8 nn pa f sz ms
    by (auto simp: wf_layout_def wf_member_def first_bit_def bit_len_def next_bit_def)
qed

lemma pcc_bitfield_place:
  assumes "pow2 a" and "0 \<le> ly_c l" and "0 \<le> ly_bit_pos l" and "m_aligned f \<noteq> 0 \<or> a \<le> 8"
  shows "\<exists>c p. pcc_bitfield f sz a packed b l =
      Inr (if sz = 8 \<and> b \<le> 32 then (m_t f AND NOT VT_BTYPE) OR VT_INT else m_t f, if m_anon f then 1 else a,
           l\<lparr>ly_c := c, ly_bit_pos := p, ly_offset := c\<rparr>) \<and>
    next_bit l \<le> c * 8 + p \<and> 0 \<le> c \<and> 0 \<le> p \<and> p < 64"
proof -
  define new where "new \<longleftrightarrow> b = 0 \<or> m_aligned f \<noteq> 0 \<or>
    (\<not> packed \<and> ((ly_c l * 8 + ly_bit_pos l) mod (a * 8) + b + a * 8 - 1) div (a * 8) > sz div a)"
  let ?n = "align_up (ly_c l + (ly_bit_pos l + 7) div 8) a"
  have n: "ly_c l + (ly_bit_pos l + 7) div 8 \<le> ?n" by (rule align_up_props(1) [OF assms(1)])
  have up: "ly_bit_pos l \<le> (ly_bit_pos l + 7) div 8 * 8" by presburger
  define c0 p0 where cp0: "c0 = (if new then ?n else ly_c l)" "p0 = (if new then 0 else ly_bit_pos l)"
  have 0: "next_bit l \<le> c0 * 8 + p0" "0 \<le> c0" "0 \<le> p0"
    using n up assms(2,3) unfolding cp0 next_bit_def by (cases new; simp)+
  obtain c p where r: "carry_bits a c0 p0 = Inr (c, p)" "c * 8 + p = c0 * 8 + p0" "c0 \<le> c" "0 \<le> p" "p < a * 8"
    using carry_bits_sum [OF pow2_pos [OF assms(1)] 0(3), of c0] by blast
  have "p < 64"
  proof (cases "m_aligned f = 0")
    case True
    then show ?thesis using assms(4) r(5) by simp
  next
    case False
    then have "p0 = 0" by (simp add: cp0 new_def)
    then have "carry_bits a c0 p0 = Inr (c0, 0)"
      using pow2_pos [OF assms(1)] by (subst carry_bits.simps) simp
    then show ?thesis using r(1) by simp
  qed
  moreover have "pcc_bitfield f sz a packed b l =
      Inr (if sz = 8 \<and> b \<le> 32 then (m_t f AND NOT VT_BTYPE) OR VT_INT else m_t f, if m_anon f then 1 else a,
           l\<lparr>ly_c := c, ly_bit_pos := p, ly_offset := c\<rparr>)"
    using r(1) unfolding cp0 pcc_bitfield_def Let_def new_def [symmetric] by (cases new) simp_all
  ultimately show ?thesis using 0 r(2-4) by (intro exI [of _ c] exI [of _ p]) simp
qed

lemma bitfield_type_cong:
  assumes "t AND 0xff = u AND 0xff"
  shows "bitfield_type t = bitfield_type u"
proof -
  have "t AND VT_BITFIELD = u AND VT_BITFIELD" "t AND VT_BTYPE = u AND VT_BTYPE"
    using arg_cong [OF assms, of "\<lambda>x. x AND VT_BITFIELD"] arg_cong [OF assms, of "\<lambda>x. x AND VT_BTYPE"]
    by (simp_all add: and.assoc)
  then show ?thesis by (simp add: bitfield_type_def)
qed

text \<open>A long long bit-field of at most 32 bits as an int one.\<close>

lemma as_int_fields:
  fixes t :: u32
  defines "u \<equiv> (t AND NOT VT_BTYPE) OR VT_INT"
  shows "u AND VT_BTYPE = VT_INT" and "u AND VT_BITFIELD = t AND VT_BITFIELD" and "BIT_SIZE u = BIT_SIZE t"
proof -
  have 1: "u AND VT_BTYPE = (t AND (NOT VT_BTYPE AND VT_BTYPE)) OR (VT_INT AND VT_BTYPE)"
    unfolding u_def by (simp only: bit.conj_disj_distrib2 and.assoc)
  then show "u AND VT_BTYPE = VT_INT" by simp
  have 2: "u AND VT_BITFIELD = (t AND (NOT VT_BTYPE AND VT_BITFIELD)) OR (VT_INT AND VT_BITFIELD)"
    unfolding u_def by (simp only: bit.conj_disj_distrib2 and.assoc)
  then show "u AND VT_BITFIELD = t AND VT_BITFIELD" by simp
  have m: "(15 :: u32) = mask 4" "(3 :: u32) = mask 2" by (simp_all add: mask_eq_exp_minus_1)
  have "drop_bit 26 u = drop_bit 26 t" unfolding u_def m
    by (rule bit_word_eqI) (auto simp: bit_simps dest: bit_imp_le_length)
  then show "BIT_SIZE u = BIT_SIZE t" by (simp add: BIT_SIZE_def)
qed

lemma bitfield_as_int:
  assumes "bitfield_type t"
  shows "bitfield_type ((t AND NOT VT_BTYPE) OR VT_INT)"
    and "type_size (CType ((t AND NOT VT_BTYPE) OR VT_INT) r) = Inr (4, 4)"
proof -
  show 1: "bitfield_type ((t AND NOT VT_BTYPE) OR VT_INT)"
    using assms as_int_fields(1,2) [of t] unfolding bitfield_type_def by simp
  show "type_size (CType ((t AND NOT VT_BTYPE) OR VT_INT) r) = Inr (4, 4)"
    unfolding bitfield_size [OF 1] as_int_fields(1) by simp
qed

lemma layout_bitfield:
  assumes "lo_pcc op" "\<not> lo_union op" "lo_pack op = 0 \<or> pow2 (lo_pack op)"
    and "wf_member f" and "wf_layout l" and f: "is_bitfield f"
  shows "\<exists>f' l'. layout_member op f l = Inr (f', l') \<and> wf_layout l' \<and> wf_member f' \<and> 0 \<le> m_c f' \<and>
    bit_len f' = bit_len f \<and> next_bit l \<le> first_bit f' \<and> first_bit f' + bit_len f' \<le> next_bit l'"
proof -
  let ?b = "uint (BIT_SIZE (m_t f))"
  have bt: "bitfield_type (m_t f)" using assms(4) f by (simp add: wf_member_def)
  then obtain sz where sz: "member_size f = Inr (sz, sz)" "sz \<in> {1, 2, 4, 8}" by (rule bitfield_member_size) blast
  have fits: "?b \<le> 8 * sz" using assms(4) f sz(1) by (auto simp: wf_member_def)
  obtain a packed where a: "member_align op f ?b sz = (a, packed)" by (cases "member_align op f ?b sz")
  have pa: "pow2 a" using member_align_pow2 [OF pow2_access [OF sz(2)] assms(3), of f ?b] a by simp
  have nn: "0 \<le> ly_c l" "0 \<le> ly_bit_pos l" "pow2 (ly_maxalign l)" using assms(5) by (simp_all add: wf_layout_def)
  define t where "t = (if sz = 8 \<and> ?b \<le> 32 then (m_t f AND NOT VT_BTYPE) OR VT_INT else m_t f)"
  define al where "al = (if m_anon f then 1 else a)"
  have "m_aligned f \<noteq> 0 \<or> a \<le> 8"
    using member_align_le [of f op sz ?b] a sz(2) assms(3) pow2_pos [of "lo_pack op"] by (cases "m_aligned f = 0") auto
  from pcc_bitfield_place [OF pa nn(1,2) this, of sz packed ?b]
  obtain c p where cp: "pcc_bitfield f sz a packed ?b l = Inr (t, al, l\<lparr>ly_c := c, ly_bit_pos := p, ly_offset := c\<rparr>)"
    "next_bit l \<le> c * 8 + p" "0 \<le> c" "0 \<le> p" "p < 64"
    unfolding t_def al_def by blast
  have t: "bitfield_type t" "BIT_SIZE t = BIT_SIZE (m_t f)"
    "\<exists>s. type_size (CType t (m_ref f)) = Inr (word_of_int s, word_of_int s) \<and> s \<in> {1, 2, 4, 8} \<and> ?b \<le> 8 * s"
  proof -
    have ty: "type_size (CType (m_t f) (m_ref f)) = Inr (word_of_int sz, word_of_int sz)"
    proof -
      obtain x y where xy: "type_size (CType (m_t f) (m_ref f)) = Inr (x, y)" "sint x = sz" "sint y = sz"
        using sz(1) by (cases "type_size (CType (m_t f) (m_ref f))") (auto simp: member_size_def)
      moreover have "x = word_of_int (sint x)" "y = word_of_int (sint y)" by simp_all
      ultimately show ?thesis by simp
    qed
    show "bitfield_type t" "BIT_SIZE t = BIT_SIZE (m_t f)"
      unfolding t_def using bt bitfield_as_int(1) [OF bt] as_int_fields(3) [of "m_t f"] by simp_all
    show "\<exists>s. type_size (CType t (m_ref f)) = Inr (word_of_int s, word_of_int s) \<and> s \<in> {1, 2, 4, 8} \<and> ?b \<le> 8 * s"
    proof (cases "sz = 8 \<and> ?b \<le> 32")
      case True
      then show ?thesis unfolding t_def using bitfield_as_int(2) [OF bt, of "m_ref f"] by (intro exI [of _ 4]) simp
    next
      case False
      then show ?thesis unfolding t_def using ty sz(2) fits by (intro exI [of _ sz]) auto
    qed
  qed
  let ?u = "set_bit_pos p t" and ?f = "f\<lparr>m_t := set_bit_pos p t, m_c := c\<rparr>"
  note u = set_bit_pos_fields [OF cp(4,5), of t]
  have ub: "bitfield_type ?u" using t(1) bitfield_type_cong [OF u(3)] by simp
  then have uf: "is_bitfield ?f" by (simp add: is_bitfield_def bitfield_type_def)
  have usz: "\<exists>s. member_size ?f = Inr (s, s) \<and> ?b \<le> 8 * s"
  proof -
    obtain s :: int where s: "type_size (CType t (m_ref f)) = Inr (word_of_int s, word_of_int s)" "s \<in> {1, 2, 4, 8}" "?b \<le> 8 * s"
      using t(3) by blast
    have "type_size (CType ?u (m_ref f)) = type_size (CType t (m_ref f))"
      using bitfield_size [OF ub, of "m_ref f"] bitfield_size [OF t(1), of "m_ref f"]
        arg_cong [OF u(3), of "\<lambda>x. x AND VT_BTYPE"] by (simp add: and.assoc)
    then show ?thesis using s by (auto simp: member_size_def)
  qed
  have "layout_member op f l = Inr (?f, l\<lparr>ly_c := c, ly_bit_pos := p + ?b, ly_offset := c,
      ly_maxalign := (if al > ly_maxalign l then al else ly_maxalign l)\<rparr>)"
    using assms(1,2) f sz(1) a cp(1) by (simp add: layout_member_def Let_def)
  moreover have "pow2 al" using pa by (simp add: al_def)
  ultimately show ?thesis using cp nn f ub uf usz u(1,2) t(2)
    by (auto simp: wf_layout_def wf_member_def first_bit_def bit_len_def next_bit_def)
qed

text \<open>What is known of the members placed so far, for the members one after the other.\<close>

lemma layout_member_places:
  assumes "lo_pcc op" "\<not> lo_union op" "lo_pack op = 0 \<or> pow2 (lo_pack op)"
    and "wf_member f" and "wf_layout l"
  obtains f' l' where "layout_member op f l = Inr (f', l')" "wf_layout l'" "wf_member f'" "0 \<le> m_c f'"
    "bit_len f' = bit_len f" "next_bit l \<le> first_bit f'" "first_bit f' + bit_len f' \<le> next_bit l'"
  using layout_plain [OF assms] layout_bitfield [OF assms] by (cases "is_bitfield f") blast+

lemma bit_len_nonneg: "0 \<le> bit_len f"
  by (auto simp: bit_len_def split: sum.splits)

definition in_order :: "int \<Rightarrow> member list \<Rightarrow> int \<Rightarrow> bool" where
  "in_order from fs to \<longleftrightarrow> from \<le> to \<and>
     (\<forall>i<length fs. from \<le> first_bit (fs ! i) \<and> first_bit (fs ! i) + bit_len (fs ! i) \<le> to) \<and>
     (\<forall>i j. i < j \<longrightarrow> j < length fs \<longrightarrow> first_bit (fs ! i) + bit_len (fs ! i) \<le> first_bit (fs ! j))"

lemma in_order_Cons:
  assumes "from \<le> first_bit f" and "first_bit f + bit_len f \<le> mid" and "in_order mid fs to"
  shows "in_order from (f # fs) to"
  using assms bit_len_nonneg [of f] unfolding in_order_def
  by (auto simp: nth_Cons' less_Suc_eq_0_disj split: nat.splits)

lemma layout_members_order:
  assumes "lo_pcc op" "\<not> lo_union op" "lo_pack op = 0 \<or> pow2 (lo_pack op)"
    and "list_all wf_member fs" and "wf_layout l"
  shows "\<exists>fs' l'. layout_members op fs l = Inr (fs', l') \<and> wf_layout l' \<and> list_all (\<lambda>f. wf_member f \<and> 0 \<le> m_c f) fs' \<and>
    map bit_len fs' = map bit_len fs \<and> in_order (next_bit l) fs' (next_bit l')"
  using assms(4,5)
proof (induction fs arbitrary: l)
  case Nil
  then show ?case by (simp add: in_order_def)
next
  case (Cons f fs)
  from Cons.prems have "wf_member f" "list_all wf_member fs" by simp_all
  from layout_member_places [OF assms(1-3) this(1) Cons.prems(2)]
  obtain f' l' where f: "layout_member op f l = Inr (f', l')" "wf_layout l'" "wf_member f'" "0 \<le> m_c f'"
    "bit_len f' = bit_len f" "next_bit l \<le> first_bit f'" "first_bit f' + bit_len f' \<le> next_bit l'" .
  obtain fs' l2 where r: "layout_members op fs l' = Inr (fs', l2)" "wf_layout l2"
    "list_all (\<lambda>f. wf_member f \<and> 0 \<le> m_c f) fs'" "map bit_len fs' = map bit_len fs"
    "in_order (next_bit l') fs' (next_bit l2)"
    using Cons.IH [OF \<open>list_all wf_member fs\<close> f(2)] by blast
  from in_order_Cons [OF f(6,7) r(5)] show ?case using f r by simp
qed

lemma fix_members_keep:
  assumes "5 \<le> k" and "list_all (\<lambda>f. wf_member f \<and> 0 \<le> m_c f) fs"
  shows "\<exists>fs'. fix_members k c fs = Inr fs' \<and> map first_bit fs' = map first_bit fs \<and> map bit_len fs' = map bit_len fs"
  using assms(2)
proof (induction fs)
  case (Cons f fs)
  then obtain f' fs' where "fix_access k c f = Inr f'" "first_bit f' = first_bit f" "bit_len f' = bit_len f"
    "fix_members k c fs = Inr fs'" "map first_bit fs' = map first_bit fs" "map bit_len fs' = map bit_len fs"
    using fix_access_keeps [OF assms(1), of f c] by auto
  then show ?case by simp
qed simp

lemma in_order_cong:
  assumes "map first_bit fs' = map first_bit fs" and "map bit_len fs' = map bit_len fs"
  shows "in_order a fs' b = in_order a fs b"
proof -
  have n: "length fs' = length fs" using assms(1) by (rule map_eq_imp_length_eq)
  have "first_bit (fs' ! i) = first_bit (fs ! i) \<and> bit_len (fs' ! i) = bit_len (fs ! i)" if "i < length fs" for i
    using arg_cong [OF assms(1), of "\<lambda>x. x ! i"] arg_cong [OF assms(2), of "\<lambda>x. x ! i"] that n by simp
  then show ?thesis using n unfolding in_order_def by (smt (verit, ccfv_SIG) less_trans)
qed

section \<open>The whole structure\<close>

lemma struct_layout_order:
  assumes "lo_pcc op" "\<not> lo_union op" "lo_pack op = 0 \<or> pow2 (lo_pack op)" and "list_all wf_member fs" and "5 \<le> k"
  shows "\<exists>fs' r c. struct_layout k op fs = Inr (fs', r, c) \<and> map bit_len fs' = map bit_len fs \<and>
    in_order 0 fs' (8 * c) \<and> pow2 r \<and> c mod r = 0"
proof -
  let ?l0 = "\<lparr>ly_c = 0, ly_bit_pos = 0, ly_maxalign = 1, ly_offset = 0, ly_prevbt = VT_STRUCT, ly_prev_bit_size = 0\<rparr>"
  have "wf_layout ?l0" by (simp add: wf_layout_def)
  from layout_members_order [OF assms(1-4) this] obtain fs1 l where
    1: "layout_members op fs ?l0 = Inr (fs1, l)" "wf_layout l" "list_all (\<lambda>f. wf_member f \<and> 0 \<le> m_c f) fs1"
      "map bit_len fs1 = map bit_len fs" "in_order (next_bit ?l0) fs1 (next_bit l)" by blast
  let ?cc = "ly_c l + (ly_bit_pos l + 7) div 8" and ?bt = "if lo_aligned op \<noteq> 0 then attr_align (lo_aligned op) else 1"
  let ?r = "if ?bt < ly_maxalign l then ly_maxalign l else ?bt"
  let ?c = "align_up ?cc ?r"
  have r: "pow2 ?r" using 1(2) pow2_attr [of "lo_aligned op"] by (auto simp: wf_layout_def)
  obtain fs2 where 2: "fix_members k ?c fs1 = Inr fs2" "map first_bit fs2 = map first_bit fs1" "map bit_len fs2 = map bit_len fs1"
    using fix_members_keep [OF assms(5) 1(3)] by blast
  have "ly_bit_pos l \<le> (ly_bit_pos l + 7) div 8 * 8" by presburger
  then have "next_bit l \<le> 8 * ?c" using align_up_props(1) [OF r, of ?cc] unfolding next_bit_def by linarith
  then have "in_order 0 fs1 (8 * ?c)" using 1(5) by (fastforce simp: in_order_def next_bit_def)
  then have "in_order 0 fs2 (8 * ?c)" using in_order_cong [OF 2(2,3)] by simp
  moreover have "struct_layout k op fs = Inr (fs2, ?r, ?c)"
    using 1(1) 2(1) assms(1) by (simp add: struct_layout_def Let_def split: if_splits)
  ultimately show ?thesis using r align_up_props(2) [OF r] 1(4) 2(3) by auto
qed

text \<open>
  C13: By the PCC rules (the default) struct_layout gives every structure a layout in which no two
  members share a bit: of two members the earlier one ends at or before the first bit of the later
  one, every member keeps its size, lies inside the structure, and the size is a multiple of the
  alignment. This holds for every mix of bit-fields, zero-width bit-fields and other members, with
  any attributes packed and aligned and any pragma pack, and also after the positions have been
  rewritten for another access type.
\<close>

theorem struct_layout_disjoint:
  assumes "lo_pcc op" and "\<not> lo_union op" and "lo_pack op = 0 \<or> pow2 (lo_pack op)"
    and "list_all wf_member fs" and "5 \<le> k" and "i < j" and "j < length fs"
  shows "\<exists>fs' r c. struct_layout k op fs = Inr (fs', r, c) \<and> map bit_len fs' = map bit_len fs \<and>
    0 \<le> first_bit (fs' ! i) \<and> first_bit (fs' ! i) + bit_len (fs' ! i) \<le> first_bit (fs' ! j) \<and>
    first_bit (fs' ! j) + bit_len (fs' ! j) \<le> 8 * c \<and> c mod r = 0"
proof -
  obtain fs' r c where r: "struct_layout k op fs = Inr (fs', r, c)" "map bit_len fs' = map bit_len fs"
    "in_order 0 fs' (8 * c)" "c mod r = 0"
    using struct_layout_order [OF assms(1-5)] by (elim exE conjE) (rule that)
  have "length fs' = length fs" using r(2) by (rule map_eq_imp_length_eq)
  then show ?thesis using r assms(6,7) by (auto simp: in_order_def)
qed

definition int_bits :: "u32 \<Rightarrow> member" where
  "int_bits n = \<lparr>m_t = VT_INT OR VT_BITFIELD OR push_bit 26 n, m_ref = None, m_aligned = 0, m_packed = False,
     m_anon = False, m_c = 0, m_auxtype = 0\<rparr>"

definition pcc_layout :: layout_opts where
  "pcc_layout = \<lparr>lo_pcc = True, lo_pack = 0, lo_union = False, lo_packed = False, lo_aligned = 0\<rparr>"

definition char_member :: member where
  "char_member = (int_bits 0)\<lparr>m_t := VT_BYTE\<rparr>"

lemma sample_wf: "wf_member (int_bits 3)" "wf_member (int_bits 30)" "wf_member char_member"
  by (simp_all add: wf_member_def int_bits_def char_member_def is_bitfield_def bitfield_type_def
    member_size_def BIT_SIZE_def IS_ENUM_def)

theorem struct_layout_disjoint_witness:
  "\<exists>fs' r c. struct_layout 5 pcc_layout [int_bits 3, int_bits 30, char_member] = Inr (fs', r, c) \<and>
    map bit_len fs' = map bit_len [int_bits 3, int_bits 30, char_member] \<and>
    0 \<le> first_bit (fs' ! 0) \<and> first_bit (fs' ! 0) + bit_len (fs' ! 0) \<le> first_bit (fs' ! 1) \<and>
    first_bit (fs' ! 1) + bit_len (fs' ! 1) \<le> 8 * c \<and> c mod r = 0"
  by (rule struct_layout_disjoint) (simp_all add: pcc_layout_def sample_wf)

end
