(* ===== verification/Expr_Parse.thy ===== *)
theory Expr_Parse
  imports Prelude
begin

text \<open>
  The two parsers tccgen.c has for binary expressions: the recursive descent with one function per
  level of the grammar (expr_prod to expr_lor), and the precedence parser (expr_infix) that
  replaces it when precedence_parser is defined. They share expr_landor, the code for && and ||.

  What they call is an argument of the model: unary, gen_op, and the operations of the value stack
  that expr_landor needs. The state is the tokens still to come and the state of the code
  generator; only unary and next take tokens.
\<close>

section \<open>Tokens\<close>

record 'g pstate =
  ps_toks :: "int list"
  ps_gen :: 'g

definition tok_of :: "'g pstate \<Rightarrow> int" where
  "tok_of s = (case ps_toks s of [] \<Rightarrow> - 1 | t # ts \<Rightarrow> t)"

definition next_token :: "'g pstate \<Rightarrow> 'g pstate" where
  "next_token s = s\<lparr>ps_toks := tl (ps_toks s)\<rparr>"

abbreviation (input) T_LAND :: int where "T_LAND \<equiv> 0x90"
abbreviation (input) T_LOR :: int where "T_LOR \<equiv> 0x91"
abbreviation (input) T_ULT :: int where "T_ULT \<equiv> 0x92"
abbreviation (input) T_UGE :: int where "T_UGE \<equiv> 0x93"
abbreviation (input) T_EQ :: int where "T_EQ \<equiv> 0x94"
abbreviation (input) T_NE :: int where "T_NE \<equiv> 0x95"
abbreviation (input) T_ULE :: int where "T_ULE \<equiv> 0x96"
abbreviation (input) T_GT :: int where "T_GT \<equiv> 0x9f"
abbreviation (input) T_SHL :: int where "T_SHL \<equiv> 60"
abbreviation (input) T_SAR :: int where "T_SAR \<equiv> 62"
abbreviation (input) T_MUL :: int where "T_MUL \<equiv> 42"
abbreviation (input) T_DIV :: int where "T_DIV \<equiv> 47"
abbreviation (input) T_MOD :: int where "T_MOD \<equiv> 37"
abbreviation (input) T_ADD :: int where "T_ADD \<equiv> 43"
abbreviation (input) T_SUB :: int where "T_SUB \<equiv> 45"
abbreviation (input) T_AND :: int where "T_AND \<equiv> 38"
abbreviation (input) T_XOR :: int where "T_XOR \<equiv> 94"
abbreviation (input) T_OR :: int where "T_OR \<equiv> 124"

section \<open>What the parsers call\<close>

record 'g backend =
  be_unary :: "'g pstate \<Rightarrow> 'g pstate res"
  be_gen_op :: "int \<Rightarrow> 'g \<Rightarrow> 'g res"
  be_condition_3way :: "'g \<Rightarrow> (int \<times> 'g) res"
  be_save_regs :: "int \<Rightarrow> 'g \<Rightarrow> 'g res"
  be_gvtst :: "int \<Rightarrow> int \<Rightarrow> 'g \<Rightarrow> (int \<times> 'g) res"
  be_gvtst_set :: "int \<Rightarrow> int \<Rightarrow> 'g \<Rightarrow> 'g res"
  be_vpop :: "'g \<Rightarrow> 'g res"
  be_vpushi :: "int \<Rightarrow> 'g \<Rightarrow> 'g res"
  be_gsym :: "int \<Rightarrow> 'g \<Rightarrow> 'g res"
  be_nocode :: "int \<Rightarrow> 'g \<Rightarrow> 'g"

definition on_gen :: "('g \<Rightarrow> 'g res) \<Rightarrow> 'g pstate \<Rightarrow> 'g pstate res" where
  "on_gen f s = bindR (f (ps_gen s)) (\<lambda>g. Inr (s\<lparr>ps_gen := g\<rparr>))"

section \<open>The operators && and ||\<close>

text \<open>
  The value of the last operand, as far as it is known: i is the value that goes on, cc says that all
  operands so far were constants, f that one of them has decided the result.
\<close>

definition landor_cond :: "'g backend \<Rightarrow> int \<Rightarrow> bool \<Rightarrow> bool \<Rightarrow> 'g pstate \<Rightarrow> (int \<times> bool \<times> bool \<times> 'g pstate) res" where
  "landor_cond be i cc f s =
     bindR (if f then Inr (i, ps_gen s) else be_condition_3way be (ps_gen s)) (\<lambda>(c, g).
     if c < 0 then bindR (be_save_regs be 1 g) (\<lambda>g1. Inr (c, False, f, s\<lparr>ps_gen := g1\<rparr>))
     else if c \<noteq> i then Inr (c, cc, True, s\<lparr>ps_gen := be_nocode be 1 g\<rparr>)
     else Inr (c, cc, f, s\<lparr>ps_gen := g\<rparr>))"

text \<open>Before the next operand: the jump out, or nothing for a constant. t is the list of jumps.\<close>

definition landor_jump :: "'g backend \<Rightarrow> int \<Rightarrow> int \<Rightarrow> int \<Rightarrow> 'g pstate \<Rightarrow> (int \<times> 'g pstate) res" where
  "landor_jump be i t c s =
     (if c < 0 then bindR (be_gvtst be i t (ps_gen s)) (\<lambda>(t1, g). Inr (t1, s\<lparr>ps_gen := g\<rparr>))
      else bindR (on_gen (be_vpop be) s) (\<lambda>s1. Inr (t, s1)))"

text \<open>The result after the last operand.\<close>

definition landor_value :: "'g backend \<Rightarrow> int \<Rightarrow> int \<Rightarrow> bool \<Rightarrow> bool \<Rightarrow> 'g pstate \<Rightarrow> 'g pstate res" where
  "landor_value be i t cc f s =
     (if cc \<or> f then
        bindR (on_gen (be_vpop be) s) (\<lambda>s1.
        bindR (on_gen (be_vpushi be (i XOR (if f then 1 else 0))) s1) (\<lambda>s2.
        bindR (on_gen (be_gsym be t) s2) (\<lambda>s3.
        Inr (s3\<lparr>ps_gen := be_nocode be (if f then - 1 else 0) (ps_gen s3)\<rparr>))))
      else on_gen (be_gvtst_set be i t) s)"

text \<open>The loop over the operands; \<open>operand\<close> is expr_landor_next.\<close>

fun landor_loop :: "nat \<Rightarrow> 'g backend \<Rightarrow> ('g pstate \<Rightarrow> 'g pstate res) \<Rightarrow> int \<Rightarrow> int \<Rightarrow> int \<Rightarrow> bool \<Rightarrow> bool \<Rightarrow>
    'g pstate \<Rightarrow> 'g pstate res" where
  "landor_loop k be operand op i t cc f s =
     bindR (landor_cond be i cc f s) (\<lambda>(c, cc1, f1, s1).
     if tok_of s1 \<noteq> op then landor_value be i t cc1 f1 s1
     else case k of 0 \<Rightarrow> Inl NoReturn
       | Suc k1 \<Rightarrow>
           bindR (landor_jump be i t c s1) (\<lambda>(t1, s2).
           bindR (operand (next_token s2)) (\<lambda>s3.
           landor_loop k1 be operand op i t1 cc1 f1 s3)))"

definition expr_landor :: "nat \<Rightarrow> 'g backend \<Rightarrow> ('g pstate \<Rightarrow> 'g pstate res) \<Rightarrow> int \<Rightarrow> 'g pstate \<Rightarrow> 'g pstate res" where
  "expr_landor k be operand op s = landor_loop k be operand op (if op = T_LAND then 1 else 0) 0 True False s"

section \<open>Recursive descent\<close>

text \<open>The loop of one level: while the token is an operator of the level, take the next operand.\<close>

fun left_loop :: "nat \<Rightarrow> 'g backend \<Rightarrow> (int \<Rightarrow> bool) \<Rightarrow> ('g pstate \<Rightarrow> 'g pstate res) \<Rightarrow> 'g pstate \<Rightarrow> 'g pstate res" where
  "left_loop k be test operand s =
     (let t = tok_of s in
      if \<not> test t then Inr s
      else case k of 0 \<Rightarrow> Inl NoReturn
        | Suc k1 \<Rightarrow>
            bindR (operand (next_token s)) (\<lambda>s1.
            bindR (on_gen (be_gen_op be t) s1) (\<lambda>s2.
            left_loop k1 be test operand s2)))"

definition expr_level :: "nat \<Rightarrow> 'g backend \<Rightarrow> (int \<Rightarrow> bool) \<Rightarrow> ('g pstate \<Rightarrow> 'g pstate res) \<Rightarrow> 'g pstate \<Rightarrow> 'g pstate res" where
  "expr_level k be test operand s = bindR (operand s) (left_loop k be test operand)"

definition expr_prod :: "nat \<Rightarrow> 'g backend \<Rightarrow> 'g pstate \<Rightarrow> 'g pstate res" where
  "expr_prod k be = expr_level k be (\<lambda>t. t = T_MUL \<or> t = T_DIV \<or> t = T_MOD) (be_unary be)"

definition expr_sum :: "nat \<Rightarrow> 'g backend \<Rightarrow> 'g pstate \<Rightarrow> 'g pstate res" where
  "expr_sum k be = expr_level k be (\<lambda>t. t = T_ADD \<or> t = T_SUB) (expr_prod k be)"

definition expr_shift :: "nat \<Rightarrow> 'g backend \<Rightarrow> 'g pstate \<Rightarrow> 'g pstate res" where
  "expr_shift k be = expr_level k be (\<lambda>t. t = T_SHL \<or> t = T_SAR) (expr_sum k be)"

definition expr_cmp :: "nat \<Rightarrow> 'g backend \<Rightarrow> 'g pstate \<Rightarrow> 'g pstate res" where
  "expr_cmp k be = expr_level k be (\<lambda>t. (t \<ge> T_ULE \<and> t \<le> T_GT) \<or> t = T_ULT \<or> t = T_UGE) (expr_shift k be)"

definition expr_cmpeq :: "nat \<Rightarrow> 'g backend \<Rightarrow> 'g pstate \<Rightarrow> 'g pstate res" where
  "expr_cmpeq k be = expr_level k be (\<lambda>t. t = T_EQ \<or> t = T_NE) (expr_cmp k be)"

definition expr_and :: "nat \<Rightarrow> 'g backend \<Rightarrow> 'g pstate \<Rightarrow> 'g pstate res" where
  "expr_and k be = expr_level k be (\<lambda>t. t = T_AND) (expr_cmpeq k be)"

definition expr_xor :: "nat \<Rightarrow> 'g backend \<Rightarrow> 'g pstate \<Rightarrow> 'g pstate res" where
  "expr_xor k be = expr_level k be (\<lambda>t. t = T_XOR) (expr_and k be)"

definition expr_or :: "nat \<Rightarrow> 'g backend \<Rightarrow> 'g pstate \<Rightarrow> 'g pstate res" where
  "expr_or k be = expr_level k be (\<lambda>t. t = T_OR) (expr_xor k be)"

definition expr_land :: "nat \<Rightarrow> 'g backend \<Rightarrow> 'g pstate \<Rightarrow> 'g pstate res" where
  "expr_land k be s =
     bindR (expr_or k be s) (\<lambda>s1. if tok_of s1 = T_LAND then expr_landor k be (expr_or k be) (tok_of s1) s1 else Inr s1)"

definition expr_lor :: "nat \<Rightarrow> 'g backend \<Rightarrow> 'g pstate \<Rightarrow> 'g pstate res" where
  "expr_lor k be s =
     bindR (expr_land k be s) (\<lambda>s1. if tok_of s1 = T_LOR then expr_landor k be (expr_land k be) (tok_of s1) s1 else Inr s1)"

section \<open>Precedence parser\<close>

definition precedence_switch :: "int \<Rightarrow> int" where
  "precedence_switch t =
     (if t = T_LOR then 1 else if t = T_LAND then 2 else if t = T_OR then 3 else if t = T_XOR then 4
      else if t = T_AND then 5 else if t = T_EQ \<or> t = T_NE then 6 else if t = T_ULT \<or> t = T_UGE then 7
      else if t = T_SHL \<or> t = T_SAR then 8 else if t = T_ADD \<or> t = T_SUB then 9
      else if t = T_MUL \<or> t = T_DIV \<or> t = T_MOD then 10
      else if t \<ge> T_ULE \<and> t \<le> T_GT then 7 else 0)"

text \<open>The table init_prec fills, and the macro that reads it.\<close>

definition prec_table :: "int list" where
  "prec_table = map (\<lambda>i. precedence_switch (int i)) [0..<256]"

definition precedence :: "int \<Rightarrow> int" where
  "precedence i = (if 0 \<le> i \<and> i < 256 then prec_table ! nat i else 0)"

lemma precedence_eq: "precedence t = precedence_switch t"
proof (cases "0 \<le> t \<and> t < 256")
  case True
  then show ?thesis by (simp add: precedence_def prec_table_def nat_less_iff)
next
  case False
  then show ?thesis by (auto simp: precedence_def precedence_switch_def)
qed

lemma precedence_le: "precedence t \<le> 10"
  by (simp add: precedence_eq precedence_switch_def)

lemma precedence_step: "p \<le> precedence t \<Longrightarrow> nat (10 - precedence t) < nat (11 - p)"
  using precedence_le [of t] by simp

text \<open>
  \<open>k\<close> bounds the rounds of the loop, \<open>n\<close> those of the loops started inside. A call inside a round
  has a higher precedence; no operator has one above 10.
\<close>

function expr_infix :: "nat \<Rightarrow> 'g backend \<Rightarrow> int \<Rightarrow> nat \<Rightarrow> 'g pstate \<Rightarrow> 'g pstate res" where
  "expr_infix n be p k s =
     (let t = tok_of s; p2 = precedence t in
      if p2 < p then Inr s
      else case k of 0 \<Rightarrow> Inl NoReturn
        | Suc k1 \<Rightarrow>
            bindR (if t = T_LOR \<or> t = T_LAND
                   then expr_landor n be (\<lambda>s1. bindR (be_unary be s1) (\<lambda>s2. expr_infix n be (p2 + 1) n s2)) t s
                   else bindR (be_unary be (next_token s)) (\<lambda>s1.
                        bindR (if precedence (tok_of s1) > p2 then expr_infix n be (p2 + 1) n s1 else Inr s1) (\<lambda>s2.
                        on_gen (be_gen_op be t) s2))) (\<lambda>s3.
            expr_infix n be p k1 s3))"
  by pat_completeness auto
termination
  by (relation "measures [\<lambda>(n, be, p, k, s). nat (11 - p), \<lambda>(n, be, p, k, s). k]")
    (auto simp: not_less dest: precedence_step)

declare expr_infix.simps [simp del] left_loop.simps [simp del] landor_loop.simps [simp del]

definition expr_lor_infix :: "nat \<Rightarrow> 'g backend \<Rightarrow> 'g pstate \<Rightarrow> 'g pstate res" where
  "expr_lor_infix k be s = bindR (be_unary be s) (expr_infix k be 1 k)"

end
