(* ===== verification/Expr_Parse_Props.thy ===== *)
theory Expr_Parse_Props
  imports Expr_Parse
begin

text \<open>
  The two parsers for binary expressions do the same: on every input they take the same tokens and
  give the code generator the same operations in the same order, and both come to an end.
\<close>

section \<open>Tokens only go away\<close>

abbreviation left :: "'g pstate \<Rightarrow> nat" where
  "left s \<equiv> length (ps_toks s)"

text \<open>Parsing an operand or an expression never adds a token.\<close>

definition shortens :: "('g pstate \<Rightarrow> 'g pstate res) \<Rightarrow> bool" where
  "shortens f \<longleftrightarrow> (\<forall>s s'. f s = Inr s' \<longrightarrow> left s' \<le> left s)"

lemma consumesD: "shortens f \<Longrightarrow> f s = Inr s' \<Longrightarrow> left s' \<le> left s"
  by (simp add: shortens_def)

lemma bindR_assoc: "bindR (bindR m f) g = bindR m (\<lambda>x. bindR (f x) g)"
  by (cases m) simp_all

lemma bindR_cong_ok: "(\<And>x. m = Inr x \<Longrightarrow> f x = g x) \<Longrightarrow> bindR m f = bindR m g"
  by (cases m) simp_all

lemma bindR_Inr_right [simp]: "bindR m Inr = m"
  by (cases m) simp_all

lemma on_gen_toks: "on_gen f s = Inr s' \<Longrightarrow> ps_toks s' = ps_toks s"
  by (auto simp: on_gen_def bindR_Inr_iff)

lemma tok_of_on_gen: "on_gen f s = Inr s' \<Longrightarrow> tok_of s' = tok_of s"
  by (simp add: tok_of_def on_gen_toks)

lemma tok_of_gen [simp]: "tok_of (s\<lparr>ps_gen := g\<rparr>) = tok_of s"
  by (simp add: tok_of_def)

lemma next_token_left:
  assumes "tok_of s \<noteq> - 1"
  shows "left (next_token s) < left s"
  using assms by (cases "ps_toks s") (auto simp: tok_of_def next_token_def)

lemma precedence_eof [simp]: "precedence (- 1) = 0"
  by (simp add: precedence_def)

lemma landor_toks:
  "landor_cond be i cc f s = Inr (c, cc1, f1, s1) \<Longrightarrow> ps_toks s1 = ps_toks s"
  "landor_jump be i t c s = Inr (t1, s2) \<Longrightarrow> ps_toks s2 = ps_toks s"
  "landor_value be i t cc f s = Inr s3 \<Longrightarrow> ps_toks s3 = ps_toks s"
  by (auto simp: landor_cond_def landor_jump_def landor_value_def bindR_Inr_iff dest!: on_gen_toks split: if_splits)

text \<open>An operand of && or || that is parsed by \<open>operand\<close> ends with a token that satisfies Q.\<close>

lemma landor_loop_result:
  assumes "landor_loop k be operand op i t cc f s = Inr s'" and "shortens operand"
    and "\<And>x y. operand x = Inr y \<Longrightarrow> Q (tok_of y)"
  shows "left s' \<le> left s \<and> tok_of s' \<noteq> op \<and> (Q (tok_of s') \<or> tok_of s' = tok_of s) \<and>
    (tok_of s = op \<and> op \<noteq> - 1 \<longrightarrow> left s' < left s \<and> Q (tok_of s'))"
  using assms(1)
proof (induction k arbitrary: t cc f s)
  case (0 t cc f s)
  obtain c cc1 f1 s1 where c: "landor_cond be i cc f s = Inr (c, cc1, f1, s1)"
    using 0 by (subst (asm) landor_loop.simps) (auto simp: bindR_Inr_iff)
  have t: "tok_of s1 = tok_of s" using landor_toks(1) [OF c] by (simp add: tok_of_def)
  have ne: "tok_of s \<noteq> op" using 0 c t by (subst (asm) landor_loop.simps) auto
  then have "landor_value be i t cc1 f1 s1 = Inr s'" using 0 c t by (subst (asm) landor_loop.simps) auto
  then have "ps_toks s' = ps_toks s" using landor_toks(1) [OF c] landor_toks(3) by metis
  then show ?case using ne by (simp add: tok_of_def)
next
  case (Suc k t cc f s)
  obtain c cc1 f1 s1 where c: "landor_cond be i cc f s = Inr (c, cc1, f1, s1)"
    using Suc.prems by (subst (asm) landor_loop.simps) (auto simp: bindR_Inr_iff)
  have t: "tok_of s1 = tok_of s" using landor_toks(1) [OF c] by (simp add: tok_of_def)
  show ?case
  proof (cases "tok_of s = op")
    case False
    then have "landor_value be i t cc1 f1 s1 = Inr s'"
      using Suc.prems c t by (subst (asm) landor_loop.simps) auto
    then have "ps_toks s' = ps_toks s" using landor_toks(1) [OF c] landor_toks(3) by metis
    then show ?thesis using False by (simp add: tok_of_def)
  next
    case True
    then obtain t1 s2 s3 where r: "landor_jump be i t c s1 = Inr (t1, s2)" "operand (next_token s2) = Inr s3"
      "landor_loop k be operand op i t1 cc1 f1 s3 = Inr s'"
      using Suc.prems c t by (subst (asm) landor_loop.simps) (auto simp: bindR_Inr_iff)
    have s2: "ps_toks s2 = ps_toks s" using landor_toks(1) [OF c] landor_toks(2) [OF r(1)] by simp
    have n: "left (next_token s2) \<le> left s" using s2 by (simp add: next_token_def)
    have n1: "op \<noteq> - 1 \<longrightarrow> left (next_token s2) < left s"
      using next_token_left [of s2] True s2 by (simp add: tok_of_def)
    have 3: "left s3 \<le> left (next_token s2)" by (rule consumesD [OF assms(2) r(2)])
    from Suc.IH [OF r(3)] assms(3) [OF r(2)] show ?thesis using n n1 3 by auto
  qed
qed

lemma infix_post: "expr_infix n be p k s = Inr s' \<Longrightarrow> precedence (tok_of s') < p"
proof (induction k arbitrary: s)
  case 0
  then show ?case by (subst (asm) expr_infix.simps) (auto simp: Let_def split: if_splits)
next
  case (Suc k)
  show ?case
  proof (cases "precedence (tok_of s) < p")
    case True
    then show ?thesis using Suc.prems by (subst (asm) expr_infix.simps) (simp add: Let_def)
  next
    case False
    then obtain s3 where "expr_infix n be p k s3 = Inr s'"
      using Suc.prems by (subst (asm) expr_infix.simps) (auto simp: Let_def bindR_Inr_iff)
    then show ?thesis by (rule Suc.IH)
  qed
qed

section \<open>One round of the precedence parser\<close>

definition operand_at :: "nat \<Rightarrow> 'g backend \<Rightarrow> int \<Rightarrow> 'g pstate \<Rightarrow> 'g pstate res" where
  "operand_at n be q s = bindR (be_unary be s) (expr_infix n be q n)"

definition infix_round :: "nat \<Rightarrow> 'g backend \<Rightarrow> 'g pstate \<Rightarrow> 'g pstate res" where
  "infix_round n be s =
     (let t = tok_of s; p = precedence t in
      if t = T_LOR \<or> t = T_LAND then expr_landor n be (operand_at n be (p + 1)) t s
      else bindR (operand_at n be (p + 1) (next_token s)) (on_gen (be_gen_op be t)))"

lemma infix_below: "precedence (tok_of s) < p \<Longrightarrow> expr_infix n be p k s = Inr s"
  by (subst expr_infix.simps) (simp add: Let_def)

lemma infix_0: "p \<le> precedence (tok_of s) \<Longrightarrow> expr_infix n be p 0 s = Inl NoReturn"
  by (subst expr_infix.simps) (simp add: Let_def)

lemma infix_Suc:
  assumes "p \<le> precedence (tok_of s)"
  shows "expr_infix n be p (Suc k) s = bindR (infix_round n be s) (expr_infix n be p k)"
proof -
  let ?p = "precedence (tok_of s)"
  have "(if precedence (tok_of s1) > ?p then expr_infix n be (?p + 1) n s1 else Inr s1) = expr_infix n be (?p + 1) n s1" for s1
    by (simp add: infix_below)
  then show ?thesis using assms
    by (subst expr_infix.simps) (simp add: Let_def infix_round_def operand_at_def [abs_def] bindR_assoc)
qed

lemma round_takes:
  assumes "infix_round n be s = Inr s'" and "0 < precedence (tok_of s)"
    and "shortens (operand_at n be (precedence (tok_of s) + 1))"
  shows "left s' < left s"
proof -
  have eof: "tok_of s \<noteq> - 1" using assms(2) by auto
  show ?thesis
  proof (cases "tok_of s = T_LOR \<or> tok_of s = T_LAND")
    case True
    then have "expr_landor n be (operand_at n be (precedence (tok_of s) + 1)) (tok_of s) s = Inr s'"
      using assms(1) by (simp add: infix_round_def Let_def)
    from landor_loop_result [OF this [unfolded expr_landor_def] assms(3), of "\<lambda>t. True"] eof show ?thesis by simp
  next
    case False
    then obtain s1 where s1: "operand_at n be (precedence (tok_of s) + 1) (next_token s) = Inr s1"
      "on_gen (be_gen_op be (tok_of s)) s1 = Inr s'"
      using assms(1) by (auto simp: infix_round_def Let_def bindR_Inr_iff)
    then show ?thesis
      using consumesD [OF assms(3) s1(1)] next_token_left [OF eof] on_gen_toks [OF s1(2)] by simp
  qed
qed

lemma operand_at_consumes:
  "shortens (be_unary be) \<Longrightarrow> shortens (expr_infix n be q n) \<Longrightarrow> shortens (operand_at n be q)"
  by (fastforce simp: shortens_def operand_at_def bindR_Inr_iff)

lemma infix_consumes:
  assumes "shortens (be_unary be)" and "1 \<le> p"
  shows "shortens (expr_infix n be p k)"
  using assms(2)
proof (induction "nat (11 - p)" arbitrary: p k rule: less_induct)
  case less
  have "left s' \<le> left s" if "expr_infix n be p k s = Inr s'" for s s'
    using that
  proof (induction k arbitrary: s)
    case 0
    then show ?case using infix_0 [of p s n be] infix_below [of s p n be 0] by (cases "precedence (tok_of s) < p") auto
  next
    case (Suc k)
    show ?case
    proof (cases "precedence (tok_of s) < p")
      case True
      then show ?thesis using Suc.prems by (simp add: infix_below)
    next
      case False
      then obtain s1 where s1: "infix_round n be s = Inr s1" "expr_infix n be p k s1 = Inr s'"
        using Suc.prems by (auto simp: infix_Suc bindR_Inr_iff)
      have "shortens (expr_infix n be (precedence (tok_of s) + 1) n)"
        using False less.prems precedence_le [of "tok_of s"] by (intro less.hyps) auto
      from round_takes [OF s1(1) _ operand_at_consumes [OF assms(1) this]] False less.prems Suc.IH [OF s1(2)]
      show ?thesis by simp
    qed
  qed
  then show ?case by (simp add: shortens_def)
qed

lemma operand_consumes: "shortens (be_unary be) \<Longrightarrow> 1 \<le> q \<Longrightarrow> shortens (operand_at n be q)"
  by (simp add: operand_at_consumes infix_consumes)

lemma round_takes_token:
  assumes "shortens (be_unary be)" and "infix_round n be s = Inr s'" and "0 < precedence (tok_of s)"
  shows "left s' < left s"
  by (rule round_takes [OF assms(2,3)]) (use assms in \<open>simp add: operand_consumes\<close>)

section \<open>From one level to the next\<close>

lemma left_loop_stop: "\<not> test (tok_of s) \<Longrightarrow> left_loop k be test operand s = Inr s"
  by (subst left_loop.simps) (simp add: Let_def)

lemma left_loop_Suc:
  "test (tok_of s) \<Longrightarrow> left_loop (Suc k) be test operand s =
     bindR (operand (next_token s)) (\<lambda>s1. bindR (on_gen (be_gen_op be (tok_of s)) s1) (left_loop k be test operand))"
  by (subst left_loop.simps) (simp add: Let_def)

text \<open>As many rounds as there are tokens are enough.\<close>

lemma left_loop_enough:
  assumes "shortens operand" and "\<not> test (- 1)" and "left s \<le> k"
  shows "left_loop (Suc k) be test operand s = left_loop k be test operand s"
  using assms(3)
proof (induction k arbitrary: s)
  case 0
  then have "tok_of s = - 1" by (simp add: tok_of_def)
  then show ?case using assms(2) by (simp add: left_loop_stop)
next
  case (Suc k)
  show ?case
  proof (cases "test (tok_of s)")
    case True
    then have "left (next_token s) < left s" using assms(2) by (intro next_token_left) auto
    then have "left_loop (Suc k) be test operand s2 = left_loop k be test operand s2"
      if "operand (next_token s) = Inr s1" "on_gen (be_gen_op be (tok_of s)) s1 = Inr s2" for s1 s2
      using Suc.prems consumesD [OF assms(1) that(1)] on_gen_toks [OF that(2)] by (intro Suc.IH) simp
    then show ?thesis unfolding left_loop_Suc [of test s "Suc k", OF True] left_loop_Suc [of test s k, OF True]
      by (intro bindR_cong_ok) blast
  next
    case False
    then show ?thesis by (simp add: left_loop_stop)
  qed
qed

lemma infix_level:
  assumes "shortens (be_unary be)" and "3 \<le> p" and "left s \<le> k"
  shows "expr_infix n be p k s =
    bindR (expr_infix n be (p + 1) k s) (left_loop k be (\<lambda>t. precedence t = p) (operand_at n be (p + 1)))"
    (is "_ = bindR _ (?loop k)")
  using assms(3)
proof (induction k arbitrary: s)
  case 0
  then have "tok_of s = - 1" by (simp add: tok_of_def)
  then show ?case using assms(2) by (simp add: infix_below left_loop_stop)
next
  case (Suc k)
  let ?p = "precedence (tok_of s)"
  have cons: "shortens (operand_at n be (p + 1))" using assms by (simp add: operand_consumes)
  consider "?p < p" | "?p = p" | "p < ?p" by linarith
  then show ?case
  proof cases
    case 1
    then show ?thesis by (simp add: infix_below left_loop_stop)
  next
    case 2
    have "tok_of s \<noteq> T_LOR \<and> tok_of s \<noteq> T_LAND"
      using 2 assms(2) by (auto simp: precedence_eq precedence_switch_def)
    then have r: "infix_round n be s = bindR (operand_at n be (p + 1) (next_token s)) (on_gen (be_gen_op be (tok_of s)))"
      using 2 by (simp add: infix_round_def Let_def)
    have "expr_infix n be p k s2 = ?loop k s2"
      if "operand_at n be (p + 1) (next_token s) = Inr s1" "on_gen (be_gen_op be (tok_of s)) s1 = Inr s2" for s1 s2
    proof -
      have "infix_round n be s = Inr s2" using that r by simp
      then have "left s2 < left s" using assms(1,2) 2 by (intro round_takes_token) auto
      moreover have "precedence (tok_of s2) < p + 1"
        using that(1) infix_post tok_of_on_gen [OF that(2)] by (fastforce simp: operand_at_def bindR_Inr_iff)
      ultimately show ?thesis using Suc.IH [of s2] Suc.prems by (simp add: infix_below)
    qed
    then show ?thesis using 2
      by (auto simp: infix_Suc infix_below left_loop_Suc r bindR_assoc intro!: bindR_cong_ok)
  next
    case 3
    have "bindR (expr_infix n be (p + 1) k s1) (?loop k) = bindR (expr_infix n be (p + 1) k s1) (?loop (Suc k))"
      if "infix_round n be s = Inr s1" for s1
    proof (rule bindR_cong_ok)
      fix s2 assume s2: "expr_infix n be (p + 1) k s1 = Inr s2"
      have "left s2 \<le> left s1" using consumesD [OF infix_consumes s2] assms(1,2) by simp
      moreover have "left s1 < left s" using that assms(1,2) 3 by (intro round_takes_token) auto
      ultimately show "?loop k s2 = ?loop (Suc k) s2"
        using Suc.prems assms(2) by (intro left_loop_enough [symmetric] cons) auto
    qed
    moreover have "expr_infix n be p k s1 = bindR (expr_infix n be (p + 1) k s1) (?loop k)"
      if "infix_round n be s = Inr s1" for s1
    proof (rule Suc.IH)
      have "left s1 < left s" using that assms(1,2) 3 by (intro round_takes_token) auto
      then show "left s1 \<le> k" using Suc.prems by simp
    qed
    ultimately show ?thesis using 3
      by (auto simp: infix_Suc bindR_assoc intro!: bindR_cong_ok)
  qed
qed

lemma infix_landor:
  assumes "shortens (be_unary be)" and "left s \<le> k" and q: "q = 1 \<and> op = T_LOR \<or> q = 2 \<and> op = T_LAND"
  shows "expr_infix n be q k s =
    bindR (expr_infix n be (q + 1) k s) (\<lambda>s1.
      if tok_of s1 = op then expr_landor n be (operand_at n be (q + 1)) (tok_of s1) s1 else Inr s1)"
    (is "_ = bindR _ ?last")
  using assms(2)
proof (induction k arbitrary: s)
  case 0
  then have "tok_of s = - 1" by (simp add: tok_of_def)
  then show ?case using q by (auto simp: infix_below)
next
  case (Suc k)
  let ?p = "precedence (tok_of s)"
  have op: "precedence t = q \<longleftrightarrow> t = op" for t using q by (auto simp: precedence_eq precedence_switch_def)
  have cons: "shortens (operand_at n be (q + 1))" using q by (intro operand_consumes assms(1)) auto
  consider "?p < q" | "?p = q" | "q < ?p" by linarith
  then show ?case
  proof cases
    case 1
    then have "tok_of s \<noteq> op" using op [of "tok_of s"] by auto
    then show ?thesis using 1 by (simp add: infix_below)
  next
    case 2
    then have "tok_of s = op" using op by simp
    then have r: "infix_round n be s = expr_landor n be (operand_at n be (q + 1)) op s"
      using q by (auto simp: infix_round_def Let_def op [symmetric] precedence_eq precedence_switch_def)
    have "expr_infix n be q k s2 = Inr s2" if "infix_round n be s = Inr s2" for s2
    proof (rule infix_below)
      have post: "precedence (tok_of y) < q + 1" if "operand_at n be (q + 1) x = Inr y" for x y
        using that infix_post by (fastforce simp: operand_at_def bindR_Inr_iff)
      have "tok_of s2 \<noteq> op" "precedence (tok_of s2) < q + 1"
        using landor_loop_result [OF that [unfolded r expr_landor_def] cons, of "\<lambda>t. precedence t < q + 1"]
          post \<open>tok_of s = op\<close> q by auto
      then show "precedence (tok_of s2) < q" using op [of "tok_of s2"] by linarith
    qed
    then have "bindR (infix_round n be s) (expr_infix n be q k) = bindR (infix_round n be s) Inr"
      by (rule bindR_cong_ok)
    then show ?thesis using 2 \<open>tok_of s = op\<close> r by (simp add: infix_Suc infix_below)
  next
    case 3
    have "expr_infix n be q k s1 = bindR (expr_infix n be (q + 1) k s1) ?last" if "infix_round n be s = Inr s1" for s1
    proof (rule Suc.IH)
      have "left s1 < left s" using that assms(1) q 3 by (intro round_takes_token) auto
      then show "left s1 \<le> k" using Suc.prems by simp
    qed
    then show ?thesis using 3
      by (auto simp: infix_Suc bindR_assoc intro!: bindR_cong_ok)
  qed
qed

section \<open>The same parser\<close>

text \<open>Two parsers that agree on every input of at most m tokens.\<close>

definition agree :: "nat \<Rightarrow> ('g pstate \<Rightarrow> 'g pstate res) \<Rightarrow> ('g pstate \<Rightarrow> 'g pstate res) \<Rightarrow> bool" where
  "agree m f g \<longleftrightarrow> (\<forall>s. left s \<le> m \<longrightarrow> f s = g s)"

lemma left_loop_agree:
  assumes "agree m f g" and "shortens g" and "left s \<le> m"
  shows "left_loop k be test f s = left_loop k be test g s"
  using assms(3)
proof (induction k arbitrary: s)
  case 0
  show ?case by (cases "test (tok_of s)"; subst (1 2) left_loop.simps) simp_all
next
  case (Suc k)
  show ?case
  proof (cases "test (tok_of s)")
    case True
    have n: "left (next_token s) \<le> m" using Suc.prems by (simp add: next_token_def)
    then have "f (next_token s) = g (next_token s)" using assms(1) by (simp add: agree_def)
    moreover have "left_loop k be test f s2 = left_loop k be test g s2"
      if "g (next_token s) = Inr s1" "on_gen (be_gen_op be (tok_of s)) s1 = Inr s2" for s1 s2
      using consumesD [OF assms(2) that(1)] on_gen_toks [OF that(2)] n by (intro Suc.IH) simp
    ultimately show ?thesis unfolding left_loop_Suc [of test s k be f, OF True] left_loop_Suc [of test s k be g, OF True]
      by (simp only:) (intro bindR_cong_ok; blast)
  next
    case False
    then show ?thesis by (simp add: left_loop_stop)
  qed
qed

lemma landor_agree:
  assumes "agree m f g" and "shortens g" and "left s \<le> m"
  shows "landor_loop k be f op i t cc fl s = landor_loop k be g op i t cc fl s"
  using assms(3)
proof (induction k arbitrary: t cc fl s)
  case 0
  show ?case by (subst (1 2) landor_loop.simps) (simp cong: if_cong prod.case_cong)
next
  case (Suc k)
  have "(if tok_of s1 \<noteq> op then landor_value be i t cc1 f1 s1
      else bindR (landor_jump be i t c s1) (\<lambda>(t1, s2). bindR (f (next_token s2)) (landor_loop k be f op i t1 cc1 f1))) =
    (if tok_of s1 \<noteq> op then landor_value be i t cc1 f1 s1
      else bindR (landor_jump be i t c s1) (\<lambda>(t1, s2). bindR (g (next_token s2)) (landor_loop k be g op i t1 cc1 f1)))"
    if c: "landor_cond be i cc fl s = Inr (c, cc1, f1, s1)" for c cc1 f1 s1
  proof -
    have "bindR (f (next_token s2)) (landor_loop k be f op i t1 cc1 f1) = bindR (g (next_token s2)) (landor_loop k be g op i t1 cc1 f1)"
      if "landor_jump be i t c s1 = Inr (t1, s2)" for t1 s2
    proof -
      have n: "left (next_token s2) \<le> m"
        using Suc.prems landor_toks(1) [OF c] landor_toks(2) [OF that] by (simp add: next_token_def)
      then have "f (next_token s2) = g (next_token s2)" using assms(1) by (simp add: agree_def)
      moreover have "landor_loop k be f op i t1 cc1 f1 s3 = landor_loop k be g op i t1 cc1 f1 s3"
        if "g (next_token s2) = Inr s3" for s3
        using consumesD [OF assms(2) that] n by (intro Suc.IH) simp
      ultimately show ?thesis by (simp only:) (intro bindR_cong_ok; blast)
    qed
    then have "bindR (landor_jump be i t c s1) (\<lambda>(t1, s2). bindR (f (next_token s2)) (landor_loop k be f op i t1 cc1 f1)) =
        bindR (landor_jump be i t c s1) (\<lambda>(t1, s2). bindR (g (next_token s2)) (landor_loop k be g op i t1 cc1 f1))"
      by (intro bindR_cong_ok) auto
    then show ?thesis by simp
  qed
  then show ?case by (subst (1 2) landor_loop.simps) (auto intro!: bindR_cong_ok)
qed

lemma level_agrees:
  assumes "shortens (be_unary be)" and "3 \<le> p" and "agree k f (operand_at k be (p + 1))"
    and "test = (\<lambda>t. precedence t = p)"
  shows "agree k (expr_level k be test f) (operand_at k be p)"
  unfolding agree_def
proof (intro allI impI)
  fix s :: "'a pstate"
  assume s: "left s \<le> k"
  have cons: "shortens (operand_at k be (p + 1))" using assms(1,2) by (simp add: operand_consumes)
  have "expr_level k be test f s = bindR (operand_at k be (p + 1) s) (left_loop k be test (operand_at k be (p + 1)))"
    using assms(3) s consumesD [OF cons] left_loop_agree [OF assms(3) cons]
    by (auto simp: expr_level_def agree_def intro!: bindR_cong_ok) fastforce
  also have "\<dots> = operand_at k be p s"
    unfolding operand_at_def [of k be "p + 1" s] operand_at_def [of k be p s] bindR_assoc
  proof (rule bindR_cong_ok)
    fix s1 assume "be_unary be s = Inr s1"
    then have "left s1 \<le> k" using consumesD [OF assms(1)] s by fastforce
    then show "bindR (expr_infix k be (p + 1) k s1) (left_loop k be test (operand_at k be (p + 1))) = expr_infix k be p k s1"
      using infix_level [OF assms(1,2)] assms(4) by simp
  qed
  finally show "expr_level k be test f s = operand_at k be p s" .
qed

lemma unary_agrees: "agree k (be_unary be) (operand_at k be 11)"
proof -
  have "expr_infix k be 11 k s = Inr s" for s using precedence_le [of "tok_of s"] by (intro infix_below) simp
  then have "expr_infix k be 11 k = Inr" by (rule ext)
  then show ?thesis by (simp add: agree_def operand_at_def)
qed

lemma landor_level_agrees:
  assumes "shortens (be_unary be)" and "agree k f (operand_at k be (q + 1))" and "q = 1 \<and> op = T_LOR \<or> q = 2 \<and> op = T_LAND"
  shows "agree k (\<lambda>s. bindR (f s) (\<lambda>s1. if tok_of s1 = op then expr_landor k be f (tok_of s1) s1 else Inr s1)) (operand_at k be q)"
  unfolding agree_def
proof (intro allI impI)
  fix s :: "'a pstate"
  assume s: "left s \<le> k"
  have cons: "shortens (operand_at k be (q + 1))" using assms(1,3) by (auto simp: operand_consumes)
  let ?last = "\<lambda>f s1. if tok_of s1 = op then expr_landor k be f (tok_of s1) s1 else Inr s1"
  have "bindR (f s) (?last f) = bindR (operand_at k be (q + 1) s) (?last f)"
    using assms(2) s by (simp add: agree_def)
  also have "\<dots> = bindR (operand_at k be (q + 1) s) (?last (operand_at k be (q + 1)))"
  proof (rule bindR_cong_ok)
    fix s1 assume "operand_at k be (q + 1) s = Inr s1"
    then have "left s1 \<le> k" using consumesD [OF cons] s by fastforce
    then show "?last f s1 = ?last (operand_at k be (q + 1)) s1"
      using landor_agree [OF assms(2) cons] by (simp add: expr_landor_def)
  qed
  also have "\<dots> = operand_at k be q s"
    unfolding operand_at_def [of k be "q + 1" s] operand_at_def [of k be q s] bindR_assoc
  proof (rule bindR_cong_ok)
    fix s1 assume "be_unary be s = Inr s1"
    then have "left s1 \<le> k" using consumesD [OF assms(1)] s by fastforce
    then show "bindR (expr_infix k be (q + 1) k s1) (?last (operand_at k be (q + 1))) = expr_infix k be q k s1"
      using infix_landor [OF assms(1) _ assms(3)] by simp
  qed
  finally show "bindR (f s) (?last f) = operand_at k be q s" .
qed

lemma expr_or_agrees:
  assumes "shortens (be_unary be)"
  shows "agree k (expr_or k be) (operand_at k be 3)"
proof -
  note d = precedence_eq precedence_switch_def
  have 10: "agree k (expr_prod k be) (operand_at k be 10)" unfolding expr_prod_def
    by (rule level_agrees [OF assms]) (use unary_agrees [of k be] in \<open>auto simp: d\<close>)
  have 9: "agree k (expr_sum k be) (operand_at k be 9)" unfolding expr_sum_def
    by (rule level_agrees [OF assms]) (use 10 in \<open>auto simp: d\<close>)
  have 8: "agree k (expr_shift k be) (operand_at k be 8)" unfolding expr_shift_def
    by (rule level_agrees [OF assms]) (use 9 in \<open>auto simp: d\<close>)
  have 7: "agree k (expr_cmp k be) (operand_at k be 7)" unfolding expr_cmp_def
    by (rule level_agrees [OF assms]) (use 8 in \<open>auto simp: d\<close>)
  have 6: "agree k (expr_cmpeq k be) (operand_at k be 6)" unfolding expr_cmpeq_def
    by (rule level_agrees [OF assms]) (use 7 in \<open>auto simp: d\<close>)
  have 5: "agree k (expr_and k be) (operand_at k be 5)" unfolding expr_and_def
    by (rule level_agrees [OF assms]) (use 6 in \<open>auto simp: d\<close>)
  have 4: "agree k (expr_xor k be) (operand_at k be 4)" unfolding expr_xor_def
    by (rule level_agrees [OF assms]) (use 5 in \<open>auto simp: d\<close>)
  show ?thesis unfolding expr_or_def
    by (rule level_agrees [OF assms]) (use 4 in \<open>auto simp: d\<close>)
qed

lemma expr_lor_agrees:
  assumes "shortens (be_unary be)"
  shows "agree k (expr_lor k be) (operand_at k be 1)"
proof -
  have "agree k (expr_land k be) (operand_at k be 2)"
    using landor_level_agrees [OF assms, of k "expr_or k be" 2 T_LAND] expr_or_agrees [OF assms, of k]
    by (simp add: expr_land_def [abs_def])
  then show ?thesis
    using landor_level_agrees [OF assms, of k "expr_land k be" 1 T_LOR] by (simp add: expr_lor_def [abs_def])
qed

text \<open>
  C11: The precedence parser and the recursive descent are the same parser. Whatever unary, gen_op
  and the operations of && and || do, as long as unary never adds tokens, both give the same result
  on every input: the same tokens are left, the code generator has got the same operations in the
  same order, and errors are the same. The bound on the rounds is the number of tokens.
\<close>

theorem expr_infix_same:
  assumes "\<And>x y. be_unary be x = Inr y \<Longrightarrow> length (ps_toks y) \<le> length (ps_toks x)"
    and "length (ps_toks s) \<le> k"
  shows "expr_lor_infix k be s = expr_lor k be s"
proof -
  have "shortens (be_unary be)" using assms(1) by (simp add: shortens_def)
  from expr_lor_agrees [OF this, of k] assms(2) have "expr_lor k be s = operand_at k be 1 s"
    by (simp add: agree_def)
  then show ?thesis by (simp add: expr_lor_infix_def operand_at_def)
qed

text \<open>
  A small code generator: unary takes one token and puts it on a stack of expressions, gen_op joins
  the two topmost ones, no value is a constant.
\<close>

datatype tree = Leaf int | Node int tree tree

definition tree_unary :: "tree list pstate \<Rightarrow> tree list pstate res" where
  "tree_unary s = (if ps_toks s = [] then Inl (Expected ''expression'')
     else Inr \<lparr>ps_toks = tl (ps_toks s), ps_gen = Leaf (tok_of s) # ps_gen s\<rparr>)"

fun tree_op :: "int \<Rightarrow> tree list \<Rightarrow> tree list res" where
  "tree_op op (b # a # st) = Inr (Node op a b # st)"
| "tree_op op st = Inl MemFault"

definition tree_backend :: "tree list backend" where
  "tree_backend = \<lparr>be_unary = tree_unary, be_gen_op = tree_op, be_condition_3way = (\<lambda>g. Inr (- 1, g)),
     be_save_regs = (\<lambda>n. Inr), be_gvtst = (\<lambda>i t g. Inr (t, g)), be_gvtst_set = (\<lambda>i t. Inr),
     be_vpop = (\<lambda>g. Inr (tl g)), be_vpushi = (\<lambda>n g. Inr (Leaf n # g)), be_gsym = (\<lambda>t. Inr), be_nocode = (\<lambda>n g. g)\<rparr>"

lemma tree_unary_consumes:
  "be_unary tree_backend x = Inr y \<Longrightarrow> length (ps_toks y) \<le> length (ps_toks x)"
  by (auto simp: tree_backend_def tree_unary_def split: if_splits)

text \<open>1 + 2 * 3 - 4, where the numbers are their own tokens.\<close>

theorem expr_infix_same_witness:
  "expr_lor_infix 7 tree_backend \<lparr>ps_toks = [1, T_ADD, 2, T_MUL, 3, T_SUB, 4], ps_gen = []\<rparr> =
   expr_lor 7 tree_backend \<lparr>ps_toks = [1, T_ADD, 2, T_MUL, 3, T_SUB, 4], ps_gen = []\<rparr>"
  by (rule expr_infix_same [OF tree_unary_consumes]) simp_all

section \<open>An end\<close>

definition returns :: "'a res \<Rightarrow> bool" where
  "returns m \<longleftrightarrow> m \<noteq> Inl NoReturn"

lemma returns_Inr [simp]: "returns (Inr x)"
  by (simp add: returns_def)

lemma returns_bindR: "returns m \<Longrightarrow> (\<And>x. m = Inr x \<Longrightarrow> returns (f x)) \<Longrightarrow> returns (bindR m f)"
  by (cases m) (auto simp: returns_def)

lemma returns_on_gen: "returns (f (ps_gen s)) \<Longrightarrow> returns (on_gen f s)"
  by (auto simp: on_gen_def intro: returns_bindR)

text \<open>Operations that come to an end themselves.\<close>

definition ends :: "'g backend \<Rightarrow> bool" where
  "ends be \<longleftrightarrow> (\<forall>s. returns (be_unary be s)) \<and> (\<forall>op g. returns (be_gen_op be op g)) \<and>
     (\<forall>g. returns (be_condition_3way be g)) \<and> (\<forall>n g. returns (be_save_regs be n g)) \<and>
     (\<forall>i t g. returns (be_gvtst be i t g)) \<and> (\<forall>i t g. returns (be_gvtst_set be i t g)) \<and>
     (\<forall>g. returns (be_vpop be g)) \<and> (\<forall>n g. returns (be_vpushi be n g)) \<and> (\<forall>t g. returns (be_gsym be t g))"

lemma endsD:
  assumes "ends be"
  shows "returns (be_unary be s)" "returns (be_gen_op be op g)" "returns (be_condition_3way be g)"
    "returns (be_save_regs be n g)" "returns (be_gvtst be i t g)" "returns (be_gvtst_set be i t g)"
    "returns (be_vpop be g)" "returns (be_vpushi be n g)" "returns (be_gsym be t g)"
  using assms by (simp_all add: ends_def)

lemma landor_parts_end:
  assumes "ends be"
  shows "returns (landor_cond be i cc f s)" and "returns (landor_jump be i t c s)"
    and "returns (landor_value be i t cc f s)"
  unfolding landor_cond_def landor_jump_def landor_value_def
  by (auto simp: endsD [OF assms] intro!: returns_bindR returns_on_gen)

lemma landor_ends:
  assumes "ends be" and "shortens operand" and "\<And>x. left x \<le> m \<Longrightarrow> returns (operand x)"
    and "op \<noteq> - 1" and "left s \<le> m" and "left s \<le> k"
  shows "returns (landor_loop k be operand op i t cc f s)"
  using assms(5,6)
proof (induction k arbitrary: t cc f s)
  case 0
  then have "tok_of s = - 1" by (simp add: tok_of_def)
  then have "tok_of s1 \<noteq> op" if "landor_cond be i cc f s = Inr (c, cc1, f1, s1)" for c cc1 f1 s1
    using landor_toks(1) [OF that] assms(4) by (simp add: tok_of_def)
  then show ?case
    by (subst landor_loop.simps) (auto simp: landor_parts_end [OF assms(1)] intro!: returns_bindR)
next
  case (Suc k)
  have rest: "returns (landor_loop k be operand op i t1 cc1 f1 s3)"
    if "landor_cond be i cc f s = Inr (c, cc1, f1, s1)" "tok_of s1 = op" "landor_jump be i t c s1 = Inr (t1, s2)"
      "operand (next_token s2) = Inr s3" for c cc1 f1 s1 t1 s2 s3
  proof -
    have "ps_toks s2 = ps_toks s" "ps_toks s1 = ps_toks s" using landor_toks(1) [OF that(1)] landor_toks(2) [OF that(3)] by simp_all
    then have "left (next_token s2) < left s" using next_token_left [of s2] that(2) assms(4) by (simp add: tok_of_def)
    then show ?thesis using consumesD [OF assms(2) that(4)] Suc.prems by (intro Suc.IH) simp_all
  qed
  have opnd: "returns (operand (next_token s2))"
    if "landor_cond be i cc f s = Inr (c, cc1, f1, s1)" "landor_jump be i t c s1 = Inr (t1, s2)" for c cc1 f1 s1 t1 s2
    using landor_toks(1) [OF that(1)] landor_toks(2) [OF that(2)] Suc.prems by (intro assms(3)) (simp add: next_token_def)
  show ?case
    by (subst landor_loop.simps)
      (auto simp: landor_parts_end [OF assms(1)] intro!: returns_bindR; use opnd rest in blast)
qed

lemma operand_ends:
  assumes "shortens (be_unary be)" and "ends be" and "1 \<le> q" and "left s \<le> n"
    and "\<And>x. left x \<le> n \<Longrightarrow> returns (expr_infix n be q n x)"
  shows "returns (operand_at n be q s)"
  unfolding operand_at_def
proof (rule returns_bindR)
  fix x assume "be_unary be s = Inr x"
  then have "left x \<le> n" using consumesD [OF assms(1)] assms(4) by fastforce
  then show "returns (expr_infix n be q n x)" by (rule assms(5))
qed (rule endsD [OF assms(2)])

lemma round_ends:
  assumes "shortens (be_unary be)" and "ends be" and "0 < precedence (tok_of s)" and "left s \<le> n"
    and "\<And>x. left x \<le> n \<Longrightarrow> returns (expr_infix n be (precedence (tok_of s) + 1) n x)"
  shows "returns (infix_round n be s)"
proof -
  let ?q = "precedence (tok_of s) + 1"
  have o: "returns (operand_at n be ?q x)" if "left x \<le> n" for x
    using assms(3) by (intro operand_ends assms that) simp
  have "tok_of s \<noteq> - 1" using assms(3) by auto
  moreover have "shortens (operand_at n be ?q)" using assms(1,3) by (simp add: operand_consumes)
  ultimately have "returns (expr_landor n be (operand_at n be ?q) (tok_of s) s)"
    unfolding expr_landor_def using o assms(4) by (intro landor_ends [OF assms(2), where m = n])
  moreover have "left (next_token s) \<le> n" using assms(4) by (simp add: next_token_def)
  ultimately show ?thesis
    by (auto simp: infix_round_def Let_def endsD [OF assms(2)] o intro!: returns_bindR returns_on_gen)
qed

lemma infix_ends:
  assumes "shortens (be_unary be)" and "ends be" and "1 \<le> p" and "left s \<le> k" and "k \<le> n"
  shows "returns (expr_infix n be p k s)"
  using assms(3-)
proof (induction "nat (11 - p)" arbitrary: p k s rule: less_induct)
  case less
  from less.prems(2,3) show ?case
  proof (induction k arbitrary: s)
    case 0
    then have "tok_of s = - 1" by (simp add: tok_of_def)
    then show ?case using less.prems(1) by (simp add: infix_below)
  next
    case (Suc k)
    show ?case
    proof (cases "precedence (tok_of s) < p")
      case False
      have inner: "returns (expr_infix n be (precedence (tok_of s) + 1) n x)" if "left x \<le> n" for x
        using False less.prems(1) precedence_le [of "tok_of s"] that by (intro less.hyps) auto
      have "returns (expr_infix n be p k s1)" if "infix_round n be s = Inr s1" for s1
      proof (rule Suc.IH)
        have "left s1 < left s" using that assms(1) less.prems(1) False by (intro round_takes_token) auto
        then show "left s1 \<le> k" using Suc.prems by simp
      qed (use Suc.prems in simp)
      moreover have "returns (infix_round n be s)"
        using False less.prems(1) Suc.prems inner by (intro round_ends [OF assms(1,2)]) auto
      ultimately show ?thesis using False by (auto simp: infix_Suc intro!: returns_bindR)
    qed (simp add: infix_below)
  qed
qed

text \<open>
  C27: The precedence parser comes to an end: when unary and the code generator do and unary never
  adds tokens, parsing an expression does not run out of rounds, one for every token left.
\<close>

theorem expr_infix_ends:
  assumes "\<And>x y. be_unary be x = Inr y \<Longrightarrow> length (ps_toks y) \<le> length (ps_toks x)"
    and "ends be" and "length (ps_toks s) \<le> k"
  shows "expr_lor_infix k be s \<noteq> Inl NoReturn"
proof -
  have c: "shortens (be_unary be)" using assms(1) by (simp add: shortens_def)
  have "returns (expr_lor_infix k be s)" unfolding expr_lor_infix_def
    using consumesD [OF c, of s] assms(3) by (auto intro!: returns_bindR infix_ends [OF c assms(2)] simp: endsD [OF assms(2)])
  then show ?thesis by (simp add: returns_def)
qed

lemma tree_op_ends: "returns (tree_op op st)"
  by (induction op st rule: tree_op.induct) (simp_all add: returns_def)

theorem expr_infix_ends_witness:
  "expr_lor_infix 5 tree_backend \<lparr>ps_toks = [1, T_LAND, 2, T_ADD, 3], ps_gen = []\<rparr> \<noteq> Inl NoReturn"
  by (rule expr_infix_ends [OF tree_unary_consumes])
    (simp_all add: ends_def tree_backend_def tree_unary_def tree_op_ends returns_def [of "Inl _"] split: if_split)

end
