(* ===== verification/Sym_Scopes.thy ===== *)
theory Sym_Scopes
  imports Value_Stack
begin

text \<open>
  The symbols of the compiler (sym_malloc to sym_pop of tccgen.c): their memory, handed out from
  pools and taken back through a free list; the stacks of local and global symbols; and the chain of
  every token from its newest symbol to the older ones it hides.

  A Sym is a cell of the heap \<open>sy_mem\<close>, a pointer a number or None.
\<close>

section \<open>Data\<close>

abbreviation (input) SYM_STRUCT :: u32 where "SYM_STRUCT \<equiv> 0x40000000"
abbreviation (input) SYM_FIELD :: u32 where "SYM_FIELD \<equiv> 0x20000000"
abbreviation (input) SYM_FIRST_ANOM :: u32 where "SYM_FIRST_ANOM \<equiv> 0x10000000"
abbreviation (input) TOK_IDENT :: u32 where "TOK_IDENT \<equiv> 256"

text \<open>
  \<open>sc_cell\<close> is the union of c and sym_scope (the lower and the upper half) with enum_val; \<open>sc_t\<close> and
  \<open>sc_ref\<close> are the type.
\<close>

record scell =
  sc_v :: u32
  sc_r :: u16
  sc_cell :: u64
  sc_t :: u32
  sc_ref :: "nat option"
  sc_next :: "nat option"
  sc_prev :: "nat option"
  sc_prev_tok :: "nat option"

definition sc_c :: "scell \<Rightarrow> u32" where "sc_c s = ucast (sc_cell s)"
definition sc_scope :: "scell \<Rightarrow> u32" where "sc_scope s = ucast (drop_bit 32 (sc_cell s))"
definition sc_enum_val :: "scell \<Rightarrow> u64" where "sc_enum_val s = sc_cell s"

definition set_c :: "u32 \<Rightarrow> scell \<Rightarrow> scell" where
  "set_c c s = s\<lparr>sc_cell := (sc_cell s AND NOT (mask 32)) OR ucast c\<rparr>"

definition set_scope :: "u32 \<Rightarrow> scell \<Rightarrow> scell" where
  "set_scope n s = s\<lparr>sc_cell := (sc_cell s AND mask 32) OR push_bit 32 (ucast n)\<rparr>"

definition zero_sym :: scell where
  "zero_sym = \<lparr>sc_v = 0, sc_r = 0, sc_cell = 0, sc_t = 0, sc_ref = None, sc_next = None, sc_prev = None, sc_prev_tok = None\<rparr>"

text \<open>The entry of a token: the newest struct, union or enum tag, and the newest identifier.\<close>

record tokensym =
  ts_struct :: "nat option"
  ts_identifier :: "nat option"

record syms_state =
  sy_mem :: "nat \<Rightarrow> scell"
  sy_free_first :: "nat option"
  sy_pools :: nat
  sy_pool_nb :: nat
  sy_local_stack :: "nat option"
  sy_global_stack :: "nat option"
  sy_local_scope :: u32
  sy_table_ident :: "tokensym list"

definition upd_sym :: "nat \<Rightarrow> (scell \<Rightarrow> scell) \<Rightarrow> syms_state \<Rightarrow> syms_state" where
  "upd_sym a f st = st\<lparr>sy_mem := (sy_mem st)(a := f (sy_mem st a))\<rparr>"

section \<open>Memory\<close>

text \<open>The loop that links the symbols of a new pool, from the first to the last.\<close>

fun link_pool :: "nat \<Rightarrow> nat \<Rightarrow> nat option \<Rightarrow> (nat \<Rightarrow> scell) \<Rightarrow> nat option \<times> (nat \<Rightarrow> scell)" where
  "link_pool 0 a last_sym m = (last_sym, m)"
| "link_pool (Suc n) a last_sym m = link_pool n (a + 1) (Some a) (m(a := (m a)\<lparr>sc_next := last_sym\<rparr>))"

definition new_pool :: "syms_state \<Rightarrow> syms_state" where
  "new_pool st =
     (let (last_sym, m) = link_pool (sy_pool_nb st) (sy_pools st * sy_pool_nb st) (sy_free_first st) (sy_mem st)
      in st\<lparr>sy_mem := m, sy_pools := sy_pools st + 1, sy_free_first := last_sym\<rparr>)"

definition sym_malloc :: "syms_state \<Rightarrow> (nat \<times> syms_state) res" where
  "sym_malloc st =
     (let st1 = (if sy_free_first st = None then new_pool st else st)
      in case sy_free_first st1 of None \<Rightarrow> Inl MemFault
         | Some a \<Rightarrow> Inr (a, st1\<lparr>sy_free_first := sc_next (sy_mem st1 a)\<rparr>))"

definition sym_free :: "nat \<Rightarrow> syms_state \<Rightarrow> syms_state" where
  "sym_free a st = (upd_sym a (\<lambda>s. s\<lparr>sc_next := sy_free_first st\<rparr>) st)\<lparr>sy_free_first := Some a\<rparr>"

section \<open>Tokens\<close>

text \<open>Fields and anonymous symbols are not recorded in the token table.\<close>

definition recorded :: "u32 \<Rightarrow> bool" where
  "recorded v \<longleftrightarrow> v AND SYM_FIELD = 0 \<and> sint (v AND NOT SYM_STRUCT) < sint SYM_FIRST_ANOM"

definition tok_index :: "u32 \<Rightarrow> int" where
  "tok_index v = sint (v AND NOT SYM_STRUCT) - 256"

definition get_slot :: "u32 \<Rightarrow> syms_state \<Rightarrow> nat option res" where
  "get_slot v st =
     (let i = tok_index v in
      if 0 \<le> i \<and> i < int (length (sy_table_ident st))
      then Inr (if v AND SYM_STRUCT \<noteq> 0 then ts_struct (sy_table_ident st ! nat i)
                else ts_identifier (sy_table_ident st ! nat i))
      else Inl MemFault)"

definition put_slot :: "u32 \<Rightarrow> nat option \<Rightarrow> syms_state \<Rightarrow> syms_state res" where
  "put_slot v p st =
     (let i = tok_index v; ts = sy_table_ident st ! nat i in
      if 0 \<le> i \<and> i < int (length (sy_table_ident st))
      then Inr (st\<lparr>sy_table_ident := (sy_table_ident st)[nat i :=
        (if v AND SYM_STRUCT \<noteq> 0 then ts\<lparr>ts_struct := p\<rparr> else ts\<lparr>ts_identifier := p\<rparr>)]\<rparr>)
      else Inl MemFault)"

definition struct_find :: "u32 \<Rightarrow> syms_state \<Rightarrow> nat option" where
  "struct_find v st =
     (let i = unat (v - TOK_IDENT) in
      if i \<ge> length (sy_table_ident st) then None else ts_struct (sy_table_ident st ! i))"

definition sym_find_tok :: "u32 \<Rightarrow> syms_state \<Rightarrow> nat option" where
  "sym_find_tok v st =
     (let i = unat (v - TOK_IDENT) in
      if i \<ge> length (sy_table_ident st) then None else ts_identifier (sy_table_ident st ! i))"

text \<open>The search along a stack; a symbol with token -1 ends it.\<close>

fun sym_find2 :: "nat \<Rightarrow> (nat \<Rightarrow> scell) \<Rightarrow> nat option \<Rightarrow> u32 \<Rightarrow> nat option res" where
  "sym_find2 k m None v = Inr None"
| "sym_find2 0 m (Some a) v = Inl NoReturn"
| "sym_find2 (Suc k) m (Some a) v =
     (if sc_v (m a) = v then Inr (Some a) else if sc_v (m a) = - 1 then Inr None
      else sym_find2 k m (sc_prev (m a)) v)"

section \<open>Push\<close>

text \<open>A new symbol on top of the stack \<open>head\<close>.\<close>

definition sym_push2 :: "nat option \<Rightarrow> u32 \<Rightarrow> u32 \<Rightarrow> u32 \<Rightarrow> syms_state \<Rightarrow> (nat \<times> syms_state) res" where
  "sym_push2 head v t c st =
     bindR (sym_malloc st) (\<lambda>(a, st1).
     Inr (a, upd_sym a (\<lambda>_. set_c c (zero_sym\<lparr>sc_v := v, sc_t := t, sc_prev := head\<rparr>)) st1))"

definition IS_ENUM_VAL :: "u32 \<Rightarrow> bool" where
  "IS_ENUM_VAL t \<longleftrightarrow> t AND VT_STRUCT_MASK = 0x300000"

definition sym_scope :: "(nat \<Rightarrow> scell) \<Rightarrow> nat \<Rightarrow> u32 res" where
  "sym_scope m a =
     (if IS_ENUM_VAL (sc_t (m a))
      then (case sc_ref (m a) of None \<Rightarrow> Inl MemFault | Some e \<Rightarrow> Inr (sc_scope (m e)))
      else Inr (sc_scope (m a)))"

text \<open>The new symbol into the token table, in front of the older ones of its token.\<close>

definition record_sym :: "u32 \<Rightarrow> nat \<Rightarrow> syms_state \<Rightarrow> (nat \<times> syms_state) res" where
  "record_sym v a st =
     (if \<not> recorded v then Inr (a, st)
      else
        bindR (get_slot v st) (\<lambda>p.
        bindR (put_slot v (Some a) st) (\<lambda>st1.
        let st2 = upd_sym a (\<lambda>s. set_scope (sy_local_scope st) (s\<lparr>sc_prev_tok := p\<rparr>)) st1 in
        (case p of None \<Rightarrow> Inr (a, st2)
         | Some q \<Rightarrow>
             bindR (sym_scope (sy_mem st2) q) (\<lambda>n.
             if n = sc_scope (sy_mem st2 a) then Inl (TccError ''redeclaration'') else Inr (a, st2))))))"

definition sym_push :: "u32 \<Rightarrow> u32 \<Rightarrow> nat option \<Rightarrow> u16 \<Rightarrow> u32 \<Rightarrow> syms_state \<Rightarrow> (nat \<times> syms_state) res" where
  "sym_push v t ref r c st =
     bindR (if sy_local_stack st \<noteq> None
            then bindR (sym_push2 (sy_local_stack st) v t c st) (\<lambda>(a, st1). Inr (a, st1\<lparr>sy_local_stack := Some a\<rparr>))
            else bindR (sym_push2 (sy_global_stack st) v t c st) (\<lambda>(a, st1). Inr (a, st1\<lparr>sy_global_stack := Some a\<rparr>)))
       (\<lambda>(a, st1). record_sym v a (upd_sym a (\<lambda>s. s\<lparr>sc_ref := ref, sc_r := r\<rparr>) st1))"

text \<open>
  The walk of global_identifier_push down the chain of a token, past the symbols of inner scopes:
  the last one passed and the first one that is not.
\<close>

fun skip_locals :: "nat \<Rightarrow> (nat \<Rightarrow> scell) \<Rightarrow> nat option \<Rightarrow> nat option \<Rightarrow> (nat option \<times> nat option) res" where
  "skip_locals k m at None = Inr (at, None)"
| "skip_locals 0 m at (Some a) = Inl NoReturn"
| "skip_locals (Suc k) m at (Some a) =
     (if sc_scope (m a) \<noteq> 0 then skip_locals k m (Some a) (sc_prev_tok (m a)) else Inr (at, Some a))"

definition record_global :: "nat \<Rightarrow> u32 \<Rightarrow> nat \<Rightarrow> syms_state \<Rightarrow> (nat \<times> syms_state) res" where
  "record_global k v a st =
     bindR (get_slot (v AND NOT SYM_STRUCT) st) (\<lambda>p.
     bindR (skip_locals k (sy_mem st) None p) (\<lambda>(above, below).
     let st1 = upd_sym a (\<lambda>s. s\<lparr>sc_prev_tok := below\<rparr>) st in
     (case above of
        None \<Rightarrow> bindR (put_slot (v AND NOT SYM_STRUCT) (Some a) st1) (\<lambda>st2. Inr (a, st2))
      | Some q \<Rightarrow> Inr (a, upd_sym q (\<lambda>s. s\<lparr>sc_prev_tok := Some a\<rparr>) st1))))"

definition global_identifier_push_tok :: "nat \<Rightarrow> u32 \<Rightarrow> u32 \<Rightarrow> u32 \<Rightarrow> syms_state \<Rightarrow> (nat \<times> syms_state) res" where
  "global_identifier_push_tok k v t c st =
     bindR (sym_push2 (sy_global_stack st) v t c st) (\<lambda>(a, st0).
     let st1 = upd_sym a (\<lambda>s. s\<lparr>sc_r := VT_CONST OR VT_SYM\<rparr>) (st0\<lparr>sy_global_stack := Some a\<rparr>) in
     if sint v < sint SYM_FIRST_ANOM then record_global k v a st1 else Inr (a, st1))"

section \<open>Pop\<close>

fun pop_loop :: "nat \<Rightarrow> nat option \<Rightarrow> nat option \<Rightarrow> bool \<Rightarrow> syms_state \<Rightarrow> syms_state res" where
  "pop_loop k s b keep st =
     (if s = b then Inr st
      else case s of None \<Rightarrow> Inl MemFault
        | Some a \<Rightarrow>
            (case k of 0 \<Rightarrow> Inl NoReturn
             | Suc k1 \<Rightarrow>
                 let ss = sc_prev (sy_mem st a); v = sc_v (sy_mem st a) in
                 bindR (if recorded v then put_slot v (sc_prev_tok (sy_mem st a)) st else Inr st) (\<lambda>st1.
                 pop_loop k1 ss b keep (if \<not> keep then sym_free a st1 else st1))))"

declare pop_loop.simps [simp del]

text \<open>sym_pop for the two stacks; pop_local_syms is the first one.\<close>

definition sym_pop_local :: "nat \<Rightarrow> nat option \<Rightarrow> bool \<Rightarrow> syms_state \<Rightarrow> syms_state res" where
  "sym_pop_local k b keep st =
     bindR (pop_loop k (sy_local_stack st) b keep st) (\<lambda>st1.
     Inr (if \<not> keep then st1\<lparr>sy_local_stack := b\<rparr> else st1))"

definition sym_pop_global :: "nat \<Rightarrow> nat option \<Rightarrow> bool \<Rightarrow> syms_state \<Rightarrow> syms_state res" where
  "sym_pop_global k b keep st =
     bindR (pop_loop k (sy_global_stack st) b keep st) (\<lambda>st1.
     Inr (if \<not> keep then st1\<lparr>sy_global_stack := b\<rparr> else st1))"

end
