(* ===== verification/Sym_Scopes_Props.thy ===== *)
theory Sym_Scopes_Props
  imports Sym_Scopes
begin

text \<open>
  The token table always gives the newest symbol of a name among the symbols on the stacks; pushing
  a symbol hides the older ones of its name and nothing else, and leaving a scope brings every name
  back to what it was. No symbol in use is handed out again.
\<close>

section \<open>Linked lists\<close>

primrec chain :: "(nat \<Rightarrow> nat option) \<Rightarrow> nat option \<Rightarrow> nat list \<Rightarrow> bool" where
  "chain nx p [] = (p = None)"
| "chain nx p (a # as) = (p = Some a \<and> chain nx (nx a) as)"

lemma chain_cong:
  "(\<And>a. a \<in> set as \<Longrightarrow> nx a = ny a) \<Longrightarrow> chain nx p as = chain ny p as"
  by (induction as arbitrary: p) simp_all

lemma chain_fun_eq: "\<lbrakk>chain nx p as; chain nx p bs\<rbrakk> \<Longrightarrow> as = bs"
proof (induction as arbitrary: p bs)
  case Nil
  then show ?case by (cases bs) simp_all
next
  case (Cons a as)
  then show ?case by (cases bs) auto
qed

lemma chain_head: "chain nx p as \<Longrightarrow> p = (case as of [] \<Rightarrow> None | a # _ \<Rightarrow> Some a)"
  by (cases as) simp_all

section \<open>Tokens\<close>

definition valid :: "syms_state \<Rightarrow> u32 \<Rightarrow> bool" where
  "valid st v \<longleftrightarrow> recorded v \<and> 0 \<le> tok_index v \<and> tok_index v < int (length (sy_table_ident st))"

definition slot :: "syms_state \<Rightarrow> u32 \<Rightarrow> nat option" where
  "slot st v = (case get_slot v st of Inl e \<Rightarrow> None | Inr p \<Rightarrow> p)"

lemma get_slot_valid: "valid st v \<Longrightarrow> get_slot v st = Inr (slot st v)"
  by (simp add: valid_def slot_def get_slot_def Let_def)

lemma get_slot_ok: "recorded v \<Longrightarrow> get_slot v st = Inr p \<Longrightarrow> valid st v"
  by (auto simp: valid_def get_slot_def Let_def split: if_splits)

lemma table_cong:
  assumes "sy_table_ident st' = sy_table_ident st"
  shows "slot st' v = slot st v" and "valid st' v = valid st v"
  unfolding slot_def get_slot_def valid_def assms by (rule refl)+

lemma get_slot_cong: "sy_table_ident st' = sy_table_ident st \<Longrightarrow> get_slot v st' = get_slot v st"
  unfolding get_slot_def by (rule arg_cong2 [where f = "\<lambda>x y. Let x y"]) auto

lemma struct_bit: "v AND SYM_STRUCT = 0 \<or> v AND SYM_STRUCT = SYM_STRUCT" for v :: u32
proof -
  have e: "(0x40000000 :: u32) = 2 ^ 30" by simp
  have b: "bit (0x40000000 :: u32) n \<longleftrightarrow> n = 30" for n unfolding e by (auto simp only: bit_exp_iff) simp_all
  show ?thesis
  proof (cases "bit v 30")
    case True
    then have "v AND 0x40000000 = 0x40000000" by (intro bit_word_eqI) (simp only: bit_and_iff b bit_0_eq bot_apply; auto)
    then show ?thesis by simp
  next
    case False
    then have "v AND 0x40000000 = 0" by (intro bit_word_eqI) (simp only: bit_and_iff b bit_0_eq bot_apply; auto)
    then show ?thesis by simp
  qed
qed

lemma same_slot:
  assumes "tok_index v = tok_index w" and "v AND SYM_STRUCT \<noteq> 0 \<longleftrightarrow> w AND SYM_STRUCT \<noteq> 0"
  shows "v = w"
proof -
  have n: "v AND NOT SYM_STRUCT = w AND NOT SYM_STRUCT"
    using assms(1) unfolding tok_index_def by (intro signed_word_eqI) simp
  have s: "v AND SYM_STRUCT = w AND SYM_STRUCT"
    using assms(2) struct_bit [of v] struct_bit [of w] by auto
  have d: "x = (x AND SYM_STRUCT) OR (x AND NOT SYM_STRUCT)" for x :: u32
    by (simp only: bit.conj_disj_distrib [symmetric] bit.disj_cancel_right bit.conj_one_right)
  show ?thesis by (subst d [of v], subst d [of w]) (simp only: n s)
qed

text \<open>The effect of put_slot, where it has one.\<close>

lemma put_slot_ok:
  assumes "valid st v"
  obtains st' where "put_slot v p st = Inr st'" "st' = st\<lparr>sy_table_ident := sy_table_ident st'\<rparr>" "length (sy_table_ident st') = length (sy_table_ident st)"
    "\<And>w. valid st w \<Longrightarrow> slot st' w = (if w = v then p else slot st w)"
proof -
  define st' where "st' = st\<lparr>sy_table_ident := (sy_table_ident st)[nat (tok_index v) :=
        (if v AND SYM_STRUCT \<noteq> 0 then (sy_table_ident st ! nat (tok_index v))\<lparr>ts_struct := p\<rparr>
         else (sy_table_ident st ! nat (tok_index v))\<lparr>ts_identifier := p\<rparr>)]\<rparr>"
  have "slot st' w = (if w = v then p else slot st w)" if w: "valid st w" for w
  proof (cases "nat (tok_index w) = nat (tok_index v)")
    case True
    then have i: "tok_index w = tok_index v" using assms w unfolding valid_def by (intro iffD1 [OF eq_nat_nat_iff]) auto
    then have "w = v \<longleftrightarrow> (w AND SYM_STRUCT \<noteq> 0 \<longleftrightarrow> v AND SYM_STRUCT \<noteq> 0)" using same_slot by blast
    then show ?thesis using assms w i
      by (auto simp: st'_def slot_def get_slot_def Let_def valid_def)
  next
    case False
    then have "w \<noteq> v" by auto
    then show ?thesis using False w by (simp add: st'_def slot_def get_slot_def Let_def valid_def)
  qed
  moreover have "put_slot v p st = Inr st'"
    using assms by (simp add: put_slot_def st'_def Let_def valid_def)
  ultimately show thesis by (intro that [of st']) (simp_all add: st'_def)
qed

section \<open>The invariant\<close>

text \<open>
  \<open>lh\<close> and \<open>gh\<close> are the tops of the stacks, \<open>ls\<close>, \<open>gs\<close> and \<open>fs\<close> the symbols on them and on the free
  list, newest first.
\<close>

definition named :: "syms_state \<Rightarrow> u32 \<Rightarrow> nat list \<Rightarrow> nat list" where
  "named st v as = filter (\<lambda>a. sc_v (sy_mem st a) = v) as"

definition wired :: "syms_state \<Rightarrow> nat option \<Rightarrow> nat option \<Rightarrow> nat list \<Rightarrow> nat list \<Rightarrow> nat list \<Rightarrow> bool" where
  "wired st lh gh ls gs fs \<longleftrightarrow>
     chain (\<lambda>a. sc_prev (sy_mem st a)) lh ls \<and> chain (\<lambda>a. sc_prev (sy_mem st a)) gh gs \<and>
     chain (\<lambda>a. sc_next (sy_mem st a)) (sy_free_first st) fs \<and> distinct (ls @ gs @ fs) \<and>
     (\<forall>a\<in>set (ls @ gs @ fs). a < sy_pools st * sy_pool_nb st) \<and> 0 < sy_pool_nb st"

definition scoped_at :: "syms_state \<Rightarrow> nat option \<Rightarrow> nat option \<Rightarrow> nat list \<Rightarrow> nat list \<Rightarrow> nat list \<Rightarrow> bool" where
  "scoped_at st lh gh ls gs fs \<longleftrightarrow>
     wired st lh gh ls gs fs \<and> 256 + length (sy_table_ident st) \<le> 2 ^ 28 \<and>
     (\<forall>a\<in>set (ls @ gs). recorded (sc_v (sy_mem st a)) \<longrightarrow> valid st (sc_v (sy_mem st a))) \<and>
     (\<forall>v. valid st v \<longrightarrow> chain (\<lambda>a. sc_prev_tok (sy_mem st a)) (slot st v) (named st v (ls @ gs)))"

definition scoped :: "syms_state \<Rightarrow> nat list \<Rightarrow> nat list \<Rightarrow> nat list \<Rightarrow> bool" where
  "scoped st ls gs fs \<longleftrightarrow> scoped_at st (sy_local_stack st) (sy_global_stack st) ls gs fs"

section \<open>Memory\<close>

text \<open>Two memories that differ in the links of the free list only.\<close>

definition same_but_next :: "(nat \<Rightarrow> scell) \<Rightarrow> (nat \<Rightarrow> scell) \<Rightarrow> bool" where
  "same_but_next m m' \<longleftrightarrow> (\<forall>a. m' a = (m a)\<lparr>sc_next := sc_next (m' a)\<rparr>)"

lemma same_but_nextD:
  assumes "same_but_next m m'"
  shows "sc_v (m' a) = sc_v (m a)" "sc_prev (m' a) = sc_prev (m a)" "sc_prev_tok (m' a) = sc_prev_tok (m a)"
    "sc_cell (m' a) = sc_cell (m a)" "sc_t (m' a) = sc_t (m a)" "sc_ref (m' a) = sc_ref (m a)"
  using assms [unfolded same_but_next_def, rule_format, of a]
  by (metis scell.ext_inject scell.surjective scell.update_convs)+

lemma same_but_next_trans: "same_but_next m1 m2 \<Longrightarrow> same_but_next m2 m3 \<Longrightarrow> same_but_next m1 m3"
  unfolding same_but_next_def
proof
  fix a
  assume 1: "\<forall>a. m2 a = (m1 a)\<lparr>sc_next := sc_next (m2 a)\<rparr>" and 2: "\<forall>a. m3 a = (m2 a)\<lparr>sc_next := sc_next (m3 a)\<rparr>"
  obtain x where "m2 a = (m1 a)\<lparr>sc_next := x\<rparr>" using 1 by blast
  moreover obtain y where "m3 a = (m2 a)\<lparr>sc_next := y\<rparr>" using 2 by blast
  ultimately show "m3 a = (m1 a)\<lparr>sc_next := sc_next (m3 a)\<rparr>" by simp
qed

lemma link_pool_chain:
  assumes "chain (\<lambda>a. sc_next (m a)) last_sym fs" and "set fs \<inter> {a..<a + n} = {}"
    and "link_pool n a last_sym m = (p, m')"
  shows "chain (\<lambda>a. sc_next (m' a)) p (rev [a..<a + n] @ fs) \<and> same_but_next m m'"
  using assms
proof (induction n arbitrary: a last_sym m fs)
  case 0
  then show ?case by (simp add: same_but_next_def)
next
  case (Suc n)
  let ?m = "m(a := (m a)\<lparr>sc_next := last_sym\<rparr>)"
  have "chain (\<lambda>b. sc_next (?m b)) (Some a) (a # fs)"
  proof -
    have "chain (\<lambda>b. sc_next (?m b)) last_sym fs"
      by (rule chain_cong [THEN iffD2, OF _ Suc.prems(1)]) (use Suc.prems(2) in auto)
    then show ?thesis by simp
  qed
  moreover have "set (a # fs) \<inter> {a + 1..<a + 1 + n} = {}" using Suc.prems(2) by auto
  moreover have "link_pool n (a + 1) (Some a) ?m = (p, m')" using Suc.prems(3) by simp
  ultimately have "chain (\<lambda>b. sc_next (m' b)) p (rev [a + 1..<a + 1 + n] @ a # fs) \<and> same_but_next ?m m'"
    by (rule Suc.IH)
  moreover have "[a..<a + Suc n] = a # [a + 1..<a + 1 + n]" by (simp add: upt_rec)
  ultimately show ?case by (auto simp: same_but_next_def split: if_splits)
qed

text \<open>A new symbol: a cell that is on no list.\<close>

lemma scoped_at_next:
  assumes "scoped_at st lh gh ls gs fs" and "same_but_next (sy_mem st) m"
    and "chain (\<lambda>a. sc_next (m a)) p fs'" and "distinct (ls @ gs @ fs')" and "sy_pools st \<le> n"
    and "\<forall>a\<in>set fs'. a < n * sy_pool_nb st"
  shows "scoped_at (st\<lparr>sy_mem := m, sy_free_first := p, sy_pools := n\<rparr>) lh gh ls gs fs'"
proof -
  have "a < n * sy_pool_nb st" if "a < sy_pools st * sy_pool_nb st" for a
    by (rule less_le_trans [OF that mult_le_mono1 [OF assms(5)]])
  then show ?thesis using assms(1,3,4,6)
    by (auto simp: scoped_at_def wired_def named_def same_but_nextD [OF assms(2)]
        table_cong [of "st\<lparr>sy_mem := m, sy_free_first := p, sy_pools := n\<rparr>" st])
qed

lemma sym_malloc_fresh:
  assumes "scoped_at st lh gh ls gs fs"
  obtains a st' fs' where "sym_malloc st = Inr (a, st')" "scoped_at st' lh gh ls gs fs'"
    "a \<notin> set (ls @ gs @ fs')" "a < sy_pools st' * sy_pool_nb st'" "same_but_next (sy_mem st) (sy_mem st')"
    "sy_local_stack st' = sy_local_stack st" "sy_global_stack st' = sy_global_stack st"
    "sy_local_scope st' = sy_local_scope st" "sy_table_ident st' = sy_table_ident st"
proof -
  have l: "wired st lh gh ls gs fs" using assms by (simp add: scoped_at_def)
  let ?b = "sy_pools st * sy_pool_nb st"
  obtain st1 fs1 where 1: "st1 = (if sy_free_first st = None then new_pool st else st)" "scoped_at st1 lh gh ls gs fs1"
    "same_but_next (sy_mem st) (sy_mem st1)" "fs1 \<noteq> []" "sy_local_stack st1 = sy_local_stack st"
    "sy_global_stack st1 = sy_global_stack st" "sy_local_scope st1 = sy_local_scope st" "sy_table_ident st1 = sy_table_ident st"
  proof (cases "sy_free_first st = None")
    case True
    then have fs: "fs = []" using l by (cases fs) (auto simp: wired_def)
    obtain p m where lp: "link_pool (sy_pool_nb st) ?b None (sy_mem st) = (p, m)" by fastforce
    have c: "chain (\<lambda>a. sc_next (m a)) p (rev [?b..<?b + sy_pool_nb st] @ []) \<and> same_but_next (sy_mem st) m"
      by (rule link_pool_chain [OF _ _ lp]) simp_all
    have lt: "x < ?b" if "x \<in> set ls \<union> set gs" for x using l that by (auto simp: wired_def)
    from c have "scoped_at (st\<lparr>sy_mem := m, sy_free_first := p, sy_pools := sy_pools st + 1\<rparr>) lh gh ls gs (rev [?b..<?b + sy_pool_nb st])"
    proof (intro scoped_at_next [OF assms])
      have "set ls \<inter> {?b..<?b + sy_pool_nb st} = {}" "set gs \<inter> {?b..<?b + sy_pool_nb st} = {}"
        using lt by force+
      then show "distinct (ls @ gs @ rev [?b..<?b + sy_pool_nb st])" using l by (simp add: wired_def Int_Un_distrib)
    qed simp_all
    moreover have "new_pool st = st\<lparr>sy_mem := m, sy_free_first := p, sy_pools := sy_pools st + 1\<rparr>"
      using lp True by (simp add: new_pool_def)
    moreover have "rev [?b..<?b + sy_pool_nb st] \<noteq> []" using l by (simp add: wired_def)
    ultimately show thesis using True c l by (intro that [of "new_pool st" "rev [?b..<?b + sy_pool_nb st]"]) (simp_all add: wired_def)
  next
    case False
    then have "fs \<noteq> []" using l by (auto simp: wired_def)
    then show thesis using False assms by (intro that [of st fs]) (auto simp: same_but_next_def)
  qed
  obtain a fs' where fs1: "fs1 = a # fs'" using 1(4) by (cases fs1) auto
  have l1: "wired st1 lh gh ls gs fs1" using 1(2) by (simp add: scoped_at_def)
  have "scoped_at (st1\<lparr>sy_mem := sy_mem st1, sy_free_first := sc_next (sy_mem st1 a), sy_pools := sy_pools st1\<rparr>) lh gh ls gs fs'"
    using l1 by (intro scoped_at_next [OF 1(2)]) (auto simp: fs1 wired_def same_but_next_def)
  moreover have "sym_malloc st = Inr (a, st1\<lparr>sy_free_first := sc_next (sy_mem st1 a)\<rparr>)"
    using l1 by (simp add: sym_malloc_def Let_def 1(1) [symmetric] fs1 wired_def)
  ultimately show thesis using 1(3,5-8) l1
    by (intro that [of a "st1\<lparr>sy_free_first := sc_next (sy_mem st1 a)\<rparr>" fs']) (auto simp: fs1 wired_def)
qed

section \<open>Push\<close>

text \<open>A fresh cell on top of the local or the global stack, not yet in the token table.\<close>

definition pushed :: "bool \<Rightarrow> nat \<Rightarrow> nat list \<Rightarrow> nat list \<Rightarrow> nat list \<times> nat list" where
  "pushed local a ls gs = (if local then (a # ls, gs) else (ls, a # gs))"

lemma set_c_fields [simp]:
  "sc_v (set_c c s) = sc_v s" "sc_prev (set_c c s) = sc_prev s" "sc_next (set_c c s) = sc_next s"
  "sc_prev_tok (set_c c s) = sc_prev_tok s" "sc_t (set_c c s) = sc_t s" "sc_ref (set_c c s) = sc_ref s"
  "sc_r (set_c c s) = sc_r s"
  by (simp_all add: set_c_def)

lemma set_scope_fields [simp]:
  "sc_v (set_scope n s) = sc_v s" "sc_prev (set_scope n s) = sc_prev s" "sc_next (set_scope n s) = sc_next s"
  "sc_prev_tok (set_scope n s) = sc_prev_tok s" "sc_t (set_scope n s) = sc_t s" "sc_ref (set_scope n s) = sc_ref s"
  "sc_r (set_scope n s) = sc_r s"
  by (simp_all add: set_scope_def)

lemma set_c_scope: "sc_c (set_c c s) = c" "sc_scope (set_scope n s) = n" "sc_c (set_scope n s) = sc_c s"
  by (rule bit_word_eqI; auto simp: sc_c_def sc_scope_def set_c_def set_scope_def bit_simps)+

lemma wired_push:
  assumes "wired st lh gh ls gs fs" and "a \<notin> set (ls @ gs @ fs)" and "a < sy_pools st * sy_pool_nb st"
    and "sc_prev s = (if local then lh else gh)"
  shows "wired (upd_sym a (\<lambda>_. s) st) (if local then Some a else lh) (if local then gh else Some a)
    (fst (pushed local a ls gs)) (snd (pushed local a ls gs)) fs"
proof -
  have c: "chain (\<lambda>b. nx (if b = a then s else sy_mem st b)) p bs = chain (\<lambda>b. nx (sy_mem st b)) p bs"
    if "set bs \<subseteq> set (ls @ gs @ fs)" for nx :: "scell \<Rightarrow> nat option" and p bs
    using that assms(2) by (intro chain_cong) auto
  have "set ls \<subseteq> set (ls @ gs @ fs)" "set gs \<subseteq> set (ls @ gs @ fs)" "set fs \<subseteq> set (ls @ gs @ fs)" by auto
  note c [OF this(1)] c [OF this(2)] c [OF this(3)]
  then show ?thesis using assms
    by (cases local) (simp_all add: wired_def pushed_def upd_sym_def)
qed

text \<open>The new symbol in front of the chain of its token.\<close>

lemma scoped_push:
  assumes "scoped_at st lh gh ls gs fs" and "a \<notin> set (ls @ gs @ fs)" and "a < sy_pools st * sy_pool_nb st"
    and "sc_prev s = (if local then lh else gh)" and "local \<or> ls = []" and "v = sc_v s"
    and "if recorded v then valid st v \<and> sc_prev_tok s = slot st v \<and> put_slot v (Some a) st = Inr st1 else st1 = st"
  shows "scoped_at (upd_sym a (\<lambda>_. s) st1) (if local then Some a else lh) (if local then gh else Some a)
    (fst (pushed local a ls gs)) (snd (pushed local a ls gs)) fs" (is "scoped_at ?st _ _ ?ls ?gs _")
proof -
  have st1: "st1 = st\<lparr>sy_table_ident := sy_table_ident st1\<rparr>" "length (sy_table_ident st1) = length (sy_table_ident st)"
    "\<And>w. valid st w \<Longrightarrow> slot st1 w = (if recorded v \<and> w = v then Some a else slot st w)"
  proof -
    have "st1 = st\<lparr>sy_table_ident := sy_table_ident st1\<rparr> \<and> length (sy_table_ident st1) = length (sy_table_ident st) \<and>
      (\<forall>w. valid st w \<longrightarrow> slot st1 w = (if recorded v \<and> w = v then Some a else slot st w))"
    proof (cases "recorded v")
      case True
      then have "valid st v" "put_slot v (Some a) st = Inr st1" using assms(7) by simp_all
      then show ?thesis using True by (elim put_slot_ok [of st v "Some a"]) auto
    next
      case False
      then show ?thesis using assms(7) by simp
    qed
    then show "st1 = st\<lparr>sy_table_ident := sy_table_ident st1\<rparr>" "length (sy_table_ident st1) = length (sy_table_ident st)"
      "\<And>w. valid st w \<Longrightarrow> slot st1 w = (if recorded v \<and> w = v then Some a else slot st w)" by blast+
  qed
  have fields: "sy_mem st1 = sy_mem st" "sy_free_first st1 = sy_free_first st" "sy_pools st1 = sy_pools st"
    "sy_pool_nb st1 = sy_pool_nb st" by (subst st1(1), simp)+
  have val: "valid ?st w = valid st w" for w using st1(2) by (simp add: valid_def upd_sym_def)
  have lk: "wired ?st (if local then Some a else lh) (if local then gh else Some a) ?ls ?gs fs"
  proof (rule wired_push [OF _ assms(2) _ assms(4)])
    show "wired st1 lh gh ls gs fs" using assms(1) by (simp add: scoped_at_def wired_def fields)
    show "a < sy_pools st1 * sy_pool_nb st1" using assms(3) by (simp add: fields)
  qed
  have all: "?ls @ ?gs = a # ls @ gs" using assms(5) by (auto simp: pushed_def)
  have old: "sy_mem ?st b = sy_mem st b" if "b \<in> set (ls @ gs)" for b
    using that assms(2) by (auto simp: upd_sym_def fields)
  have new: "sy_mem ?st a = s" by (simp add: upd_sym_def)
  have "chain (\<lambda>b. sc_prev_tok (sy_mem ?st b)) (slot ?st w) (named ?st w (a # ls @ gs))" if w: "valid st w" for w
  proof -
    have n: "named ?st w (ls @ gs) = named st w (ls @ gs)"
      unfolding named_def using old by (intro filter_cong) auto
    have "chain (\<lambda>b. sc_prev_tok (sy_mem ?st b)) (slot st w) (named st w (ls @ gs))"
      using assms(1) w old by (subst chain_cong [of _ _ "\<lambda>b. sc_prev_tok (sy_mem st b)"]) (auto simp: scoped_at_def named_def)
    moreover have "slot ?st w = (if recorded v \<and> w = v then Some a else slot st w)"
      using st1(3) [OF w] table_cong(1) [of ?st st1 w] by (simp add: upd_sym_def)
    moreover have "recorded w" using w by (simp add: valid_def)
    ultimately show ?thesis using n new assms(6,7) by (auto simp: named_def)
  qed
  moreover have "valid st (sc_v (sy_mem ?st b))" if "b \<in> set (a # ls @ gs)" "recorded (sc_v (sy_mem ?st b))" for b
    using that assms(1,6,7) old new by (cases "b = a") (auto simp: scoped_at_def)
  moreover have "256 + length (sy_table_ident ?st) \<le> 2 ^ 28"
    using assms(1) st1(2) by (simp add: scoped_at_def upd_sym_def)
  ultimately show ?thesis using lk unfolding scoped_at_def all val by blast
qed

lemma sym_push2_fresh:
  assumes "scoped_at st lh gh ls gs fs"
  obtains a st' fs' s where "sym_push2 head v t c st = Inr (a, upd_sym a (\<lambda>_. s) st')" "scoped_at st' lh gh ls gs fs'"
    "a \<notin> set (ls @ gs @ fs')" "a < sy_pools st' * sy_pool_nb st'" "same_but_next (sy_mem st) (sy_mem st')"
    "sy_local_stack st' = sy_local_stack st" "sy_global_stack st' = sy_global_stack st"
    "sy_local_scope st' = sy_local_scope st" "sy_table_ident st' = sy_table_ident st"
    "s = set_c c (zero_sym\<lparr>sc_v := v, sc_t := t, sc_prev := head\<rparr>)"
proof -
  from sym_malloc_fresh [OF assms] obtain a st' fs' where m: "sym_malloc st = Inr (a, st')" "scoped_at st' lh gh ls gs fs'"
    "a \<notin> set (ls @ gs @ fs')" "a < sy_pools st' * sy_pool_nb st'" "same_but_next (sy_mem st) (sy_mem st')"
    "sy_local_stack st' = sy_local_stack st" "sy_global_stack st' = sy_global_stack st"
    "sy_local_scope st' = sy_local_scope st" "sy_table_ident st' = sy_table_ident st" .
  then show thesis by (intro that [of a _ st' fs']) (simp_all add: sym_push2_def)
qed

lemma upd_sym_heads [simp]:
  "upd_sym a h (st\<lparr>sy_local_stack := x\<rparr>) = (upd_sym a h st)\<lparr>sy_local_stack := x\<rparr>"
  "upd_sym a h (st\<lparr>sy_global_stack := x\<rparr>) = (upd_sym a h st)\<lparr>sy_global_stack := x\<rparr>"
  by (simp_all add: upd_sym_def)

lemma upd_sym_twice [simp]: "upd_sym a h (upd_sym a (\<lambda>_. s) st) = upd_sym a (\<lambda>_. h s) st"
  by (simp add: upd_sym_def)

lemma scoped_at_heads [simp]:
  "scoped_at (st\<lparr>sy_local_stack := x\<rparr>) lh gh ls gs fs = scoped_at st lh gh ls gs fs"
  "scoped_at (st\<lparr>sy_global_stack := x\<rparr>) lh gh ls gs fs = scoped_at st lh gh ls gs fs"
  using table_cong [of "st\<lparr>sy_local_stack := x\<rparr>" st] table_cong [of "st\<lparr>sy_global_stack := x\<rparr>" st]
  by (simp_all add: scoped_at_def wired_def named_def)

lemma put_slot_upd:
  "put_slot v p (upd_sym a h st) = bindR (put_slot v p st) (\<lambda>x. Inr (upd_sym a h x))"
  "put_slot v p (st\<lparr>sy_local_stack := y\<rparr>) = bindR (put_slot v p st) (\<lambda>x. Inr (x\<lparr>sy_local_stack := y\<rparr>))"
  "put_slot v p (st\<lparr>sy_global_stack := y\<rparr>) = bindR (put_slot v p st) (\<lambda>x. Inr (x\<lparr>sy_global_stack := y\<rparr>))"
  by (cases "0 \<le> tok_index v \<and> tok_index v < int (length (sy_table_ident st))"; simp add: put_slot_def upd_sym_def Let_def)+

lemma put_slot_fields:
  assumes "put_slot v p st = Inr st'"
  shows "sy_mem st' = sy_mem st" "sy_local_scope st' = sy_local_scope st" "sy_local_stack st' = sy_local_stack st"
    "sy_global_stack st' = sy_global_stack st" "length (sy_table_ident st') = length (sy_table_ident st)"
  using assms by (auto simp: put_slot_def Let_def split: if_splits)

definition set_head :: "bool \<Rightarrow> nat \<Rightarrow> syms_state \<Rightarrow> syms_state" where
  "set_head local a st = (if local then st\<lparr>sy_local_stack := Some a\<rparr> else st\<lparr>sy_global_stack := Some a\<rparr>)"

lemma set_head_simps [simp]:
  "sy_mem (set_head l a st) = sy_mem st" "sy_local_scope (set_head l a st) = sy_local_scope st"
  "sy_table_ident (set_head l a st) = sy_table_ident st"
  "sy_local_stack (set_head l a st) = (if l then Some a else sy_local_stack st)"
  "sy_global_stack (set_head l a st) = (if l then sy_global_stack st else Some a)"
  "scoped_at (set_head l a st) lh gh ls gs fs = scoped_at st lh gh ls gs fs"
  "upd_sym b h (set_head l a st) = set_head l a (upd_sym b h st)"
  "put_slot v p (set_head l a st) = bindR (put_slot v p st) (\<lambda>x. Inr (set_head l a x))"
  by (simp_all add: set_head_def put_slot_upd)

text \<open>What a push gives: the new cell, its place, and the other symbols as they were.\<close>

lemma sym_push_steps:
  assumes "scoped st ls gs fs" and "sym_push v t ref r c st = Inr (a, st')"
  obtains st1 st2 fs' s where "scoped_at st1 (sy_local_stack st) (sy_global_stack st) ls gs fs'"
    "a \<notin> set (ls @ gs @ fs')" "a < sy_pools st1 * sy_pool_nb st1" "same_but_next (sy_mem st) (sy_mem st1)"
    "sy_local_stack st1 = sy_local_stack st" "sy_global_stack st1 = sy_global_stack st"
    "sy_local_scope st1 = sy_local_scope st" "sy_table_ident st1 = sy_table_ident st"
    "sc_v s = v" "sc_t s = t" "sc_ref s = ref" "sc_r s = r" "sc_c s = c"
    "sc_prev s = (if sy_local_stack st \<noteq> None then sy_local_stack st else sy_global_stack st)"
    "st' = set_head (sy_local_stack st \<noteq> None) a (upd_sym a (\<lambda>_. s) st2)"
    "if recorded v then valid st1 v \<and> sc_prev_tok s = slot st1 v \<and> put_slot v (Some a) st1 = Inr st2 else st2 = st1"
    "recorded v \<longrightarrow> sc_scope s = sy_local_scope st"
proof -
  let ?l = "sy_local_stack st \<noteq> None"
  let ?head = "if ?l then sy_local_stack st else sy_global_stack st"
  have sc: "scoped_at st (sy_local_stack st) (sy_global_stack st) ls gs fs" using assms(1) by (simp add: scoped_def)
  from sym_push2_fresh [OF sc, of ?head v t c] obtain b st1 fs' s where
    p: "sym_push2 ?head v t c st = Inr (b, upd_sym b (\<lambda>_. s) st1)" "scoped_at st1 (sy_local_stack st) (sy_global_stack st) ls gs fs'"
    "b \<notin> set (ls @ gs @ fs')" "b < sy_pools st1 * sy_pool_nb st1" "same_but_next (sy_mem st) (sy_mem st1)"
    "sy_local_stack st1 = sy_local_stack st" "sy_global_stack st1 = sy_global_stack st"
    "sy_local_scope st1 = sy_local_scope st" "sy_table_ident st1 = sy_table_ident st"
    "s = set_c c (zero_sym\<lparr>sc_v := v, sc_t := t, sc_prev := ?head\<rparr>)" .
  define s2 where "s2 = s\<lparr>sc_ref := ref, sc_r := r\<rparr>"
  have f2: "sc_v s2 = v" "sc_t s2 = t" "sc_ref s2 = ref" "sc_r s2 = r" "sc_c s2 = c" "sc_prev s2 = ?head"
    unfolding s2_def p(10) by (simp_all add: sc_c_def set_c_def) (use set_c_scope(1) [of c zero_sym] in \<open>simp add: sc_c_def set_c_def zero_sym_def\<close>)
  let ?st = "set_head ?l b (upd_sym b (\<lambda>_. s2) st1)"
  have push: "sym_push v t ref r c st = record_sym v b ?st"
    using p(1) by (cases "sy_local_stack st") (simp_all add: sym_push_def s2_def set_head_def)
  show thesis
  proof (cases "recorded v")
    case False
    then have "b = a" "st' = ?st" using push assms(2) by (simp_all add: record_sym_def)
    then show thesis using False p(3,4) f2 by (intro that [OF p(2) _ _ p(5-9), of s2 st1]) simp_all
  next
    case True
    have slot: "get_slot v ?st = get_slot v st1" by (rule get_slot_cong) (simp add: upd_sym_def)
    have scope: "sy_local_scope ?st = sy_local_scope st" by (simp add: upd_sym_def p(8))
    obtain q st3 where q: "get_slot v st1 = Inr q" "put_slot v (Some b) st1 = Inr st3"
      using True push assms(2) slot
      by (cases "get_slot v st1"; cases "put_slot v (Some b) st1") (auto simp: record_sym_def put_slot_upd)
    define s4 where "s4 = set_scope (sy_local_scope st) (s2\<lparr>sc_prev_tok := q\<rparr>)"
    have "record_sym v b ?st = Inr (a, st')" using push assms(2) by simp
    then have "b = a \<and> st' = set_head ?l b (upd_sym b (\<lambda>_. s4) st3)"
      using True q slot scope unfolding record_sym_def slot scope
      by (auto simp: bindR_Inr_iff put_slot_upd Let_def s4_def split: option.splits if_splits)
    moreover have "valid st1 v" using get_slot_ok [OF True q(1)] .
    moreover have "slot st1 v = q" using q(1) by (simp add: slot_def)
    moreover have "sc_c (s2\<lparr>sc_prev_tok := q\<rparr>) = sc_c s2" by (simp add: sc_c_def)
    ultimately show thesis using True p(3,4) f2 q set_c_scope
      by (intro that [OF p(2) _ _ p(5-9), of s4 st3]) (simp_all add: s4_def)
  qed
qed

lemma sym_push_result:
  assumes "scoped st ls gs fs" and "sym_push v t ref r c st = Inr (a, st')"
  shows "\<exists>fs'. scoped st' (fst (pushed (sy_local_stack st \<noteq> None) a ls gs)) (snd (pushed (sy_local_stack st \<noteq> None) a ls gs)) fs'"
    and "a \<notin> set (ls @ gs)" and "sc_v (sy_mem st' a) = v" and "sc_t (sy_mem st' a) = t" and "sc_ref (sy_mem st' a) = ref"
    and "sc_r (sy_mem st' a) = r" and "sc_c (sy_mem st' a) = c" and "recorded v \<Longrightarrow> sc_scope (sy_mem st' a) = sy_local_scope st"
    and "b \<in> set (ls @ gs) \<Longrightarrow> sy_mem st' b = (sy_mem st b)\<lparr>sc_next := sc_next (sy_mem st' b)\<rparr>"
    and "sy_local_scope st' = sy_local_scope st" and "length (sy_table_ident st') = length (sy_table_ident st)"
    and "sy_local_stack st \<noteq> None \<Longrightarrow> sy_local_stack st' = Some a"
proof -
  let ?l = "sy_local_stack st \<noteq> None"
  obtain st1 st2 fs' s where p: "scoped_at st1 (sy_local_stack st) (sy_global_stack st) ls gs fs'"
    "a \<notin> set (ls @ gs @ fs')" "a < sy_pools st1 * sy_pool_nb st1" "same_but_next (sy_mem st) (sy_mem st1)"
    "sy_local_stack st1 = sy_local_stack st" "sy_global_stack st1 = sy_global_stack st"
    "sy_local_scope st1 = sy_local_scope st" "sy_table_ident st1 = sy_table_ident st"
    "sc_v s = v" "sc_t s = t" "sc_ref s = ref" "sc_r s = r" "sc_c s = c"
    "sc_prev s = (if ?l then sy_local_stack st else sy_global_stack st)"
    "st' = set_head ?l a (upd_sym a (\<lambda>_. s) st2)"
    "if recorded v then valid st1 v \<and> sc_prev_tok s = slot st1 v \<and> put_slot v (Some a) st1 = Inr st2 else st2 = st1"
    "recorded v \<longrightarrow> sc_scope s = sy_local_scope st"
    using assms by (rule sym_push_steps)
  have "?l \<or> ls = []" using p(1) by (auto simp: scoped_at_def wired_def dest: chain_head split: list.splits)
  from scoped_push [OF p(1-3,14) this p(9) [symmetric] p(16)]
  have "scoped st' (fst (pushed ?l a ls gs)) (snd (pushed ?l a ls gs)) fs'"
    using p(5,6) put_slot_fields(3,4) [of v "Some a" st1 st2] p(16)
    by (cases "recorded v"; cases ?l) (auto simp: scoped_def p(15) upd_sym_def)
  then show "\<exists>fs'. scoped st' (fst (pushed ?l a ls gs)) (snd (pushed ?l a ls gs)) fs'" by blast
  have m2: "sy_mem st2 = sy_mem st1" "sy_local_scope st2 = sy_local_scope st1" "length (sy_table_ident st2) = length (sy_table_ident st1)"
    using p(16) put_slot_fields [of v "Some a" st1 st2] by (auto split: if_splits)
  have m: "sy_mem st' b = (if b = a then s else sy_mem st1 b)" for b
    by (simp add: p(15) upd_sym_def m2)
  show "a \<notin> set (ls @ gs)" using p(2) by simp
  then show "b \<in> set (ls @ gs) \<Longrightarrow> sy_mem st' b = (sy_mem st b)\<lparr>sc_next := sc_next (sy_mem st' b)\<rparr>"
    using m [of b] p(4) by (auto simp: same_but_next_def)
  show "sc_v (sy_mem st' a) = v" "sc_t (sy_mem st' a) = t" "sc_ref (sy_mem st' a) = ref"
    "sc_r (sy_mem st' a) = r" "sc_c (sy_mem st' a) = c" "recorded v \<Longrightarrow> sc_scope (sy_mem st' a) = sy_local_scope st"
    using m [of a] p(9-13,17) by simp_all
  show "sy_local_scope st' = sy_local_scope st" "length (sy_table_ident st') = length (sy_table_ident st)"
    using m2 p(7,8) by (simp_all add: p(15) upd_sym_def)
  show "?l \<Longrightarrow> sy_local_stack st' = Some a" by (simp add: p(15))
qed

section \<open>Lookup\<close>

lemma find_filter: "find P xs = (case filter P xs of [] \<Rightarrow> None | a # _ \<Rightarrow> Some a)"
  by (induction xs) auto

lemma slot_newest:
  assumes "scoped_at st lh gh ls gs fs" and "recorded v"
  shows "(if valid st v then slot st v else None) = find (\<lambda>a. sc_v (sy_mem st a) = v) (ls @ gs)"
proof (cases "valid st v")
  case True
  then have "chain (\<lambda>a. sc_prev_tok (sy_mem st a)) (slot st v) (named st v (ls @ gs))"
    using assms(1) by (simp add: scoped_at_def)
  then show ?thesis using chain_head True by (simp only: find_filter named_def if_True)
next
  case False
  then have "\<forall>a\<in>set (ls @ gs). sc_v (sy_mem st a) \<noteq> v" using assms by (auto simp: scoped_at_def)
  then show ?thesis using False by (auto simp: find_None_iff2)
qed

lemma small_token:
  fixes v :: u32
  assumes "v < SYM_FIRST_ANOM"
  shows "recorded v" "recorded (v OR SYM_STRUCT)" "tok_index v = uint v - 256" "tok_index (v OR SYM_STRUCT) = uint v - 256"
    "v AND SYM_STRUCT = 0" "(v OR SYM_STRUCT) AND SYM_STRUCT = SYM_STRUCT"
proof -
  have e: "(0x40000000 :: u32) = 2 ^ 30" "(0x20000000 :: u32) = 2 ^ 29" by simp_all
  have b: "bit (0x40000000 :: u32) n \<longleftrightarrow> n = 30" "bit (0x20000000 :: u32) n \<longleftrightarrow> n = 29" for n
    unfolding e by (auto simp only: bit_exp_iff) simp_all
  have "fits_in 28 v" using assms by (simp add: fits_in_uint_iff word_less_def)
  then have "take_bit 28 v = v" by (simp add: fits_in_def)
  then have hi: "28 \<le> n \<Longrightarrow> \<not> bit v n" for n by (metis bit_take_bit_iff not_le)
  have 1: "v AND 0x20000000 = 0" "v AND 0x40000000 = 0" "v AND NOT 0x40000000 = v"
    "(v OR 0x40000000) AND 0x20000000 = 0" "(v OR 0x40000000) AND 0x40000000 = 0x40000000"
    "(v OR 0x40000000) AND NOT 0x40000000 = v"
    by (rule bit_word_eqI; simp only: bit_and_iff bit_or_iff bit_not_iff b bit_0_eq bot_apply; use hi in auto)+
  have "uint v < 2 ^ 28" using assms by (simp add: word_less_def)
  then have s: "sint v = uint v" 
  proof -
    have "- 2147483648 \<le> uint v" using uint_ge_0 [of v] by linarith
    then show ?thesis using \<open>uint v < 2 ^ 28\<close> by (simp add: sint_uint signed_take_bit_int_eq_self_iff)
  qed
  show "recorded v" "recorded (v OR SYM_STRUCT)" using 1 s \<open>uint v < 2 ^ 28\<close> by (simp_all add: recorded_def)
  show "tok_index v = uint v - 256" "tok_index (v OR SYM_STRUCT) = uint v - 256" using 1 s by (simp_all add: tok_index_def)
  show "v AND SYM_STRUCT = 0" "(v OR SYM_STRUCT) AND SYM_STRUCT = SYM_STRUCT" using 1 by simp_all
qed

lemma find_slot:
  assumes "v < SYM_FIRST_ANOM" and "256 + length (sy_table_ident st) \<le> 2 ^ 28"
  shows "sym_find_tok v st = (if valid st v then slot st v else None)"
    and "struct_find v st = (if valid st (v OR SYM_STRUCT) then slot st (v OR SYM_STRUCT) else None)"
proof -
  note t = small_token [OF assms(1)]
  let ?n = "length (sy_table_ident st)"
  have u: "uint (v - 256) = (uint v - 256) mod 2 ^ 32" by (simp add: uint_word_ariths)
  have n1: "(?n \<le> unat (v - 256)) = (\<not> (0 \<le> uint v - 256 \<and> uint v - 256 < int ?n))"
  proof (cases "256 \<le> uint v")
    case True
    then have "uint (v - 256) = uint v - 256" unfolding u using uint_lt2p [of v] by simp
    then show ?thesis using True uint_nat [of "v - 256"] by linarith
  next
    case False
    have "(uint v - 256) mod 2 ^ 32 = (uint v - 256 + 2 ^ 32) mod 2 ^ 32" by (simp only: mod_add_self2)
    then have "(uint v - 256) mod 2 ^ 32 = uint v - 256 + 2 ^ 32"
      using False uint_ge_0 [of v] by (simp add: mod_pos_pos_trivial)
    then have "uint (v - 256) = uint v - 256 + 2 ^ 32" unfolding u .
    then have "uint (v - 256) = uint v + 4294967040" by simp
    moreover have "?n \<le> 268435200" using assms(2) by simp
    ultimately have "?n \<le> unat (v - 256)" using uint_nat [of "v - 256"] uint_ge_0 [of v] by linarith
    then show ?thesis using False by simp
  qed
  have n2: "unat (v - 256) = nat (uint v - 256)" if "256 \<le> uint v"
    using that uint_lt2p [of v] u by (simp add: unat_eq_nat_uint)
  show "sym_find_tok v st = (if valid st v then slot st v else None)"
    "struct_find v st = (if valid st (v OR SYM_STRUCT) then slot st (v OR SYM_STRUCT) else None)"
  proof (goal_cases)
    case 1
    show ?case
    proof (cases "?n \<le> unat (v - 256)")
      case True
      then have "\<not> valid st v" unfolding valid_def t(3) using n1 by blast
      then show ?thesis using True by (simp add: sym_find_tok_def)
    next
      case False
      then have q: "0 \<le> uint v - 256" "uint v - 256 < int ?n" using n1 by blast+
      then have "valid st v" unfolding valid_def t(3) using t(1) by blast
      moreover have "unat (v - 256) = nat (uint v - 256)" using q(1) by (intro n2) linarith
      ultimately show ?thesis using False q t(3,5) by (simp add: sym_find_tok_def slot_def get_slot_def Let_def)
    qed
  next
    case 2
    show ?case
    proof (cases "?n \<le> unat (v - 256)")
      case True
      then have "\<not> valid st (v OR SYM_STRUCT)" unfolding valid_def t(4) using n1 by blast
      then show ?thesis using True by (simp add: struct_find_def)
    next
      case False
      then have q: "0 \<le> uint v - 256" "uint v - 256 < int ?n" using n1 by blast+
      then have "valid st (v OR SYM_STRUCT)" unfolding valid_def t(4) using t(2) by blast
      moreover have "unat (v - 256) = nat (uint v - 256)" using q(1) by (intro n2) linarith
      ultimately show ?thesis using False q t(4,6) by (simp add: struct_find_def slot_def get_slot_def Let_def)
    qed
  qed
qed

section \<open>Pop\<close>

lemma scoped_pop1:
  assumes "scoped_at st (Some a) gh (a # ls) gs fs" and "v = sc_v (sy_mem st a)"
    and "if recorded v then put_slot v (sc_prev_tok (sy_mem st a)) st = Inr st1 else st1 = st"
  shows "scoped_at st1 (sc_prev (sy_mem st a)) gh ls gs fs"
proof -
  have st1: "st1 = st\<lparr>sy_table_ident := sy_table_ident st1\<rparr> \<and> length (sy_table_ident st1) = length (sy_table_ident st) \<and>
    (\<forall>w. valid st w \<longrightarrow> slot st1 w = (if recorded v \<and> w = v then sc_prev_tok (sy_mem st a) else slot st w))"
  proof (cases "recorded v")
    case True
    then have "valid st v" using assms(1,2) by (simp add: scoped_at_def)
    then show ?thesis using True assms(3) by (elim put_slot_ok [of st v "sc_prev_tok (sy_mem st a)"]) auto
  next
    case False
    then show ?thesis using assms(3) by simp
  qed
  note e = st1 [THEN conjunct1]
  have fields: "sy_mem st1 = sy_mem st" "sy_free_first st1 = sy_free_first st" "sy_pools st1 = sy_pools st"
    "sy_pool_nb st1 = sy_pool_nb st" by (subst e, simp)+
  have len: "length (sy_table_ident st1) = length (sy_table_ident st)" using st1 by blast
  then have val: "valid st1 w = valid st w" for w by (simp add: valid_def)
  have chains: "chain (\<lambda>b. sc_prev_tok (sy_mem st b)) (slot st1 w) (named st w (ls @ gs))" if w: "valid st w" for w
  proof -
    have "chain (\<lambda>b. sc_prev_tok (sy_mem st b)) (slot st w) (named st w (a # ls @ gs))"
      using assms(1) w by (simp add: scoped_at_def)
    moreover have "recorded w" using w by (simp add: valid_def)
    ultimately show ?thesis using st1 w assms(2)
      by (cases "sc_v (sy_mem st a) = w") (auto simp: named_def)
  qed
  have "wired st1 (sc_prev (sy_mem st a)) gh ls gs fs"
    using assms(1) by (simp add: scoped_at_def wired_def fields)
  then show ?thesis using assms(1) chains
    by (simp add: scoped_at_def val fields len named_def)
qed

lemma scoped_free:
  assumes "scoped_at st lh gh ls gs fs" and "a \<notin> set (ls @ gs @ fs)" and "a < sy_pools st * sy_pool_nb st"
  shows "scoped_at (sym_free a st) lh gh ls gs (a # fs)"
proof -
  let ?m = "(sy_mem st)(a := (sy_mem st a)\<lparr>sc_next := sy_free_first st\<rparr>)"
  have l: "wired st lh gh ls gs fs" using assms(1) by (simp add: scoped_at_def)
  then have "chain (\<lambda>b. sc_next (?m b)) (sy_free_first st) fs"
    using assms(2) by (subst chain_cong [of _ _ "\<lambda>b. sc_next (sy_mem st b)"]) (auto simp: wired_def)
  then have "scoped_at (st\<lparr>sy_mem := ?m, sy_free_first := Some a, sy_pools := sy_pools st\<rparr>) lh gh ls gs (a # fs)"
    using l assms(2,3) by (intro scoped_at_next [OF assms(1)]) (auto simp: same_but_next_def wired_def)
  then show ?thesis by (simp add: sym_free_def upd_sym_def)
qed

lemma pop_loop_pops:
  assumes "scoped_at st s gh (xs @ ys) gs fs" and "b = (case ys of [] \<Rightarrow> None | y # _ \<Rightarrow> Some y)" and "length xs \<le> k"
  shows "\<exists>st' fs'. pop_loop k s b keep st = Inr st' \<and> scoped_at st' b gh ys gs fs' \<and> same_but_next (sy_mem st) (sy_mem st') \<and>
    sy_local_stack st' = sy_local_stack st \<and> sy_global_stack st' = sy_global_stack st \<and>
    sy_local_scope st' = sy_local_scope st \<and> length (sy_table_ident st') = length (sy_table_ident st)"
  using assms(1,3)
proof (induction xs arbitrary: st s fs k)
  case Nil
  then have "s = b" using assms(2) chain_head by (fastforce simp: scoped_at_def wired_def)
  then show ?case using Nil by (subst pop_loop.simps) (auto simp: same_but_next_def)
next
  case (Cons a xs)
  have s: "s = Some a" and ne: "s \<noteq> b" using Cons.prems(1) assms(2)
    by (auto simp: scoped_at_def wired_def split: list.splits)
  obtain k1 where k: "k = Suc k1" using Cons.prems(2) by (cases k) auto
  let ?v = "sc_v (sy_mem st a)"
  obtain st1 where st1: "if recorded ?v then put_slot ?v (sc_prev_tok (sy_mem st a)) st = Inr st1 else st1 = st"
  proof (cases "recorded ?v")
    case True
    then have "valid st ?v" using Cons.prems(1) by (simp add: scoped_at_def)
    then show thesis using True that by (elim put_slot_ok [of st ?v "sc_prev_tok (sy_mem st a)"]) auto
  qed (use that in auto)
  have f1: "sy_mem st1 = sy_mem st" "sy_local_stack st1 = sy_local_stack st" "sy_global_stack st1 = sy_global_stack st"
    "sy_local_scope st1 = sy_local_scope st" "length (sy_table_ident st1) = length (sy_table_ident st)"
    using st1 put_slot_fields [of ?v "sc_prev_tok (sy_mem st a)" st st1] by (auto split: if_splits)
  have sc1: "scoped_at st1 (sc_prev (sy_mem st a)) gh (xs @ ys) gs fs"
    using Cons.prems(1) s st1 by (intro scoped_pop1 [of st a gh "xs @ ys" gs fs ?v]) simp_all
  have al: "a \<notin> set ((xs @ ys) @ gs @ fs)" "a < sy_pools st * sy_pool_nb st"
    using Cons.prems(1) by (auto simp: scoped_at_def wired_def)
  have pb: "sy_pools st1 = sy_pools st \<and> sy_pool_nb st1 = sy_pool_nb st"
    using st1 by (auto simp: put_slot_def Let_def split: if_splits)
  define st2 where "st2 = (if \<not> keep then sym_free a st1 else st1)"
  obtain fs2 where sc2: "scoped_at st2 (sc_prev (sy_mem st a)) gh (xs @ ys) gs fs2"
    using sc1 scoped_free [OF sc1 al(1)] al(2) pb unfolding st2_def by (cases keep) auto
  have f2: "same_but_next (sy_mem st) (sy_mem st2)" "sy_local_stack st2 = sy_local_stack st" "sy_global_stack st2 = sy_global_stack st"
    "sy_local_scope st2 = sy_local_scope st" "length (sy_table_ident st2) = length (sy_table_ident st)"
    using f1 by (auto simp: st2_def sym_free_def upd_sym_def same_but_next_def)
  have "pop_loop k s b keep st = pop_loop k1 (sc_prev (sy_mem st a)) b keep st2"
    using ne s st1 unfolding k st2_def by (subst pop_loop.simps) (auto simp: Let_def split: if_splits)
  moreover obtain st' fs' where "pop_loop k1 (sc_prev (sy_mem st a)) b keep st2 = Inr st'" "scoped_at st' b gh ys gs fs'"
    "same_but_next (sy_mem st2) (sy_mem st')" "sy_local_stack st' = sy_local_stack st2" "sy_global_stack st' = sy_global_stack st2"
    "sy_local_scope st' = sy_local_scope st2" "length (sy_table_ident st') = length (sy_table_ident st2)"
    using Cons.IH [OF sc2, of k1] Cons.prems(2) k by auto
  ultimately show ?case using f2 same_but_next_trans by auto
qed

section \<open>Scopes\<close>

lemma lookup:
  assumes "scoped st ls gs fs" and "v < SYM_FIRST_ANOM"
  shows "sym_find_tok v st = find (\<lambda>a. sc_v (sy_mem st a) = v) (ls @ gs)"
    and "struct_find v st = find (\<lambda>a. sc_v (sy_mem st a) = (v OR SYM_STRUCT)) (ls @ gs)"
proof -
  have at: "scoped_at st (sy_local_stack st) (sy_global_stack st) ls gs fs" using assms(1) by (simp add: scoped_def)
  then have "256 + length (sy_table_ident st) \<le> 2 ^ 28" by (simp add: scoped_at_def)
  note f = find_slot [OF assms(2) this]
  show "sym_find_tok v st = find (\<lambda>a. sc_v (sy_mem st a) = v) (ls @ gs)"
    unfolding f by (rule slot_newest [OF at small_token(1) [OF assms(2)]])
  show "struct_find v st = find (\<lambda>a. sc_v (sy_mem st a) = (v OR SYM_STRUCT)) (ls @ gs)"
    unfolding f by (rule slot_newest [OF at small_token(2) [OF assms(2)]])
qed

text \<open>
  The token table is right: struct_find and sym_find give the newest symbol of a name on the
  local and the global stack, and none if there is none.
\<close>

theorem sym_find_newest:
  assumes "scoped st ls gs fs" and "v < SYM_FIRST_ANOM"
  shows "sym_find_tok v st = find (\<lambda>a. sc_v (sy_mem st a) = v) (ls @ gs) \<and>
    struct_find v st = find (\<lambda>a. sc_v (sy_mem st a) = (v OR SYM_STRUCT)) (ls @ gs)"
  using lookup [OF assms] by blast

text \<open>Names are looked up alike when the same names are on the stacks.\<close>

lemma find_cong: "(\<And>x. x \<in> set xs \<Longrightarrow> P x = Q x) \<Longrightarrow> find P xs = find Q xs"
  by (induction xs) auto

lemma same_lookup:
  assumes "scoped st ls gs fs" and "scoped st' ls gs fs'" and "v < SYM_FIRST_ANOM"
    and "\<And>a. a \<in> set (ls @ gs) \<Longrightarrow> sc_v (sy_mem st' a) = sc_v (sy_mem st a)"
  shows "sym_find_tok v st' = sym_find_tok v st" and "struct_find v st' = struct_find v st"
proof -
  have e: "find (\<lambda>a. sc_v (sy_mem st' a) = u) (ls @ gs) = find (\<lambda>a. sc_v (sy_mem st a) = u) (ls @ gs)" for u
    by (rule find_cong) (simp add: assms(4))
  show "sym_find_tok v st' = sym_find_tok v st" "struct_find v st' = struct_find v st"
    unfolding lookup [OF assms(1,3)] lookup [OF assms(2,3)] by (rule e)+
qed

text \<open>
  C14: A declaration in a scope: the new symbol is found under its name (as a tag or as an
  identifier), every other name is found as before, the symbol has what it was declared with and the
  current scope, it is no symbol in use, and the table stays right.
\<close>

theorem sym_push_hides:
  assumes "scoped st ls gs fs" and "sym_push v t ref r c st = Inr (a, st')" and "w < SYM_FIRST_ANOM"
  shows "a \<notin> set (ls @ gs) \<and> sym_find_tok w st' = (if v = w then Some a else sym_find_tok w st) \<and>
    struct_find w st' = (if v = (w OR SYM_STRUCT) then Some a else struct_find w st) \<and>
    sc_t (sy_mem st' a) = t \<and> sc_r (sy_mem st' a) = r \<and> sc_c (sy_mem st' a) = c \<and>
    (if recorded v then sc_scope (sy_mem st' a) = sy_local_scope st else True) \<and>
    (\<exists>fs'. if sy_local_stack st \<noteq> None then scoped st' (a # ls) gs fs' else scoped st' ls (a # gs) fs')"
proof -
  note p = sym_push_result [OF assms(1,2)]
  let ?l = "sy_local_stack st \<noteq> None"
  obtain fs' where s: "scoped st' (fst (pushed ?l a ls gs)) (snd (pushed ?l a ls gs)) fs'" using p(1) by blast
  have ls: "?l \<or> ls = []" using assms(1) by (auto simp: scoped_def scoped_at_def wired_def dest: chain_head split: list.splits)
  then have all: "fst (pushed ?l a ls gs) @ snd (pushed ?l a ls gs) = a # ls @ gs" by (auto simp: pushed_def)
  have old: "sc_v (sy_mem st' b) = sc_v (sy_mem st b)" if "b \<in> set (ls @ gs)" for b
    by (subst p(9) [OF that]) simp
  have e: "find (\<lambda>b. sc_v (sy_mem st' b) = u) (ls @ gs) = find (\<lambda>b. sc_v (sy_mem st b) = u) (ls @ gs)" for u
    by (rule find_cong) (simp add: old)
  have "sym_find_tok w st' = (if v = w then Some a else sym_find_tok w st)"
    "struct_find w st' = (if v = (w OR SYM_STRUCT) then Some a else struct_find w st)"
    unfolding lookup [OF s assms(3)] lookup [OF assms(1,3)] all find.simps p(3) e by (rule refl)+
  moreover have "\<exists>fs'. if ?l then scoped st' (a # ls) gs fs' else scoped st' ls (a # gs) fs'"
    using s by (auto simp: pushed_def)
  ultimately show ?thesis using p(2,4,6,7,8) by simp
qed

text \<open>The declarations of a block, one after the other.\<close>

fun sym_pushes :: "(u32 \<times> u32 \<times> nat option \<times> u16 \<times> u32) list \<Rightarrow> syms_state \<Rightarrow> syms_state res" where
  "sym_pushes [] st = Inr st"
| "sym_pushes ((v, t, ref, r, c) # ds) st = bindR (sym_push v t ref r c st) (\<lambda>(a, st1). sym_pushes ds st1)"

lemma sym_pushes_result:
  assumes "scoped st ls gs fs" and "sy_local_stack st \<noteq> None" and "sym_pushes ds st = Inr st'"
  shows "\<exists>as fs'. scoped st' (as @ ls) gs fs' \<and> length as = length ds \<and> sy_local_stack st' \<noteq> None \<and>
    (\<forall>b\<in>set (ls @ gs). sc_v (sy_mem st' b) = sc_v (sy_mem st b))"
  using assms
proof (induction ds arbitrary: st ls fs)
  case Nil
  then show ?case by auto
next
  case (Cons d ds)
  obtain v t ref r c where d: "d = (v, t, ref, r, c)" by (cases d)
  obtain a st1 where 1: "sym_push v t ref r c st = Inr (a, st1)" "sym_pushes ds st1 = Inr st'"
    using Cons.prems(3) d by (auto simp: bindR_Inr_iff)
  note p = sym_push_result [OF Cons.prems(1) 1(1)]
  obtain fs1 where "scoped st1 (a # ls) gs fs1" using p(1) Cons.prems(2) by (auto simp: pushed_def)
  moreover have "sy_local_stack st1 \<noteq> None" using p(12) Cons.prems(2) by simp
  ultimately obtain as fs' where r: "scoped st' (as @ a # ls) gs fs'" "length as = length ds" "sy_local_stack st' \<noteq> None"
    "\<forall>b\<in>set ((a # ls) @ gs). sc_v (sy_mem st' b) = sc_v (sy_mem st1 b)"
    using Cons.IH 1(2) by blast
  have "sc_v (sy_mem st1 b) = sc_v (sy_mem st b)" if "b \<in> set (ls @ gs)" for b
    by (subst p(9) [OF that]) simp
  then show ?case using r by - (rule exI [of _ "as @ [a]"], rule exI [of _ fs'], auto)
qed

text \<open>
  C12: A block leaves no trace in the names: after any declarations in it, popping the local symbols
  back to the top they had before gives a right table again, in which every tag and every identifier
  is found as before the block.
\<close>

theorem sym_pop_restores:
  assumes "scoped st ls gs fs" and "sy_local_stack st \<noteq> None" and "sym_pushes ds st = Inr st1"
    and "length ds \<le> k" and "w < SYM_FIRST_ANOM"
  shows "\<exists>st2 fs2. sym_pop_local k (sy_local_stack st) False st1 = Inr st2 \<and> scoped st2 ls gs fs2 \<and>
    sym_find_tok w st2 = sym_find_tok w st \<and> struct_find w st2 = struct_find w st"
proof -
  obtain as fs1 where 1: "scoped st1 (as @ ls) gs fs1" "length as = length ds"
    "\<forall>b\<in>set (ls @ gs). sc_v (sy_mem st1 b) = sc_v (sy_mem st b)"
    using sym_pushes_result [OF assms(1-3)] by blast
  have at: "scoped_at st1 (sy_local_stack st1) (sy_global_stack st1) (as @ ls) gs fs1" using 1(1) by (simp add: scoped_def)
  have b: "sy_local_stack st = (case ls of [] \<Rightarrow> None | y # _ \<Rightarrow> Some y)"
    using assms(1) chain_head by (auto simp: scoped_def scoped_at_def wired_def)
  from pop_loop_pops [OF at b, of k False] 1(2) assms(4) obtain st' fs' where
    2: "pop_loop k (sy_local_stack st1) (sy_local_stack st) False st1 = Inr st'"
    "scoped_at st' (sy_local_stack st) (sy_global_stack st1) ls gs fs'" "same_but_next (sy_mem st1) (sy_mem st')"
    "sy_global_stack st' = sy_global_stack st1" by auto
  let ?st2 = "st'\<lparr>sy_local_stack := sy_local_stack st\<rparr>"
  have s2: "scoped ?st2 ls gs fs'" using 2(2,4) by (simp add: scoped_def)
  have "sc_v (sy_mem ?st2 a) = sc_v (sy_mem st a)" if "a \<in> set (ls @ gs)" for a
    using 1(3) that same_but_nextD(1) [OF 2(3)] by simp
  then have "sym_find_tok w ?st2 = sym_find_tok w st" "struct_find w ?st2 = struct_find w st"
    using same_lookup [OF assms(1) s2 assms(5)] by blast+
  moreover have "sym_pop_local k (sy_local_stack st) False st1 = Inr ?st2" using 2(1) by (simp add: sym_pop_local_def)
  ultimately show ?thesis using s2 by blast
qed

section \<open>Global symbols declared inside a function\<close>

text \<open>The walk past the local symbols, and a new symbol put behind them.\<close>

lemma skip_locals_chain:
  assumes "chain (\<lambda>a. sc_prev_tok (m a)) p (ms @ ns)" and "\<forall>a\<in>set ms. sc_scope (m a) \<noteq> 0"
    and "\<forall>a\<in>set ns. sc_scope (m a) = 0" and "length ms < k"
  shows "skip_locals k m at p = Inr (if ms = [] then at else Some (last ms), case ns of [] \<Rightarrow> None | n # _ \<Rightarrow> Some n)"
  using assms
proof (induction ms arbitrary: p k at)
  case Nil
  then obtain j where "k = Suc j" by (cases k) auto
  then show ?case using Nil by (cases ns) auto
next
  case (Cons b ms)
  then obtain j where k: "k = Suc j" by (cases k) auto
  show ?case using Cons.IH [of "sc_prev_tok (m b)" j "Some b"] Cons.prems k by auto
qed

lemma chain_insert:
  assumes "chain nx p (ms @ ns)" and "distinct (ms @ ns)" and "a \<notin> set (ms @ ns)"
    and "ny a = (case ns of [] \<Rightarrow> None | n # _ \<Rightarrow> Some n)" and "ms \<noteq> [] \<Longrightarrow> ny (last ms) = Some a"
    and "\<And>b. b \<in> set (ms @ ns) \<Longrightarrow> ms = [] \<or> b \<noteq> last ms \<Longrightarrow> ny b = nx b"
  shows "chain ny (if ms = [] then Some a else p) (ms @ a # ns)"
  using assms
proof (induction ms arbitrary: p)
  case Nil
  have "chain ny p ns" using Nil by (subst chain_cong [of _ _ nx]) auto
  then show ?case using Nil chain_head [of nx p ns] by simp
next
  case (Cons b ms)
  show ?case
  proof (cases "ms = []")
    case True
    have "chain ny (nx b) ns" using Cons.prems True by (subst chain_cong [of _ _ nx]) auto
    then show ?thesis using Cons.prems True chain_head [of nx "nx b" ns] by simp
  next
    case False
    have "chain ny (if ms = [] then Some a else nx b) (ms @ a # ns)"
      using Cons.prems False by (intro Cons.IH) auto
    moreover have "ny b = nx b" using Cons.prems False by (intro Cons.prems(6)) auto
    ultimately show ?thesis using Cons.prems(1) False by simp
  qed
qed

lemma wired_cong:
  assumes "wired st lh gh ls gs fs"
    and "\<And>a. sc_prev (sy_mem st' a) = sc_prev (sy_mem st a)" and "\<And>a. sc_next (sy_mem st' a) = sc_next (sy_mem st a)"
    and "sy_free_first st' = sy_free_first st" and "sy_pools st' = sy_pools st" and "sy_pool_nb st' = sy_pool_nb st"
  shows "wired st' lh gh ls gs fs"
  using assms by (simp add: wired_def)

lemma scoped_insert:
  assumes "scoped_at st lh gh ls gs fs" and "a \<notin> set (ls @ gs @ fs)" and "a < sy_pools st * sy_pool_nb st"
    and "sc_v s = v" and "sc_prev s = gh" and "valid st v"
    and "sc_prev_tok s = (case named st v gs of [] \<Rightarrow> None | n # _ \<Rightarrow> Some n)"
    and "if named st v ls = [] then put_slot v (Some a) st = Inr st1 \<and> m = (sy_mem st)(a := s)
         else st1 = st \<and> m = (sy_mem st)(a := s, last (named st v ls) :=
           (sy_mem st (last (named st v ls)))\<lparr>sc_prev_tok := Some a\<rparr>)"
  shows "scoped_at (st1\<lparr>sy_mem := m\<rparr>) lh (Some a) ls (a # gs) fs" (is "scoped_at ?st _ _ _ _ _")
proof -
  let ?ms = "named st v ls"
  have mem: "set ?ms \<subseteq> set ls" by (auto simp: named_def)
  have last: "?ms \<noteq> [] \<Longrightarrow> last ?ms \<in> set ls \<and> sc_v (sy_mem st (last ?ms)) = v"
    using last_in_set [of ?ms] by (auto simp: named_def)
  have m: "m a = s" "\<And>b. b \<noteq> a \<Longrightarrow> m b = (if ?ms \<noteq> [] \<and> b = last ?ms then (sy_mem st b)\<lparr>sc_prev_tok := Some a\<rparr> else sy_mem st b)"
    using assms(2,8) last by (auto split: if_splits)
  have st1: "length (sy_table_ident st1) = length (sy_table_ident st)" "sy_pools st1 = sy_pools st" "sy_pool_nb st1 = sy_pool_nb st"
    "sy_free_first st1 = sy_free_first st"
    using assms(8) by (auto simp: put_slot_def Let_def split: if_splits)
  have slot1: "slot ?st w = (if ?ms = [] \<and> w = v then Some a else slot st w)" if "valid st w" for w
  proof -
    have "slot ?st w = slot st1 w" by (rule table_cong) simp
    moreover have "slot st1 w = (if ?ms = [] \<and> w = v then Some a else slot st w)"
    proof (cases "?ms = []")
      case True
      have "\<exists>x. put_slot v (Some a) st = Inr x \<and> (\<forall>w. valid st w \<longrightarrow> slot x w = (if w = v then Some a else slot st w))"
        using assms(6) by (elim put_slot_ok [of st v "Some a"]) auto
      then show ?thesis using True assms(8) that by auto
    qed (use assms(8) in auto)
    ultimately show ?thesis by simp
  qed
  have val: "valid ?st w = valid st w" for w using st1(1) by (simp add: valid_def)
  have same: "sc_v (m b) = sc_v (sy_mem st b)" "sc_prev (m b) = sc_prev (sy_mem st b)" "sc_next (m b) = sc_next (sy_mem st b)"
    if "b \<noteq> a" for b using m(2) [OF that] by auto
  have l: "wired st lh gh ls gs fs" using assms(1) by (simp add: scoped_at_def)
  have "wired (upd_sym a (\<lambda>_. s) st) (if False then Some a else lh) (if False then gh else Some a)
      (fst (pushed False a ls gs)) (snd (pushed False a ls gs)) fs"
    by (rule wired_push [OF l assms(2,3)]) (simp add: assms(5))
  then have "wired (upd_sym a (\<lambda>_. s) st) lh (Some a) ls (a # gs) fs" by (simp add: pushed_def)
  then have lk: "wired ?st lh (Some a) ls (a # gs) fs"
  proof (rule wired_cong)
    show "sc_prev (sy_mem ?st b) = sc_prev (sy_mem (upd_sym a (\<lambda>_. s) st) b)"
      "sc_next (sy_mem ?st b) = sc_next (sy_mem (upd_sym a (\<lambda>_. s) st) b)" for b
      using m(1) same [of b] by (cases "b = a"; simp add: upd_sym_def)+
  qed (simp_all add: upd_sym_def st1)
  have ndst: "named ?st w (ls @ a # gs) = named st w ls @ (if w = v then [a] else []) @ named st w gs" for w
  proof -
    have "named ?st w bs = named st w bs" if bs: "a \<notin> set bs" for bs
      unfolding named_def
    proof (rule filter_cong [OF refl])
      fix b assume "b \<in> set bs"
      then have "b \<noteq> a" using bs by blast
      from same(1) [OF this] show "(sc_v (sy_mem ?st b) = w) = (sc_v (sy_mem st b) = w)" by simp
    qed
    then show ?thesis using assms(2,4) m(1) by (auto simp: named_def)
  qed
  have chains: "chain (\<lambda>b. sc_prev_tok (sy_mem ?st b)) (slot ?st w) (named ?st w (ls @ a # gs))" if w: "valid st w" for w
  proof -
    have old: "chain (\<lambda>b. sc_prev_tok (sy_mem st b)) (slot st w) (named st w ls @ named st w gs)"
      using assms(1) w by (simp add: scoped_at_def named_def)
    have sub: "set (named st w ls @ named st w gs) \<subseteq> set (ls @ gs)" by (auto simp: named_def)
    show ?thesis
    proof (cases "w = v")
      case True
      have dst: "distinct (?ms @ named st v gs)" using l by (auto simp: wired_def named_def)
      have "chain (\<lambda>b. sc_prev_tok (sy_mem ?st b)) (if ?ms = [] then Some a else slot st v) (?ms @ a # named st v gs)"
      proof (rule chain_insert [OF _ dst])
        show "sc_prev_tok (sy_mem ?st b) = sc_prev_tok (sy_mem st b)"
          if "b \<in> set (?ms @ named st v gs)" "?ms = [] \<or> b \<noteq> last ?ms" for b
        proof -
          have "b \<noteq> a" using that(1) sub assms(2) True by auto
          then show ?thesis using m(2) [of b] that(2) by auto
        qed
        show "sc_prev_tok (sy_mem ?st (last ?ms)) = Some a" if "?ms \<noteq> []"
        proof -
          have "last ?ms \<noteq> a" using last [OF that] assms(2) by auto
          then show ?thesis using m(2) [of "last ?ms"] that by simp
        qed
      qed (use old True sub assms(2,7) m(1) in auto)
      then show ?thesis using slot1 [OF w] ndst [of w] True by (cases "?ms = []") simp_all
    next
      case False
      have "sc_prev_tok (sy_mem ?st b) = sc_prev_tok (sy_mem st b)" if "b \<in> set (named st w ls @ named st w gs)" for b
      proof -
        have "sc_v (sy_mem st b) = w" "b \<noteq> a" using that sub assms(2) by (auto simp: named_def)
        then show ?thesis using m(2) [of b] last False by auto
      qed
      then have "chain (\<lambda>b. sc_prev_tok (sy_mem ?st b)) (slot st w) (named st w ls @ named st w gs)"
        using old by (subst chain_cong [of _ _ "\<lambda>b. sc_prev_tok (sy_mem st b)"]) auto
      then show ?thesis using slot1 [OF w] ndst [of w] False by simp
    qed
  qed
  have rec: "valid st (sc_v (sy_mem ?st b))" if "b \<in> set (ls @ a # gs)" "recorded (sc_v (sy_mem ?st b))" for b
  proof (cases "b = a")
    case True
    then show ?thesis using m(1) assms(4,6) by simp
  next
    case False
    then show ?thesis using that assms(1) same(1) [OF False] by (auto simp: scoped_at_def)
  qed
  show ?thesis using lk chains rec assms(1) st1(1) unfolding scoped_at_def val by auto
qed

text \<open>The state after the declaration of a global symbol: the symbol is new and names of the others stay.\<close>

lemma global_push_result:
  assumes "scoped st ls gs fs" and "v < SYM_FIRST_ANOM" and "valid st v" and "length ls < k"
    and "\<forall>a\<in>set ls. sc_v (sy_mem st a) = v \<longrightarrow> sc_scope (sy_mem st a) \<noteq> 0"
    and "\<forall>a\<in>set gs. sc_v (sy_mem st a) = v \<longrightarrow> sc_scope (sy_mem st a) = 0"
  obtains a st' fs' where "global_identifier_push_tok k v t c st = Inr (a, st')" "scoped st' ls (a # gs) fs'"
    "sc_v (sy_mem st' a) = v" "sc_t (sy_mem st' a) = t" "a \<notin> set (ls @ gs)"
    "\<And>b. b \<noteq> a \<Longrightarrow> sc_v (sy_mem st' b) = sc_v (sy_mem st b)"
proof -
  have sc: "scoped_at st (sy_local_stack st) (sy_global_stack st) ls gs fs" using assms(1) by (simp add: scoped_def)
  from sym_push2_fresh [OF sc, of "sy_global_stack st" v t c] obtain a st0 fs' s0 where
    p: "sym_push2 (sy_global_stack st) v t c st = Inr (a, upd_sym a (\<lambda>_. s0) st0)"
    "scoped_at st0 (sy_local_stack st) (sy_global_stack st) ls gs fs'"
    "a \<notin> set (ls @ gs @ fs')" "a < sy_pools st0 * sy_pool_nb st0" "same_but_next (sy_mem st) (sy_mem st0)"
    "sy_local_stack st0 = sy_local_stack st" "sy_global_stack st0 = sy_global_stack st"
    "sy_local_scope st0 = sy_local_scope st" "sy_table_ident st0 = sy_table_ident st"
    "s0 = set_c c (zero_sym\<lparr>sc_v := v, sc_t := t, sc_prev := sy_global_stack st\<rparr>)" .
  let ?below = "case named st0 v gs of [] \<Rightarrow> None | n # _ \<Rightarrow> Some n"
  define s where "s = s0\<lparr>sc_r := VT_CONST OR VT_SYM, sc_prev_tok := ?below\<rparr>"
  define st1 where "st1 = (upd_sym a (\<lambda>_. s0\<lparr>sc_r := VT_CONST OR VT_SYM\<rparr>) st0)\<lparr>sy_global_stack := Some a\<rparr>"
  let ?ms = "named st0 v ls"
  note tok = small_token [OF assms(2)]
  have vs: "v AND NOT SYM_STRUCT = v"
  proof -
    have "tok_index v = tok_index (v AND NOT SYM_STRUCT)" by (simp add: tok_index_def)
    then show ?thesis using tok(5) by (intro same_slot) (simp_all add: tok_index_def and.assoc)
  qed
  have sv: "sint v < sint SYM_FIRST_ANOM" using tok(1) unfolding recorded_def vs by blast
  have v0: "valid st0 v" using assms(3) p(9) by (simp add: valid_def)
  have slot: "get_slot v st1 = Inr (slot st0 v)"
    using get_slot_valid [OF v0] get_slot_cong [of st1 st0 v] by (simp add: st1_def upd_sym_def)
  have m1: "sy_mem st1 b = sy_mem st0 b" if "b \<noteq> a" for b using that by (simp add: st1_def upd_sym_def)
  have mems: "b \<noteq> a \<and> sc_v (sy_mem st b) = v" if "b \<in> set (named st0 v bs)" "set bs \<subseteq> set (ls @ gs)" for b bs
    using that p(3) same_but_nextD(1) [OF p(5)] by (auto simp: named_def)
  have sc0: "sc_scope (sy_mem st0 b) = sc_scope (sy_mem st b)" for b
    using same_but_nextD(4) [OF p(5)] by (simp add: sc_scope_def)
  have skip: "skip_locals k (sy_mem st1) None (slot st0 v) = Inr (if ?ms = [] then None else Some (last ?ms), ?below)"
  proof (rule skip_locals_chain)
    have "chain (\<lambda>b. sc_prev_tok (sy_mem st0 b)) (slot st0 v) (?ms @ named st0 v gs)"
      using p(2) v0 by (simp add: scoped_at_def named_def)
    then show "chain (\<lambda>b. sc_prev_tok (sy_mem st1 b)) (slot st0 v) (?ms @ named st0 v gs)"
      using m1 mems [of _ ls] mems [of _ gs] by (subst chain_cong [of _ _ "\<lambda>b. sc_prev_tok (sy_mem st0 b)"]) auto
    show "\<forall>b\<in>set ?ms. sc_scope (sy_mem st1 b) \<noteq> 0"
      using assms(5) mems [of _ ls] m1 sc0 by (auto simp: named_def)
    show "\<forall>b\<in>set (named st0 v gs). sc_scope (sy_mem st1 b) = 0"
      using assms(6) mems [of _ gs] m1 sc0 by (auto simp: named_def)
    show "length ?ms < k" unfolding named_def by (rule le_less_trans [OF length_filter_le assms(4)])
  qed
  have st2: "upd_sym a (\<lambda>s. s\<lparr>sc_prev_tok := ?below\<rparr>) st1 = (upd_sym a (\<lambda>_. s) st0)\<lparr>sy_global_stack := Some a\<rparr>"
    by (simp add: st1_def s_def)
  obtain x m where x: "if ?ms = [] then put_slot v (Some a) st0 = Inr x \<and> m = (sy_mem st0)(a := s)
         else x = st0 \<and> m = (sy_mem st0)(a := s, last ?ms := (sy_mem st0 (last ?ms))\<lparr>sc_prev_tok := Some a\<rparr>)"
    by (rule put_slot_ok [OF v0, of "Some a"], cases "?ms = []") auto
  let ?st = "x\<lparr>sy_mem := m, sy_global_stack := Some a\<rparr>"
  have lne: "?ms \<noteq> [] \<Longrightarrow> last ?ms \<noteq> a" using mems [of "last ?ms" ls] by auto
  let ?st2 = "(upd_sym a (\<lambda>_. s) st0)\<lparr>sy_global_stack := Some a\<rparr>"
  have "global_identifier_push_tok k v t c st = (if ?ms = [] then bindR (put_slot v (Some a) ?st2) (\<lambda>st3. Inr (a, st3))
      else Inr (a, upd_sym (last ?ms) (\<lambda>s. s\<lparr>sc_prev_tok := Some a\<rparr>) ?st2))"
  proof -
    have "global_identifier_push_tok k v t c st = record_global k v a st1"
      using sv by (simp add: global_identifier_push_tok_def p(1) st1_def)
    also have "\<dots> = (case (if ?ms = [] then None else Some (last ?ms)) of
        None \<Rightarrow> bindR (put_slot v (Some a) ?st2) (\<lambda>st3. Inr (a, st3))
      | Some q \<Rightarrow> Inr (a, upd_sym q (\<lambda>s. s\<lparr>sc_prev_tok := Some a\<rparr>) ?st2))"
      unfolding record_global_def vs slot bindR_simps skip Let_def prod.case st2 ..
    finally show ?thesis by simp
  qed
  also have "\<dots> = Inr (a, ?st)"
  proof (cases "?ms = []")
    case True
    then show ?thesis using x by (simp add: put_slot_upd) (simp add: upd_sym_def put_slot_fields(1) [of v "Some a" st0 x])
  next
    case False
    then show ?thesis using x lne by (simp add: upd_sym_def)
  qed
  finally have push: "global_identifier_push_tok k v t c st = Inr (a, ?st)" .
  have "scoped_at (x\<lparr>sy_mem := m\<rparr>) (sy_local_stack st) (Some a) ls (a # gs) fs'"
    by (rule scoped_insert [OF p(2-4) _ _ v0 _ x]) (simp_all add: s_def p(10))
  then have "scoped ?st ls (a # gs) fs'"
    using x p(6) put_slot_fields(3) [of v "Some a" st0 x] by (auto simp: scoped_def split: if_splits)
  moreover have "sc_v (sy_mem ?st a) = v" "sc_t (sy_mem ?st a) = t"
    using x lne by (auto simp: s_def p(10) split: if_splits)
  moreover have "sc_v (sy_mem ?st b) = sc_v (sy_mem st b)" if "b \<noteq> a" for b
    using x that same_but_nextD(1) [OF p(5)] by (auto split: if_splits)
  moreover have "a \<notin> set (ls @ gs)" using p(3) by simp
  ultimately show ?thesis using that push by blast
qed

text \<open>
  C31: A global symbol declared inside a function (an implicit declaration, or a name used by inline
  assembly) goes behind the local symbols of its name, when the scope field read for each of these is not zero (an
  enumeration constant keeps part of its value there, so that the condition can fail for it): the local symbols are still found first, and the global symbol
  is found where they hide nothing and after their scopes are left. Every other name is found as before.
\<close>

theorem global_push_behind:
  assumes "scoped st ls gs fs" and "v < SYM_FIRST_ANOM" and "valid st v" and "w < SYM_FIRST_ANOM" and "length ls < k"
    and "\<forall>a\<in>set ls. sc_v (sy_mem st a) = v \<longrightarrow> sc_scope (sy_mem st a) \<noteq> 0"
    and "\<forall>a\<in>set gs. sc_v (sy_mem st a) = v \<longrightarrow> sc_scope (sy_mem st a) = 0"
  shows "\<exists>a st' fs'. global_identifier_push_tok k v t c st = Inr (a, st') \<and> scoped st' ls (a # gs) fs' \<and>
    sc_v (sy_mem st' a) = v \<and> sc_t (sy_mem st' a) = t \<and>
    sym_find_tok w st' = (if w = v \<and> (\<forall>b\<in>set ls. sc_v (sy_mem st b) \<noteq> v) then Some a else sym_find_tok w st)"
proof -
  obtain a st' fs' where
    p: "global_identifier_push_tok k v t c st = Inr (a, st')" "scoped st' ls (a # gs) fs'"
    "sc_v (sy_mem st' a) = v" "sc_t (sy_mem st' a) = t" "a \<notin> set (ls @ gs)"
    "\<And>b. b \<noteq> a \<Longrightarrow> sc_v (sy_mem st' b) = sc_v (sy_mem st b)"
    by (rule global_push_result [OF assms(1-3,5-7), of t c]) (rule that; (assumption | simp))
  have e: "find (\<lambda>b. sc_v (sy_mem st' b) = w) bs = find (\<lambda>b. sc_v (sy_mem st b) = w) bs" if "set bs \<subseteq> set (ls @ gs)" for bs
    by (rule find_cong, subst p(6)) (use that p(5) in auto)
  have "sym_find_tok w st' = find (\<lambda>b. sc_v (sy_mem st' b) = w) (ls @ a # gs)" by (rule lookup(1) [OF p(2) assms(4)])
  moreover have "sym_find_tok w st = find (\<lambda>b. sc_v (sy_mem st b) = w) (ls @ gs)" by (rule lookup(1) [OF assms(1,4)])
  moreover have "find (\<lambda>b. sc_v (sy_mem st b) = v) ls = None \<longleftrightarrow> (\<forall>b\<in>set ls. sc_v (sy_mem st b) \<noteq> v)"
    by (auto simp: find_None_iff)
  ultimately have "sym_find_tok w st' = (if w = v \<and> (\<forall>b\<in>set ls. sc_v (sy_mem st b) \<noteq> v) then Some a else sym_find_tok w st)"
    using e [of ls] e [of gs] p(3) by (cases "w = v") (auto simp: find_append split: option.splits)
  then show ?thesis using p(1-4) by blast
qed

section \<open>Examples\<close>

text \<open>
  The start of a function: the dummy symbol on the local stack, tokens 256 and 257 without symbols;
  then the declaration of 256 in scope 1.
\<close>

definition fn_start :: syms_state where
  "fn_start = \<lparr>sy_mem = (\<lambda>a. zero_sym\<lparr>sc_v := SYM_FIELD\<rparr>), sy_free_first = None, sy_pools = 1, sy_pool_nb = 2,
     sy_local_stack = Some 0, sy_global_stack = None, sy_local_scope = 1,
     sy_table_ident = [\<lparr>ts_struct = None, ts_identifier = None\<rparr>, \<lparr>ts_struct = None, ts_identifier = None\<rparr>]\<rparr>"

definition fn_decl :: syms_state where
  "fn_decl = (case sym_push 256 VT_INT None 0x132 0 fn_start of Inl e \<Rightarrow> fn_start | Inr (a, st) \<Rightarrow> st)"

lemma fn_start_scoped: "scoped fn_start [0] [] []"
proof -
  have "\<not> recorded SYM_FIELD" by (simp add: recorded_def)
  then have s: "slot fn_start v = None \<and> v \<noteq> SYM_FIELD" if "valid fn_start v" for v
    using that by (auto simp: valid_def slot_def get_slot_def fn_start_def Let_def nth_Cons split: nat.splits)
  have "wired fn_start (Some 0) None [0] [] []" by (simp add: wired_def fn_start_def zero_sym_def)
  moreover have "sy_local_stack fn_start = Some 0" "sy_global_stack fn_start = None"
    "sc_v (sy_mem fn_start a) = SYM_FIELD" "256 + length (sy_table_ident fn_start) \<le> 2 ^ 28" for a
    by (simp_all add: fn_start_def)
  ultimately show ?thesis using \<open>\<not> recorded SYM_FIELD\<close>
    by (auto simp: scoped_def scoped_at_def named_def dest: s)
qed

lemma fn_decl_push: "sym_push 256 VT_INT None 0x132 0 fn_start = Inr (3, fn_decl)"
proof -
  have "\<exists>st. sym_push 256 VT_INT None 0x132 0 fn_start = Inr (3, st)"
    by (simp add: sym_push_def sym_push2_def sym_malloc_def new_pool_def fn_start_def record_sym_def recorded_def
        get_slot_def put_slot_def tok_index_def upd_sym_def Let_def numeral_2_eq_2)
  then show ?thesis by (auto simp: fn_decl_def)
qed

lemma fn_decl_scoped: obtains fs where "scoped fn_decl [3, 0] [] fs"
  using sym_push_result(1) [OF fn_start_scoped fn_decl_push] by (auto simp: pushed_def fn_start_def)

theorem sym_find_newest_witness:
  "sym_find_tok 256 fn_decl = find (\<lambda>a. sc_v (sy_mem fn_decl a) = 256) ([3, 0] @ []) \<and>
   struct_find 256 fn_decl = find (\<lambda>a. sc_v (sy_mem fn_decl a) = (256 OR SYM_STRUCT)) ([3, 0] @ [])"
proof -
  obtain fs where "scoped fn_decl [3, 0] [] fs" by (rule fn_decl_scoped)
  then show ?thesis by (rule sym_find_newest) simp
qed

theorem sym_push_hides_witness:
  "(3 :: nat) \<notin> set ([0] @ []) \<and> sym_find_tok 256 fn_decl = (if (256 :: u32) = 256 then Some 3 else sym_find_tok 256 fn_start) \<and>
   struct_find 256 fn_decl = (if (256 :: u32) = (256 OR SYM_STRUCT) then Some 3 else struct_find 256 fn_start) \<and>
   sc_t (sy_mem fn_decl 3) = VT_INT \<and> sc_r (sy_mem fn_decl 3) = 0x132 \<and> sc_c (sy_mem fn_decl 3) = 0 \<and>
   (if recorded 256 then sc_scope (sy_mem fn_decl 3) = sy_local_scope fn_start else True) \<and>
   (\<exists>fs'. if sy_local_stack fn_start \<noteq> None then scoped fn_decl [3, 0] [] fs' else scoped fn_decl [0] [3] fs')"
  by (rule sym_push_hides [OF fn_start_scoped fn_decl_push]) simp

theorem sym_pop_restores_witness:
  "\<exists>st2 fs2. sym_pop_local 1 (sy_local_stack fn_start) False fn_decl = Inr st2 \<and> scoped st2 [0] [] fs2 \<and>
    sym_find_tok 256 st2 = sym_find_tok 256 fn_start \<and> struct_find 256 st2 = struct_find 256 fn_start"
proof (rule sym_pop_restores [OF fn_start_scoped])
  show "sym_pushes [(256, VT_INT, None, 0x132, 0)] fn_start = Inr fn_decl" by (simp add: fn_decl_push)
qed (simp_all add: fn_start_def)

text \<open>The same name declared global behind its local symbol.\<close>

theorem global_push_behind_witness:
  "\<exists>a st' fs'. global_identifier_push_tok 3 256 VT_FUNC 0 fn_decl = Inr (a, st') \<and> scoped st' [3, 0] (a # []) fs' \<and>
    sc_v (sy_mem st' a) = 256 \<and> sc_t (sy_mem st' a) = VT_FUNC \<and>
    sym_find_tok 256 st' = (if (256 :: u32) = 256 \<and> (\<forall>b\<in>set [3, 0]. sc_v (sy_mem fn_decl b) \<noteq> 256) then Some a
      else sym_find_tok 256 fn_decl)"
proof -
  obtain fs where s: "scoped fn_decl [3, 0] [] fs" by (rule fn_decl_scoped)
  note p = sym_push_result [OF fn_start_scoped fn_decl_push]
  have "length (sy_table_ident fn_decl) = 2" using p(11) by (simp add: fn_start_def)
  then have "valid fn_decl 256" by (simp add: valid_def recorded_def tok_index_def)
  moreover have "sc_scope (sy_mem fn_decl 3) \<noteq> 0" using p(8) by (simp add: recorded_def fn_start_def)
  moreover have "sc_v (sy_mem fn_decl 0) \<noteq> 256"
    by (subst p(9)) (simp_all add: fn_start_def)
  ultimately show ?thesis by (intro global_push_behind [OF s]) simp_all
qed

end
