(* ===== verification/Switch_Cases.thy ===== *)
theory Switch_Cases
  imports Prelude
begin

text \<open>
  The code of a switch (gcase and the end of the switch statement in block, tccgen.c): the cases
  are sorted, overlapping ones are refused, and a tree of comparisons, binary down to eight cases and
  linear below, jumps to the case of a value.

  The switch value is in a register, so that one comparison, that is vdup, the push of the constant,
  gen_op and gvtst, is one conditional jump of the generated code; it is one \<open>Test\<close> here. A list of jumps is
  the list of their places. Addresses of cases are those of code generated before.
\<close>

section \<open>Generated code\<close>

datatype cmp_op = Cmp_LE | Cmp_GE | Cmp_EQ

datatype target = Pending | Here nat | Case_Addr nat

text \<open>\<open>Test op neg v t\<close> jumps to t if the value compares so with v, or not, when \<open>neg\<close> is set.\<close>

datatype sw_insn = Test cmp_op bool u64 target | Jump target

fun set_target :: "target \<Rightarrow> sw_insn \<Rightarrow> sw_insn" where
  "set_target t (Test op neg v t0) = Test op neg v t"
| "set_target t (Jump t0) = Jump t"

text \<open>A comparison and its jump, gvtst (neg, 0): the jump list and the code.\<close>

definition sw_test :: "cmp_op \<Rightarrow> bool \<Rightarrow> u64 \<Rightarrow> sw_insn list \<Rightarrow> nat list \<times> sw_insn list" where
  "sw_test op neg v code = ([length code], code @ [Test op neg v Pending])"

definition sw_jmp :: "nat list \<Rightarrow> sw_insn list \<Rightarrow> nat list \<times> sw_insn list" where
  "sw_jmp t code = (length code # t, code @ [Jump Pending])"

definition sw_resolve :: "nat list \<Rightarrow> target \<Rightarrow> sw_insn list \<Rightarrow> sw_insn list" where
  "sw_resolve t a code = fold (\<lambda>i c. c[i := set_target a (c ! i)]) t code"

definition sw_gsym :: "nat list \<Rightarrow> sw_insn list \<Rightarrow> sw_insn list" where
  "sw_gsym t code = sw_resolve t (Here (length code)) code"

definition gtst_addr :: "cmp_op \<Rightarrow> u64 \<Rightarrow> nat \<Rightarrow> sw_insn list \<Rightarrow> sw_insn list" where
  "gtst_addr op v a code = (let (t, c) = sw_test op False v code in sw_resolve t (Case_Addr a) c)"

section \<open>Cases\<close>

record case_t =
  cs_v1 :: u64
  cs_v2 :: u64
  cs_sym :: nat

definition gcase_one :: "case_t \<Rightarrow> sw_insn list \<Rightarrow> sw_insn list" where
  "gcase_one p code =
     (if cs_v1 p = cs_v2 p then gtst_addr Cmp_EQ (cs_v2 p) (cs_sym p) code
      else let (e, c1) = sw_test Cmp_LE True (cs_v2 p) code in
           sw_gsym e (gtst_addr Cmp_GE (cs_v1 p) (cs_sym p) c1))"

function gcase :: "case_t list \<Rightarrow> nat list \<Rightarrow> sw_insn list \<Rightarrow> nat list \<times> sw_insn list" where
  "gcase base bsym code =
     (if length base > 8 then
        (let n = length base div 2; p = base ! n;
             (e, c1) = sw_test Cmp_LE True (cs_v2 p) code;
             c2 = gtst_addr Cmp_GE (cs_v1 p) (cs_sym p) c1;
             (bsym1, c3) = gcase (take n base) bsym c2
         in gcase (drop (n + 1) base) bsym1 (sw_gsym e c3))
      else sw_jmp bsym (fold gcase_one base code))"
  by pat_completeness auto
termination
  by (relation "measure (\<lambda>(base, bsym, code). length base)") auto

declare gcase.simps [simp del]

section \<open>The statement\<close>

text \<open>The order of the cases: case_cmpu when the type of the switch value is unsigned, else case_cmpi.\<close>

definition case_key :: "bool \<Rightarrow> u64 \<Rightarrow> int" where
  "case_key uns v = (if uns then uint v else sint v)"

fun overlap :: "bool \<Rightarrow> case_t list \<Rightarrow> bool" where
  "overlap uns (p # q # ps) \<longleftrightarrow> case_key uns (cs_v2 p) \<ge> case_key uns (cs_v1 q) \<or> overlap uns (q # ps)"
| "overlap uns ps \<longleftrightarrow> False"

text \<open>The list of jumps to the default and the code.\<close>

definition switch_code :: "bool \<Rightarrow> case_t list \<Rightarrow> (nat list \<times> sw_insn list) res" where
  "switch_code uns cs =
     (let ps = sort_key (\<lambda>p. case_key uns (cs_v1 p)) cs in
      if overlap uns ps then Inl (TccError ''duplicate case value'')
      else Inr (gcase ps [] []))"

section \<open>Running it\<close>

text \<open>
  What a test compares with: vpushi takes the lower half of the value of the case, vpushll all of
  it; the comparison is unsigned for unsigned int and unsigned long long.
\<close>

definition cmp_val :: "bool \<Rightarrow> bool \<Rightarrow> u64 \<Rightarrow> int" where
  "cmp_val ll uns v =
     (if ll then (if uns then uint v else sint v)
      else (if uns then uint (ucast v :: u32) else sint (ucast v :: u32)))"

fun compares :: "cmp_op \<Rightarrow> int \<Rightarrow> int \<Rightarrow> bool" where
  "compares Cmp_LE x v \<longleftrightarrow> x \<le> v"
| "compares Cmp_GE x v \<longleftrightarrow> x \<ge> v"
| "compares Cmp_EQ x v \<longleftrightarrow> x = v"

text \<open>
  Where the code goes for the value x: to a case, to a jump that is still pending (the default), over
  the end of the code, or back.
\<close>

datatype outcome = Goes_To nat | Waits_At nat | Falls_Off | Goes_Back

function sw_run :: "(u64 \<Rightarrow> int) \<Rightarrow> sw_insn list \<Rightarrow> int \<Rightarrow> nat \<Rightarrow> outcome" where
  "sw_run val code x i =
     (if i \<ge> length code then Falls_Off
      else let (taken, t) = (case code ! i of Test op neg v t \<Rightarrow> (compares op x (val v) \<noteq> neg, t) | Jump t \<Rightarrow> (True, t)) in
        if \<not> taken then sw_run val code x (i + 1)
        else case t of Pending \<Rightarrow> Waits_At i | Case_Addr a \<Rightarrow> Goes_To a
          | Here j \<Rightarrow> if j \<le> i then Goes_Back else sw_run val code x j)"
  by pat_completeness auto
termination
  by (relation "measure (\<lambda>(val, code, x, i). length code - i)") auto

declare sw_run.simps [simp del]

end
