(* ===== verification/Switch_Cases_Props.thy ===== *)
theory Switch_Cases_Props
  imports Switch_Cases
begin

text \<open>
  The comparisons of a switch find the case of every value, and the default for the others, as long as
  the cases keep their values in the type that is compared; two examples show what happens when they do not.
\<close>

section \<open>The code as a tree\<close>

definition one :: "nat \<Rightarrow> case_t \<Rightarrow> sw_insn list" where
  "one n p = (if cs_v1 p = cs_v2 p then [Test Cmp_EQ False (cs_v2 p) (Case_Addr (cs_sym p))]
     else [Test Cmp_LE True (cs_v2 p) (Here (n + 2)), Test Cmp_GE False (cs_v1 p) (Case_Addr (cs_sym p))])"

fun linear :: "nat \<Rightarrow> case_t list \<Rightarrow> sw_insn list" where
  "linear n [] = [Jump Pending]"
| "linear n (p # ps) = one n p @ linear (n + length (one n p)) ps"

function tree :: "nat \<Rightarrow> case_t list \<Rightarrow> sw_insn list" where
  "tree n cs =
     (if length cs > 8 then
        (let k = length cs div 2; p = cs ! k; l = tree (n + 2) (take k cs); m = n + 2 + length l in
         [Test Cmp_LE True (cs_v2 p) (Here m), Test Cmp_GE False (cs_v1 p) (Case_Addr (cs_sym p))] @ l @ tree m (drop (k + 1) cs))
      else linear n cs)"
  by pat_completeness auto
termination
  by (relation "measure (\<lambda>(n, cs). length cs)") auto

function waits :: "nat \<Rightarrow> case_t list \<Rightarrow> nat list" where
  "waits n cs =
     (if length cs > 8 then
        (let k = length cs div 2; l = tree (n + 2) (take k cs) in
         waits (n + 2 + length l) (drop (k + 1) cs) @ waits (n + 2) (take k cs))
      else [n + length (linear n cs) - 1])"
  by pat_completeness auto
termination
  by (relation "measure (\<lambda>(n, cs). length cs)") auto

declare tree.simps [simp del] waits.simps [simp del]

lemma gcase_one_code: "gcase_one p code = code @ one (length code) p"
  by (simp add: gcase_one_def one_def gtst_addr_def sw_test_def sw_resolve_def sw_gsym_def nth_append list_update_append)

lemma linear_code: "sw_jmp bsym (fold gcase_one ps code) = ((length code + length (linear (length code) ps) - 1) # bsym, code @ linear (length code) ps)"
proof (induction ps arbitrary: code)
  case Nil
  then show ?case by (simp add: sw_jmp_def)
next
  case (Cons p ps)
  have "linear n ps \<noteq> []" for n by (cases ps) (auto simp: one_def)
  then show ?case using Cons.IH [of "gcase_one p code"] by (simp add: gcase_one_code)
qed

lemma gcase_code: "gcase cs bsym code = (waits (length code) cs @ bsym, code @ tree (length code) cs)"
proof (induction cs bsym code rule: gcase.induct)
  case (1 cs bsym code)
  show ?case
  proof (cases "length cs > 8")
    case False
    then show ?thesis by (simp add: gcase.simps [of cs] tree.simps [of _ cs] waits.simps [of _ cs] linear_code)
  next
    case True
    let ?k = "length cs div 2" and ?n = "length code"
    let ?p = "cs ! ?k"
    let ?c2 = "code @ [Test Cmp_LE True (cs_v2 ?p) Pending, Test Cmp_GE False (cs_v1 ?p) (Case_Addr (cs_sym ?p))]"
    let ?l = "tree (?n + 2) (take ?k cs)"
    let ?m = "?n + 2 + length ?l"
    have t: "sw_test Cmp_LE True (cs_v2 ?p) code = ([?n], code @ [Test Cmp_LE True (cs_v2 ?p) Pending])" by (simp add: sw_test_def)
    have c2: "gtst_addr Cmp_GE (cs_v1 ?p) (cs_sym ?p) (code @ [Test Cmp_LE True (cs_v2 ?p) Pending]) = ?c2"
      by (simp add: gtst_addr_def sw_test_def sw_resolve_def nth_append list_update_append)
    have l: "gcase (take ?k cs) bsym ?c2 = (waits (?n + 2) (take ?k cs) @ bsym, ?c2 @ ?l)"
      using 1(1) [OF True refl refl t [symmetric] refl c2 [symmetric]] by simp
    let ?c4 = "code @ [Test Cmp_LE True (cs_v2 ?p) (Here ?m), Test Cmp_GE False (cs_v1 ?p) (Case_Addr (cs_sym ?p))] @ ?l"
    have g: "sw_gsym [?n] (?c2 @ ?l) = ?c4"
      by (simp add: sw_gsym_def sw_resolve_def nth_append list_update_append)
    have r: "gcase (drop (?k + 1) cs) (waits (?n + 2) (take ?k cs) @ bsym) ?c4 =
        (waits ?m (drop (?k + 1) cs) @ waits (?n + 2) (take ?k cs) @ bsym, ?c4 @ tree ?m (drop (?k + 1) cs))"
      using 1(2) [OF True refl refl t [symmetric] refl c2 [symmetric] l [symmetric] refl] unfolding g by simp
    have "gcase cs bsym code = gcase (drop (?k + 1) cs) (waits (?n + 2) (take ?k cs) @ bsym) ?c4"
      using True by (subst gcase.simps) (simp only: if_True Let_def t c2 l g prod.case)
    then show ?thesis unfolding r using True
      by (simp add: tree.simps [of ?n cs] waits.simps [of ?n cs] Let_def)
  qed
qed

section \<open>Where it goes\<close>

definition hits :: "(u64 \<Rightarrow> int) \<Rightarrow> int \<Rightarrow> case_t \<Rightarrow> bool" where
  "hits val x p \<longleftrightarrow> val (cs_v1 p) \<le> x \<and> x \<le> val (cs_v2 p)"

text \<open>The right place for x among the cases: the address of its case, or one of the pending jumps.\<close>

definition right_place :: "(u64 \<Rightarrow> int) \<Rightarrow> int \<Rightarrow> case_t list \<Rightarrow> nat list \<Rightarrow> outcome \<Rightarrow> bool" where
  "right_place val x cs t r \<longleftrightarrow>
     (case find (hits val x) cs of Some p \<Rightarrow> r = Goes_To (cs_sym p) | None \<Rightarrow> (\<exists>j\<in>set t. r = Waits_At j))"

lemma run_one:
  assumes "length pre = n"
  shows "sw_run val (pre @ one n p @ rest) x n =
    (if hits val x p then Goes_To (cs_sym p) else sw_run val (pre @ one n p @ rest) x (n + length (one n p)))"
proof (cases "cs_v1 p = cs_v2 p")
  case True
  then show ?thesis using assms
    by (subst sw_run.simps) (auto simp: one_def nth_append hits_def)
next
  case False
  let ?code = "pre @ one n p @ rest"
  have c: "?code ! n = Test Cmp_LE True (cs_v2 p) (Here (n + 2))" "?code ! Suc n = Test Cmp_GE False (cs_v1 p) (Case_Addr (cs_sym p))"
    "length ?code > Suc n" "length (one n p) = 2"
    using False assms by (simp_all add: one_def nth_append)
  have "sw_run val ?code x n = (if x \<le> val (cs_v2 p) then sw_run val ?code x (Suc n) else sw_run val ?code x (n + 2))"
    using c by (subst sw_run.simps) simp
  moreover have "sw_run val ?code x (Suc n) = (if val (cs_v1 p) \<le> x then Goes_To (cs_sym p) else sw_run val ?code x (n + 2))"
    using c by (subst sw_run.simps) simp
  ultimately show ?thesis using c by (simp add: hits_def)
qed

lemma run_linear:
  assumes "length pre = n"
  shows "right_place val x ps [n + length (linear n ps) - 1] (sw_run val (pre @ linear n ps @ rest) x n)"
  using assms
proof (induction ps arbitrary: pre n)
  case Nil
  then show ?case by (subst sw_run.simps) (simp add: right_place_def nth_append)
next
  case (Cons p ps)
  let ?n = "n + length (one n p)"
  have "linear ?n ps \<noteq> []" by (cases ps) (auto simp: one_def)
  then have e: "n + length (linear n (p # ps)) - 1 = ?n + length (linear ?n ps) - 1" by (simp add: add.assoc)
  have "right_place val x ps [?n + length (linear ?n ps) - 1] (sw_run val ((pre @ one n p) @ linear ?n ps @ rest) x ?n)"
    using Cons.prems by (intro Cons.IH) simp
  then have r: "right_place val x ps [?n + length (linear ?n ps) - 1] (sw_run val (pre @ linear n (p # ps) @ rest) x ?n)" by simp
  have o: "sw_run val (pre @ linear n (p # ps) @ rest) x n =
      (if hits val x p then Goes_To (cs_sym p) else sw_run val (pre @ linear n (p # ps) @ rest) x ?n)"
    using run_one [OF Cons.prems, of val p "linear ?n ps @ rest" x] by simp
  show ?case
  proof (cases "hits val x p")
    case True
    then show ?thesis using o by (simp add: right_place_def)
  next
    case False
    then have "find (hits val x) (p # ps) = find (hits val x) ps" by simp
    then show ?thesis using r False unfolding o e right_place_def by (simp only: if_False)
  qed
qed

text \<open>Cases that are not empty and follow each other without overlap.\<close>

definition ordered :: "(u64 \<Rightarrow> int) \<Rightarrow> case_t list \<Rightarrow> bool" where
  "ordered val cs \<longleftrightarrow> sorted_wrt (\<lambda>p q. val (cs_v2 p) < val (cs_v1 q)) cs \<and> (\<forall>p\<in>set cs. val (cs_v1 p) \<le> val (cs_v2 p))"

lemma ordered_unique:
  assumes "ordered val cs" and "p \<in> set cs" and "q \<in> set cs" and "hits val x p" and "hits val x q"
  shows "p = q"
  using assms
proof (induction cs)
  case (Cons c cs)
  have "ordered val cs" "\<forall>q\<in>set cs. val (cs_v2 c) < val (cs_v1 q)"
    using Cons.prems(1) by (simp_all add: ordered_def)
  then show ?case using Cons.IH Cons.prems(2-5) by (auto simp: hits_def)
qed simp

lemma find_no: "(\<And>q. q \<in> set xs \<Longrightarrow> \<not> P q) \<Longrightarrow> find P xs = None"
  by (auto simp: find_None_iff)

lemma run_tree:
  assumes "ordered val cs" and "length pre = n"
  shows "right_place val x cs (waits n cs) (sw_run val (pre @ tree n cs @ rest) x n)"
  using assms
proof (induction n cs arbitrary: pre rest rule: tree.induct)
  case (1 n cs)
  show ?case
  proof (cases "length cs > 8")
    case False
    then show ?thesis using run_linear [OF 1(4), of val x cs rest] by (simp add: tree.simps [of n cs] waits.simps [of n cs])
  next
    case True
    let ?k = "length cs div 2"
    let ?p = "cs ! ?k" and ?L = "take ?k cs" and ?R = "drop (?k + 1) cs"
    let ?l = "tree (n + 2) ?L"
    let ?m = "n + 2 + length ?l"
    let ?two = "[Test Cmp_LE True (cs_v2 ?p) (Here ?m), Test Cmp_GE False (cs_v1 ?p) (Case_Addr (cs_sym ?p))]"
    have t: "tree n cs = ?two @ ?l @ tree ?m ?R" using True by (simp add: tree.simps [of n cs] Let_def)
    have w: "waits n cs = waits ?m ?R @ waits (n + 2) ?L" using True by (simp add: waits.simps [of n cs] Let_def)
    have k: "?k < length cs" using True by simp
    have cs: "cs = ?L @ ?p # ?R" using id_take_nth_drop [OF k] by simp
    have o: "ordered val (?L @ ?p # ?R)" using 1(3) cs by simp
    then have oL: "ordered val ?L" and oR: "ordered val ?R" and vp: "val (cs_v1 ?p) \<le> val (cs_v2 ?p)"
      and lp: "\<And>q. q \<in> set ?L \<Longrightarrow> val (cs_v2 q) < val (cs_v1 ?p)" and pr: "\<And>q. q \<in> set ?R \<Longrightarrow> val (cs_v2 ?p) < val (cs_v1 q)"
      unfolding ordered_def by (simp_all add: sorted_wrt_append)
    have fcs: "find (hits val x) cs = (case find (hits val x) ?L of None \<Rightarrow> (if hits val x ?p then Some ?p else find (hits val x) ?R) | Some z \<Rightarrow> Some z)"
      using arg_cong [OF cs, of "find (hits val x)"] by (simp add: find_append split: option.splits)
    let ?code = "pre @ tree n cs @ rest"
    have c: "?code ! n = ?two ! 0" "?code ! Suc n = ?two ! 1" "length ?code > Suc n"
      using 1(4) by (simp_all add: t nth_append)
    have s1: "sw_run val ?code x n = (if x \<le> val (cs_v2 ?p) then sw_run val ?code x (Suc n) else sw_run val ?code x ?m)"
      using c by (subst sw_run.simps) simp
    have s2: "sw_run val ?code x (Suc n) = (if val (cs_v1 ?p) \<le> x then Goes_To (cs_sym ?p) else sw_run val ?code x (n + 2))"
      using c by (subst sw_run.simps) simp
    have iL: "right_place val x ?L (waits (n + 2) ?L) (sw_run val ?code x (n + 2))"
      using 1(1) [OF True refl refl oL, of "pre @ ?two" "tree ?m ?R @ rest"] 1(4) by (simp add: t)
    have iR: "right_place val x ?R (waits ?m ?R) (sw_run val ?code x ?m)"
      using 1(2) [OF True refl refl refl refl oR, of "pre @ ?two @ ?l" rest] 1(4) by (simp add: t)
    consider "val (cs_v2 ?p) < x" | "hits val x ?p" | "x < val (cs_v1 ?p)" unfolding hits_def by linarith
    then show ?thesis
    proof cases
      case 1
      have "find (hits val x) ?L = None" using lp vp 1 by (intro find_no) (force simp: hits_def)
      then have "find (hits val x) cs = find (hits val x) ?R" using fcs 1 by (simp add: hits_def)
      then show ?thesis using iR 1 s1 unfolding right_place_def w by (auto split: option.splits)
    next
      case 2
      have "find (hits val x) ?L = None" using lp 2 by (intro find_no) (force simp: hits_def)
      then show ?thesis using fcs 2 s1 s2 by (simp add: right_place_def hits_def)
    next
      case 3
      have "find (hits val x) ?R = None" using pr vp 3 by (intro find_no) (force simp: hits_def)
      then have "find (hits val x) cs = find (hits val x) ?L" using fcs 3 by (auto simp: hits_def split: option.splits)
      then show ?thesis using iL 3 s1 s2 vp unfolding right_place_def w by (auto split: option.splits)
    qed
  qed
qed

section \<open>The switch\<close>

lemma no_overlap_ordered:
  assumes "\<not> overlap uns ps" and "\<forall>p\<in>set ps. case_key uns (cs_v1 p) \<le> case_key uns (cs_v2 p)"
  shows "ordered (case_key uns) ps"
  using assms
proof (induction uns ps rule: overlap.induct)
  case (1 uns p q ps)
  then have o: "ordered (case_key uns) (q # ps)" "case_key uns (cs_v2 p) < case_key uns (cs_v1 q)" by simp_all
  have "case_key uns (cs_v1 q) \<le> case_key uns (cs_v2 q)" using 1(3) by simp
  then have "case_key uns (cs_v2 p) < case_key uns (cs_v1 r)" if "r \<in> set (q # ps)" for r
    using o that by (force simp: ordered_def)
  then show ?case using o 1(3) by (simp add: ordered_def)
qed (simp_all add: ordered_def)

text \<open>A case whose values are the same when they are sorted and when they are compared.\<close>

definition keeps_value :: "bool \<Rightarrow> (u64 \<Rightarrow> int) \<Rightarrow> case_t \<Rightarrow> bool" where
  "keeps_value uns val p \<longleftrightarrow> case_key uns (cs_v1 p) = val (cs_v1 p) \<and> case_key uns (cs_v2 p) = val (cs_v2 p) \<and>
     val (cs_v1 p) \<le> val (cs_v2 p)"

lemma ordered_cong:
  assumes "ordered val cs" and "\<And>p. p \<in> set cs \<Longrightarrow> val (cs_v1 p) = val' (cs_v1 p) \<and> val (cs_v2 p) = val' (cs_v2 p)"
  shows "ordered val' cs"
proof -
  have "sorted_wrt (\<lambda>p q. val' (cs_v2 p) < val' (cs_v1 q)) cs"
    by (rule sorted_wrt_mono_rel [of _ "\<lambda>p q. val (cs_v2 p) < val (cs_v1 q)"]) (use assms in \<open>simp_all add: ordered_def\<close>)
  moreover have "\<forall>p\<in>set cs. val' (cs_v1 p) \<le> val' (cs_v2 p)" using assms by (simp add: ordered_def)
  ultimately show ?thesis by (simp add: ordered_def)
qed

text \<open>
  C15: When no case range is empty and the values of all cases are the same as they are sorted and as they
  are compared (in a switch over an int, when each fits the int), the comparisons generated for a switch lead every
  value to the code of the case that has it, a case range or a single value, and to a pending jump, the default,
  when no case has it, the same as trying the cases in the order of the source. This holds for signed and unsigned,
  int and long long switches of any number of cases. Both conditions are needed: switch_misses_wide_case and
  switch_misses_after_empty_range.
\<close>

theorem switch_goes_right:
  assumes "switch_code uns cs = Inr (d, code)" and "list_all (keeps_value uns (cmp_val ll cu)) cs"
  shows "right_place (cmp_val ll cu) x cs d (sw_run (cmp_val ll cu) code x 0)"
proof -
  let ?val = "cmp_val ll cu"
  let ?ps = "sort_key (\<lambda>p. case_key uns (cs_v1 p)) cs"
  have k: "keeps_value uns ?val p" if "p \<in> set cs" for p using assms(2) that by (simp add: list_all_iff)
  have code: "\<not> overlap uns ?ps" "d = waits 0 ?ps" "code = tree 0 ?ps"
    using assms(1) by (auto simp: switch_code_def Let_def gcase_code split: if_splits)
  have "ordered (case_key uns) ?ps"
    using k by (intro no_overlap_ordered [OF code(1)]) (simp add: keeps_value_def)
  then have o: "ordered ?val ?ps" by (rule ordered_cong) (use k in \<open>simp add: keeps_value_def\<close>)
  have "find (hits ?val x) ?ps = find (hits ?val x) cs"
  proof (cases "find (hits ?val x) cs")
    case None
    then have "find (hits ?val x) ?ps = None" by (auto simp: find_None_iff)
    then show ?thesis using None by simp
  next
    case (Some q)
    then have q: "q \<in> set ?ps" "hits ?val x q" using find_SomeD [OF Some] by simp_all
    then obtain p where p: "find (hits ?val x) ?ps = Some p" by (cases "find (hits ?val x) ?ps") (auto simp: find_None_iff)
    then have "p \<in> set ?ps" "hits ?val x p" using find_SomeD by fast+
    then have "p = q" using ordered_unique [OF o _ q(1) _ q(2)] by blast
    then show ?thesis using p Some by simp
  qed
  then show ?thesis using run_tree [OF o list.size(3), of x "[]"] unfolding code(2,3) right_place_def
    by (simp only: append_Nil append_Nil2)
qed

text \<open>Ten cases of one value each, enough for the binary search; their code is at ten times the value.\<close>

definition single :: "u64 \<Rightarrow> nat \<Rightarrow> case_t" where
  "single v a = \<lparr>cs_v1 = v, cs_v2 = v, cs_sym = a\<rparr>"

definition ten_cases :: "case_t list" where
  "ten_cases = map (\<lambda>i. single (word_of_nat i) (10 * i)) [10, 9, 8, 7, 6, 5, 4, 3, 2, 1]"

theorem switch_goes_right_witness:
  "\<exists>d code. switch_code False ten_cases = Inr (d, code) \<and>
    right_place (cmp_val False False) 7 ten_cases d (sw_run (cmp_val False False) code 7 0)"
proof -
  have "\<exists>d code. switch_code False ten_cases = Inr (d, code)"
  proof -
    have "\<not> overlap False (sort_key (\<lambda>p. case_key False (cs_v1 p)) ten_cases)"
      by (simp add: ten_cases_def single_def case_key_def)
    then show ?thesis by (simp add: switch_code_def Let_def gcase_code)
  qed
  then obtain d code where c: "switch_code False ten_cases = Inr (d, code)" by blast
  have "list_all (keeps_value False (cmp_val False False)) ten_cases"
    by (simp add: ten_cases_def single_def keeps_value_def case_key_def cmp_val_def)
  from switch_goes_right [OF c this] c show ?thesis by blast
qed

text \<open>An int switch with the cases 0 to 8 and 0xffffffff, whose value as an int is -1.\<close>

definition wide_cases :: "case_t list" where
  "wide_cases = single 0xffffffff 99 # map (\<lambda>i. single (word_of_nat i) (10 * i)) [0, 1, 2, 3, 4, 5, 6, 7, 8]"

definition run_switch :: "bool \<Rightarrow> bool \<Rightarrow> case_t list \<Rightarrow> int \<Rightarrow> outcome" where
  "run_switch uns ll cs x = (case switch_code uns cs of Inl e \<Rightarrow> Falls_Off | Inr (d, code) \<Rightarrow> sw_run (cmp_val ll uns) code x 0)"

lemma wide_sorted:
  "sort_key (\<lambda>p. case_key False (cs_v1 p)) wide_cases =
   map (\<lambda>i. single (word_of_nat i) (10 * i)) [0, 1, 2, 3, 4, 5, 6, 7, 8] @ [single 0xffffffff 99]"
  by (simp add: wide_cases_def single_def case_key_def)

text \<open>
  Cases that do not fit the type are sorted by one value and compared by another. The ten cases
  0 to 8 and 0xffffffff of an int switch: the last one is compared as -1, but it is sorted behind
  the others, and the value -1 does not find it.
\<close>

theorem switch_misses_wide_case:
  "(\<exists>p\<in>set wide_cases. hits (cmp_val False False) (- 1) p) \<and> run_switch False False wide_cases (- 1) = Waits_At 7"
proof
  show "\<exists>p\<in>set wide_cases. hits (cmp_val False False) (- 1) p"
    by (rule bexI [of _ "single 0xffffffff 99"]) (simp_all add: wide_cases_def single_def hits_def cmp_val_def)
  have "switch_code False wide_cases = Inr (waits 0 (map (\<lambda>i. single (word_of_nat i) (10 * i)) [0, 1, 2, 3, 4, 5, 6, 7, 8] @ [single 0xffffffff 99]),
      tree 0 (map (\<lambda>i. single (word_of_nat i) (10 * i)) [0, 1, 2, 3, 4, 5, 6, 7, 8] @ [single 0xffffffff 99]))"
    unfolding switch_code_def wide_sorted by (simp add: gcase_code Let_def) (simp add: single_def case_key_def)
  then show "run_switch False False wide_cases (- 1) = Waits_At 7"
    unfolding run_switch_def
    by (simp add: tree.simps Let_def one_def single_def sw_run.simps cmp_val_def)
qed

text \<open>
  The range 10 ... 1, which has no value and only draws a warning, in the middle of other cases: the
  binary search takes it as the bound of the cases before it, and the case 3 is not found.
\<close>

definition empty_range_cases :: "case_t list" where
  "empty_range_cases = map (\<lambda>i. single (word_of_nat i) (10 * i)) [0, 1, 2, 3, 4] @
     \<lparr>cs_v1 = 10, cs_v2 = 1, cs_sym = 100\<rparr> # map (\<lambda>i. single (word_of_nat i) (10 * i)) [20, 21, 22, 23]"

lemma switch_misses_after_empty_range:
  "(\<exists>p\<in>set empty_range_cases. hits (cmp_val False False) 3 p) \<and> run_switch False False empty_range_cases 3 = Waits_At 12"
proof
  show "\<exists>p\<in>set empty_range_cases. hits (cmp_val False False) 3 p"
    by (rule bexI [of _ "single 3 30"]) (simp_all add: empty_range_cases_def single_def hits_def cmp_val_def)
  have s: "sort_key (\<lambda>p. case_key False (cs_v1 p)) empty_range_cases = empty_range_cases"
    by (simp add: empty_range_cases_def single_def case_key_def)
  have c: "switch_code False empty_range_cases = Inr (waits 0 empty_range_cases, tree 0 empty_range_cases)"
    unfolding switch_code_def s by (simp add: gcase_code Let_def) (simp add: empty_range_cases_def single_def case_key_def)
  show "run_switch False False empty_range_cases 3 = Waits_At 12"
    unfolding run_switch_def unfolding c unfolding empty_range_cases_def
    by (simp add: tree.simps Let_def one_def single_def sw_run.simps cmp_val_def)
qed

end
