(* ===== verification/Pp_Text.thy ===== *)
theory Pp_Text
  imports Bytes
begin

text \<open>
  Growing strings, UTF-8 and the text of string and character constants (tccpp.c): cstr_realloc to
  cstr_wccat, unicode_to_utf8, add_char with the part of get_tok_str that prints such a constant, and
  parse_escape_string with parse_string, which read it.

  A pointer into a text is the list of the bytes from there on, and a read from the empty list is an
  access outside the buffer. The int variables c and n are integers; a value that does not fit into
  an int is undefined in C and the error MemFault here.
\<close>

section \<open>CString\<close>

text \<open>The list is the allocated memory, its length size_allocated; memory new from realloc counts as zero.\<close>

record cstr =
  cs_data :: "u8 list"
  cs_size :: nat

definition cstr_realloc :: "nat \<Rightarrow> cstr \<Rightarrow> cstr" where
  "cstr_realloc new_size cs =
     (let old = length (cs_data cs); sz = grow (if old < 8 then 8 else old) new_size
      in cs\<lparr>cs_data := cs_data cs @ replicate (sz - old) 0\<rparr>)"

definition cstr_room :: "nat \<Rightarrow> cstr \<Rightarrow> cstr" where
  "cstr_room sz cs = (if sz > length (cs_data cs) then cstr_realloc sz cs else cs)"

definition cstr_ccat :: "int \<Rightarrow> cstr \<Rightarrow> cstr" where
  "cstr_ccat ch cs =
     (let sz = cs_size cs + 1; cs1 = cstr_room sz cs
      in cs1\<lparr>cs_data := (cs_data cs1)[sz - 1 := word_of_int ch], cs_size := sz\<rparr>)"

definition strlen :: "u8 list \<Rightarrow> nat res" where
  "strlen str = (if 0 \<in> set str then Inr (length (takeWhile (\<lambda>b. b \<noteq> 0) str)) else Inl MemFault)"

text \<open>memmove of the first n bytes of str behind the string.\<close>

definition cstr_append :: "u8 list \<Rightarrow> nat \<Rightarrow> cstr \<Rightarrow> cstr res" where
  "cstr_append str n cs =
     (if n \<le> length str then
        let sz = cs_size cs + n; cs1 = cstr_room sz cs
        in Inr (cs1\<lparr>cs_data := take (cs_size cs) (cs_data cs1) @ take n str @ drop sz (cs_data cs1), cs_size := sz\<rparr>)
      else Inl MemFault)"

definition cstr_cat :: "u8 list \<Rightarrow> int \<Rightarrow> cstr \<Rightarrow> cstr res" where
  "cstr_cat str len cs =
     (if len \<le> 0 then bindR (strlen str) (\<lambda>n. cstr_append str (nat (int n + 1 + len)) cs)
      else cstr_append str (nat len) cs)"

definition cstr_wccat :: "int \<Rightarrow> cstr \<Rightarrow> cstr" where
  "cstr_wccat ch cs =
     (let sz = cs_size cs + 4; cs1 = cstr_room sz cs
      in cs1\<lparr>cs_data := write32le (cs_data cs1) (sz - 4) (word_of_int ch), cs_size := sz\<rparr>)"

definition cstr_new :: cstr where
  "cstr_new = \<lparr>cs_data = [], cs_size = 0\<rparr>"

definition cstr_reset :: "cstr \<Rightarrow> cstr" where
  "cstr_reset cs = cs\<lparr>cs_size := 0\<rparr>"

section \<open>UTF-8\<close>

definition unicode_to_utf8 :: "u32 \<Rightarrow> u8 list res" where
  "unicode_to_utf8 Uc =
     (if Uc < 0x80 then Inr [ucast Uc]
      else if Uc < 0x800 then Inr [ucast (192 + Uc div 64), ucast (128 + Uc mod 64)]
      else if Uc - 0xd800 < 0x800 then Inl (TccError ''not a valid universal character'')
      else if Uc < 0x10000 then
        Inr [ucast (224 + Uc div 4096), ucast (128 + Uc div 64 mod 64), ucast (128 + Uc mod 64)]
      else if Uc < 0x110000 then
        Inr [ucast (240 + Uc div 262144), ucast (128 + Uc div 4096 mod 64),
             ucast (128 + Uc div 64 mod 64), ucast (128 + Uc mod 64)]
      else Inl (TccError ''not a valid universal character''))"

definition cstr_u8cat :: "int \<Rightarrow> cstr \<Rightarrow> cstr res" where
  "cstr_u8cat ch cs =
     bindR (unicode_to_utf8 (word_of_int ch)) (\<lambda>buf. cstr_cat buf (int (length buf)) cs)"

section \<open>Printing\<close>

definition add_char :: "int \<Rightarrow> cstr \<Rightarrow> cstr" where
  "add_char c cs =
     (let cs1 = (if c = 39 \<or> c = 34 \<or> c = 92 then cstr_ccat 92 cs else cs)
      in if c \<ge> 32 \<and> c \<le> 126 then cstr_ccat c cs1
         else let cs2 = cstr_ccat 92 cs1
              in if c = 10 then cstr_ccat 110 cs2
                 else cstr_ccat (48 + (c AND 7))
                        (cstr_ccat (48 + (drop_bit 3 c AND 7)) (cstr_ccat (48 + (drop_bit 6 c AND 7)) cs2)))"

text \<open>get_tok_str for TOK_CCHAR and TOK_LCHAR, and for TOK_STR and TOK_LSTR.\<close>

definition print_char_tok :: "bool \<Rightarrow> u64 \<Rightarrow> cstr \<Rightarrow> cstr" where
  "print_char_tok is_long i cs =
     (let cs1 = (if is_long then cstr_ccat 76 (cstr_reset cs) else cstr_reset cs)
      in cstr_ccat 0 (cstr_ccat 39 (add_char (sint (ucast i :: u32)) (cstr_ccat 39 cs1))))"

definition print_str_tok :: "bool \<Rightarrow> u8 list \<Rightarrow> cstr \<Rightarrow> cstr" where
  "print_str_tok is_long data cs =
     (let cs1 = cstr_ccat 34 (if is_long then cstr_ccat 76 (cstr_reset cs) else cstr_reset cs);
          chars = (if is_long then map (\<lambda>i. sint (read32le data (4 * i))) [0 ..< length data div 4 - 1]
                   else map uint (take (length data - 1) data))
      in cstr_ccat 0 (cstr_ccat 34 (fold add_char chars cs1)))"

section \<open>Reading\<close>

definition isoct :: "int \<Rightarrow> bool" where
  "isoct c \<longleftrightarrow> c \<ge> 48 \<and> c \<le> 55"

definition isnum :: "int \<Rightarrow> bool" where
  "isnum c \<longleftrightarrow> c \<ge> 48 \<and> c \<le> 57"

text \<open>What a character or an escape gives: one to store as it is, or one to store in UTF-8.\<close>

datatype char_out = Char_Out int | Utf8_Out int

text \<open>At most three octal digits; p is at the first.\<close>

definition oct_escape :: "u8 list \<Rightarrow> (char_out \<times> u8 list) res" where
  "oct_escape p =
     (case p of
        c1 # c2 # p2 \<Rightarrow>
          let n = uint c1 - 48
          in if isoct (uint c2) then
               (case p2 of
                  c3 # p3 \<Rightarrow>
                    let n1 = n * 8 + uint c2 - 48
                    in if isoct (uint c3) then Inr (Char_Out (n1 * 8 + uint c3 - 48), p3) else Inr (Char_Out n1, p2)
                | [] \<Rightarrow> Inl MemFault)
             else Inr (Char_Out n, c2 # p2)
      | _ \<Rightarrow> Inl MemFault)"

definition hex_value :: "int \<Rightarrow> int option" where
  "hex_value c =
     (if c \<ge> 97 \<and> c \<le> 102 then Some (c - 97 + 10)
      else if c \<ge> 65 \<and> c \<le> 70 then Some (c - 65 + 10)
      else if isnum c then Some (c - 48)
      else None)"

text \<open>The digits of \x (i is 0), \u (4) and \U (8): True when a character that is no digit ended them.\<close>

fun hex_loop :: "int \<Rightarrow> int \<Rightarrow> u8 list \<Rightarrow> (bool \<times> int \<times> u8 list) res" where
  "hex_loop i n [] = Inl MemFault"
| "hex_loop i n (b # p) =
     (case hex_value (uint b) of
        None \<Rightarrow>
          if i > 0 then Inl (Expected ''more hex digits in universal-character-name'') else Inr (True, n, b # p)
      | Some d \<Rightarrow>
          let n1 = n * 16 + d
          in if n1 \<ge> 2 ^ 31 then Inl MemFault
             else if i - 1 = 0 then Inr (False, n1, p)
             else hex_loop (i - 1) n1 p)"

definition hex_or_ucn :: "bool \<Rightarrow> int \<Rightarrow> u8 list \<Rightarrow> (char_out \<times> u8 list) res" where
  "hex_or_ucn is_long i p =
     bindR (hex_loop i 0 p) (\<lambda>(no_digit, n, p1).
       Inr (if no_digit \<or> is_long then Char_Out n else Utf8_Out n, p1))"

text \<open>The other escapes; an unknown one draws a warning and stands for its character.\<close>

definition simple_escape :: "bool \<Rightarrow> int \<Rightarrow> int" where
  "simple_escape gnu_ext c =
     (if c = 97 then 7
      else if c = 98 then 8
      else if c = 102 then 12
      else if c = 110 then 10
      else if c = 114 then 13
      else if c = 116 then 9
      else if c = 118 then 11
      else if c = 101 \<and> gnu_ext then 27
      else c)"

text \<open>
  The bytes after the first of a UTF-8 sequence: the character, or none, and how many bytes of p
  are done with.
\<close>

fun utf8_cont :: "int \<Rightarrow> nat \<Rightarrow> nat \<Rightarrow> int \<Rightarrow> u8 list \<Rightarrow> (int option \<times> nat) res" where
  "utf8_cont c i 0 n p = Inr (Some n, i)"
| "utf8_cont c i (Suc k) n p =
     (if i < length p then
        let x = uint (p ! i);
            l = (if i = 1 \<and> c = 0xE0 then 0xA0 else if i = 1 \<and> c = 0xF0 then 0x90 else 0x80);
            h = (if i = 1 \<and> c = 0xED then 0x9F else if i = 1 \<and> c = 0xF4 then 0x8F else 0xBF)
        in if x < l \<or> x > h then Inr (None, i)
           else utf8_cont c (i + 1) k (push_bit 6 n OR (x AND 0x3f)) p
      else Inl MemFault)"

definition utf8_rest :: "int \<Rightarrow> nat \<Rightarrow> int \<Rightarrow> u8 list \<Rightarrow> (char_out \<times> u8 list) res" where
  "utf8_rest c cont n p =
     bindR (utf8_cont c 1 cont n p) (\<lambda>(r, i).
       Inr (Char_Out (case r of Some m \<Rightarrow> m | None \<Rightarrow> 0xFFFD), drop i p))"

definition utf8_char :: "u8 list \<Rightarrow> (char_out \<times> u8 list) res" where
  "utf8_char p =
     (let c = uint (hd p)
      in if c < 0xC2 then Inr (Char_Out 0xFFFD, drop 1 p)
         else if c \<le> 0xDF then utf8_rest c 1 (c AND 0x1f) p
         else if c \<le> 0xEF then utf8_rest c 2 (c AND 0xf) p
         else if c \<le> 0xF4 then utf8_rest c 3 (c AND 0x7) p
         else Inr (Char_Out 0xFFFD, drop 1 p))"

text \<open>One round of the loop of parse_escape_string, at a byte that is not the end.\<close>

definition escape_round :: "bool \<Rightarrow> bool \<Rightarrow> u8 list \<Rightarrow> (char_out \<times> u8 list) res" where
  "escape_round is_long gnu_ext p =
     (if hd p = 92 then
        (case tl p of
           [] \<Rightarrow> Inl MemFault
         | c # ps \<Rightarrow>
             if isoct (uint c) then oct_escape (tl p)
             else if c = 120 then hex_or_ucn is_long 0 ps
             else if c = 117 then hex_or_ucn is_long 4 ps
             else if c = 85 then hex_or_ucn is_long 8 ps
             else Inr (Char_Out (simple_escape gnu_ext (uint c)), ps))
      else if is_long \<and> uint (hd p) \<ge> 0x80 then utf8_char p
      else Inr (Char_Out (uint (hd p)), tl p))"

definition put_char :: "bool \<Rightarrow> char_out \<Rightarrow> cstr \<Rightarrow> cstr res" where
  "put_char is_long x cs =
     (case x of
        Char_Out c \<Rightarrow> Inr (if is_long then cstr_wccat c cs else cstr_ccat c cs)
      | Utf8_Out c \<Rightarrow> cstr_u8cat c cs)"

lemma hex_loop_shorter: "hex_loop i n p = Inr (x, m, p1) \<Longrightarrow> length p1 \<le> length p"
  by (induction i n p rule: hex_loop.induct) (fastforce simp: Let_def split: option.splits if_splits)+

lemma utf8_cont_progress: "utf8_cont c i k n p = Inr (r, j) \<Longrightarrow> i \<le> j"
  by (induction c i k n p rule: utf8_cont.induct) (fastforce simp: Let_def split: if_splits)+

text \<open>Every round goes forward.\<close>

lemma oct_escape_shorter: "oct_escape p = Inr (x, p1) \<Longrightarrow> length p1 < length p"
  by (auto simp: oct_escape_def Let_def split: list.splits if_splits)

lemma hex_or_ucn_shorter: "hex_or_ucn is_long i p = Inr (x, p1) \<Longrightarrow> length p1 \<le> length p"
  by (auto simp: hex_or_ucn_def bindR_Inr_iff split_def intro: hex_loop_shorter)

lemma utf8_rest_shorter: "utf8_rest c cont n p = Inr (x, p1) \<Longrightarrow> p \<noteq> [] \<Longrightarrow> length p1 < length p"
  by (auto simp: utf8_rest_def bindR_Inr_iff dest!: utf8_cont_progress)

lemma utf8_char_shorter: "utf8_char p = Inr (x, p1) \<Longrightarrow> p \<noteq> [] \<Longrightarrow> length p1 < length p"
  by (auto simp: utf8_char_def Let_def dest: utf8_rest_shorter split: if_splits)

lemma escape_round_shorter:
  assumes "escape_round is_long gnu_ext p = Inr (x, p1)" and "p \<noteq> []"
  shows "length p1 < length p"
proof (cases "hd p = 92")
  case True
  with assms obtain b c ps where p: "p = b # c # ps"
    by (cases p) (auto simp: escape_round_def split: list.splits)
  show ?thesis
    using assms True p oct_escape_shorter [of "c # ps" x p1] hex_or_ucn_shorter [of is_long _ ps x p1]
    by (auto simp: escape_round_def less_Suc_eq_le intro: le_SucI split: if_splits)
next
  case False
  then show ?thesis
    using assms utf8_char_shorter [of p x p1] by (cases p) (auto simp: escape_round_def split: if_splits)
qed

function parse_escape_string :: "bool \<Rightarrow> bool \<Rightarrow> u8 list \<Rightarrow> cstr \<Rightarrow> cstr res" where
  "parse_escape_string is_long gnu_ext p outstr =
     (case p of
        [] \<Rightarrow> Inl MemFault
      | c # _ \<Rightarrow>
          if c = 0 then put_char is_long (Char_Out 0) outstr
          else
            (case escape_round is_long gnu_ext p of
               Inl e \<Rightarrow> Inl e
             | Inr (x, p1) \<Rightarrow>
                 (case put_char is_long x outstr of
                    Inl e \<Rightarrow> Inl e
                  | Inr out1 \<Rightarrow> parse_escape_string is_long gnu_ext p1 out1)))"
  by pat_completeness auto
termination
  by (relation "measure (\<lambda>(is_long, gnu_ext, p, outstr). length p)") (auto dest!: escape_round_shorter)

declare parse_escape_string.simps [simp del]

text \<open>
  A token with its value: the number or characters in tokc.i, or the bytes tokc.str points to. The
  text of a constant comes with its quotes (and L); it has at least the two quotes.
\<close>

datatype const_tok = Char_Tok bool u64 | Str_Tok bool "u8 list"

definition char_value :: "bool \<Rightarrow> u8 list \<Rightarrow> nat \<Rightarrow> u32" where
  "char_value is_long data n =
     fold (\<lambda>i c. if is_long then read32le data (4 * i) else push_bit 8 c OR scast (data ! i)) [0 ..< n] 0"

definition parse_string :: "bool \<Rightarrow> u8 list \<Rightarrow> cstr \<Rightarrow> (const_tok \<times> cstr) res" where
  "parse_string gnu_ext s tokcstr =
     (let is_long = (s \<noteq> [] \<and> hd s = 76); s1 = (if is_long then tl s else s)
      in if length s1 < 2 then Inl MemFault
         else
           let sep = hd s1; p = take (length s1 - 2) (tl s1) @ [0]
           in bindR (parse_escape_string is_long gnu_ext p (cstr_reset tokcstr)) (\<lambda>out.
                if sep = 39 then
                  let n = int (cs_size out div (if is_long then 4 else 1)) - 1
                  in if n < 1 then Inl (TccError ''empty character constant'')
                     else Inr (Char_Tok is_long (scast (char_value is_long (cs_data out) (nat n))), out)
                else Inr (Str_Tok is_long (take (cs_size out) (cs_data out)), out)))"

end
