(* ===== verification/Pp_Text_Props.thy ===== *)
theory Pp_Text_Props
  imports Pp_Text
begin

text \<open>
  What the text functions of Pp_Text do: strings grow at the end; a constant that get_tok_str
  prints is read back by parse_string as the same constant; the UTF-8 decoder of wide constants
  accepts the shortest encodings of the Unicode characters and nothing else.
\<close>

section \<open>Growing strings\<close>

definition str_of :: "cstr \<Rightarrow> u8 list" where
  "str_of cs = take (cs_size cs) (cs_data cs)"

definition wf_cstr :: "cstr \<Rightarrow> bool" where
  "wf_cstr cs \<longleftrightarrow> cs_size cs \<le> length (cs_data cs)"

lemma cstr_room_props:
  assumes "wf_cstr cs"
  shows "cs_size (cstr_room n cs) = cs_size cs" "str_of (cstr_room n cs) = str_of cs"
    "n \<le> length (cs_data (cstr_room n cs))" "cs_size cs \<le> length (cs_data (cstr_room n cs))"
proof -
  let ?old = "length (cs_data cs)" and ?sz = "grow (if length (cs_data cs) < 8 then 8 else length (cs_data cs)) n"
  have "n \<le> ?sz" "?old \<le> ?sz"
    using grow_ge [of 8 n] grow_ge [of ?old n] by (cases "?old < 8"; force)+
  then show "cs_size (cstr_room n cs) = cs_size cs" "str_of (cstr_room n cs) = str_of cs"
    "n \<le> length (cs_data (cstr_room n cs))" "cs_size cs \<le> length (cs_data (cstr_room n cs))"
    using assms by (auto simp: cstr_room_def cstr_realloc_def Let_def str_of_def wf_cstr_def)
qed

lemma cstr_ccat_str:
  assumes "wf_cstr cs"
  shows "str_of (cstr_ccat ch cs) = str_of cs @ [word_of_int ch]" "wf_cstr (cstr_ccat ch cs)"
proof -
  let ?d = "cs_data (cstr_room (cs_size cs + 1) cs)"
  note r = cstr_room_props [OF assms, of "cs_size cs + 1"]
  have "take (cs_size cs) ?d = str_of cs" using r(1,2) by (simp add: str_of_def)
  moreover have "take (Suc (cs_size cs)) (?d[cs_size cs := x]) = take (cs_size cs) ?d @ [x]" for x
    using r(3) by (simp add: take_Suc_conv_app_nth)
  ultimately show "str_of (cstr_ccat ch cs) = str_of cs @ [word_of_int ch]"
    by (simp add: cstr_ccat_def Let_def str_of_def [of "_\<lparr>cs_data := _, cs_size := _\<rparr>"])
  show "wf_cstr (cstr_ccat ch cs)" using r(3) by (simp add: cstr_ccat_def Let_def wf_cstr_def)
qed

lemma cs_size_ccat: "cs_size (cstr_ccat ch cs) = cs_size cs + 1"
  by (simp add: cstr_ccat_def Let_def)

lemma cstr_wccat_str:
  assumes "wf_cstr cs"
  shows "str_of (cstr_wccat ch cs) = str_of cs @ le32 (word_of_int ch)" "wf_cstr (cstr_wccat ch cs)"
proof -
  let ?d = "cs_data (cstr_room (cs_size cs + 4) cs)"
  note r = cstr_room_props [OF assms, of "cs_size cs + 4"]
  have "take (cs_size cs) ?d = str_of cs" using r(1,2) by (simp add: str_of_def)
  then show "str_of (cstr_wccat ch cs) = str_of cs @ le32 (word_of_int ch)"
    using write32le_end [OF r(3)] by (simp add: cstr_wccat_def Let_def str_of_def)
  show "wf_cstr (cstr_wccat ch cs)" using r(3) by (simp add: cstr_wccat_def Let_def wf_cstr_def)
qed

lemma cstr_append_str:
  assumes "wf_cstr cs" and "n \<le> length str"
  obtains cs' where "cstr_append str n cs = Inr cs'" "str_of cs' = str_of cs @ take n str" "wf_cstr cs'"
proof -
  let ?d = "cs_data (cstr_room (cs_size cs + n) cs)"
  note r = cstr_room_props [OF assms(1), of "cs_size cs + n"]
  have "take (cs_size cs) ?d = str_of cs" using r(1,2) by (simp add: str_of_def)
  then show ?thesis
    using that r(3) assms by (auto simp: cstr_append_def Let_def str_of_def wf_cstr_def)
qed

lemma cstr_reset_str: "str_of (cstr_reset cs) = []" "wf_cstr (cstr_reset cs)"
  by (simp_all add: cstr_reset_def str_of_def wf_cstr_def)

section \<open>Printing and reading back\<close>

definition add_text :: "int \<Rightarrow> u8 list" where
  "add_text c = (if c = 39 \<or> c = 34 \<or> c = 92 then [92] else []) @
     (if c \<ge> 32 \<and> c \<le> 126 then [word_of_int c]
      else 92 # (if c = 10 then [110]
        else map (\<lambda>k. word_of_int (48 + (drop_bit k c AND 7))) [6, 3, 0]))"

lemma add_char_str: "wf_cstr cs \<Longrightarrow> str_of (add_char c cs) = str_of cs @ add_text c \<and> wf_cstr (add_char c cs)"
  by (simp add: add_char_def add_text_def cstr_ccat_str Let_def)

lemma add_chars_str:
  "wf_cstr cs \<Longrightarrow> str_of (fold add_char xs cs) = str_of cs @ concat (map add_text xs) \<and> wf_cstr (fold add_char xs cs)"
  by (induction xs arbitrary: cs) (simp_all add: add_char_str)

lemma and_7: "x AND 7 = x mod (8::int)"
proof -
  have "x AND 7 = x AND mask 3" by (simp add: mask_eq_exp_minus_1)
  also have "\<dots> = x mod 2 ^ 3" by (simp only: take_bit_eq_mask [symmetric] take_bit_eq_mod)
  finally show ?thesis by simp
qed

lemma octal_digit:
  "uint (word_of_int (48 + (c AND 7)) :: u8) = 48 + (c AND 7)" "0 \<le> (c AND 7 :: int) \<and> c AND 7 \<le> 7"
proof -
  show *: "0 \<le> (c AND 7 :: int) \<and> c AND 7 \<le> 7" by (simp add: and_7)
  then have "(48 + (c AND 7)) mod 256 = 48 + (c AND 7)" by (intro mod_pos_pos_trivial) auto
  then show "uint (word_of_int (48 + (c AND 7)) :: u8) = 48 + (c AND 7)"
    by (simp only: uint_word_of_int) simp
qed

lemma octal_sum:
  assumes "0 \<le> c" "c < 512"
  shows "((drop_bit 6 c AND 7) * 8 + (drop_bit 3 c AND 7)) * 8 + (c AND 7) = (c::int)"
proof -
  let ?q = "c div 8"
  have d: "drop_bit 6 c = ?q div 8" "drop_bit 3 c = ?q" by (simp_all add: drop_bit_eq_div flip: zdiv_zmult2_eq)
  have "?q div 8 mod 8 = ?q div 8" using assms by (intro mod_pos_pos_trivial) auto
  then have "?q div 8 mod 8 * 8 + ?q mod 8 = ?q" by (simp only: div_mult_mod_eq)
  then show ?thesis by (simp only: and_7 d div_mult_mod_eq)
qed

lemma escape_add_text:
  assumes "0 \<le> c" "c < 512"
  shows "escape_round is_long gnu_ext (add_text c @ r) = Inr (Char_Out c, r)" "add_text c \<noteq> []" "hd (add_text c) \<noteq> 0"
proof -
  have u: "uint (word_of_int c :: u8) = c" if "c \<le> 126" using assms that by (simp add: uint_word_of_int)
  have "word_of_int c \<noteq> (0::u8)" if "c \<ge> 32" "c \<le> 126" using that u by (metis not_numeral_le_zero unsigned_0)
  then show "add_text c \<noteq> []" "hd (add_text c) \<noteq> 0" by (auto simp: add_text_def)
  consider "c = 39 \<or> c = 34 \<or> c = 92" | "c \<ge> 32" "c \<le> 126" "c \<noteq> 39" "c \<noteq> 34" "c \<noteq> 92" | "c = 10"
    | "c < 32 \<or> c > 126" "c \<noteq> 10" by linarith
  then show "escape_round is_long gnu_ext (add_text c @ r) = Inr (Char_Out c, r)"
  proof cases
    case 1
    then show ?thesis
      by (elim disjE) (simp_all add: add_text_def escape_round_def isoct_def simple_escape_def)
  next
    case 2
    have "word_of_int c \<noteq> (92::u8)" using 2(2,5) arg_cong [of "word_of_int c" "92::u8" uint] u by auto
    then show ?thesis using 2 u by (simp add: add_text_def escape_round_def)
  next
    case 3
    then show ?thesis by (simp add: add_text_def escape_round_def isoct_def simple_escape_def)
  next
    case 4
    let ?d = "\<lambda>k. drop_bit k c AND 7"
    obtain x y z :: u8 where t: "add_text c = [92, x, y, z]"
      and d: "uint x = 48 + ?d 6" "uint y = 48 + ?d 3" "uint z = 48 + (c AND 7)"
    proof
      show "add_text c = [92, word_of_int (48 + ?d 6), word_of_int (48 + ?d 3), word_of_int (48 + (c AND 7))]"
        using 4 by (auto simp: add_text_def)
    qed (rule octal_digit)+
    then have "isoct (uint x)" "isoct (uint y)" "isoct (uint z)" using octal_digit(2) by (simp_all add: isoct_def)
    moreover have "((uint x - 48) * 8 + uint y - 48) * 8 + uint z - 48 = c"
      using octal_sum [of c] assms d by simp
    ultimately show ?thesis by (simp add: t escape_round_def oct_escape_def Let_def)
  qed
qed

text \<open>The bytes a constant stores for the characters d: bytes, or words when it is wide.\<close>

definition stored :: "bool \<Rightarrow> u8 list \<Rightarrow> u8 list" where
  "stored is_long d = (if is_long then concat (map (\<lambda>b. le32 (ucast b)) d) else d)"

lemma stored_simps [simp]:
  "stored is_long [] = []"
  "stored is_long (d @ e) = stored is_long d @ stored is_long e"
  by (simp_all add: stored_def)

lemma put_char_stored:
  assumes "wf_cstr out"
  obtains out1 where "put_char is_long (Char_Out (uint b)) out = Inr out1"
    "str_of out1 = str_of out @ stored is_long [b]" "wf_cstr out1"
  by (rule that [of "if is_long then cstr_wccat (uint b) out else cstr_ccat (uint b) out"])
    (simp_all add: put_char_def stored_def cstr_wccat_str cstr_ccat_str assms)

lemma parse_printed:
  assumes "wf_cstr out"
  shows "\<exists>out1. parse_escape_string is_long gnu_ext (concat (map (\<lambda>b. add_text (uint b)) d) @ [0]) out = Inr out1 \<and>
    str_of out1 = str_of out @ stored is_long (d @ [0]) \<and> wf_cstr out1"
  using assms
proof (induction d arbitrary: out)
  case Nil
  then show ?case
    using put_char_stored [OF Nil, of is_long 0] by (auto simp: parse_escape_string.simps)
next
  case (Cons b d)
  let ?r = "concat (map (\<lambda>b. add_text (uint b)) d) @ [0]"
  have b: "0 \<le> uint b" "uint b < 512" using uint_bounded [of b] by simp_all
  note a = escape_add_text [OF b]
  obtain c q where t: "add_text (uint b) = c # q" "c \<noteq> 0" using a(2,3) by (cases "add_text (uint b)") auto
  obtain out1 where o: "put_char is_long (Char_Out (uint b)) out = Inr out1"
    "str_of out1 = str_of out @ stored is_long [b]" "wf_cstr out1"
    using put_char_stored [OF Cons.prems] .
  have "parse_escape_string is_long gnu_ext (add_text (uint b) @ ?r) out = parse_escape_string is_long gnu_ext ?r out1"
    unfolding parse_escape_string.simps [of _ _ "add_text (uint b) @ ?r"] a(1) using t o(1) by simp
  moreover have "concat (map (\<lambda>b. add_text (uint b)) (b # d)) @ [0] = add_text (uint b) @ ?r" by simp
  moreover have "stored is_long ((b # d) @ [0]) = stored is_long [b] @ stored is_long (d @ [0])"
    using stored_simps(2) [of is_long "[b]" "d @ [0]"] by simp
  ultimately show ?case using Cons.IH [OF o(3)] o(2) by simp
qed

lemma octal_low_bits: "drop_bit k (take_bit 9 c) AND 7 = drop_bit k c AND (7::int)" if "k \<le> 6"
proof -
  have "drop_bit k (take_bit 9 c) AND mask 3 = drop_bit k c AND mask 3"
    using that by (auto simp: bit_eq_iff bit_simps)
  then show ?thesis by (simp add: mask_eq_exp_minus_1)
qed

lemma add_text_byte:
  fixes b :: u8
  obtains c where "0 \<le> c" "c < 512" "add_text (sint b) = add_text c" "word_of_int c = b"
proof (cases "0 \<le> sint b")
  case True
  then show ?thesis using that [of "sint b"] sint_range_size [of b] by (simp add: word_size)
next
  case False
  let ?c = "take_bit 9 (sint b)"
  have r: "- 128 \<le> sint b" using sint_range_size [of b] by (simp add: word_size)
  have "(sint b + 512) mod 512 = sint b + 512" using False r by (intro mod_pos_pos_trivial) auto
  then have c: "?c = sint b + 512" by (simp add: take_bit_eq_mod)
  have "add_text ?c = add_text (sint b)"
    using False r c octal_low_bits [of _ "sint b"] octal_low_bits [of 0 "sint b"] by (simp add: add_text_def)
  moreover have "(word_of_int ?c :: u8) = word_of_int (sint b) + word_of_int 512" by (simp only: c of_int_add)
  ultimately show ?thesis using that [of ?c] c False r by simp
qed

lemma read_stored:
  "map (\<lambda>i. sint (read32le (stored True d @ r) (4 * i))) [0 ..< length d] = map uint d"
proof (induction d)
  case (Cons b d)
  have "take_bit 32 (uint b) = uint b" using uint_bounded [of b] by (intro take_bit_int_eq_self) simp_all
  then have "uint (ucast b :: u32) = uint b" by (simp add: unsigned_ucast_eq)
  then have "sint (ucast b :: u32) = uint b" using uint_bounded [of b] by (subst sint_small) simp_all
  moreover have "stored True (b # d) @ r = le32 (ucast b) @ stored True d @ r" by (simp add: stored_def)
  moreover have "4 * Suc i = 4 * i + 4" for i by simp
  ultimately show ?case unfolding length_Cons map_upt_Suc using Cons by (simp add: read32le_le32 del: mult_Suc_right)
qed simp

lemma length_stored: "length (stored is_long d) = (if is_long then 4 else 1) * length d"
  by (cases is_long; induction d) (simp_all add: stored_def le32_def)

lemma printed_chars:
  "(if is_long then map (\<lambda>i. sint (read32le (stored is_long (d @ [0])) (4 * i))) [0 ..< length (stored is_long (d @ [0])) div 4 - 1]
    else map uint (take (length (stored is_long (d @ [0])) - 1) (stored is_long (d @ [0])))) = map uint d"
proof (cases is_long)
  case True
  have "length (stored True (d @ [0])) div 4 - 1 = length d" by (simp add: length_stored del: stored_simps)
  then show ?thesis using True read_stored [of d "stored True [0]"] by simp
qed (simp add: stored_def)

text \<open>The text of a constant: its quotes around the text of its characters.\<close>

lemma print_str_text:
  "str_of (print_str_tok is_long (stored is_long (d @ [0])) cs) =
    (if is_long then [76] else []) @ 34 # concat (map (\<lambda>b. add_text (uint b)) d) @ [34, 0]"
  unfolding print_str_tok_def printed_chars Let_def
  by (simp add: cstr_ccat_str add_chars_str cstr_reset_str comp_def)

lemma print_char_text:
  "str_of (print_char_tok False (scast b) cs) = 39 # add_text (sint (b :: u8)) @ [39, 0]"
proof -
  have "(ucast (scast b :: u64) :: u32) = scast b" by (rule bit_word_eqI) (auto simp: bit_simps)
  moreover have "sint (scast b :: u32) = sint b"
    by (simp add: signed_scast_eq) (intro signed_take_bit_int_eq_self; use sint_range_size [of b] in \<open>simp add: word_size\<close>)
  ultimately show ?thesis
    unfolding print_char_tok_def Let_def by (simp add: cstr_ccat_str add_char_str cstr_reset_str)
qed

text \<open>
  C9: The text get_tok_str makes of a string constant of any bytes, of a wide string constant of characters
  up to 255, and of a character constant of one byte is read by parse_string as the same token. (A character constant
  of several characters and wide characters from 512 on lose bits when they are printed.)
\<close>

theorem printed_constant_reads_back:
  "(\<exists>out'. parse_string gnu_ext (butlast (str_of (print_str_tok is_long (stored is_long (d @ [0])) cs))) out =
      Inr (Str_Tok is_long (stored is_long (d @ [0])), out')) \<and>
   (\<exists>out'. parse_string gnu_ext (butlast (str_of (print_char_tok False (scast (b :: u8)) cs))) out =
      Inr (Char_Tok False (scast b), out'))"
proof
  let ?t = "concat (map (\<lambda>b. add_text (uint b)) d)"
  have "butlast ((if is_long then [76] else []) @ 34 # ?t @ [34, 0]) = (if is_long then [76] else []) @ 34 # ?t @ [34]"
    by (simp add: butlast_append)
  moreover obtain out1 where "parse_escape_string is_long gnu_ext (?t @ [0]) (cstr_reset out) = Inr out1"
    "str_of out1 = stored is_long (d @ [0])"
    using parse_printed [OF cstr_reset_str(2), of is_long gnu_ext d out] cstr_reset_str(1) by auto
  ultimately show "\<exists>out'. parse_string gnu_ext (butlast (str_of (print_str_tok is_long (stored is_long (d @ [0])) cs))) out =
      Inr (Str_Tok is_long (stored is_long (d @ [0])), out')"
    unfolding print_str_text by (cases is_long) (simp_all add: parse_string_def Let_def str_of_def)
next
  obtain c where c: "0 \<le> c" "c < 512" "add_text (sint b) = add_text c" "word_of_int c = b" by (rule add_text_byte)
  obtain x q where t: "add_text c = x # q" "x \<noteq> 0" using escape_add_text(2,3) [OF c(1,2)] by (cases "add_text c") auto
  let ?o = "cstr_ccat 0 (cstr_ccat c (cstr_reset out))"
  have "parse_escape_string False gnu_ext (add_text c @ [0]) (cstr_reset out) = Inr ?o"
    unfolding parse_escape_string.simps [of _ _ "add_text c @ [0]"] escape_add_text(1) [OF c(1,2)]
    using t by (simp add: put_char_def parse_escape_string.simps)
  moreover have "take 2 (cs_data ?o) = [b, 0]" "cs_size ?o = 2"
    using cstr_ccat_str [of "cstr_reset out"] cstr_ccat_str [of "cstr_ccat c (cstr_reset out)"] cstr_reset_str [of out] c(4)
    by (simp_all add: str_of_def cstr_reset_def cs_size_ccat eval_nat_numeral)
  moreover from this(1) have "cs_data ?o ! 0 = b" by (metis nth_Cons_0 nth_take zero_less_numeral)
  moreover have "(scast (scast b :: u32) :: u64) = scast b"
    by (rule bit_word_eqI) (auto simp: bit_simps min_def)
  moreover have "butlast (39 # add_text c @ [39, 0]) = 39 # add_text c @ [39]" by (simp add: butlast_append)
  ultimately show "\<exists>out'. parse_string gnu_ext (butlast (str_of (print_char_tok False (scast b) cs))) out =
      Inr (Char_Tok False (scast b), out')"
    unfolding print_char_text c(3) by (simp add: parse_string_def Let_def char_value_def)
qed

section \<open>UTF-8\<close>

text \<open>The encoding, on the numbers: which bytes a character is made of.\<close>

fun utf8_bytes :: "int \<Rightarrow> int list" where
  "utf8_bytes k =
     (if k < 0x80 then [k]
      else if k < 0x800 then [192 + k div 64, 128 + k mod 64]
      else if k < 0x10000 then [224 + k div 4096, 128 + k div 64 mod 64, 128 + k mod 64]
      else [240 + k div 262144, 128 + k div 4096 mod 64, 128 + k div 64 mod 64, 128 + k mod 64])"

declare utf8_bytes.simps [simp del]

definition unicode :: "int \<Rightarrow> bool" where
  "unicode k \<longleftrightarrow> 0 \<le> k \<and> k < 0x110000 \<and> \<not> (0xd800 \<le> k \<and> k < 0xe000)"

lemma byte_of_int: "(ucast (word_of_int k :: u32) :: u8) = word_of_int k"
  by (rule bit_word_eqI) (simp add: bit_simps)

lemma surrogate: "(Uc :: u32) - 0xd800 < 0x800 \<longleftrightarrow> 0xd800 \<le> uint Uc \<and> uint Uc < 0xe000"
proof -
  have u: "uint (Uc - 0xd800) = (uint Uc - 0xd800) mod 2 ^ 32" by (simp add: uint_word_ariths)
  show ?thesis
  proof (cases "0xd800 \<le> uint Uc")
    case True
    then have "(uint Uc - 0xd800) mod 2 ^ 32 = uint Uc - 0xd800"
      using uint_bounded [of Uc] by (intro mod_pos_pos_trivial) simp_all
    then show ?thesis using u True by (auto simp: word_less_def)
  next
    case False
    have "(uint Uc - 0xd800) mod 2 ^ 32 = (uint Uc - 0xd800 + 2 ^ 32) mod 2 ^ 32" by (simp only: mod_add_self2)
    also have "\<dots> = uint Uc - 0xd800 + 2 ^ 32" using False by (intro mod_pos_pos_trivial) simp_all
    finally have "uint (Uc - 0xd800) = uint Uc + 4294912000" using u by simp
    moreover have "0 \<le> uint Uc" by simp
    ultimately have "0x800 \<le> uint (Uc - 0xd800)" by linarith
    then show ?thesis using False by (simp add: word_less_def)
  qed
qed

lemma byte_add: "(ucast (x + y :: u32) :: u8) = word_of_int (uint x + uint y)"
  using byte_of_int [of "uint x + uint y"] by simp

lemma unicode_to_utf8_bytes:
  "unicode_to_utf8 Uc = (if unicode (uint Uc) then Inr (map word_of_int (utf8_bytes (uint Uc)))
    else Inl (TccError ''not a valid universal character''))"
  unfolding unicode_to_utf8_def surrogate byte_add
  by (auto simp: unicode_def utf8_bytes.simps word_less_def uint_div uint_mod)

lemma and_low:
  "x AND 0x1f = x mod (32::int)" "x AND 0xf = x mod (16::int)" "x AND 0x3f = x mod (64::int)"
proof -
  have "x AND mask n = x mod 2 ^ n" for n by (simp only: take_bit_eq_mask [symmetric] take_bit_eq_mod)
  from this [of 5] this [of 4] this [of 6]
  show "x AND 0x1f = x mod (32::int)" "x AND 0xf = x mod (16::int)" "x AND 0x3f = x mod (64::int)"
    by (simp_all add: mask_eq_exp_minus_1)
qed

lemma add_six_bits:
  assumes "0 \<le> b" "b < 64"
  shows "push_bit 6 n OR b = n * 64 + (b :: int)"
proof -
  have "push_bit 6 n OR take_bit 6 b = push_bit 6 n + take_bit 6 b"
    by (rule disjunctive_add_eq_or [symmetric]) (auto simp: bit_eq_iff bit_simps)
  moreover have "take_bit 6 b = b" using assms by (simp add: take_bit_int_eq_self_iff)
  ultimately show ?thesis by (simp add: push_bit_eq_mult)
qed

lemma byte_value: "0 \<le> k \<Longrightarrow> k < 256 \<Longrightarrow> uint (word_of_int k :: u8) = k"
  by (simp add: uint_word_of_int)

lemma lead_mod: "0 \<le> a \<Longrightarrow> a < n \<Longrightarrow> (k * n + a) mod n = (a::int)"
  by simp

lemmas digit_mod = lead_mod [of _ 32 6, simplified] lead_mod [of _ 16 14, simplified]
  lead_mod [of _ 8 30, simplified] lead_mod [of _ 64 2, simplified]

lemmas utf8_decoding = utf8_char_def utf8_rest_def Let_def numeral_2_eq_2 numeral_3_eq_3 and_7 and_low add_six_bits

lemma utf8_char_2:
  assumes "uint c = 192 + a" "uint x = 128 + b" "2 \<le> a" "a < 32" "0 \<le> b" "b < 64"
  shows "utf8_char (c # x # r) = Inr (Char_Out (a * 64 + b), r)"
  using assms digit_mod(1) [of a] digit_mod(4) [of b] by (simp add: utf8_decoding)

lemma utf8_char_3:
  assumes "uint c = 224 + a" "uint x = 128 + b" "uint y = 128 + d" "0 \<le> a" "a < 16" "0 \<le> b" "b < 64" "0 \<le> d" "d < 64"
    and "a = 0 \<longrightarrow> b \<ge> 32" "a = 13 \<longrightarrow> b < 32"
  shows "utf8_char (c # x # y # r) = Inr (Char_Out ((a * 64 + b) * 64 + d), r)"
  using assms digit_mod(2) [of a] digit_mod(4) [of b] digit_mod(4) [of d] by (auto simp: utf8_decoding)

lemma utf8_char_4:
  assumes "uint c = 240 + a" "uint x = 128 + b" "uint y = 128 + d" "uint z = 128 + e" "0 \<le> a" "a < 5"
    "0 \<le> b" "b < 64" "0 \<le> d" "d < 64" "0 \<le> e" "e < 64" and "a = 0 \<longrightarrow> b \<ge> 16" "a = 4 \<longrightarrow> b < 16"
  shows "utf8_char (c # x # y # z # r) = Inr (Char_Out (((a * 64 + b) * 64 + d) * 64 + e), r)"
  using assms digit_mod(3) [of a] digit_mod(4) [of b] digit_mod(4) [of d] digit_mod(4) [of e]
  by (auto simp: utf8_decoding)

text \<open>The digits of a character are the payloads of its bytes.\<close>

lemma div_mod_digit: "0 \<le> b \<Longrightarrow> b < 64 \<Longrightarrow> (a * 64 + b) div 64 = a \<and> (a * 64 + b) mod 64 = (b::int)"
  by (simp add: div_add1_eq)

lemma utf8_bytes_2:
  "2 \<le> a \<Longrightarrow> a < 32 \<Longrightarrow> 0 \<le> b \<Longrightarrow> b < 64 \<Longrightarrow>
    utf8_bytes (a * 64 + b) = [192 + a, 128 + b] \<and> unicode (a * 64 + b) \<and> 0x80 \<le> a * 64 + b"
  using div_mod_digit [of b a] by (simp add: utf8_bytes.simps unicode_def)

lemma div_4096: "k div 4096 = k div 64 div (64::int)"
  using zdiv_zmult2_eq [of 64 k 64] by simp

lemma utf8_bytes_3:
  assumes "0 \<le> a" "a < 16" "0 \<le> b" "b < 64" "0 \<le> d" "d < 64" "a = 0 \<longrightarrow> b \<ge> 32" "a = 13 \<longrightarrow> b < 32"
    and k: "k = (a * 64 + b) * 64 + d"
  shows "utf8_bytes k = [224 + a, 128 + b, 128 + d] \<and> unicode k \<and> 0x80 \<le> k"
proof -
  have "k div 64 = a * 64 + b" "k mod 64 = d" "(a * 64 + b) div 64 = a" "(a * 64 + b) mod 64 = b"
    unfolding k using div_mod_digit [of d "a * 64 + b"] div_mod_digit [of b a] assms(3-6) by simp_all
  moreover have "0x800 \<le> k" using assms by (cases "a = 0") simp_all
  moreover have "k < 0xd800 \<or> 0xe000 \<le> k"
  proof -
    consider "a \<le> 12" | "a = 13" | "a \<ge> 14" by linarith
    then show ?thesis using assms by cases auto
  qed
  moreover have "k < 0x10000" using assms by simp
  ultimately show ?thesis by (auto simp: utf8_bytes.simps unicode_def div_4096)
qed

lemma div_262144: "k div 262144 = k div 64 div 64 div (64::int)"
proof -
  have "k div 262144 = k div 4096 div 64" using zdiv_zmult2_eq [of 64 k 4096] by simp
  then show ?thesis by (simp only: div_4096)
qed

lemma utf8_bytes_4:
  assumes "0 \<le> a" "a < 5" "0 \<le> b" "b < 64" "0 \<le> d" "d < 64" "0 \<le> e" "e < 64" "a = 0 \<longrightarrow> b \<ge> 16" "a = 4 \<longrightarrow> b < 16"
    and k: "k = ((a * 64 + b) * 64 + d) * 64 + e"
  shows "utf8_bytes k = [240 + a, 128 + b, 128 + d, 128 + e] \<and> unicode k \<and> 0x80 \<le> k"
proof -
  define p where "p = a * 64 + b"
  define q where "q = p * 64 + d"
  have k': "k = q * 64 + e" by (simp only: k q_def p_def)
  have "a \<ge> 1 \<or> b \<ge> 16" "a \<le> 3 \<or> b < 16" using assms(1,2,9,10) by (cases "a = 0"; cases "a = 4"; simp)+
  moreover have "k = a * 262144 + b * 4096 + d * 64 + e" unfolding k by (simp add: algebra_simps)
  ultimately have "0x10000 \<le> k \<and> k < 0x110000" using assms(1-8) by (elim disjE; intro conjI; linarith)
  then have lo: "0x10000 \<le> k" and hi: "k < 0x110000" by simp_all
  note digits = div_mod_digit [OF assms(7,8), of q, folded k'] div_mod_digit [OF assms(5,6), of p, folded q_def]
    div_mod_digit [OF assms(3,4), of a, folded p_def]
  have "utf8_bytes k = [240 + k div 262144, 128 + k div 4096 mod 64, 128 + k div 64 mod 64, 128 + k mod 64]"
    using lo by (simp add: utf8_bytes.simps del: div_mult_self1 div_mult_self2)
  also have "\<dots> = [240 + a, 128 + b, 128 + d, 128 + e]" by (simp only: div_262144 div_4096 digits)
  finally show ?thesis using lo hi by (simp add: unicode_def)
qed

text \<open>What a sequence that was accepted looks like.\<close>

lemma utf8_contD:
  assumes "utf8_cont c i (Suc k) n p = Inr (Some m, j)"
  shows "i < length p" "0x80 \<le> uint (p ! i)" "uint (p ! i) \<le> 0xBF"
    "i = 1 \<Longrightarrow> (c = 0xE0 \<longrightarrow> 0xA0 \<le> uint (p ! i)) \<and> (c = 0xF0 \<longrightarrow> 0x90 \<le> uint (p ! i)) \<and>
      (c = 0xED \<longrightarrow> uint (p ! i) \<le> 0x9F) \<and> (c = 0xF4 \<longrightarrow> uint (p ! i) \<le> 0x8F)"
    "utf8_cont c (i + 1) k (n * 64 + (uint (p ! i) - 128)) p = Inr (Some m, j)"
proof -
  show i: "i < length p" using assms by (simp split: if_splits)
  show x: "0x80 \<le> uint (p ! i)" "uint (p ! i) \<le> 0xBF" using assms i by (auto simp: Let_def split: if_splits)
  show "i = 1 \<Longrightarrow> (c = 0xE0 \<longrightarrow> 0xA0 \<le> uint (p ! i)) \<and> (c = 0xF0 \<longrightarrow> 0x90 \<le> uint (p ! i)) \<and>
      (c = 0xED \<longrightarrow> uint (p ! i) \<le> 0x9F) \<and> (c = 0xF4 \<longrightarrow> uint (p ! i) \<le> 0x8F)"
    using assms i by (auto simp: Let_def split: if_splits)
  have "uint (p ! i) mod 64 = uint (p ! i) - 128" using digit_mod(4) [of "uint (p ! i) - 128"] x by simp
  then have "push_bit 6 n OR (uint (p ! i) AND 0x3f) = n * 64 + (uint (p ! i) - 128)"
    using add_six_bits [of "uint (p ! i) - 128" n] x by (simp add: and_low)
  then show "utf8_cont c (i + 1) k (n * 64 + (uint (p ! i) - 128)) p = Inr (Some m, j)"
    using assms i by (simp add: Let_def split: if_splits)
qed

lemma utf8_restD:
  assumes "utf8_rest c k n p = Inr (Char_Out m, r)" and "m \<noteq> 0xFFFD"
  obtains j where "utf8_cont c 1 k n p = Inr (Some m, j)" "r = drop j p"
  using assms by (auto simp: utf8_rest_def bindR_Inr_iff split: option.splits)

lemma word_bytes: "uint b = k \<Longrightarrow> word_of_int k = (b :: u8)"
  by auto

lemma utf8_char_sound:
  assumes "utf8_char (b # ps) = Inr (Char_Out m, r)" and "m \<noteq> 0xFFFD"
  shows "unicode m \<and> 0x80 \<le> m \<and> b # ps = map word_of_int (utf8_bytes m) @ r"
proof -
  let ?c = "uint b" and ?p = "b # ps"
  have "?c < 256" using uint_bounded [of b] by simp
  consider (two) "0xC2 \<le> ?c" "?c \<le> 0xDF" "utf8_rest ?c 1 (?c AND 0x1f) ?p = Inr (Char_Out m, r)"
    | (three) "0xE0 \<le> ?c" "?c \<le> 0xEF" "utf8_rest ?c 2 (?c AND 0xf) ?p = Inr (Char_Out m, r)"
    | (four) "0xF0 \<le> ?c" "?c \<le> 0xF4" "utf8_rest ?c 3 (?c AND 0x7) ?p = Inr (Char_Out m, r)"
    using assms by (auto simp: utf8_char_def Let_def split: if_splits)
  then show ?thesis
  proof cases
    case two
    have n: "?c AND 0x1f = ?c - 192" using digit_mod(1) [of "?c - 192"] two by (simp add: and_low)
    obtain j where j: "utf8_cont ?c 1 (Suc 0) (?c - 192) ?p = Inr (Some m, j)" "r = drop j ?p"
      using utf8_restD [OF two(3) assms(2)] unfolding n by auto
    note x = utf8_contD [OF j(1)]
    have m: "(?c - 192) * 64 + (uint (?p ! 1) - 128) = m" "j = 2" using x(5) by simp_all
    obtain x1 qs where p: "ps = x1 # qs" using x(1) by (cases ps) auto
    show ?thesis
      using utf8_bytes_2 [of "?c - 192" "uint x1 - 128"] m x(2,3) two p j(2) by simp
  next
    case three
    have n: "?c AND 0xf = ?c - 224" using digit_mod(2) [of "?c - 224"] three by (simp add: and_low)
    obtain j where j: "utf8_cont ?c 1 (Suc (Suc 0)) (?c - 224) ?p = Inr (Some m, j)" "r = drop j ?p"
      using utf8_restD [OF three(3) assms(2)] unfolding n by (auto simp: numeral_2_eq_2)
    note x = utf8_contD [OF j(1)] and y = utf8_contD [OF utf8_contD(5) [OF j(1)]]
    obtain x1 x2 qs where p: "ps = x1 # x2 # qs" using y(1) by (cases ps rule: remdups_adj.cases) auto
    have m: "m = ((?c - 224) * 64 + (uint x1 - 128)) * 64 + (uint x2 - 128)" "j = 3" using y(5) p by simp_all
    have "utf8_bytes m = [224 + (?c - 224), 128 + (uint x1 - 128), 128 + (uint x2 - 128)] \<and> unicode m \<and> 0x80 \<le> m"
      using x(2-4) y(2,3) three(1,2) p by (intro utf8_bytes_3 [OF _ _ _ _ _ _ _ _ m(1)]) auto
    then show ?thesis using m(2) by (simp add: p j(2))
  next
    case four
    have n: "?c AND 0x7 = ?c - 240" using digit_mod(3) [of "?c - 240"] four by (simp add: and_7)
    obtain j where j: "utf8_cont ?c 1 (Suc (Suc (Suc 0))) (?c - 240) ?p = Inr (Some m, j)" "r = drop j ?p"
      using utf8_restD [OF four(3) assms(2)] unfolding n by (auto simp: numeral_3_eq_3)
    note x = utf8_contD [OF j(1)] and y = utf8_contD [OF utf8_contD(5) [OF j(1)]]
    note z = utf8_contD [OF y(5)]
    obtain x1 x2 x3 qs where p: "ps = x1 # x2 # x3 # qs" using z(1)
      by (cases ps; cases "tl ps"; cases "tl (tl ps)") auto
    have m: "m = (((?c - 240) * 64 + (uint x1 - 128)) * 64 + (uint x2 - 128)) * 64 + (uint x3 - 128)" "j = 4"
      using z(5) p by simp_all
    have "utf8_bytes m = [240 + (?c - 240), 128 + (uint x1 - 128), 128 + (uint x2 - 128), 128 + (uint x3 - 128)] \<and>
        unicode m \<and> 0x80 \<le> m"
      using x(2-4) y(2,3) z(2,3) four(1,2) p by (intro utf8_bytes_4 [OF _ _ _ _ _ _ _ _ _ _ m(1)]) auto
    then show ?thesis using m(2) by (simp add: p j(2))
  qed
qed

lemma last_digit:
  fixes m :: int
  obtains q b where "m = q * 64 + b" "0 \<le> b" "b < 64"
  by (rule that [of "m div 64" "m mod 64"]) simp_all

lemma utf8_char_complete:
  assumes "unicode m" and "0x80 \<le> m"
  shows "utf8_char (map word_of_int (utf8_bytes m) @ r) = Inr (Char_Out m, r)"
proof -
  have m: "0 \<le> m" "m < 0x110000" using assms(1) by (simp_all add: unicode_def)
  obtain q b where q: "m = q * 64 + b" "0 \<le> b" "b < 64" by (rule last_digit)
  obtain h d where h: "q = h * 64 + d" "0 \<le> d" "d < 64" by (rule last_digit)
  obtain g e where g: "h = g * 64 + e" "0 \<le> e" "e < 64" by (rule last_digit)
  consider "m < 0x800" | "0x800 \<le> m" "m < 0x10000" | "0x10000 \<le> m" by linarith
  then show ?thesis
  proof cases
    case 1
    have a: "2 \<le> q" "q < 32" using q 1 assms(2) by linarith+
    have "utf8_bytes m = [192 + q, 128 + b]" using utf8_bytes_2 [OF a q(2,3)] q(1) by simp
    moreover have "utf8_char (word_of_int (192 + q) # word_of_int (128 + b) # r) = Inr (Char_Out (q * 64 + b), r)"
      by (rule utf8_char_2 [OF byte_value byte_value a q(2,3)]) (use a q(2,3) in linarith)+
    ultimately show ?thesis using q(1) by simp
  next
    case 2
    have a: "0 \<le> h" "h < 16" using q h 2 by linarith+
    have s: "h = 0 \<longrightarrow> d \<ge> 32" using q h 2 by linarith
    have t: "h = 13 \<longrightarrow> d < 32"
    proof
      assume "h = 13"
      then have "m < 0xe000" using q h by linarith
      then show "d < 32" using assms(1) \<open>h = 13\<close> q h by (simp add: unicode_def)
    qed
    have "utf8_bytes m = [224 + h, 128 + d, 128 + b]" using utf8_bytes_3 [OF a h(2,3) q(2,3) s t, of m] q(1) h(1) by simp
    moreover have "utf8_char (word_of_int (224 + h) # word_of_int (128 + d) # word_of_int (128 + b) # r) =
        Inr (Char_Out ((h * 64 + d) * 64 + b), r)"
      by (rule utf8_char_3 [OF byte_value byte_value byte_value a h(2,3) q(2,3) s t]) (use a h(2,3) q(2,3) in linarith)+
    ultimately show ?thesis using q(1) h(1) by simp
  next
    case 3
    have a: "0 \<le> g" "g < 5" using q h g 3 m by linarith+
    have s: "g = 0 \<longrightarrow> e \<ge> 16" "g = 4 \<longrightarrow> e < 16" using q h g 3 m by linarith+
    have "utf8_bytes m = [240 + g, 128 + e, 128 + d, 128 + b]"
      using utf8_bytes_4 [OF a g(2,3) h(2,3) q(2,3) s, of m] q(1) h(1) g(1) by simp
    moreover have "utf8_char (word_of_int (240 + g) # word_of_int (128 + e) # word_of_int (128 + d) # word_of_int (128 + b) # r) =
        Inr (Char_Out (((g * 64 + e) * 64 + d) * 64 + b), r)"
      by (rule utf8_char_4 [OF byte_value byte_value byte_value byte_value a g(2,3) h(2,3) q(2,3) s])
        (use a g(2,3) h(2,3) q(2,3) in linarith)+
    ultimately show ?thesis using q(1) h(1) g(1) by simp
  qed
qed

text \<open>
  C28: The decoder of wide constants and the encoder of universal character names are inverse to each other:
  a sequence of bytes is read as the character m, without an error, exactly when it starts with the UTF-8
  encoding of m that unicode_to_utf8 gives, so overlong forms, surrogates and numbers beyond the last
  character are all refused.
\<close>

theorem utf8_char_exact:
  assumes "p \<noteq> []" and "uint (hd p) \<ge> 0x80" and "m \<noteq> 0xFFFD"
  shows "utf8_char p = Inr (Char_Out m, r) \<longleftrightarrow>
    (0x80 \<le> m \<and> m < 2 ^ 32 \<and> (\<exists>bs. unicode_to_utf8 (word_of_int m) = Inr bs \<and> p = bs @ r))"
proof
  assume "utf8_char p = Inr (Char_Out m, r)"
  then have "unicode m \<and> 0x80 \<le> m \<and> p = map word_of_int (utf8_bytes m) @ r"
    using utf8_char_sound [of "hd p" "tl p" m r] assms by simp
  moreover from this have "uint (word_of_int m :: u32) = m" by (simp add: unicode_def uint_word_of_int)
  ultimately show "0x80 \<le> m \<and> m < 2 ^ 32 \<and> (\<exists>bs. unicode_to_utf8 (word_of_int m) = Inr bs \<and> p = bs @ r)"
    by (simp add: unicode_to_utf8_bytes) (simp add: unicode_def)
next
  assume m: "0x80 \<le> m \<and> m < 2 ^ 32 \<and> (\<exists>bs. unicode_to_utf8 (word_of_int m) = Inr bs \<and> p = bs @ r)"
  then have "uint (word_of_int m :: u32) = m" by (simp add: uint_word_of_int)
  then have "unicode m" "p = map word_of_int (utf8_bytes m) @ r" using m by (auto simp: unicode_to_utf8_bytes split: if_splits)
  then show "utf8_char p = Inr (Char_Out m, r)" using utf8_char_complete [of m r] m by simp
qed

theorem utf8_char_exact_witness:
  "utf8_char [0xE2, 0x82, 0xAC, 0] = Inr (Char_Out 0x20AC, [0]) \<and> utf8_char [0xE0, 0x82, 0xAC, 0] \<noteq> Inr (Char_Out 0xAC, [0])"
proof
  have "unicode_to_utf8 (word_of_int 0x20AC) = Inr [0xE2, 0x82, 0xAC]" by (simp add: unicode_to_utf8_def)
  then show "utf8_char [0xE2, 0x82, 0xAC, 0] = Inr (Char_Out 0x20AC, [0])"
    by (subst utf8_char_exact) simp_all
  have "unicode_to_utf8 (word_of_int 0xAC) = Inr [0xC2, 0xAC]" by (simp add: unicode_to_utf8_def)
  then show "utf8_char [0xE0, 0x82, 0xAC, 0] \<noteq> Inr (Char_Out 0xAC, [0])"
    by (subst utf8_char_exact) simp_all
qed

end
