(* ===== verification/Pp_Number.thy ===== *)
theory Pp_Number
  imports Pp_Text
begin

text \<open>
  parse_number (tccpp.c): the number a preprocessing number stands for and its type. The current
  character ch and the pointer p behind it are together the list of the bytes from ch on. What
  strtod, strtof and strtold make of a decimal number and ldexp of a binary one is not computed: the
  result holds the text, or the digits and the exponent, that these functions get.
\<close>

abbreviation (input) TOK_CINT :: int where "TOK_CINT \<equiv> 0xc2"
abbreviation (input) TOK_CLLONG :: int where "TOK_CLLONG \<equiv> 0xc4"
abbreviation (input) TOK_CLONG :: int where "TOK_CLONG \<equiv> 0xc6"
abbreviation (input) TOK_CFLOAT :: int where "TOK_CFLOAT \<equiv> 0xca"
abbreviation (input) TOK_CDOUBLE :: int where "TOK_CDOUBLE \<equiv> 0xcb"
abbreviation (input) TOK_CLDOUBLE :: int where "TOK_CLDOUBLE \<equiv> 0xcc"
abbreviation (input) STRING_MAX_SIZE :: nat where "STRING_MAX_SIZE \<equiv> 1024"

text \<open>An integer with the token, its value and whether the warning of an overflow is given; a float.\<close>

datatype num_tok =
    Int_Num int u64 bool
  | Dec_Float int "u8 list"
  | Bin_Float int "u32 \<times> u32" int

definition toup :: "int \<Rightarrow> int" where
  "toup c = (if c \<ge> 97 \<and> c \<le> 122 then c - 97 + 65 else c)"

section \<open>The digits\<close>

fun number_digits :: "int \<Rightarrow> u8 list \<Rightarrow> u8 list \<Rightarrow> (u8 list \<times> u8 list) res" where
  "number_digits b q [] = Inl MemFault"
| "number_digits b q (ch # p) =
     (case hex_value (sint ch) of
        None \<Rightarrow> Inr (q, ch # p)
      | Some t \<Rightarrow>
          if t \<ge> b then Inr (q, ch # p)
          else if length q \<ge> STRING_MAX_SIZE then Inl (TccError ''number too long'')
          else number_digits b (q @ [ch]) p)"

text \<open>The base, what is in token_buf after the first characters, and the rest; t is not a point.\<close>

definition number_base :: "bool \<Rightarrow> u8 \<Rightarrow> u8 list \<Rightarrow> int \<times> u8 list \<times> u8 list" where
  "number_base tcc_ext t p =
     (let ch = hd p
      in if t = 48 \<and> (ch = 120 \<or> ch = 88) then (16, [], tl p)
         else if t = 48 \<and> tcc_ext \<and> (ch = 98 \<or> ch = 66) then (2, [], tl p)
         else (10, [t], p))"

definition buf_digit :: "u8 \<Rightarrow> int" where
  "buf_digit c =
     (let t = sint c in if t \<ge> 97 then t - 97 + 10 else if t \<ge> 65 then t - 65 + 10 else t - 48)"

section \<open>Integers\<close>

fun int_digits :: "int \<Rightarrow> u64 \<Rightarrow> bool \<Rightarrow> u8 list \<Rightarrow> (u64 \<times> bool) res" where
  "int_digits b n ov [] = Inr (n, ov)"
| "int_digits b n ov (c # q) =
     (let t = buf_digit c
      in if t \<ge> b then Inl (TccError ''invalid digit'')
         else let n2 = n * word_of_int b + word_of_int t
              in int_digits b n2 (ov \<or> n \<ge> 0x1000000000000000 \<and> n2 div word_of_int b \<noteq> n) q)"

text \<open>The suffix. p is one behind ch, so the character at p - 1 is ch.\<close>

fun int_suffix :: "int \<Rightarrow> int \<Rightarrow> u8 list \<Rightarrow> (int \<times> int \<times> u8 list) res" where
  "int_suffix lcount ucount [] = Inl MemFault"
| "int_suffix lcount ucount (ch # p) =
     (let t = toup (sint ch); at_p1 = hd (ch # p)
      in if t = 76 then
           if lcount \<ge> 2 then Inl (TccError ''three 'l's in integer constant'')
           else if lcount \<noteq> 0 \<and> at_p1 \<noteq> ch then Inl (TccError ''incorrect integer suffix'')
           else int_suffix (lcount + 1) ucount p
         else if t = 85 then
           if ucount \<ge> 1 then Inl (TccError ''two 'u's in integer constant'')
           else int_suffix lcount (ucount + 1) p
         else Inr (lcount, ucount, ch # p))"

text \<open>Whether 64 bits or an unsigned type are needed; LONG_SIZE is 4.\<close>

definition int_type :: "int \<Rightarrow> u64 \<Rightarrow> int \<Rightarrow> int \<Rightarrow> bool \<Rightarrow> int \<times> int \<times> bool" where
  "int_type b n lcount ucount ov =
     (if ucount = 0 \<and> b = 10 then
        let lcount1 = (if lcount \<le> 1 \<and> n \<ge> 0x80000000 then 2 else lcount)
        in if n \<ge> 0x8000000000000000 then (lcount1, 1, True) else (lcount1, ucount, ov)
      else
        let (lcount1, ucount1) =
              (if lcount \<le> 1 then
                 if n \<ge> 0x100000000 then (2, ucount)
                 else if n \<ge> 0x80000000 then (lcount, 1)
                 else (lcount, ucount)
               else (lcount, ucount))
        in (lcount1, if n \<ge> 0x8000000000000000 then 1 else ucount1, ov))"

definition int_token :: "int \<Rightarrow> int \<Rightarrow> int" where
  "int_token lcount ucount =
     (let tok = (if lcount \<noteq> 0 then if lcount = 2 then TOK_CLLONG else TOK_CLONG else TOK_CINT)
      in if ucount \<noteq> 0 then tok + 1 else tok)"

definition int_number :: "int \<Rightarrow> u8 list \<Rightarrow> u8 list \<Rightarrow> (num_tok \<times> u8 list) res" where
  "int_number b q p =
     (let (b1, q1) = (if b = 10 \<and> q \<noteq> [] \<and> hd q = 48 then (8, tl q) else (b, q))
      in bindR (int_digits b1 0 False q1) (\<lambda>(n, ov).
         bindR (int_suffix 0 0 p) (\<lambda>(lcount, ucount, p1).
           let (lcount1, ucount1, ov1) = int_type b1 n lcount ucount ov
           in Inr (Int_Num (int_token lcount1 ucount1) n ov1, p1))))"

section \<open>Floating point\<close>

text \<open>The suffix of a float: the token and what follows.\<close>

definition float_suffix :: "u8 list \<Rightarrow> (int \<times> u8 list) res" where
  "float_suffix p =
     (case p of
        [] \<Rightarrow> Inl MemFault
      | ch # p1 \<Rightarrow>
          let t = toup (sint ch)
          in if t = 70 then Inr (TOK_CFLOAT, p1)
             else if t = 76 then Inr (TOK_CLDOUBLE, p1)
             else Inr (TOK_CDOUBLE, p))"

definition bn_lshift :: "u32 \<times> u32 \<Rightarrow> nat \<Rightarrow> u32 \<Rightarrow> u32 \<times> u32" where
  "bn_lshift bn shift or_val =
     (case bn of (v0, v1) \<Rightarrow> (push_bit shift v0 OR or_val, push_bit shift v1 OR drop_bit (32 - shift) v0))"

definition bn_zero :: "u32 \<times> u32" where
  "bn_zero = (0, 0)"

text \<open>The digits behind the point of a binary float.\<close>

fun frac_digits :: "int \<Rightarrow> nat \<Rightarrow> u32 \<times> u32 \<Rightarrow> int \<Rightarrow> u8 list \<Rightarrow> ((u32 \<times> u32) \<times> int \<times> u8 list) res" where
  "frac_digits b shift bn frac_bits [] = Inl MemFault"
| "frac_digits b shift bn frac_bits (ch # p) =
     (case hex_value (sint ch) of
        None \<Rightarrow> Inr (bn, frac_bits, ch # p)
      | Some t \<Rightarrow>
          if t \<ge> b then Inl (TccError ''invalid digit'')
          else frac_digits b shift (bn_lshift bn shift (word_of_int t)) (frac_bits + int shift) p)"

fun exp_digits :: "int \<Rightarrow> u8 list \<Rightarrow> (int \<times> u8 list) res" where
  "exp_digits exp_val [] = Inl MemFault"
| "exp_digits exp_val (ch # p) =
     (if isnum (sint ch) then
        if exp_val * 10 + sint ch \<ge> 2 ^ 31 then Inl MemFault
        else exp_digits (exp_val * 10 + sint ch - 48) p
      else Inr (exp_val, ch # p))"

definition exp_sign :: "u8 list \<Rightarrow> int \<times> u8 list" where
  "exp_sign p = (if p \<noteq> [] \<and> hd p = 43 then (1, tl p) else if p \<noteq> [] \<and> hd p = 45 then (- 1, tl p) else (1, p))"

definition bin_float :: "int \<Rightarrow> u8 list \<Rightarrow> u8 list \<Rightarrow> (num_tok \<times> u8 list) res" where
  "bin_float b q p =
     (let shift = (if b = 16 then 4 else 1);
          bn = fold (\<lambda>c bn. bn_lshift bn shift (word_of_int (buf_digit c))) q bn_zero
      in bindR (if hd p = 46 then frac_digits b shift bn 0 (tl p) else Inr (bn, 0, p)) (\<lambda>(bn1, frac_bits, p1).
         if p1 = [] then Inl MemFault
         else if hd p1 \<noteq> 112 \<and> hd p1 \<noteq> 80 then Inl (Expected ''exponent'')
         else
           let (s, p2) = exp_sign (tl p1)
           in if p2 = [] then Inl MemFault
              else if \<not> isnum (sint (hd p2)) then Inl (Expected ''exponent digits'')
              else
                bindR (exp_digits 0 p2) (\<lambda>(exp_val, p3).
                bindR (float_suffix p3) (\<lambda>(tok, p4).
                  Inr (Bin_Float tok bn1 (exp_val * s - frac_bits), p4)))))"

text \<open>The characters of a decimal float go to token_buf.\<close>

definition buf_put :: "u8 list \<Rightarrow> u8 \<Rightarrow> u8 list res" where
  "buf_put q ch = (if length q \<ge> STRING_MAX_SIZE then Inl (TccError ''number too long'') else Inr (q @ [ch]))"

fun dec_digits :: "u8 list \<Rightarrow> u8 list \<Rightarrow> (u8 list \<times> u8 list) res" where
  "dec_digits q [] = Inl MemFault"
| "dec_digits q (ch # p) =
     (if isnum (sint ch) then bindR (buf_put q ch) (\<lambda>q1. dec_digits q1 p) else Inr (q, ch # p))"

definition dec_exponent :: "u8 list \<Rightarrow> u8 list \<Rightarrow> (u8 list \<times> u8 list) res" where
  "dec_exponent q p =
     (case p of
        [] \<Rightarrow> Inl MemFault
      | ch # p1 \<Rightarrow>
          if ch = 101 \<or> ch = 69 then
            bindR (buf_put q ch) (\<lambda>q1.
            bindR (if p1 \<noteq> [] \<and> (hd p1 = 45 \<or> hd p1 = 43) then bindR (buf_put q1 (hd p1)) (\<lambda>q2. Inr (q2, tl p1))
                   else Inr (q1, p1)) (\<lambda>(q3, p3).
              if p3 = [] then Inl MemFault
              else if \<not> isnum (sint (hd p3)) then Inl (Expected ''exponent digits'')
              else dec_digits q3 p3))
          else Inr (q, p))"

definition dec_float :: "u8 list \<Rightarrow> u8 list \<Rightarrow> (num_tok \<times> u8 list) res" where
  "dec_float q p =
     bindR (dec_exponent q p) (\<lambda>(q1, p1).
     bindR (float_suffix p1) (\<lambda>(tok, p2). Inr (Dec_Float tok q1, p2)))"

section \<open>Numbers\<close>

definition float_follows :: "int \<Rightarrow> u8 \<Rightarrow> bool" where
  "float_follows b ch \<longleftrightarrow>
     ch = 46 \<or> ((ch = 101 \<or> ch = 69) \<and> b = 10) \<or> ((ch = 112 \<or> ch = 80) \<and> (b = 16 \<or> b = 2))"

definition number :: "bool \<Rightarrow> u8 \<Rightarrow> u8 list \<Rightarrow> (num_tok \<times> u8 list) res" where
  "number tcc_ext t p0 =
     (case number_base tcc_ext t p0 of
        (b, q0, p1) \<Rightarrow>
          bindR (number_digits b q0 p1) (\<lambda>(q, p).
            if float_follows b (hd p) then
              if b \<noteq> 10 then bin_float b q p
              else bindR (if hd p = 46 then bindR (buf_put q (hd p)) (\<lambda>q1. dec_digits q1 (tl p)) else Inr (q, p))
                     (\<lambda>(q2, p2). dec_float q2 p2)
            else int_number b q p))"

definition parse_number :: "bool \<Rightarrow> u8 list \<Rightarrow> num_tok res" where
  "parse_number tcc_ext p =
     (case p of
        t # c # ps \<Rightarrow>
          bindR (if t = 46 then bindR (dec_digits [t] (c # ps)) (\<lambda>(q, p1). dec_float q p1)
                 else number tcc_ext t (c # ps))
            (\<lambda>(tok, p1). if p1 = [] then Inl MemFault
               else if hd p1 \<noteq> 0 then Inl (TccError ''invalid number'') else Inr tok)
      | _ \<Rightarrow> Inl MemFault)"

end
