(* ===== verification/Pp_Number_Props.thy ===== *)
theory Pp_Number_Props
  imports Pp_Number
begin

text \<open>
  What parse_number makes of an integer constant: its value modulo 2^64, the first type of the list in
  the C standard that can hold it, and a warning exactly when there is none.
\<close>

section \<open>The constants of C\<close>

text \<open>The value of a list of digits.\<close>

definition digit :: "u8 \<Rightarrow> int" where
  "digit c = (case hex_value (sint c) of Some d \<Rightarrow> d | None \<Rightarrow> 0)"

definition is_digit :: "int \<Rightarrow> u8 \<Rightarrow> bool" where
  "is_digit b c \<longleftrightarrow> (case hex_value (sint c) of Some d \<Rightarrow> d < b | None \<Rightarrow> False)"

definition horner :: "int \<Rightarrow> int \<Rightarrow> u8 list \<Rightarrow> int" where
  "horner b n cs = foldl (\<lambda>n c. n * b + digit c) n cs"

text \<open>
  The type of a constant (6.4.4.1): a number of longs and whether it is unsigned, the first of the list
  for the suffix that can hold the value. int and long have 32 bits.
\<close>

definition type_limit :: "nat \<times> bool \<Rightarrow> int" where
  "type_limit ty = (case ty of (l, u) \<Rightarrow> 2 ^ ((if l = 2 then 64 else 32) - (if u then 0 else 1)))"

definition type_list :: "bool \<Rightarrow> bool \<Rightarrow> nat \<Rightarrow> (nat \<times> bool) list" where
  "type_list decimal u l =
     concat (map (\<lambda>r. (if u then [] else [(r, False)]) @ (if u \<or> \<not> decimal then [(r, True)] else [])) [l ..< 3])"

definition const_type :: "bool \<Rightarrow> bool \<Rightarrow> nat \<Rightarrow> int \<Rightarrow> (nat \<times> bool) option" where
  "const_type decimal u l v = find (\<lambda>ty. v < type_limit ty) (type_list decimal u l)"

definition type_token :: "nat \<times> bool \<Rightarrow> int" where
  "type_token ty = (case ty of (l, u) \<Rightarrow> (if l = 0 then 0xc2 else if l = 1 then 0xc6 else 0xc4) + (if u then 1 else 0))"

definition unsigned_suffix :: "bool \<Rightarrow> u8 list set" where
  "unsigned_suffix u = (if u then {[117], [85]} else {[]})"

definition long_suffix :: "nat \<Rightarrow> u8 list set" where
  "long_suffix l = (if l = 0 then {[]} else if l = 1 then {[108], [76]} else if l = 2 then {[108, 108], [76, 76]} else {})"

definition suffix_of :: "bool \<Rightarrow> nat \<Rightarrow> u8 list \<Rightarrow> bool" where
  "suffix_of u l s \<longleftrightarrow> (\<exists>x\<in>unsigned_suffix u. \<exists>y\<in>long_suffix l. s = x @ y \<or> s = y @ x)"

text \<open>The text of a constant with the digits cs; a decimal constant does not start with 0.\<close>

definition int_prefix :: "int \<Rightarrow> u8 list" where
  "int_prefix b = (if b = 16 then [48, 120] else if b = 2 then [48, 98] else if b = 8 then [48] else [])"

definition c_constant :: "int \<Rightarrow> u8 list \<Rightarrow> bool" where
  "c_constant b cs \<longleftrightarrow> b \<in> {2, 8, 10, 16} \<and> list_all (is_digit b) cs \<and> length cs < STRING_MAX_SIZE \<and>
     (b = 10 \<longrightarrow> cs \<noteq> [] \<and> hd cs \<noteq> 48)"

section \<open>The value\<close>

lemma hex_valueD:
  assumes "hex_value k = Some d"
  shows "0 \<le> d \<and> d < 16 \<and> d = (if k \<ge> 97 then k - 87 else if k \<ge> 65 then k - 55 else k - 48)"
  using assms by (auto simp: hex_value_def isnum_def split: if_splits)

lemma is_digitD:
  assumes "is_digit b c"
  shows "0 \<le> digit c" "digit c < b" "buf_digit c = digit c" "hex_value (sint c) = Some (digit c)"
  using assms hex_valueD [of "sint c"]
  by (auto simp: is_digit_def digit_def buf_digit_def Let_def split: option.splits)

lemma overflow_step:
  fixes N b t :: int
  assumes "0 \<le> N" "2 \<le> b" "b \<le> 16" "0 \<le> t" "t < b"
  defines "n \<equiv> word_of_int N :: u64" and "n2 \<equiv> word_of_int (N * b + t) :: u64"
  shows "(N \<ge> 2 ^ 64 \<or> n \<ge> 0x1000000000000000 \<and> n2 div word_of_int b \<noteq> n) \<longleftrightarrow> N * b + t \<ge> 2 ^ 64"
proof (cases "N \<ge> 2 ^ 64")
  case True
  then have "2 ^ 64 * 1 \<le> N * b" using assms(2) by (intro mult_mono) auto
  then show ?thesis using True assms(4) by simp
next
  case False
  have n: "uint n = N" using False assms(1) by (simp add: n_def uint_word_of_int)
  have b: "uint (word_of_int b :: u64) = b" using assms(2,3) by (simp add: uint_word_of_int)
  have d: "uint (n2 div word_of_int b) = uint n2 div b" by (simp add: uint_div b)
  show ?thesis
  proof (cases "N * b + t < 2 ^ 64")
    case True
    moreover have "0 \<le> N * b + t" using assms by simp
    ultimately have "(N * b + t) mod 2 ^ 64 = N * b + t" by (intro mod_pos_pos_trivial) simp_all
    then have "uint n2 = N * b + t" unfolding n2_def by (simp only: uint_word_of_int) simp
    moreover have "(N * b + t) div b = N" using assms(2,4,5) by simp
    ultimately have "uint (n2 div word_of_int b) = uint n" by (simp only: d n)
    then show ?thesis using True False by (simp add: word_uint_eq_iff)
  next
    case over: False
    have "N * b + t < N * 16 + 16" using assms by (intro add_le_less_mono mult_left_mono) auto
    then have big: "N \<ge> 0x1000000000000000" using over by simp
    have "uint n2 = (N * b + t) mod 2 ^ 64" unfolding n2_def by (simp only: uint_word_of_int) simp
    also have "\<dots> = (N * b + t - 2 ^ 64) mod 2 ^ 64" by (simp only: minus_mod_self2)
    also have "\<dots> \<le> N * b + t - 2 ^ 64" using over by (intro zmod_le_nonneg_dividend) simp
    also have "\<dots> < N * b" using assms(3,5) by simp
    finally have "uint n2 < N * b" .
    moreover have "0 \<le> uint n2 mod b" using assms(2) by simp
    ultimately have "uint n2 div b * b < N * b" by (simp only: minus_mod_eq_div_mult [symmetric])
    then have "uint n2 div b < N" using assms(2) by (simp add: mult_less_cancel_right_pos)
    then have "n2 div word_of_int b \<noteq> n" using d n by auto
    then show ?thesis using big over n by (simp add: word_le_def)
  qed
qed

lemma horner_Cons: "horner b n (c # cs) = horner b (n * b + digit c) cs"
  by (simp add: horner_def)

lemma horner_nonneg: "0 \<le> n \<Longrightarrow> 0 \<le> b \<Longrightarrow> list_all (is_digit b) cs \<Longrightarrow> 0 \<le> horner b n cs"
proof (induction cs arbitrary: n)
  case (Cons c cs)
  have "0 \<le> n * b + digit c" using Cons.prems is_digitD(1) [of b c] by simp
  then show ?case using Cons by (simp add: horner_Cons)
qed (simp add: horner_def)

lemma int_digits_value:
  assumes "2 \<le> b" "b \<le> 16" and "list_all (is_digit b) cs" and "0 \<le> N"
  shows "int_digits b (word_of_int N) (N \<ge> 2 ^ 64) cs = Inr (word_of_int (horner b N cs), horner b N cs \<ge> 2 ^ 64)"
  using assms(3,4)
proof (induction cs arbitrary: N)
  case (Cons c cs)
  have c: "is_digit b c" using Cons.prems by simp
  note d = is_digitD [OF c]
  have "(word_of_int N :: u64) * word_of_int b + word_of_int (digit c) = word_of_int (N * b + digit c)" by simp
  moreover have "0 \<le> N * b + digit c" using Cons.prems(2) assms(1) d(1) by simp
  ultimately show ?case
    using Cons.IH [of "N * b + digit c"] Cons.prems(1) overflow_step [OF Cons.prems(2) assms(1,2) d(1,2)] d(2,3)
    unfolding int_digits.simps Let_def horner_Cons by simp
qed (simp add: horner_def)

section \<open>The type\<close>

lemma type_list_simps:
  "type_list dec u l = (if l = 0 then (if u then [(0, True), (1, True), (2, True)]
      else if dec then [(0, False), (1, False), (2, False)]
      else [(0, False), (0, True), (1, False), (1, True), (2, False), (2, True)])
    else if l = 1 then (if u then [(1, True), (2, True)] else if dec then [(1, False), (2, False)]
      else [(1, False), (1, True), (2, False), (2, True)])
    else if l = 2 then (if u then [(2, True)] else if dec then [(2, False)] else [(2, False), (2, True)])
    else [])"
  by (auto simp: type_list_def upt_rec)

lemma int_type_standard:
  assumes "l \<le> 2" and "0 \<le> v" and "b = 10 \<longleftrightarrow> dec"
    and "int_type b (word_of_int v) (int l) (of_bool u) (v \<ge> 2 ^ 64) = (lc, uc, ov)"
  shows "ov \<longleftrightarrow> const_type dec u l v = None" "const_type dec u l v = Some ty \<Longrightarrow> int_token lc uc = type_token ty"
proof -
  have big: "const_type dec u l v = None" if "v \<ge> 2 ^ 64"
    using that by (auto simp: const_type_def type_list_simps type_limit_def find_None_iff)
  have n: "uint (word_of_int v :: u64) = v" if "v < 2 ^ 64" using that assms(2) by (simp add: uint_word_of_int)
  consider "v \<ge> 2 ^ 64" | "v < 2 ^ 64" by linarith
  then have "(ov \<longleftrightarrow> const_type dec u l v = None) \<and> (\<forall>ty. const_type dec u l v = Some ty \<longrightarrow> int_token lc uc = type_token ty)"
  proof cases
    case 1
    then show ?thesis using big assms(4) by (auto simp: int_type_def Let_def split: if_splits prod.splits)
  next
    case 2
    have c: "l = 0 \<or> l = 1 \<or> l = 2" using assms(1) by auto
    from 2 show ?thesis
      using c n [OF 2] assms(2-4)
      by (elim disjE; cases u; cases dec)
        (auto simp: int_type_def Let_def const_type_def type_list_simps type_limit_def type_token_def
          int_token_def word_le_def split: if_splits)
  qed
  then show "ov \<longleftrightarrow> const_type dec u l v = None" "const_type dec u l v = Some ty \<Longrightarrow> int_token lc uc = type_token ty"
    by blast+
qed

section \<open>The text\<close>

lemma number_digits_all:
  assumes "list_all (is_digit b) cs" and "length q + length cs \<le> STRING_MAX_SIZE" and "hex_value (sint c) = None"
  shows "number_digits b q (cs @ c # r) = Inr (q @ cs, c # r)"
  using assms(1,2)
proof (induction cs arbitrary: q)
  case (Cons d cs)
  have "hex_value (sint d) = Some (digit d)" "digit d < b" using Cons.prems(1) is_digitD(2,4) [of b d] by simp_all
  then show ?case using Cons.IH [of "q @ [d]"] Cons.prems by simp
qed (simp add: assms(3))

lemma suffix_start:
  assumes "suffix_of u l s"
  obtains c r where "s @ [0] = c # r" "c \<in> {117, 85, 108, 76, 0}"
  using assms that by (fastforce simp: suffix_of_def unsigned_suffix_def long_suffix_def split: if_splits)

lemma suffix_char:
  "c \<in> {117, 85, 108, 76, 0} \<Longrightarrow> hex_value (sint (c :: u8)) = None \<and> \<not> float_follows b c"
  by (auto simp: hex_value_def isnum_def float_follows_def)

lemma int_suffix_read:
  assumes "suffix_of u l s"
  shows "int_suffix 0 0 (s @ [0]) = Inr (int l, of_bool u, [0])" "l \<le> 2"
  using assms
  by (auto simp: suffix_of_def unsigned_suffix_def long_suffix_def toup_def Let_def split: if_splits)

lemma int_number_value:
  assumes "b \<in> {2, 8, 10, 16}" and "list_all (is_digit b) cs" and "b = 10 \<longrightarrow> hd cs \<noteq> 48 \<and> cs \<noteq> []" and "suffix_of u l s"
  shows "\<exists>tok. int_number (if b = 8 then 10 else b) (if b = 8 then 48 # cs else cs) (s @ [0]) =
      Inr (Int_Num tok (word_of_int (horner b 0 cs)) (const_type (b = 10) u l (horner b 0 cs) = None), [0]) \<and>
    (\<forall>ty. const_type (b = 10) u l (horner b 0 cs) = Some ty \<longrightarrow> tok = type_token ty)"
proof -
  let ?v = "horner b 0 cs"
  have d: "int_digits b 0 False cs = Inr (word_of_int ?v, ?v \<ge> 2 ^ 64)"
    using int_digits_value [of b cs 0] assms(1,2) by auto
  have "0 \<le> ?v" using assms(1,2) horner_nonneg [of 0 b cs] by auto
  obtain lc uc ov where t: "int_type b (word_of_int ?v) (int l) (of_bool u) (?v \<ge> 2 ^ 64) = (lc, uc, ov)"
    by (metis prod_cases3)
  note ty = int_type_standard [OF int_suffix_read(2) [OF assms(4)] \<open>0 \<le> ?v\<close> refl t]
  let ?b = "if b = 8 then 10 else b" and ?q = "if b = 8 then 48 # cs else cs"
  have "(if ?b = 10 \<and> ?q \<noteq> [] \<and> hd ?q = 48 then (8, tl ?q) else (?b, ?q)) = (b, cs)"
    using assms(1,3) by auto
  then have "int_number ?b ?q (s @ [0]) = Inr (Int_Num (int_token lc uc) (word_of_int ?v) ov, [0])"
    using t by (cases u) (simp_all only: int_number_def d int_suffix_read(1) [OF assms(4)] bindR_simps prod.case Let_def)
  then show ?thesis using ty by auto
qed

text \<open>
  C2: An integer constant gets its value modulo 2^64 and, of the types the C standard lists for its
  base and suffix, the first that can hold it; there is a warning exactly when no type can. The digits are
  any of base 10, 8, 16 or, as an extension, 2, the suffix any that C allows.
\<close>

theorem parse_number_typed:
  assumes "c_constant b cs" and "suffix_of u l s" and "b = 2 \<longrightarrow> tcc_ext"
  shows "\<exists>tok. parse_number tcc_ext (int_prefix b @ cs @ s @ [0]) =
      Inr (Int_Num tok (word_of_int (horner b 0 cs)) (const_type (b = 10) u l (horner b 0 cs) = None)) \<and>
    (\<forall>ty. const_type (b = 10) u l (horner b 0 cs) = Some ty \<longrightarrow> tok = type_token ty)"
proof -
  obtain c r where s: "s @ [0] = c # r" "c \<in> {117, 85, 108, 76, 0}" using suffix_start [OF assms(2)] .
  note sc = suffix_char [OF s(2)]
  let ?b = "if b = 8 then 10 else b" and ?q = "if b = 8 then 48 # cs else cs"
  have b: "b \<in> {2, 8, 10, 16}" "list_all (is_digit b) cs" "b = 10 \<longrightarrow> hd cs \<noteq> 48 \<and> cs \<noteq> []" "length cs < STRING_MAX_SIZE"
    using assms(1) by (auto simp: c_constant_def)
  have d: "number_digits ?b q (ds @ c # r) = Inr (q @ ds, c # r)"
    if "list_all (is_digit ?b) ds" "length q + length ds \<le> STRING_MAX_SIZE" for q ds
    using number_digits_all [OF that] sc by simp
  have scan: "parse_number tcc_ext (int_prefix b @ cs @ c # r) =
      bindR (int_number ?b ?q (c # r)) (\<lambda>(tok, p1). if p1 = [] then Inl MemFault
        else if hd p1 \<noteq> 0 then Inl (TccError ''invalid number'') else Inr tok)"
  proof (cases "b = 10")
    case True
    then obtain t ds where cs: "cs = t # ds" "t \<noteq> 48" using b(3) by (cases cs) auto
    have t: "t \<noteq> 46" "is_digit 10 t" "list_all (is_digit 10) ds" using b(2) True cs by (auto simp: is_digit_def hex_value_def isnum_def)
    obtain x y where "ds @ c # r = x # y" by (cases "ds @ c # r") auto
    then show ?thesis
      using d [of ds "[t]"] t b(4) cs True sc by (simp add: parse_number_def number_def number_base_def int_prefix_def)
  next
    case False
    then consider "b = 16" | "b = 2" | "b = 8" using b(1) by auto
    then show ?thesis
    proof cases
      case 1
      then show ?thesis
        using d [of cs "[]"] b(2,4) sc by (simp add: parse_number_def number_def number_base_def int_prefix_def)
    next
      case 2
      then show ?thesis
        using d [of cs "[]"] b(2,4) sc assms(3) by (simp add: parse_number_def number_def number_base_def int_prefix_def)
    next
      case 3
      obtain x y where xy: "cs @ c # r = x # y" by (cases "cs @ c # r") auto
      have "is_digit 8 x \<or> x = c" using xy b(2) 3 by (cases cs) auto
      then have x: "x \<noteq> 120" "x \<noteq> 88" "x \<noteq> 98" "x \<noteq> 66" using s(2) by (auto simp: is_digit_def hex_value_def isnum_def)
      have "list_all (is_digit 10) cs"
        using b(2) 3 by (auto simp: list_all_iff is_digit_def split: option.splits)
      from d [of cs "[48]"] this have "number_digits 10 [48] (x # y) = Inr (48 # cs, c # r)" using 3 b(4) by (simp add: xy)
      then show ?thesis
        using x sc 3 by (simp add: parse_number_def number_def number_base_def int_prefix_def xy)
    qed
  qed
  show ?thesis using int_number_value [OF b(1-3) assms(2)] unfolding s(1) scan by auto
qed

theorem parse_number_typed_witness:
  "parse_number False [48, 120, 102, 102, 102, 102, 102, 102, 102, 102, 0] = Inr (Int_Num 0xc3 0xffffffff False)"
proof -
  have h: "horner 16 0 [102, 102, 102, 102, 102, 102, 102, 102] = 0xffffffff"
    by (simp add: horner_def digit_def hex_value_def)
  have "c_constant 16 [102, 102, 102, 102, 102, 102, 102, 102]"
    by (simp add: c_constant_def is_digit_def hex_value_def)
  moreover have "suffix_of False 0 []" by (simp add: suffix_of_def unsigned_suffix_def long_suffix_def)
  moreover have "const_type False False 0 0xffffffff = Some (0, True)"
    by (simp add: const_type_def type_list_simps type_limit_def)
  ultimately show ?thesis
    using parse_number_typed [of 16 "[102, 102, 102, 102, 102, 102, 102, 102]" False 0 "[]" False]
    unfolding h by (auto simp: int_prefix_def type_token_def)
qed

section \<open>Constants that are accepted\<close>

text \<open>
  The suffix lL is none of C, but it passes: the check meant to refuse it compares the character with
  itself. So does 0x without a digit, which is read as 0.
\<close>

lemma mixed_long_suffix_accepted:
  "parse_number False [49, 108, 76, 0] = Inr (Int_Num 0xc4 1 False)" "parse_number False [48, 120, 0] = Inr (Int_Num 0xc2 0 False)"
  by (simp_all add: parse_number_def number_def number_base_def hex_value_def isnum_def float_follows_def int_number_def
      buf_digit_def toup_def int_type_def int_token_def Let_def word_le_def)

section \<open>Binary floats\<close>

text \<open>The mantissa is shifted in as one number of 64 bits.\<close>

definition bn_word :: "u32 \<times> u32 \<Rightarrow> u64" where
  "bn_word bn = push_bit 32 (ucast (snd bn)) OR ucast (fst bn)"

lemma bit_bn_word: "bit (bn_word (a, b)) i \<longleftrightarrow> (if i < 32 then bit a i else bit b (i - 32))"
  using bit_imp_le_length [of a i] bit_imp_le_length [of b "i - 32"] by (auto simp: bn_word_def bit_simps)

lemma bn_lshift_word:
  assumes "0 < n" "n < 32"
  shows "bn_word (bn_lshift bn n d) = push_bit n (bn_word bn) OR ucast d"
proof (rule bit_word_eqI)
  fix i assume "i < LENGTH(64)"
  then have i: "i < 64" by simp
  obtain a b where bn: "bn = (a, b)" by (cases bn)
  have l: "bit (bn_word (bn_lshift bn n d)) i \<longleftrightarrow>
      (if i < 32 then n \<le> i \<and> bit a (i - n) \<or> bit d i else n \<le> i - 32 \<and> bit b (i - 32 - n) \<or> bit a (i - 32 + (32 - n)))"
    using i by (auto simp: bn bn_lshift_def bit_bn_word bit_or_iff bit_push_bit_iff bit_drop_bit_eq add.commute)
  have r: "bit (push_bit n (bn_word bn) OR ucast d) i \<longleftrightarrow> n \<le> i \<and> (if i - n < 32 then bit a (i - n) else bit b (i - n - 32)) \<or> bit d i"
    using i by (simp add: bn bit_bn_word bit_simps)
  consider "i < 32" | "32 \<le> i" "i < 32 + n" | "32 + n \<le> i" by linarith
  then show "bit (bn_word (bn_lshift bn n d)) i = bit (push_bit n (bn_word bn) OR ucast d) i"
  proof cases
    case 1
    then show ?thesis unfolding l r by auto
  next
    case 2
    then have "i - 32 + (32 - n) = i - n" "\<not> n \<le> i - 32" "n \<le> i" "i - n < 32" using assms by linarith+
    moreover have "\<not> bit d i" using 2 bit_imp_le_length [of d i] by auto
    ultimately show ?thesis unfolding l r using 2 by simp
  next
    case 3
    then have "i - 32 + (32 - n) = i - n" "i - 32 - n = i - n - 32" "n \<le> i - 32" "\<not> i - n < 32" "n \<le> i" using assms by linarith+
    moreover have "\<not> bit d i" "\<not> bit a (i - n)"
      using 3 assms bit_imp_le_length [of d i] bit_imp_le_length [of a "i - n"] by auto
    ultimately show ?thesis unfolding l r using 3 by simp
  qed
qed

end
