(* ===== verification/Tok_Table.thy ===== *)
theory Tok_Table
  imports Pp_Text
begin

text \<open>
  The table of identifiers (tccpp.c): tok_alloc and tok_alloc_new, which give every spelling a token
  of its own, the loop of tccpp_new over the keywords, and the spelling get_tok_str gives back. A TokenSym is
  its index in table_ident; a pointer into the hash chains is the place it points to.
\<close>

abbreviation (input) TOK_IDENT :: int where "TOK_IDENT \<equiv> 256"
abbreviation (input) SYM_FIRST_ANOM :: int where "SYM_FIRST_ANOM \<equiv> 0x10000000"
abbreviation (input) TOK_HASH_SIZE :: nat where "TOK_HASH_SIZE \<equiv> 16384"
abbreviation (input) TOK_ALLOC_INCR :: nat where "TOK_ALLOC_INCR \<equiv> 512"

text \<open>The characters of str without the final zero; their number is len.\<close>

record token_sym =
  tk_hash_next :: "nat option"
  tk_define :: "nat option"
  tk_label :: "nat option"
  tk_struct :: "nat option"
  tk_identifier :: "nat option"
  tk_tok :: int
  tk_str :: "u8 list"

text \<open>\<open>tt_room\<close> is the number of pointers table_ident has room for.\<close>

record token_table =
  tt_table :: "token_sym list"
  tt_room :: nat
  tt_hash :: "nat option list"
  tt_tok_ident :: int

datatype hash_place = Bucket nat | Hash_Next nat

definition place_get :: "token_table \<Rightarrow> hash_place \<Rightarrow> nat option res" where
  "place_get st pts =
     (case pts of
        Bucket h \<Rightarrow> if h < length (tt_hash st) then Inr (tt_hash st ! h) else Inl MemFault
      | Hash_Next i \<Rightarrow> if i < length (tt_table st) then Inr (tk_hash_next (tt_table st ! i)) else Inl MemFault)"

definition place_put :: "nat \<Rightarrow> hash_place \<Rightarrow> token_table \<Rightarrow> token_table" where
  "place_put i pts st =
     (case pts of
        Bucket h \<Rightarrow> st\<lparr>tt_hash := (tt_hash st)[h := Some i]\<rparr>
      | Hash_Next j \<Rightarrow> st\<lparr>tt_table := (tt_table st)[j := (tt_table st ! j)\<lparr>tk_hash_next := Some i\<rparr>]\<rparr>)"

section \<open>Adding an identifier\<close>

definition tok_alloc_new :: "hash_place \<Rightarrow> u8 list \<Rightarrow> token_table \<Rightarrow> (nat \<times> token_table) res" where
  "tok_alloc_new pts str st =
     (if tt_tok_ident st \<ge> SYM_FIRST_ANOM then Inl (TccError ''memory full (symbols)'')
      else
        let i = nat (tt_tok_ident st - TOK_IDENT);
            room = (if i mod TOK_ALLOC_INCR = 0 then i + TOK_ALLOC_INCR else tt_room st);
            ts = \<lparr>tk_hash_next = None, tk_define = None, tk_label = None, tk_struct = None, tk_identifier = None,
                  tk_tok = tt_tok_ident st, tk_str = str\<rparr>
        in if i < room \<and> i = length (tt_table st) then
             Inr (i, place_put i pts (st\<lparr>tt_room := room, tt_table := tt_table st @ [ts],
               tt_tok_ident := tt_tok_ident st + 1\<rparr>))
           else Inl MemFault)"

definition TOK_HASH_FUNC :: "u32 \<Rightarrow> u8 \<Rightarrow> u32" where
  "TOK_HASH_FUNC h c = h + push_bit 5 h + drop_bit 27 h + ucast c"

definition tok_hash :: "u8 list \<Rightarrow> u32" where
  "tok_hash str = fold (\<lambda>c h. TOK_HASH_FUNC h c) str 1 AND (of_nat TOK_HASH_SIZE - 1)"

text \<open>
  The walk along a chain: the token with this spelling, or the place of the null pointer at its end.
  It takes fuel, one for every token and one for the end.
\<close>

fun tok_walk :: "nat \<Rightarrow> u8 list \<Rightarrow> token_table \<Rightarrow> hash_place \<Rightarrow> (hash_place + nat) res" where
  "tok_walk 0 str st pts = Inl NoReturn"
| "tok_walk (Suc k) str st pts =
     bindR (place_get st pts) (\<lambda>ts.
       case ts of
         None \<Rightarrow> Inr (Inl pts)
       | Some i \<Rightarrow>
           if i < length (tt_table st) then
             if tk_str (tt_table st ! i) = str then Inr (Inr i) else tok_walk k str st (Hash_Next i)
           else Inl MemFault)"

definition tok_alloc :: "u8 list \<Rightarrow> token_table \<Rightarrow> (nat \<times> token_table) res" where
  "tok_alloc str st =
     bindR (tok_walk (Suc (length (tt_table st))) str st (Bucket (unat (tok_hash str)))) (\<lambda>r.
       case r of
         Inr i \<Rightarrow> Inr (i, st)
       | Inl pts \<Rightarrow> tok_alloc_new pts str st)"

definition tok_alloc_const :: "u8 list \<Rightarrow> token_table \<Rightarrow> (int \<times> token_table) res" where
  "tok_alloc_const str st =
     bindR (strlen str) (\<lambda>n. bindR (tok_alloc (take n str) st) (\<lambda>(i, st1).
       if i < length (tt_table st1) then Inr (tk_tok (tt_table st1 ! i), st1) else Inl MemFault))"

section \<open>The keywords\<close>

text \<open>tccpp_new: p runs over tcc_keywords, strings that end in zero, with a zero behind the last one.\<close>

function add_keywords :: "u8 list \<Rightarrow> token_table \<Rightarrow> token_table res" where
  "add_keywords p st =
     (if p = [] then Inl MemFault
      else if hd p = 0 then Inr st
      else
        (case strlen p of
           Inl e \<Rightarrow> Inl e
         | Inr n \<Rightarrow>
             (case tok_alloc (take n p) st of
                Inl e \<Rightarrow> Inl e
              | Inr (i, st1) \<Rightarrow> add_keywords (drop (n + 1) p) st1)))"
  by pat_completeness auto
termination
  by (relation "measure (\<lambda>(p, st). length p)") auto

declare add_keywords.simps [simp del]

definition tok_table_new :: token_table where
  "tok_table_new = \<lparr>tt_table = [], tt_room = 0, tt_hash = replicate TOK_HASH_SIZE None, tt_tok_ident = TOK_IDENT\<rparr>"

text \<open>The branch of get_tok_str for identifiers.\<close>

definition ident_str :: "int \<Rightarrow> token_table \<Rightarrow> u8 list option" where
  "ident_str v st =
     (if v < TOK_IDENT then None
      else if v < tt_tok_ident st \<and> nat (v - TOK_IDENT) < length (tt_table st)
      then Some (tk_str (tt_table st ! nat (v - TOK_IDENT)))
      else None)"

end
