(* ===== verification/Tok_Table_Props.thy ===== *)
theory Tok_Table_Props
  imports Tok_Table
begin

text \<open>
  The token table implements a list of distinct spellings: tok_alloc finds the position of a spelling
  or appends it, and token numbers and positions belong together. The hash chains hold, for every chain_head,
  the positions of its spellings in the order in which they came.
\<close>

section \<open>Chains\<close>

fun hash_chain :: "(nat \<Rightarrow> nat option) \<Rightarrow> nat option \<Rightarrow> nat list \<Rightarrow> bool" where
  "hash_chain nxt p [] \<longleftrightarrow> p = None"
| "hash_chain nxt p (i # is) \<longleftrightarrow> p = Some i \<and> hash_chain nxt (nxt i) is"

definition tt_next :: "token_table \<Rightarrow> nat \<Rightarrow> nat option" where
  "tt_next st i = tk_hash_next (tt_table st ! i)"

definition tt_strs :: "token_table \<Rightarrow> u8 list list" where
  "tt_strs st = map tk_str (tt_table st)"

definition chain_head :: "u8 list \<Rightarrow> nat" where
  "chain_head str = unat (tok_hash str)"

definition in_hash :: "u8 list list \<Rightarrow> nat \<Rightarrow> nat list" where
  "in_hash strs h = filter (\<lambda>i. chain_head (strs ! i) = h) [0 ..< length strs]"

definition tt_room_for :: "nat \<Rightarrow> nat" where
  "tt_room_for n = TOK_ALLOC_INCR * ((n + TOK_ALLOC_INCR - 1) div TOK_ALLOC_INCR)"

definition tt_ok :: "token_table \<Rightarrow> bool" where
  "tt_ok st \<longleftrightarrow> length (tt_hash st) = TOK_HASH_SIZE \<and>
     (\<forall>h < TOK_HASH_SIZE. hash_chain (tt_next st) (tt_hash st ! h) (in_hash (tt_strs st) h)) \<and>
     distinct (tt_strs st) \<and> (\<forall>i < length (tt_table st). tk_tok (tt_table st ! i) = TOK_IDENT + int i) \<and>
     tt_tok_ident st = TOK_IDENT + int (length (tt_table st)) \<and> tt_room st = tt_room_for (length (tt_table st))"

lemma bucket_bound: "chain_head str < TOK_HASH_SIZE"
proof -
  have "tok_hash str \<le> 0x3fff" unfolding tok_hash_def by (simp add: word_and_le1)
  then show ?thesis by (simp add: chain_head_def word_le_nat_alt)
qed

lemma hash_chain_cong:
  "hash_chain nxt p is \<Longrightarrow> (\<And>i. i \<in> set is \<Longrightarrow> nxt' i = nxt i) \<Longrightarrow> hash_chain nxt' p is"
  by (induction "is" arbitrary: p) auto

lemma in_hash_lt: "i \<in> set (in_hash strs h) \<longleftrightarrow> i < length strs \<and> chain_head (strs ! i) = h"
  by (auto simp: in_hash_def)

lemma in_hash_append:
  "in_hash (strs @ [str]) h = in_hash strs h @ (if chain_head str = h then [length strs] else [])"
proof -
  have "filter (\<lambda>i. chain_head ((strs @ [str]) ! i) = h) [0 ..< length strs] = in_hash strs h"
    unfolding in_hash_def by (rule filter_cong) (auto simp: nth_append)
  then show ?thesis by (simp add: in_hash_def)
qed

lemma distinct_in_hash: "distinct (in_hash strs h)"
  by (simp add: in_hash_def)

text \<open>A new token at the end of its chain.\<close>

lemma hash_chain_add:
  assumes "hash_chain nxt p is" and "n \<notin> set is" and "distinct is" and "is \<noteq> []"
  shows "hash_chain (nxt(n := None, last is := Some n)) p (is @ [n])"
  using assms
proof (induction "is" arbitrary: p)
  case (Cons i "is")
  show ?case
  proof (cases "is = []")
    case False
    then have "i \<noteq> last is" "i \<noteq> n" "last (i # is) = last is" using Cons.prems(2,3) by auto
    then show ?thesis using Cons False by auto
  qed (use Cons in auto)
qed simp

section \<open>Walking\<close>

lemma tok_walk_chain:
  assumes "place_get st pts = Inr p" and "hash_chain (tt_next st) p is" and "length is < k"
    and "\<And>i. i \<in> set is \<Longrightarrow> i < length (tt_table st)"
  shows "tok_walk k str st pts =
    (case find (\<lambda>i. tk_str (tt_table st ! i) = str) is of
       Some i \<Rightarrow> Inr (Inr i) | None \<Rightarrow> Inr (Inl (if is = [] then pts else Hash_Next (last is))))"
  using assms
proof (induction "is" arbitrary: k pts p)
  case Nil
  then show ?case by (cases k) simp_all
next
  case (Cons i "is")
  obtain k' where k: "k = Suc k'" using Cons.prems(3) by (cases k) auto
  have i: "i < length (tt_table st)" using Cons.prems(4) by simp
  have "place_get st (Hash_Next i) = Inr (tt_next st i)" using i by (simp add: place_get_def tt_next_def)
  from Cons.IH [OF this, of k'] show ?case using Cons.prems k i by (auto split: option.splits)
qed

lemma find_none: "find P xs = None \<longleftrightarrow> (\<forall>x\<in>set xs. \<not> P x)"
  by (auto simp: find_None_iff)

lemma tok_walk_ok:
  fixes str :: "u8 list"
  assumes "tt_ok st"
  defines "is \<equiv> in_hash (tt_strs st) (chain_head str)"
  shows "str \<in> set (tt_strs st) \<Longrightarrow> \<exists>i < length (tt_table st). tk_str (tt_table st ! i) = str \<and>
      tok_walk (Suc (length (tt_table st))) str st (Bucket (chain_head str)) = Inr (Inr i)"
    "str \<notin> set (tt_strs st) \<Longrightarrow> tok_walk (Suc (length (tt_table st))) str st (Bucket (chain_head str)) =
      Inr (Inl (if is = [] then Bucket (chain_head str) else Hash_Next (last is)))"
proof -
  have c: "hash_chain (tt_next st) (tt_hash st ! chain_head str) is"
    using assms(1) bucket_bound by (simp add: tt_ok_def is_def)
  have p: "place_get st (Bucket (chain_head str)) = Inr (tt_hash st ! chain_head str)"
    using assms(1) bucket_bound by (simp add: tt_ok_def place_get_def)
  have "length is \<le> length (tt_strs st)" unfolding is_def in_hash_def using length_filter_le [of _ "[0..<length (tt_strs st)]"] by simp
  then have l: "length is < Suc (length (tt_table st))" by (simp add: tt_strs_def)
  have b: "i < length (tt_table st)" if "i \<in> set is" for i
    using that unfolding is_def in_hash_lt by (simp add: tt_strs_def)
  note w = tok_walk_chain [OF p c l b, of str]
  show "\<exists>i < length (tt_table st). tk_str (tt_table st ! i) = str \<and>
      tok_walk (Suc (length (tt_table st))) str st (Bucket (chain_head str)) = Inr (Inr i)" if "str \<in> set (tt_strs st)"
  proof -
    obtain i where i: "i < length (tt_table st)" "tk_str (tt_table st ! i) = str"
    proof -
      obtain ts where "ts \<in> set (tt_table st)" "tk_str ts = str" using \<open>str \<in> set (tt_strs st)\<close> unfolding tt_strs_def by auto
      then show ?thesis using that unfolding in_set_conv_nth by blast
    qed
    then have "i \<in> set is" by (simp add: is_def in_hash_lt tt_strs_def)
    then have "find (\<lambda>i. tk_str (tt_table st ! i) = str) is \<noteq> None" using i(2) unfolding find_none by blast
    then obtain j where j: "find (\<lambda>i. tk_str (tt_table st ! i) = str) is = Some j" by blast
    then have "j \<in> set is \<and> tk_str (tt_table st ! j) = str" by (rule find_SomeD)
    then show ?thesis using w j b by (intro exI [of _ j]) simp
  qed
  show "tok_walk (Suc (length (tt_table st))) str st (Bucket (chain_head str)) =
      Inr (Inl (if is = [] then Bucket (chain_head str) else Hash_Next (last is)))" if "str \<notin> set (tt_strs st)"
  proof -
    have "tk_str (tt_table st ! i) \<noteq> str" if "i \<in> set is" for i
      using that b \<open>str \<notin> set (tt_strs st)\<close> by (auto simp: tt_strs_def)
    then have "find (\<lambda>i. tk_str (tt_table st ! i) = str) is = None" by (simp add: find_none)
    then show ?thesis using w by simp
  qed
qed

section \<open>Adding\<close>

lemma tt_room_for_step:
  "tt_room_for (Suc n) = (if n mod TOK_ALLOC_INCR = 0 then n + TOK_ALLOC_INCR else tt_room_for n)" "n < tt_room_for (Suc n)"
proof -
  obtain q r where n: "n = 512 * q + r" "r < 512" using mult_div_mod_eq [of 512 n] by (metis mod_less_divisor zero_less_numeral)
  have a: "(Suc n + 512 - 1) div 512 = q + 1" "(n + 512 - 1) div 512 = (if r = 0 then q else q + 1)" using n by auto
  have "n mod 512 = r" using n by simp
  then show "tt_room_for (Suc n) = (if n mod TOK_ALLOC_INCR = 0 then n + TOK_ALLOC_INCR else tt_room_for n)"
    unfolding tt_room_for_def a using n by simp
  show "n < tt_room_for (Suc n)" unfolding tt_room_for_def a using n by simp
qed

lemma update_next:
  "tk_str (xs[j := (xs ! j)\<lparr>tk_hash_next := p\<rparr>] ! i) = tk_str (xs ! i)"
  "tk_tok (xs[j := (xs ! j)\<lparr>tk_hash_next := p\<rparr>] ! i) = tk_tok (xs ! i)"
  by (cases "j = i"; cases "j < length xs"; simp add: list_update_beyond)+

lemma place_put_table:
  "map tk_str (tt_table (place_put i pts st)) = map tk_str (tt_table st)"
  "length (tt_table (place_put i pts st)) = length (tt_table st)"
  "j < length (tt_table st) \<Longrightarrow> tk_tok (tt_table (place_put i pts st) ! j) = tk_tok (tt_table st ! j)"
  "tt_room (place_put i pts st) = tt_room st" "tt_tok_ident (place_put i pts st) = tt_tok_ident st"
  "length (tt_hash (place_put i pts st)) = length (tt_hash st)"
proof -
  show "map tk_str (tt_table (place_put i pts st)) = map tk_str (tt_table st)"
    by (rule nth_equalityI) (auto simp: place_put_def update_next split: hash_place.splits)
qed (auto simp: place_put_def update_next split: hash_place.splits)

lemma tok_alloc_new_ok:
  assumes ok: "tt_ok st" and new: "str \<notin> set (tt_strs st)" and room: "int (length (tt_table st)) < SYM_FIRST_ANOM - TOK_IDENT"
  defines "is \<equiv> in_hash (tt_strs st) (chain_head str)"
  defines "pts \<equiv> if is = [] then Bucket (chain_head str) else Hash_Next (last is)"
  shows "\<exists>st'. tok_alloc_new pts str st = Inr (length (tt_table st), st') \<and> tt_ok st' \<and> tt_strs st' = tt_strs st @ [str]"
proof -
  let ?n = "length (tt_table st)"
  let ?ts = "\<lparr>tk_hash_next = None, tk_define = None, tk_label = None, tk_struct = None, tk_identifier = None,
    tk_tok = tt_tok_ident st, tk_str = str\<rparr>"
  let ?st1 = "st\<lparr>tt_room := tt_room_for (Suc ?n), tt_table := tt_table st @ [?ts], tt_tok_ident := tt_tok_ident st + 1\<rparr>"
  let ?st = "place_put ?n pts ?st1"
  have id: "tt_tok_ident st = TOK_IDENT + int ?n" using ok by (simp add: tt_ok_def)
  have alloc: "tok_alloc_new pts str st = Inr (?n, ?st)"
    using ok room tt_room_for_step [of ?n] by (auto simp: tok_alloc_new_def Let_def tt_ok_def split: if_splits)
  have strs: "tt_strs ?st = tt_strs st @ [str]" by (simp add: tt_strs_def place_put_table(1))
  have lt: "i < ?n" if "i \<in> set (in_hash (tt_strs st) h)" for i h using that unfolding in_hash_lt by (simp add: tt_strs_def)
  have is_last: "last is \<in> set is" "last is < ?n" if "is \<noteq> []" using that lt [of "last is" "chain_head str"] by (simp_all add: is_def)
  have nxt: "tt_next ?st i = ((tt_next st)(?n := None)) i" if "i \<le> ?n" "is = [] \<or> i \<noteq> last is" for i
    using that by (auto simp: tt_next_def pts_def place_put_def nth_append nth_list_update)
  have nxt_last: "tt_next ?st (last is) = Some ?n" if "is \<noteq> []"
    using is_last(2) that by (simp add: tt_next_def pts_def place_put_def)
  have hash: "tt_hash ?st ! h = (if is = [] \<and> h = chain_head str then Some ?n else tt_hash st ! h)" if "h < TOK_HASH_SIZE" for h
    using that ok by (simp add: pts_def place_put_def tt_ok_def nth_list_update)
  have chain: "hash_chain (tt_next ?st) (tt_hash ?st ! h) (in_hash (tt_strs ?st) h)" if h: "h < TOK_HASH_SIZE" for h
  proof -
    have old: "hash_chain (tt_next st) (tt_hash st ! h) (in_hash (tt_strs st) h)" using ok h by (simp add: tt_ok_def)
    have len: "length (tt_strs st) = ?n" by (simp add: tt_strs_def)
    show ?thesis
    proof (cases "h = chain_head str")
      case False
      have "last is \<notin> set (in_hash (tt_strs st) h)" if "is \<noteq> []"
        using is_last(1) [OF that] False by (auto simp: is_def in_hash_lt)
      then have "hash_chain (tt_next ?st) (tt_hash st ! h) (in_hash (tt_strs st) h)"
        using old lt [of _ h] by (intro hash_chain_cong [OF old]) (metis nxt fun_upd_apply less_imp_le less_irrefl)
      then show ?thesis using False hash [OF h] by (simp add: strs in_hash_append)
    next
      case True
      show ?thesis
      proof (cases "is = []")
        case True
        then show ?thesis
          using \<open>h = chain_head str\<close> hash [OF h] nxt [of ?n] unfolding strs in_hash_append is_def [symmetric] by (simp add: len is_def)
      next
        case False
        have "hash_chain ((tt_next st)(?n := None, last is := Some ?n)) (tt_hash st ! h) (is @ [?n])"
          using old lt [of ?n h] False \<open>h = chain_head str\<close> distinct_in_hash
          by (intro hash_chain_add) (auto simp: is_def)
        then have "hash_chain (tt_next ?st) (tt_hash st ! h) (is @ [?n])"
        proof (rule hash_chain_cong)
          fix i assume "i \<in> set (is @ [?n])"
          then have "i \<le> ?n" using lt [of i "chain_head str"] by (auto simp: is_def)
          then show "tt_next ?st i = ((tt_next st)(?n := None, last is := Some ?n)) i"
            using nxt [of i] nxt_last [OF False] by (cases "i = last is") simp_all
        qed
        then show ?thesis using False hash [OF h] \<open>h = chain_head str\<close> by (simp add: strs in_hash_append len is_def)
      qed
    qed
  qed
  have "tt_ok ?st"
    unfolding tt_ok_def
  proof (intro conjI allI impI)
    show "length (tt_hash ?st) = TOK_HASH_SIZE" using ok by (simp add: tt_ok_def place_put_table(6))
    show "distinct (tt_strs ?st)" unfolding strs using ok new by (simp add: tt_ok_def)
    show "tk_tok (tt_table ?st ! i) = TOK_IDENT + int i" if "i < length (tt_table ?st)" for i
      using that ok id by (auto simp: place_put_table tt_ok_def nth_append less_Suc_eq)
  qed (use chain id in \<open>simp_all add: place_put_table\<close>)
  then show ?thesis using alloc strs by blast
qed

section \<open>The table as a list of spellings\<close>

lemma ident_str_tok:
  assumes "tt_ok st"
  shows "ident_str v st = (if TOK_IDENT \<le> v \<and> v < TOK_IDENT + int (length (tt_strs st)) then Some (tt_strs st ! nat (v - TOK_IDENT)) else None)"
  using assms by (auto simp: ident_str_def tt_ok_def tt_strs_def)

lemma tok_alloc_cases:
  assumes "tt_ok st" and "int (length (tt_strs st)) < SYM_FIRST_ANOM - TOK_IDENT"
  obtains i st' where "tok_alloc str st = Inr (i, st')" "tt_ok st'" "i < length (tt_strs st')" "tt_strs st' ! i = str"
    "tt_strs st' = (if str \<in> set (tt_strs st) then tt_strs st else tt_strs st @ [str])"
proof (cases "str \<in> set (tt_strs st)")
  case True
  with tok_walk_ok(1) [OF assms(1)] obtain i where "i < length (tt_table st)" "tk_str (tt_table st ! i) = str"
    "tok_alloc str st = Inr (i, st)" by (force simp: tok_alloc_def chain_head_def simp del: tok_walk.simps)
  then show ?thesis using that [of i st] assms(1) True by (simp add: tt_strs_def)
next
  case False
  have n: "length (tt_strs st) = length (tt_table st)" by (simp add: tt_strs_def)
  from tok_alloc_new_ok [OF assms(1) False] assms(2) obtain st' where
    "tok_alloc str st = Inr (length (tt_table st), st')" "tt_ok st'" "tt_strs st' = tt_strs st @ [str]"
    using tok_walk_ok(2) [OF assms(1) False] by (auto simp: tok_alloc_def chain_head_def n simp del: tok_walk.simps)
  then show ?thesis using that [of "length (tt_table st)" st'] False by (simp add: nth_append n)
qed

text \<open>
  C5: tok_alloc gives every spelling one token: the token of a spelling that is in the table is found again
  and nothing changes, a new spelling gets the next number, get_tok_str gives the spelling back, and the
  spellings of all other tokens stay. Two spellings never share a token.
\<close>

theorem tok_alloc_interns:
  assumes "tt_ok st" and "int (length (tt_strs st)) < SYM_FIRST_ANOM - TOK_IDENT"
  shows "\<exists>i st'. tok_alloc str st = Inr (i, st') \<and> tt_ok st' \<and>
    tt_strs st' = (if str \<in> set (tt_strs st) then tt_strs st else tt_strs st @ [str]) \<and>
    ident_str (tk_tok (tt_table st' ! i)) st' = Some str \<and>
    (\<forall>v s. ident_str v st = Some s \<longrightarrow> ident_str v st' = Some s \<and> (s = str \<longrightarrow> v = tk_tok (tt_table st' ! i)))"
proof -
  obtain i st' where r: "tok_alloc str st = Inr (i, st')" "tt_ok st'" "i < length (tt_strs st')" "tt_strs st' ! i = str"
    "tt_strs st' = (if str \<in> set (tt_strs st) then tt_strs st else tt_strs st @ [str])"
    using tok_alloc_cases [OF assms] .
  have t: "tk_tok (tt_table st' ! i) = TOK_IDENT + int i" using r(2,3) by (simp add: tt_ok_def tt_strs_def)
  have "ident_str v st' = Some s \<and> (s = str \<longrightarrow> v = TOK_IDENT + int i)" if v: "ident_str v st = Some s" for v s
  proof -
    have b: "TOK_IDENT \<le> v" "nat (v - TOK_IDENT) < length (tt_strs st)" "tt_strs st ! nat (v - TOK_IDENT) = s"
      using v by (auto simp: ident_str_tok [OF assms(1)] split: if_splits)
    then have n: "nat (v - TOK_IDENT) < length (tt_strs st')" "tt_strs st' ! nat (v - TOK_IDENT) = s"
      using r(5) by (auto simp: nth_append)
    have "distinct (tt_strs st')" using r(2) by (simp add: tt_ok_def)
    then have "nat (v - TOK_IDENT) = i" if "s = str" using n r(3,4) that by (simp add: nth_eq_iff_index_eq [symmetric])
    then show ?thesis using b(1) n by (auto simp: ident_str_tok [OF r(2)])
  qed
  then show ?thesis using r t by (auto simp: ident_str_tok [OF r(2)])
qed

lemma tok_table_new_ok: "tt_ok tok_table_new" "tt_strs tok_table_new = []"
  by (simp_all add: tt_ok_def tok_table_new_def tt_strs_def in_hash_def tt_room_for_def)

theorem tok_alloc_interns_witness:
  "\<exists>i st'. tok_alloc [105, 102] tok_table_new = Inr (i, st') \<and> ident_str (tk_tok (tt_table st' ! i)) st' = Some [105, 102]"
  using tok_alloc_interns [of tok_table_new "[105, 102]"] tok_table_new_ok by auto

text \<open>
  The keywords get the tokens TOK_IDENT, TOK_IDENT + 1 and so on in the order of tcctok.h, which the
  enumeration of the tokens in tcc.h relies on, when no spelling occurs twice.
\<close>

lemma add_keywords_numbered:
  assumes "tt_ok st" and "distinct (tt_strs st @ kws)" and "\<forall>k\<in>set kws. k \<noteq> [] \<and> 0 \<notin> set k"
    and "int (length (tt_strs st) + length kws) \<le> SYM_FIRST_ANOM - TOK_IDENT"
  shows "\<exists>st'. add_keywords (concat (map (\<lambda>k. k @ [0]) kws) @ [0]) st = Inr st' \<and> tt_ok st' \<and> tt_strs st' = tt_strs st @ kws"
  using assms
proof (induction kws arbitrary: st)
  case (Cons k kws)
  let ?r = "concat (map (\<lambda>k. k @ [0]) kws) @ [0]"
  have k: "k \<noteq> []" "0 \<notin> set k" using Cons.prems(3) by auto
  then have h: "hd (k @ 0 # ?r) \<noteq> 0" by (cases k) auto
  have "takeWhile (\<lambda>b. b \<noteq> 0) (k @ 0 # ?r) = k" using k(2) by (subst takeWhile_append2) auto
  then have len: "strlen (k @ 0 # ?r) = Inr (length k)" by (simp add: strlen_def)
  obtain i st1 where a: "tok_alloc k st = Inr (i, st1)" "tt_ok st1" "tt_strs st1 = tt_strs st @ [k]"
    by (rule tok_alloc_cases [OF Cons.prems(1), of k]) (use Cons.prems in auto)
  have "add_keywords (k @ 0 # ?r) st = add_keywords ?r st1"
    using h by (subst add_keywords.simps) (simp add: len a(1))
  then show ?case using Cons.IH [OF a(2)] Cons.prems a(3) by simp
qed (simp add: add_keywords.simps)

text \<open>
  C30: The keywords of tcctok.h get the tokens TOK_IDENT, TOK_IDENT + 1 and so on in their order, so that the
  enumeration of the tokens in tcc.h names them, when no spelling occurs twice.
\<close>

theorem keywords_numbered:
  assumes "distinct kws" and "\<forall>k\<in>set kws. k \<noteq> [] \<and> 0 \<notin> set k" and "int (length kws) \<le> SYM_FIRST_ANOM - TOK_IDENT"
  shows "\<exists>st. add_keywords (concat (map (\<lambda>k. k @ [0]) kws) @ [0]) tok_table_new = Inr st \<and> tt_ok st \<and>
    (\<forall>j < length kws. ident_str (TOK_IDENT + int j) st = Some (kws ! j))"
  using add_keywords_numbered [OF tok_table_new_ok(1), of kws] assms tok_table_new_ok(2)
  by (auto simp: ident_str_tok)

theorem keywords_numbered_witness:
  "\<exists>st. add_keywords [105, 110, 116, 0, 118, 111, 105, 100, 0, 0] tok_table_new = Inr st \<and> ident_str 257 st = Some [118, 111, 105, 100]"
proof -
  obtain st where "add_keywords (concat (map (\<lambda>k. k @ [0]) [[105, 110, 116], [118, 111, 105, 100]]) @ [0]) tok_table_new = Inr st"
    "\<forall>j < 2. ident_str (TOK_IDENT + int j) st = Some ([[105, 110, 116], [118, 111, 105, 100]] ! j)"
    using keywords_numbered [of "[[105, 110, 116], [118, 111, 105, 100]]"] by auto
  moreover from this(2) have "ident_str 257 st = Some [118, 111, 105, 100]" by (auto dest: spec [of _ 1])
  ultimately show ?thesis by auto
qed

end
