(* ===== verification/Tok_String.thy ===== *)
theory Tok_String
  imports Pp_Number
begin

text \<open>
  Token strings (tccpp.c): tokens with their values written one after the other into a growing array of
  ints, tok_str_new to tok_str_add_tok, and read back by tok_get and the macro TOK_GET. Macros and inline functions
  are kept in this form.

  CValue is a union: four words (i and the floats), or a string. LONG_SIZE is 4 and LDOUBLE_SIZE 16.
\<close>

abbreviation (input) TOK_CCHAR :: int where "TOK_CCHAR \<equiv> 0xc0"
abbreviation (input) TOK_LCHAR :: int where "TOK_LCHAR \<equiv> 0xc1"
abbreviation (input) TOK_CUINT :: int where "TOK_CUINT \<equiv> 0xc3"
abbreviation (input) TOK_CULLONG :: int where "TOK_CULLONG \<equiv> 0xc5"
abbreviation (input) TOK_CULONG :: int where "TOK_CULONG \<equiv> 0xc7"
abbreviation (input) TOK_STR :: int where "TOK_STR \<equiv> 0xc8"
abbreviation (input) TOK_LSTR :: int where "TOK_LSTR \<equiv> 0xc9"
abbreviation (input) TOK_PPNUM :: int where "TOK_PPNUM \<equiv> 0xcd"
abbreviation (input) TOK_PPSTR :: int where "TOK_PPSTR \<equiv> 0xce"
abbreviation (input) TOK_LINENUM :: int where "TOK_LINENUM \<equiv> 0xcf"
abbreviation (input) TOK_MAX_SIZE :: nat where "TOK_MAX_SIZE \<equiv> 4"

definition TOK_HAS_VALUE :: "int \<Rightarrow> bool" where
  "TOK_HAS_VALUE t \<longleftrightarrow> t \<ge> TOK_CCHAR \<and> t \<le> TOK_LINENUM"

section \<open>Values\<close>

datatype cvalue = Cv_Tab "u32 list" | Cv_Str "u8 list"

text \<open>The first n words of tab; the union must hold them.\<close>

definition cv_words :: "nat \<Rightarrow> cvalue \<Rightarrow> u32 list res" where
  "cv_words n cv =
     (case cv of
        Cv_Tab ws \<Rightarrow> if n \<le> length ws then Inr (take n ws) else Inl MemFault
      | Cv_Str _ \<Rightarrow> if n = 0 then Inr [] else Inl MemFault)"

text \<open>Overwriting the first words; what the others hold after a string counts as zero.\<close>

definition cv_set :: "u32 list \<Rightarrow> cvalue \<Rightarrow> cvalue" where
  "cv_set ws cv = Cv_Tab (ws @ drop (length ws) (case cv of Cv_Tab old \<Rightarrow> old | Cv_Str _ \<Rightarrow> [0, 0, 0, 0]))"

definition cv_set_i :: "u64 \<Rightarrow> cvalue \<Rightarrow> cvalue" where
  "cv_set_i v cv = cv_set [ucast v, ucast (drop_bit 32 v)] cv"

section \<open>Memory of ints\<close>

definition bytes_of :: "u32 list \<Rightarrow> u8 list" where
  "bytes_of ws = concat (map le32 ws)"

definition words_of :: "u8 list \<Rightarrow> u32 list" where
  "words_of bs = map (\<lambda>k. read32le bs (4 * k)) [0 ..< length bs div 4]"

definition ints_put :: "u32 list \<Rightarrow> nat \<Rightarrow> u32 list \<Rightarrow> u32 list res" where
  "ints_put ws i xs =
     (if i + length xs \<le> length ws then Inr (take i ws @ xs @ drop (i + length xs) ws) else Inl MemFault)"

text \<open>memcpy of bytes to the ints from i on.\<close>

definition bytes_put :: "u32 list \<Rightarrow> nat \<Rightarrow> u8 list \<Rightarrow> u32 list res" where
  "bytes_put ws i bs =
     (let old = bytes_of ws
      in if 4 * i + length bs \<le> length old
         then Inr (words_of (take (4 * i) old @ bs @ drop (4 * i + length bs) old)) else Inl MemFault)"

section \<open>Writing\<close>

text \<open>The list is the allocated array, its length allocated_len.\<close>

record tokstr =
  tks_str :: "u32 list"
  tks_len :: nat
  tks_lastlen :: nat
  tks_last_line_num :: int

definition tok_str_new :: tokstr where
  "tok_str_new = \<lparr>tks_str = [], tks_len = 0, tks_lastlen = 0, tks_last_line_num = - 1\<rparr>"

definition tok_str_dup :: "tokstr \<Rightarrow> u32 list" where
  "tok_str_dup s = take (tks_len s) (tks_str s)"

definition tok_str_realloc :: "nat \<Rightarrow> tokstr \<Rightarrow> tokstr" where
  "tok_str_realloc new_size s =
     (let old = length (tks_str s); sz = grow (if old < 16 then 16 else old) new_size
      in if sz > old then s\<lparr>tks_str := tks_str s @ replicate (sz - old) 0\<rparr> else s)"

definition tok_str_add :: "int \<Rightarrow> tokstr \<Rightarrow> tokstr res" where
  "tok_str_add t s =
     (let len = tks_len s; s1 = (if len \<ge> length (tks_str s) then tok_str_realloc (len + 1) s else s)
      in bindR (ints_put (tks_str s1) len [word_of_int t]) (\<lambda>str. Inr (s1\<lparr>tks_str := str, tks_len := len + 1\<rparr>)))"

text \<open>How many words of tab a token is stored with, or that it is stored with its string.\<close>

definition tok_words :: "int \<Rightarrow> nat" where
  "tok_words t =
     (if t = TOK_CINT \<or> t = TOK_CUINT \<or> t = TOK_CCHAR \<or> t = TOK_LCHAR \<or> t = TOK_CFLOAT \<or> t = TOK_LINENUM \<or>
         t = TOK_CLONG \<or> t = TOK_CULONG then 1
      else if t = TOK_CDOUBLE \<or> t = TOK_CLLONG \<or> t = TOK_CULLONG then 2
      else if t = TOK_CLDOUBLE then 4
      else 0)"

definition tok_has_str :: "int \<Rightarrow> bool" where
  "tok_has_str t \<longleftrightarrow> t = TOK_PPNUM \<or> t = TOK_PPSTR \<or> t = TOK_STR \<or> t = TOK_LSTR"

definition tok_str_put_str :: "nat \<Rightarrow> u8 list \<Rightarrow> tokstr \<Rightarrow> tokstr res" where
  "tok_str_put_str len data s =
     (let nb_words = 1 + (length data + 4 - 1) div 4;
          s1 = (if len + nb_words \<ge> length (tks_str s) then tok_str_realloc (len + nb_words + 1) s else s)
      in bindR (ints_put (tks_str s1) len [of_nat (length data)]) (\<lambda>str.
         bindR (bytes_put str (len + 1) data) (\<lambda>str1.
           Inr (s1\<lparr>tks_str := str1, tks_len := len + nb_words\<rparr>))))"

definition tok_str_add2 :: "int \<Rightarrow> cvalue \<Rightarrow> tokstr \<Rightarrow> tokstr res" where
  "tok_str_add2 t cv s =
     (let len = tks_len s;
          s1 = s\<lparr>tks_lastlen := len\<rparr>;
          s2 = (if len + TOK_MAX_SIZE \<ge> length (tks_str s1) then tok_str_realloc (len + TOK_MAX_SIZE + 1) s1 else s1)
      in bindR (ints_put (tks_str s2) len [word_of_int t]) (\<lambda>str.
           if tok_has_str t then
             (case cv of
                Cv_Str data \<Rightarrow> tok_str_put_str (len + 1) data (s2\<lparr>tks_str := str\<rparr>)
              | Cv_Tab _ \<Rightarrow> Inl MemFault)
           else
             bindR (cv_words (tok_words t) cv) (\<lambda>ws.
             bindR (ints_put str (len + 1) ws) (\<lambda>str1.
               Inr (s2\<lparr>tks_str := str1, tks_len := len + 1 + length ws\<rparr>)))))"

text \<open>tok_str_add_tok: line is file->line_num, tok and tokc are the current token.\<close>

definition tok_str_add_tok :: "int \<Rightarrow> int \<Rightarrow> cvalue \<Rightarrow> tokstr \<Rightarrow> tokstr res" where
  "tok_str_add_tok line tok tokc s =
     bindR (if line \<noteq> tks_last_line_num s
            then tok_str_add2 TOK_LINENUM (cv_set_i (word_of_int line) (Cv_Tab [0, 0, 0, 0])) (s\<lparr>tks_last_line_num := line\<rparr>)
            else Inr s) (tok_str_add2 tok tokc)"

section \<open>Reading\<close>

definition ints_get :: "nat \<Rightarrow> u32 list \<Rightarrow> (u32 list \<times> u32 list) res" where
  "ints_get n p = (if n \<le> length p then Inr (take n p, drop n p) else Inl MemFault)"

text \<open>The pointer pp is the list of the ints from there on; the result has the token, the rest and the value.\<close>

definition tok_get :: "u32 list \<Rightarrow> cvalue \<Rightarrow> (int \<times> u32 list \<times> cvalue) res" where
  "tok_get pp cv =
     bindR (ints_get 1 pp) (\<lambda>(ts, p).
       let t = sint (hd ts)
       in if t = TOK_CLONG \<or> t = TOK_CINT \<or> t = TOK_CCHAR \<or> t = TOK_LCHAR \<or> t = TOK_LINENUM then
            bindR (ints_get 1 p) (\<lambda>(ws, p1). Inr (t, p1, cv_set_i (scast (hd ws)) cv))
          else if t = TOK_CULONG \<or> t = TOK_CUINT then
            bindR (ints_get 1 p) (\<lambda>(ws, p1). Inr (t, p1, cv_set_i (ucast (hd ws)) cv))
          else if t = TOK_CFLOAT then
            bindR (ints_get 1 p) (\<lambda>(ws, p1). Inr (t, p1, cv_set ws cv))
          else if t = TOK_STR \<or> t = TOK_LSTR \<or> t = TOK_PPNUM \<or> t = TOK_PPSTR then
            bindR (ints_get 1 p) (\<lambda>(ws, p1).
              let size = unat (hd ws)
              in bindR (ints_get ((size + 4 - 1) div 4) p1) (\<lambda>(ws1, p2).
                   Inr (t, p2, Cv_Str (take size (bytes_of ws1)))))
          else if t = TOK_CDOUBLE \<or> t = TOK_CLLONG \<or> t = TOK_CULLONG then
            bindR (ints_get 2 p) (\<lambda>(ws, p1). Inr (t, p1, cv_set ws cv))
          else if t = TOK_CLDOUBLE then
            bindR (ints_get 4 p) (\<lambda>(ws, p1). Inr (t, p1, cv_set ws cv))
          else Inr (t, p, cv))"

definition TOK_GET :: "u32 list \<Rightarrow> cvalue \<Rightarrow> (int \<times> u32 list \<times> cvalue) res" where
  "TOK_GET pp cv =
     bindR (ints_get 1 pp) (\<lambda>(ts, p).
       if TOK_HAS_VALUE (sint (hd ts)) then tok_get pp cv else Inr (sint (hd ts), p, cv))"

end
