(* ===== verification/Tok_String_Props.thy ===== *)
theory Tok_String_Props
  imports Tok_String
begin

text \<open>
  What is written to a token string is read back: the tokens, their order and their values.
\<close>

section \<open>Bytes in memory of ints\<close>

lemma length_bytes_of [simp]: "length (bytes_of ws) = 4 * length ws"
  by (induction ws) (simp_all add: bytes_of_def le32_def)

lemma bytes_of_simps:
  "bytes_of [] = []" "bytes_of (w # ws) = le32 w @ bytes_of ws" "bytes_of (xs @ ys) = bytes_of xs @ bytes_of ys"
  by (simp_all add: bytes_of_def)

lemma words_of_bytes_of: "words_of (bytes_of ws) = ws"
proof (induction ws)
  case (Cons w ws)
  have e: "4 * Suc k = 4 * k + 4" for k by simp
  have l: "length (bytes_of (w # ws)) div 4 = Suc (length ws)" by simp
  have l': "length (bytes_of ws) div 4 = length ws" by simp
  show ?case
    using Cons unfolding words_of_def l l' map_upt_Suc unfolding bytes_of_simps e by (simp add: read32le_le32 del: mult_Suc_right)
qed (simp add: words_of_def bytes_of_def)

lemma le32_read32le: "le32 (read32le (a # b # c # d # r) 0) = [a, b, c, d]"
proof -
  have z: "\<not> bit x (8 + n)" for x :: u8 and n using bit_imp_le_length [of x "8 + n"] by auto
  have "le32 (read32le (a # b # c # d # r) 0) ! i = [a, b, c, d] ! i" if "i < 4" for i
  proof -
    from that consider "i = 0" | "i = 1" | "i = 2" | "i = 3" by linarith
    then show ?thesis
      by cases (auto intro!: bit_word_eqI simp: le32_def read32le_def read16le_def bit_simps z)
  qed
  then show ?thesis by (intro nth_equalityI) (simp_all add: le32_def)
qed

lemma bytes_of_words_of: "length bs = 4 * n \<Longrightarrow> bytes_of (words_of bs) = bs \<and> length (words_of bs) = n"
proof (induction n arbitrary: bs)
  case (Suc n)
  obtain a b c d r where bs: "bs = a # b # c # d # r" "length r = 4 * n"
  proof -
    have "length bs = Suc (Suc (Suc (Suc (4 * n))))" using Suc.prems by simp
    then show ?thesis using that by (auto simp: length_Suc_conv)
  qed
  have e: "4 * Suc k = k * 4 + 4" for k by simp
  have l: "length bs div 4 = Suc n" "length r div 4 = n" using Suc.prems bs(2) by simp_all
  have "read32le (a # b # c # d # r) (4 * k + 4) = read32le r (4 * k)" for k
    by (simp add: read32le_def read16le_def eval_nat_numeral)
  then have "words_of bs = read32le bs 0 # words_of r"
    unfolding words_of_def l map_upt_Suc by (simp add: bs(1) add.commute)
  then show ?case using Suc.IH [OF bs(2)] by (simp add: bytes_of_simps bs(1) le32_read32le)
qed (simp add: words_of_def bytes_of_def)

lemma bytes_of_inj: "bytes_of xs = bytes_of ys \<Longrightarrow> xs = ys"
  by (metis words_of_bytes_of)

lemma length_le32 [simp]: "length (le32 w) = 4"
  by (simp add: le32_def)

lemma bytes_of_take: "bytes_of (take n ws) = take (4 * n) (bytes_of ws)"
proof (induction ws arbitrary: n)
  case (Cons w ws)
  then show ?case by (cases n) (simp_all add: bytes_of_simps)
qed (simp add: bytes_of_simps)

lemma bytes_of_drop: "bytes_of (drop n ws) = drop (4 * n) (bytes_of ws)"
proof (induction ws arbitrary: n)
  case (Cons w ws)
  then show ?case by (cases n) (simp_all add: bytes_of_simps)
qed (simp add: bytes_of_simps)

lemma bytes_put_ok:
  assumes "i + (length bs + 3) div 4 \<le> length ws"
  obtains ws' where "bytes_put ws i bs = Inr ws'" "length ws' = length ws" "take i ws' = take i ws"
    "take (length bs) (bytes_of (take ((length bs + 3) div 4) (drop i ws'))) = bs"
proof -
  let ?old = "bytes_of ws" and ?n = "(length bs + 3) div 4"
  let ?new = "take (4 * i) ?old @ bs @ drop (4 * i + length bs) ?old"
  have fit: "length bs \<le> 4 * ?n" "4 * i + length bs \<le> 4 * length ws" using assms by linarith+
  then have "length ?new = 4 * length ws" by simp
  note w = bytes_of_words_of [OF this]
  have "bytes_of (take i (words_of ?new)) = bytes_of (take i ws)"
    unfolding bytes_of_take using w fit by simp
  then have "take i (words_of ?new) = take i ws" by (rule bytes_of_inj)
  moreover have "take (length bs) (bytes_of (take ?n (drop i (words_of ?new)))) = bs"
    unfolding bytes_of_take bytes_of_drop using w fit by (simp add: min_def)
  ultimately show ?thesis using that [of "words_of ?new"] w fit by (simp add: bytes_put_def Let_def)
qed

section \<open>Writing\<close>

definition wf_tokstr :: "tokstr \<Rightarrow> bool" where
  "wf_tokstr s \<longleftrightarrow> tks_len s \<le> length (tks_str s)"

lemma tok_str_realloc_props:
  "n \<le> length (tks_str (tok_str_realloc n s))" "length (tks_str s) \<le> length (tks_str (tok_str_realloc n s))"
  "tks_len (tok_str_realloc n s) = tks_len s" "tks_lastlen (tok_str_realloc n s) = tks_lastlen s"
  "k \<le> length (tks_str s) \<Longrightarrow> take k (tks_str (tok_str_realloc n s)) = take k (tks_str s)"
proof -
  let ?old = "length (tks_str s)"
  have "n \<le> grow (if ?old < 16 then 16 else ?old) n" "?old \<le> grow (if ?old < 16 then 16 else ?old) n"
    using grow_ge [of 16 n] grow_ge [of ?old n] by (cases "?old < 16"; force)+
  then show "n \<le> length (tks_str (tok_str_realloc n s))" "length (tks_str s) \<le> length (tks_str (tok_str_realloc n s))"
    "tks_len (tok_str_realloc n s) = tks_len s" "tks_lastlen (tok_str_realloc n s) = tks_lastlen s"
    "k \<le> length (tks_str s) \<Longrightarrow> take k (tks_str (tok_str_realloc n s)) = take k (tks_str s)"
    by (auto simp: tok_str_realloc_def Let_def)
qed

text \<open>Space for n more ints behind len, as the writers make it.\<close>

lemma room_props:
  fixes n :: nat
  assumes "len \<le> length (tks_str s)"
  defines "s1 \<equiv> if len + n \<ge> length (tks_str s) then tok_str_realloc (len + n + 1) s else s"
  shows "len + n < length (tks_str s1)" "take len (tks_str s1) = take len (tks_str s)" "tks_len s1 = tks_len s"
    "tks_lastlen s1 = tks_lastlen s"
  using assms(1) tok_str_realloc_props [where n = "len + n + 1" and s = s] by (auto simp: s1_def Suc_le_eq)

lemma ints_put_ok:
  assumes "i + length xs \<le> length ws"
  obtains ws' where "ints_put ws i xs = Inr ws'" "length ws' = length ws" "take (i + length xs) ws' = take i ws @ xs"
    "\<And>j. j \<le> i \<Longrightarrow> take j ws' = take j ws"
proof -
  have "i \<le> length ws" using assms by simp
  then show ?thesis using that [of "take i ws @ xs @ drop (i + length xs) ws"] assms by (simp add: ints_put_def)
qed

text \<open>The ints a token with its value becomes.\<close>

definition encodes :: "int \<Rightarrow> cvalue \<Rightarrow> u32 list \<Rightarrow> bool" where
  "encodes t cv ws \<longleftrightarrow>
     (\<exists>vs. ws = word_of_int t # vs \<and>
       (if tok_has_str t
        then \<exists>data us. cv = Cv_Str data \<and> vs = of_nat (length data) # us \<and> length us = (length data + 3) div 4 \<and>
               take (length data) (bytes_of us) = data
        else cv_words (tok_words t) cv = Inr vs))"

definition cv_i :: "cvalue \<Rightarrow> u64" where
  "cv_i cv = (case cv of Cv_Tab (a # b # _) \<Rightarrow> ucast a OR push_bit 32 (ucast b) | _ \<Rightarrow> 0)"

text \<open>
  A value as its token has it: a string, or a number that fits the token; int, char and long tokens
  hold 32 bits with or without sign.
\<close>

definition tok_fits :: "int \<Rightarrow> cvalue \<Rightarrow> bool" where
  "tok_fits t cv \<longleftrightarrow> - (2 ^ 31) \<le> t \<and> t < 2 ^ 31 \<and> t \<noteq> 0 \<and>
     (case cv of
        Cv_Str data \<Rightarrow> if tok_has_str t then length data < 2 ^ 31 else tok_words t = 0
      | Cv_Tab ws \<Rightarrow> length ws = 4 \<and> \<not> tok_has_str t \<and>
          (t \<in> {TOK_CINT, TOK_CLONG, TOK_CCHAR, TOK_LCHAR, TOK_LINENUM} \<longrightarrow> cv_i cv = scast (ucast (cv_i cv) :: u32)) \<and>
          (t \<in> {TOK_CUINT, TOK_CULONG} \<longrightarrow> cv_i cv = ucast (ucast (cv_i cv) :: u32)))"

definition same_value :: "int \<Rightarrow> cvalue \<Rightarrow> cvalue \<Rightarrow> bool" where
  "same_value t cv cv' \<longleftrightarrow>
     (if tok_has_str t then cv' = cv
      else if t \<in> {TOK_CFLOAT, TOK_CLDOUBLE} then cv_words (tok_words t) cv' = cv_words (tok_words t) cv
      else tok_words t \<noteq> 0 \<longrightarrow> cv_i cv' = cv_i cv)"

lemma tok_str_put_str_ok:
  assumes "len \<le> length (tks_str s)"
  obtains s' us where "tok_str_put_str len data s = Inr s'" "wf_tokstr s'" "tks_lastlen s' = tks_lastlen s"
    "tok_str_dup s' = take len (tks_str s) @ of_nat (length data) # us" "length us = (length data + 3) div 4"
    "take (length data) (bytes_of us) = data"
proof -
  let ?n = "(length data + 4 - 1) div 4"
  let ?s1 = "if len + (1 + ?n) \<ge> length (tks_str s) then tok_str_realloc (len + (1 + ?n) + 1) s else s"
  note r = room_props [OF assms, of "1 + ?n"]
  have "len + length [of_nat (length data) :: u32] \<le> length (tks_str ?s1)" using r(1) by simp
  from ints_put_ok [OF this] obtain w1 where w1: "ints_put (tks_str ?s1) len [of_nat (length data)] = Inr w1" "length w1 = length (tks_str ?s1)"
    "take (len + length [of_nat (length data) :: u32]) w1 = take len (tks_str ?s1) @ [of_nat (length data)]" by blast
  have w1': "take (len + 1) w1 = take len (tks_str ?s1) @ [of_nat (length data)]" using w1(3) by simp
  have "len + 1 + ?n \<le> length w1" using r(1) w1(2) by simp
  then have le: "len + 1 + (length data + 3) div 4 \<le> length w1" by simp
  from bytes_put_ok [OF le] obtain w2 where w2: "bytes_put w1 (len + 1) data = Inr w2" "length w2 = length w1" "take (len + 1) w2 = take (len + 1) w1"
    "take (length data) (bytes_of (take ((length data + 3) div 4) (drop (len + 1) w2))) = data" .
  show ?thesis
  proof
    show "tok_str_put_str len data s = Inr (?s1\<lparr>tks_str := w2, tks_len := len + (1 + ?n)\<rparr>)"
      unfolding tok_str_put_str_def Let_def w1(1) bindR_simps w2(1) ..
    show "wf_tokstr (?s1\<lparr>tks_str := w2, tks_len := len + (1 + ?n)\<rparr>)" using r(1) w1(2) w2(2) by (simp add: wf_tokstr_def)
    show "tks_lastlen (?s1\<lparr>tks_str := w2, tks_len := len + (1 + ?n)\<rparr>) = tks_lastlen s" using r(4) by simp
    have "take (len + (1 + ?n)) w2 = take (len + 1) w2 @ take ?n (drop (len + 1) w2)"
      using take_add [of "len + 1" ?n w2] by (simp add: add.assoc)
    then show "tok_str_dup (?s1\<lparr>tks_str := w2, tks_len := len + (1 + ?n)\<rparr>) =
        take len (tks_str s) @ of_nat (length data) # take ?n (drop (len + 1) w2)"
      using w2(3) w1' r(2) by (simp add: tok_str_dup_def)
    show "length (take ?n (drop (len + 1) w2)) = (length data + 3) div 4"
      using le w2(2) by (simp add: add.commute)
    show "take (length data) (bytes_of (take ?n (drop (len + 1) w2))) = data" using w2(4) by (simp add: add.commute)
  qed
qed

lemma tok_words_le: "tok_words t \<le> 4"
  by (simp add: tok_words_def)

lemma tok_str_add2_ok:
  assumes "wf_tokstr s" and "tok_fits t cv"
  obtains s' ws where "tok_str_add2 t cv s = Inr s'" "wf_tokstr s'" "tok_str_dup s' = tok_str_dup s @ ws" "encodes t cv ws"
    "tks_lastlen s' = tks_len s"
proof -
  let ?len = "tks_len s"
  let ?s1 = "s\<lparr>tks_lastlen := ?len\<rparr>"
  let ?s2 = "if ?len + TOK_MAX_SIZE \<ge> length (tks_str ?s1) then tok_str_realloc (?len + TOK_MAX_SIZE + 1) ?s1 else ?s1"
  have "?len \<le> length (tks_str ?s1)" using assms(1) by (simp add: wf_tokstr_def)
  note r = room_props [OF this, of TOK_MAX_SIZE]
  have dup: "take ?len (tks_str ?s2) = tok_str_dup s" using r(2) by (simp add: tok_str_dup_def)
  have "?len + length [word_of_int t :: u32] \<le> length (tks_str ?s2)" using r(1) by simp
  from ints_put_ok [OF this] obtain w1 where w1: "ints_put (tks_str ?s2) ?len [word_of_int t] = Inr w1" "length w1 = length (tks_str ?s2)"
    "take (?len + length [word_of_int t :: u32]) w1 = take ?len (tks_str ?s2) @ [word_of_int t]" by blast
  have w1': "take (?len + 1) w1 = tok_str_dup s @ [word_of_int t]" using w1(3) dup by simp
  have last: "tks_lastlen ?s2 = ?len" using r(4) by simp
  show ?thesis
  proof (cases "tok_has_str t")
    case True
    then obtain data where cv: "cv = Cv_Str data" using assms(2) by (auto simp: tok_fits_def split: cvalue.splits)
    have "?len + 1 \<le> length (tks_str (?s2\<lparr>tks_str := w1\<rparr>))" using r(1) w1(2) by simp
    from tok_str_put_str_ok [OF this, of data] obtain s' us where
      u: "tok_str_put_str (?len + 1) data (?s2\<lparr>tks_str := w1\<rparr>) = Inr s'" "wf_tokstr s'" "tks_lastlen s' = tks_lastlen (?s2\<lparr>tks_str := w1\<rparr>)"
      "tok_str_dup s' = take (?len + 1) (tks_str (?s2\<lparr>tks_str := w1\<rparr>)) @ of_nat (length data) # us"
      "length us = (length data + 3) div 4" "take (length data) (bytes_of us) = data" .
    show ?thesis
    proof
      show "tok_str_add2 t cv s = Inr s'" unfolding tok_str_add2_def Let_def w1(1) bindR_simps cv using True u(1) by simp
      show "tok_str_dup s' = tok_str_dup s @ word_of_int t # of_nat (length data) # us" using u(4) w1' by simp
      show "encodes t cv (word_of_int t # of_nat (length data) # us)" using True u(5,6) by (simp add: encodes_def cv)
    qed (use u(2,3) last in simp_all)
  next
    case False
    then obtain vs where vs: "cv_words (tok_words t) cv = Inr vs" "length vs = tok_words t"
      using assms(2) tok_words_le [of t] by (auto simp: tok_fits_def cv_words_def split: cvalue.splits)
    have "?len + 1 + length vs \<le> length w1" using r(1) w1(2) vs(2) tok_words_le [of t] by simp
    from ints_put_ok [OF this] obtain w2 where w2: "ints_put w1 (?len + 1) vs = Inr w2" "length w2 = length w1"
      "take (?len + 1 + length vs) w2 = take (?len + 1) w1 @ vs" by blast
    let ?s' = "?s2\<lparr>tks_str := w2, tks_len := ?len + 1 + length vs\<rparr>"
    show ?thesis
    proof
      show "tok_str_add2 t cv s = Inr ?s'"
        unfolding tok_str_add2_def Let_def w1(1) bindR_simps vs(1) w2(1) if_not_P [OF False] ..
      show "wf_tokstr ?s'" using r(1) w1(2) w2(2) vs(2) tok_words_le [of t] by (simp add: wf_tokstr_def)
      show "tok_str_dup ?s' = tok_str_dup s @ word_of_int t # vs" using w2(3) w1' by (simp add: tok_str_dup_def)
      show "encodes t cv (word_of_int t # vs)" using False vs(1) by (simp add: encodes_def)
      show "tks_lastlen ?s' = ?len" using last by simp
    qed
  qed
qed

section \<open>Reading\<close>

lemma cv_i_set: "cv_i (cv_set_i v cv) = v"
  by (auto intro!: bit_word_eqI simp: cv_i_def cv_set_i_def cv_set_def bit_simps)

lemma cv_set_words: "cv_words (length ws) (cv_set ws cv) = Inr ws"
  by (simp add: cv_words_def cv_set_def)

lemma ints_get_append: "n = length xs \<Longrightarrow> ints_get n (xs @ r) = Inr (xs, r)"
  by (simp add: ints_get_def)

lemma sint_token: "- (2 ^ 31) \<le> t \<Longrightarrow> t < 2 ^ 31 \<Longrightarrow> sint (word_of_int t :: u32) = t"
  unfolding sint_sbintrunc' by (intro signed_take_bit_int_eq_self) simp_all

text \<open>The tokens by the way they are stored.\<close>

lemma tok_kinds:
  obtains (signed) "t \<in> {TOK_CINT, TOK_CLONG, TOK_CCHAR, TOK_LCHAR, TOK_LINENUM}"
  | (unsigned) "t \<in> {TOK_CUINT, TOK_CULONG}"
  | (single) "t = TOK_CFLOAT"
  | (string) "t \<in> {TOK_PPNUM, TOK_PPSTR, TOK_STR, TOK_LSTR}"
  | (double) "t \<in> {TOK_CDOUBLE, TOK_CLLONG, TOK_CULLONG}"
  | (ldouble) "t = TOK_CLDOUBLE"
  | (plain) "\<not> TOK_HAS_VALUE t" "tok_words t = 0" "\<not> tok_has_str t"
proof -
  consider "t < 0xc0" | "0xcf < t" | "t \<in> {0xc0, 0xc1, 0xc2, 0xc3, 0xc4, 0xc5, 0xc6, 0xc7}"
    | "t \<in> {0xc8, 0xc9, 0xca, 0xcb, 0xcc, 0xcd, 0xce, 0xcf}"
  proof -
    have "t < 0xc0 \<or> 0xcf < t \<or> t = 0xc0 \<or> t = 0xc1 \<or> t = 0xc2 \<or> t = 0xc3 \<or> t = 0xc4 \<or> t = 0xc5 \<or> t = 0xc6 \<or> t = 0xc7 \<or>
        t = 0xc8 \<or> t = 0xc9 \<or> t = 0xca \<or> t = 0xcb \<or> t = 0xcc \<or> t = 0xcd \<or> t = 0xce \<or> t = 0xcf" by presburger
    then show ?thesis using that by blast
  qed
  then show ?thesis using that by cases (auto simp: TOK_HAS_VALUE_def tok_words_def tok_has_str_def)
qed

lemma first_word: "length ws = 4 \<Longrightarrow> take 1 ws = [hd ws]"
  by (cases ws) simp_all

lemma cv_i_words: "cv_words 2 cv = Inr [a, b] \<Longrightarrow> cv_i cv = ucast a OR push_bit 32 (ucast b)"
  by (auto simp: cv_words_def cv_i_def take_Cons' numeral_2_eq_2 split: cvalue.splits if_splits list.splits)

lemma ucast_cv_i: "cv_words 1 cv = Inr [a] \<Longrightarrow> cv = Cv_Tab ws \<Longrightarrow> length ws = 4 \<Longrightarrow> ucast (cv_i cv) = a"
  by (auto simp: cv_words_def cv_i_def bit_simps length_Suc_conv eval_nat_numeral intro!: bit_word_eqI split: if_splits)

lemma TOK_GET_encoded:
  assumes "encodes t cv ws" and "tok_fits t cv"
  shows "\<exists>cv'. TOK_GET (ws @ r) cv0 = Inr (t, r, cv') \<and> same_value t cv cv'"
proof -
  obtain vs where ws: "ws = word_of_int t # vs" using assms(1) by (auto simp: encodes_def)
  have t: "sint (word_of_int t :: u32) = t" using assms(2) by (intro sint_token) (simp_all add: tok_fits_def)
  have g: "ints_get (Suc 0) (ws @ r) = Inr ([word_of_int t], vs @ r)" by (simp add: ws ints_get_def)
  have val: "TOK_GET (ws @ r) cv0 = tok_get (ws @ r) cv0" if "TOK_HAS_VALUE t" using that by (simp add: TOK_GET_def g t)
  show ?thesis
  proof (cases t rule: tok_kinds)
    case signed
    then have w: "tok_words t = 1" "TOK_HAS_VALUE t" "\<not> tok_has_str t" by (auto simp: tok_words_def TOK_HAS_VALUE_def tok_has_str_def)
    obtain tab where tab: "cv = Cv_Tab tab" "length tab = 4" "cv_i cv = scast (ucast (cv_i cv) :: u32)"
      using assms(2) signed w by (auto simp: tok_fits_def split: cvalue.splits)
    obtain a where a: "vs = [a]" "cv_words 1 cv = Inr [a]"
      using assms(1) w tab(1,2) first_word [OF tab(2)] by (auto simp: encodes_def ws cv_words_def)
    have "tok_get (ws @ r) cv0 = Inr (t, r, cv_set_i (scast a) cv0)"
    proof -
      have c: "t = TOK_CLONG \<or> t = TOK_CINT \<or> t = TOK_CCHAR \<or> t = TOK_LCHAR \<or> t = TOK_LINENUM" using signed by auto
      show ?thesis
        unfolding tok_get_def One_nat_def g bindR_simps prod.case list.sel t Let_def if_P [OF c] by (simp add: a(1) ints_get_def)
    qed
    moreover have "cv_i cv = scast a" by (rule trans [OF tab(3)]) (simp only: ucast_cv_i [OF a(2) tab(1,2)])
    ultimately show ?thesis using signed w val by (auto simp: same_value_def cv_i_set)
  next
    case unsigned
    then have w: "tok_words t = 1" "TOK_HAS_VALUE t" "\<not> tok_has_str t" by (auto simp: tok_words_def TOK_HAS_VALUE_def tok_has_str_def)
    obtain tab where tab: "cv = Cv_Tab tab" "length tab = 4" "cv_i cv = ucast (ucast (cv_i cv) :: u32)"
      using assms(2) unsigned w by (auto simp: tok_fits_def split: cvalue.splits)
    obtain a where a: "vs = [a]" "cv_words 1 cv = Inr [a]"
      using assms(1) w tab(1,2) first_word [OF tab(2)] by (auto simp: encodes_def ws cv_words_def)
    have "tok_get (ws @ r) cv0 = Inr (t, r, cv_set_i (ucast a) cv0)"
    proof -
      have c: "\<not> (t = TOK_CLONG \<or> t = TOK_CINT \<or> t = TOK_CCHAR \<or> t = TOK_LCHAR \<or> t = TOK_LINENUM)"
        "t = TOK_CULONG \<or> t = TOK_CUINT" using unsigned by auto
      show ?thesis
        unfolding tok_get_def One_nat_def g bindR_simps prod.case list.sel t Let_def if_not_P [OF c(1)] if_P [OF c(2)] by (simp add: a(1) ints_get_def)
    qed
    moreover have "cv_i cv = ucast a" by (rule trans [OF tab(3)]) (simp only: ucast_cv_i [OF a(2) tab(1,2)])
    ultimately show ?thesis using unsigned w val by (auto simp: same_value_def cv_i_set)
  next
    case single
    then have w: "tok_words t = 1" "TOK_HAS_VALUE t" "\<not> tok_has_str t" by (auto simp: tok_words_def TOK_HAS_VALUE_def tok_has_str_def)
    obtain a where a: "vs = [a]" "cv_words 1 cv = Inr [a]"
      using assms w first_word by (auto simp: encodes_def tok_fits_def ws cv_words_def split: cvalue.splits)
    have "tok_get (ws @ r) cv0 = Inr (t, r, cv_set vs cv0)"
    proof -
      have c: "\<not> (t = TOK_CLONG \<or> t = TOK_CINT \<or> t = TOK_CCHAR \<or> t = TOK_LCHAR \<or> t = TOK_LINENUM)" "\<not> (t = TOK_CULONG \<or> t = TOK_CUINT)" "t = TOK_CFLOAT"
        using single by auto
      show ?thesis
        unfolding tok_get_def One_nat_def g bindR_simps prod.case list.sel t Let_def if_not_P [OF c(1)] if_not_P [OF c(2)] if_P [OF c(3)]
        by (simp add: a(1) ints_get_def)
    qed
    then show ?thesis using single w val a cv_set_words [of "[a]"] by (auto simp: same_value_def)
  next
    case string
    then have w: "TOK_HAS_VALUE t" "tok_has_str t" by (auto simp: TOK_HAS_VALUE_def tok_has_str_def)
    obtain data us where u: "cv = Cv_Str data" "vs = of_nat (length data) # us" "length us = (length data + 3) div 4"
      "take (length data) (bytes_of us) = data" using assms(1) w by (auto simp: encodes_def ws)
    have "length data < 2 ^ 31" using assms(2) w u(1) by (simp add: tok_fits_def)
    then have l: "unat (of_nat (length data) :: u32) = length data" by (simp add: unat_of_nat)
    have "tok_get (ws @ r) cv0 = Inr (t, r, cv)"
    proof -
      have c: "\<not> (t = TOK_CLONG \<or> t = TOK_CINT \<or> t = TOK_CCHAR \<or> t = TOK_LCHAR \<or> t = TOK_LINENUM)" "\<not> (t = TOK_CULONG \<or> t = TOK_CUINT)" "\<not> (t = TOK_CFLOAT)" "t = TOK_STR \<or> t = TOK_LSTR \<or> t = TOK_PPNUM \<or> t = TOK_PPSTR"
        using string by auto
      show ?thesis
        unfolding tok_get_def One_nat_def g bindR_simps prod.case list.sel t Let_def if_not_P [OF c(1)] if_not_P [OF c(2)] if_not_P [OF c(3)] if_P [OF c(4)]
        by (simp add: u l add.commute ints_get_def)
    qed
    then show ?thesis using val w by (simp add: same_value_def)
  next
    case double
    then have w: "tok_words t = 2" "TOK_HAS_VALUE t" "\<not> tok_has_str t" by (auto simp: tok_words_def TOK_HAS_VALUE_def tok_has_str_def)
    have vs: "cv_words 2 cv = Inr vs" using assms(1) w by (simp add: encodes_def ws)
    then have "length vs = 2" by (auto simp: cv_words_def split: cvalue.splits if_splits)
    then obtain a b where ab: "vs = [a, b]" by (auto simp: length_Suc_conv numeral_2_eq_2)
    have "tok_get (ws @ r) cv0 = Inr (t, r, cv_set vs cv0)"
    proof -
      have c: "\<not> (t = TOK_CLONG \<or> t = TOK_CINT \<or> t = TOK_CCHAR \<or> t = TOK_LCHAR \<or> t = TOK_LINENUM)" "\<not> (t = TOK_CULONG \<or> t = TOK_CUINT)" "\<not> (t = TOK_CFLOAT)" "\<not> (t = TOK_STR \<or> t = TOK_LSTR \<or> t = TOK_PPNUM \<or> t = TOK_PPSTR)" "t = TOK_CDOUBLE \<or> t = TOK_CLLONG \<or> t = TOK_CULLONG"
        using double by auto
      show ?thesis
        unfolding tok_get_def One_nat_def g bindR_simps prod.case list.sel t Let_def if_not_P [OF c(1)] if_not_P [OF c(2)] if_not_P [OF c(3)] if_not_P [OF c(4)] if_P [OF c(5)]
        by (simp add: ab ints_get_def)
    qed
    moreover have "cv_i (cv_set vs cv0) = cv_i cv"
      using cv_i_words [of cv a b] vs cv_i_words [of "cv_set vs cv0" a b] cv_set_words [of vs cv0] by (simp add: ab numeral_2_eq_2)
    ultimately show ?thesis using double w val by (auto simp: same_value_def)
  next
    case ldouble
    then have w: "tok_words t = 4" "TOK_HAS_VALUE t" "\<not> tok_has_str t" by (auto simp: tok_words_def TOK_HAS_VALUE_def tok_has_str_def)
    have vs: "cv_words 4 cv = Inr vs" using assms(1) w by (simp add: encodes_def ws)
    then have l: "length vs = 4" by (auto simp: cv_words_def split: cvalue.splits if_splits)
    have "tok_get (ws @ r) cv0 = Inr (t, r, cv_set vs cv0)"
    proof -
      have c: "\<not> (t = TOK_CLONG \<or> t = TOK_CINT \<or> t = TOK_CCHAR \<or> t = TOK_LCHAR \<or> t = TOK_LINENUM)" "\<not> (t = TOK_CULONG \<or> t = TOK_CUINT)" "\<not> (t = TOK_CFLOAT)" "\<not> (t = TOK_STR \<or> t = TOK_LSTR \<or> t = TOK_PPNUM \<or> t = TOK_PPSTR)" "\<not> (t = TOK_CDOUBLE \<or> t = TOK_CLLONG \<or> t = TOK_CULLONG)" "t = TOK_CLDOUBLE"
        using ldouble by auto
      show ?thesis
        unfolding tok_get_def One_nat_def g bindR_simps prod.case list.sel t Let_def if_not_P [OF c(1)] if_not_P [OF c(2)] if_not_P [OF c(3)] if_not_P [OF c(4)] if_not_P [OF c(5)] if_P [OF c(6)]
        by (simp add: l ints_get_def)
    qed
    then show ?thesis using ldouble w val vs cv_set_words [of vs cv0] l by (auto simp: same_value_def)
  next
    case plain
    then show ?thesis using assms(1) by (simp add: TOK_GET_def ints_get_def ws t encodes_def cv_words_def same_value_def split: cvalue.splits)
  qed
qed

section \<open>Whole strings\<close>

fun add_tokens :: "(int \<times> cvalue) list \<Rightarrow> tokstr \<Rightarrow> tokstr res" where
  "add_tokens [] s = tok_str_add 0 s"
| "add_tokens ((t, cv) # ts) s = bindR (tok_str_add2 t cv s) (add_tokens ts)"

text \<open>Reading up to the end mark 0, as the users of a token string do; every token takes at least one int.\<close>

fun read_tokens :: "nat \<Rightarrow> u32 list \<Rightarrow> cvalue \<Rightarrow> (int \<times> cvalue) list res" where
  "read_tokens 0 p cv = Inl NoReturn"
| "read_tokens (Suc k) p cv =
     bindR (TOK_GET p cv) (\<lambda>(t, p1, cv1).
       if t = 0 then Inr [] else bindR (read_tokens k p1 cv1) (\<lambda>ts. Inr ((t, cv1) # ts)))"

lemma read_tokens_mono: "read_tokens j p cv = Inr x \<Longrightarrow> j \<le> k \<Longrightarrow> read_tokens k p cv = Inr x"
proof (induction j arbitrary: k p cv x)
  case (Suc j)
  obtain k' where "k = Suc k'" "j \<le> k'" using Suc.prems(2) by (cases k) auto
  moreover obtain t p1 cv1 where g: "TOK_GET p cv = Inr (t, p1, cv1)"
    using Suc.prems(1) by (auto simp: bindR_Inr_iff)
  moreover have "\<exists>ts. read_tokens j p1 cv1 = Inr ts \<and> x = (t, cv1) # ts" if "t \<noteq> 0"
    using Suc.prems(1) that by (simp add: g bindR_Inr_iff) blast
  ultimately show ?case using Suc.IH [of p1 cv1 _ k'] Suc.prems(1) by (cases "t = 0") auto
qed simp

lemma tok_str_add_end:
  assumes "wf_tokstr s"
  obtains s' where "tok_str_add 0 s = Inr s'" "wf_tokstr s'" "tok_str_dup s' = tok_str_dup s @ [0]"
proof -
  let ?len = "tks_len s"
  let ?s1 = "if ?len \<ge> length (tks_str s) then tok_str_realloc (?len + 1) s else s"
  have l: "?len \<le> length (tks_str s)" using assms by (simp add: wf_tokstr_def)
  have "?len + length [word_of_int 0 :: u32] \<le> length (tks_str ?s1)"
    using tok_str_realloc_props(1) [of "?len + 1" s] l by auto
  from ints_put_ok [OF this] obtain w where w: "ints_put (tks_str ?s1) ?len [word_of_int 0] = Inr w" "length w = length (tks_str ?s1)"
    "take (?len + length [word_of_int 0 :: u32]) w = take ?len (tks_str ?s1) @ [word_of_int 0]" by blast
  have "take ?len (tks_str ?s1) = tok_str_dup s" using tok_str_realloc_props(5) [OF l] by (simp add: tok_str_dup_def)
  then have d: "take (?len + 1) w = tok_str_dup s @ [0]" using w(3) by simp
  show ?thesis
  proof
    show "tok_str_add 0 s = Inr (?s1\<lparr>tks_str := w, tks_len := ?len + 1\<rparr>)"
      unfolding tok_str_add_def Let_def w(1) bindR_simps ..
    show "wf_tokstr (?s1\<lparr>tks_str := w, tks_len := ?len + 1\<rparr>)"
      using arg_cong [OF d, of length] l by (simp add: wf_tokstr_def tok_str_dup_def min_def split: if_splits)
    show "tok_str_dup (?s1\<lparr>tks_str := w, tks_len := ?len + 1\<rparr>) = tok_str_dup s @ [0]" using d by (simp add: tok_str_dup_def)
  qed
qed

lemma add_tokens_read:
  assumes "wf_tokstr s" and "\<forall>(t, cv) \<in> set ts. tok_fits t cv"
  shows "\<exists>s' ws. add_tokens ts s = Inr s' \<and> wf_tokstr s' \<and> tok_str_dup s' = tok_str_dup s @ ws \<and>
    (\<forall>cv0. \<exists>ts'. read_tokens (length ws) ws cv0 = Inr ts' \<and> list_all2 (\<lambda>(t, cv) (t', cv'). t' = t \<and> same_value t cv cv') ts ts')"
  using assms
proof (induction ts arbitrary: s)
  case Nil
  obtain s' where "tok_str_add 0 s = Inr s'" "wf_tokstr s'" "tok_str_dup s' = tok_str_dup s @ [0]"
    using tok_str_add_end [OF Nil.prems(1)] .
  then show ?case by (auto simp: TOK_GET_def ints_get_def TOK_HAS_VALUE_def intro!: exI [of _ "[0 :: u32]"])
next
  case (Cons a ts)
  obtain t cv where a: "a = (t, cv)" by (cases a)
  have f: "tok_fits t cv" "t \<noteq> 0" using Cons.prems(2) by (auto simp: a tok_fits_def)
  obtain s1 w1 where s1: "tok_str_add2 t cv s = Inr s1" "wf_tokstr s1" "tok_str_dup s1 = tok_str_dup s @ w1" "encodes t cv w1"
    using tok_str_add2_ok [OF Cons.prems(1) f(1)] .
  obtain s2 w2 where s2: "add_tokens ts s1 = Inr s2" "wf_tokstr s2" "tok_str_dup s2 = tok_str_dup s1 @ w2"
    "\<And>cv0. \<exists>ts'. read_tokens (length w2) w2 cv0 = Inr ts' \<and> list_all2 (\<lambda>(t, cv) (t', cv'). t' = t \<and> same_value t cv cv') ts ts'"
    using Cons.IH [OF s1(2)] Cons.prems(2) by auto
  obtain k where k: "length (w1 @ w2) = Suc k" "length w2 \<le> k" using s1(4) by (auto simp: encodes_def)
  have "\<exists>ts'. read_tokens (length (w1 @ w2)) (w1 @ w2) cv0 = Inr ts' \<and>
      list_all2 (\<lambda>(t, cv) (t', cv'). t' = t \<and> same_value t cv cv') (a # ts) ts'" for cv0
  proof -
    obtain cv1 where g: "TOK_GET (w1 @ w2) cv0 = Inr (t, w2, cv1)" "same_value t cv cv1"
      using TOK_GET_encoded [OF s1(4) f(1)] by blast
    obtain ts' where r: "read_tokens (length w2) w2 cv1 = Inr ts'"
      "list_all2 (\<lambda>(t, cv) (t', cv'). t' = t \<and> same_value t cv cv') ts ts'" using s2(4) by blast
    have "read_tokens (length (w1 @ w2)) (w1 @ w2) cv0 = Inr ((t, cv1) # ts')"
      unfolding k(1) using f(2) g(1) read_tokens_mono [OF r(1) k(2)] by simp
    then show ?thesis using g(2) r(2) by (auto simp: a)
  qed
  moreover have "add_tokens (a # ts) s = Inr s2" using s1(1) s2(1) by (simp add: a)
  moreover have "tok_str_dup s2 = tok_str_dup s @ w1 @ w2" using s1(3) s2(3) by simp
  ultimately show ?case using s2(2) by blast
qed

text \<open>
  C6: A token string keeps its tokens: whatever tokens, with values that fit them, are added behind what a
  token string holds, reading from there on gives the same tokens with the same values, and what was there before
  stays; no write leaves the array.
\<close>

theorem token_string_reads_back:
  assumes "wf_tokstr s" and "\<forall>(t, cv) \<in> set ts. tok_fits t cv"
  shows "\<exists>s' ts'. add_tokens ts s = Inr s' \<and> wf_tokstr s' \<and>
    take (tks_len s) (tok_str_dup s') = tok_str_dup s \<and>
    read_tokens (tks_len s' - tks_len s) (drop (tks_len s) (tok_str_dup s')) cv0 = Inr ts' \<and>
    list_all2 (\<lambda>(t, cv) (t', cv'). t' = t \<and> same_value t cv cv') ts ts'"
proof -
  obtain s' ws ts' where w: "add_tokens ts s = Inr s'" "wf_tokstr s'" "tok_str_dup s' = tok_str_dup s @ ws"
    "read_tokens (length ws) ws cv0 = Inr ts'" "list_all2 (\<lambda>(t, cv) (t', cv'). t' = t \<and> same_value t cv cv') ts ts'"
    using add_tokens_read [OF assms] by blast
  have "length (tok_str_dup s) = tks_len s" "length (tok_str_dup s') = tks_len s'"
    using assms(1) w(2) by (simp_all add: tok_str_dup_def wf_tokstr_def)
  moreover from this w(3) have "length ws = tks_len s' - tks_len s" by simp
  ultimately show ?thesis using w by auto
qed

theorem token_string_reads_back_witness:
  "\<exists>s' ts'. add_tokens [(TOK_CINT, Cv_Tab [0xffffffff, 0xffffffff, 0, 0]), (TOK_STR, Cv_Str [104, 105, 0]), (300, Cv_Str [])]
      tok_str_new = Inr s' \<and> read_tokens (tks_len s' - 0) (drop 0 (tok_str_dup s')) (Cv_Tab []) = Inr ts' \<and> length ts' = 3"
proof -
  let ?ts = "[(TOK_CINT, Cv_Tab [0xffffffff, 0xffffffff, 0, 0]), (TOK_STR, Cv_Str [104, 105, 0]), (300, Cv_Str [])]"
  have "(ucast (ucast (0xffffffff :: u32) OR push_bit 32 (ucast (0xffffffff :: u32)) :: u64) :: u32) = 0xffffffff"
    by simp
  then have "\<forall>(t, cv) \<in> set ?ts. tok_fits t cv" by (simp add: tok_fits_def tok_has_str_def tok_words_def cv_i_def)
  moreover have "wf_tokstr tok_str_new" by (simp add: wf_tokstr_def tok_str_new_def)
  ultimately obtain s' ts' where r: "add_tokens ?ts tok_str_new = Inr s'"
    "read_tokens (tks_len s' - tks_len tok_str_new) (drop (tks_len tok_str_new) (tok_str_dup s')) (Cv_Tab []) = Inr ts'"
    "list_all2 (\<lambda>(t, cv) (t', cv'). t' = t \<and> same_value t cv cv') ?ts ts'"
    using token_string_reads_back [of tok_str_new ?ts "Cv_Tab []"] by blast
  have "length ts' = 3" using list_all2_lengthD [OF r(3)] by simp
  then show ?thesis using r(1,2) by (auto simp: tok_str_new_def)
qed

section \<open>Numbers\<close>

text \<open>Tokens of int and long are stored with one word; the number in them fits it.\<close>

lemma int_suffix_range:
  "int_suffix l u p = Inr (lc, uc, r) \<Longrightarrow> 0 \<le> l \<Longrightarrow> l \<le> 2 \<Longrightarrow> u = 0 \<or> u = 1 \<Longrightarrow> 0 \<le> lc \<and> lc \<le> 2 \<and> (uc = 0 \<or> uc = 1)"
  by (induction l u p rule: int_suffix.induct) (auto simp: Let_def split: if_splits)

lemma int_type_fits:
  assumes "int_type b n l u ov = (lc, uc, ov')" and "0 \<le> l" "l \<le> 2" "u = 0 \<or> u = 1"
  shows "int_token lc uc \<in> {TOK_CINT, TOK_CLONG} \<Longrightarrow> n < 0x80000000"
    "int_token lc uc \<in> {TOK_CUINT, TOK_CULONG} \<Longrightarrow> n < 0x100000000"
    "int_token lc uc \<in> {TOK_CINT, TOK_CUINT, TOK_CLLONG, TOK_CULLONG, TOK_CLONG, TOK_CULONG}"
proof -
  consider "l = 0" | "l = 1" | "l = 2" using assms(2,3) by linarith
  then have "(int_token lc uc \<in> {TOK_CINT, TOK_CLONG} \<longrightarrow> n < 0x80000000) \<and> (int_token lc uc \<in> {TOK_CUINT, TOK_CULONG} \<longrightarrow> n < 0x100000000) \<and>
      int_token lc uc \<in> {TOK_CINT, TOK_CUINT, TOK_CLLONG, TOK_CULLONG, TOK_CLONG, TOK_CULONG}"
    using assms(1,4) by cases (auto simp: int_type_def int_token_def Let_def word_le_def word_less_def split: if_splits)
  then show "int_token lc uc \<in> {TOK_CINT, TOK_CLONG} \<Longrightarrow> n < 0x80000000"
    "int_token lc uc \<in> {TOK_CUINT, TOK_CULONG} \<Longrightarrow> n < 0x100000000"
    "int_token lc uc \<in> {TOK_CINT, TOK_CUINT, TOK_CLLONG, TOK_CULLONG, TOK_CLONG, TOK_CULONG}" by blast+
qed

lemma int_number_int:
  assumes "int_number b q r = Inr (Int_Num tok v ov, r1)"
  shows "\<exists>b l u ov0 lc uc. int_type b v l u ov0 = (lc, uc, ov) \<and> tok = int_token lc uc \<and> 0 \<le> l \<and> l \<le> 2 \<and> (u = 0 \<or> u = 1)"
proof -
  obtain b1 q1 where b: "(if b = 10 \<and> q \<noteq> [] \<and> hd q = 48 then (8, tl q) else (b, q)) = (b1, q1)" by (metis surj_pair)
  obtain n ov0 where n: "int_digits b1 0 False q1 = Inr (n, ov0)" using assms by (auto simp: int_number_def b bindR_Inr_iff)
  obtain l u p1 where s: "int_suffix 0 0 r = Inr (l, u, p1)" using assms by (auto simp: int_number_def b n bindR_Inr_iff)
  obtain lc uc ov1 where t: "int_type b1 n l u ov0 = (lc, uc, ov1)" by (metis prod_cases3)
  have "tok = int_token lc uc" "int_type b1 v l u ov0 = (lc, uc, ov)" using assms t by (simp_all add: int_number_def b n s t)
  moreover have "0 \<le> l \<and> l \<le> 2 \<and> (u = 0 \<or> u = 1)" using int_suffix_range [OF s] by simp
  ultimately show ?thesis by blast
qed

lemma float_not_int:
  "dec_float q p \<noteq> Inr (Int_Num tok v ov, r)" "bin_float b q p \<noteq> Inr (Int_Num tok v ov, r)"
  by (auto simp: dec_float_def bin_float_def bindR_Inr_iff Let_def split: prod.splits if_splits)

lemma number_int:
  assumes "parse_number tcc_ext p = Inr (Int_Num tok v ov)"
  shows "\<exists>b q r r1. int_number b q r = Inr (Int_Num tok v ov, r1)"
  using assms float_not_int
  by (auto simp: parse_number_def number_def bindR_Inr_iff split: list.splits prod.splits if_splits)

text \<open>
  C29: Every integer constant survives a token string, although int and long constants are stored with half
  of their 64 bits: the token parse_number chooses for a number is always one that the number fits.
\<close>

theorem number_fits_token:
  assumes "parse_number tcc_ext p = Inr (Int_Num tok v ov)"
  shows "tok_fits tok (cv_set_i v (Cv_Tab [0, 0, 0, 0]))"
proof -
  obtain b l u ov0 lc uc where t: "int_type b v l u ov0 = (lc, uc, ov)" "tok = int_token lc uc" "0 \<le> l" "l \<le> 2" "u = 0 \<or> u = 1"
    using number_int [OF assms] int_number_int by blast
  note f = int_type_fits [OF t(1,3-5), folded t(2)]
  have u: "uint (ucast v :: u32) = uint v" if "v < 0x100000000"
    using that by (simp add: unsigned_ucast_eq word_less_def take_bit_int_eq_self_iff)
  have "v = scast (ucast v :: u32)" if "v < 0x80000000"
  proof -
    have "uint (ucast v :: u32) = uint v" "uint v < 0x80000000" using that u by (simp_all add: word_less_def)
    moreover from this have "sint (ucast v :: u32) = uint v" by (subst sint_small) simp_all
    ultimately have "(word_of_int (sint (ucast v :: u32)) :: u64) = v" by simp
    then show ?thesis unfolding scast_eq by (rule sym)
  qed
  moreover have "v = ucast (ucast v :: u32)" if "v < 0x100000000"
    unfolding ucast_eq [of "ucast v :: u32"] u [OF that] by simp
  moreover obtain ws where cv: "cv_set_i v (Cv_Tab [0, 0, 0, 0]) = Cv_Tab ws" "length ws = 4"
    by (simp add: cv_set_i_def cv_set_def)
  moreover have "cv_i (Cv_Tab ws) = v" using cv_i_set [of v "Cv_Tab [0, 0, 0, 0]"] cv(1) by simp
  ultimately show ?thesis unfolding cv(1) using f by (simp add: tok_fits_def tok_has_str_def) (elim disjE; simp)
qed

theorem number_fits_token_witness:
  "tok_fits TOK_CUINT (cv_set_i 0xffffffff (Cv_Tab [0, 0, 0, 0]))"
  by (rule number_fits_token [of False "[48, 120, 102, 102, 102, 102, 102, 102, 102, 102, 0]" _ _ False])
    (simp add: parse_number_def number_def number_base_def hex_value_def isnum_def float_follows_def int_number_def
      buf_digit_def toup_def int_type_def int_token_def Let_def word_le_def)

end
