(* ===== verification/Spec2Isabelle.thy ===== *)
theory Spec2Isabelle
  imports Riscv_Emit_Props Riscv_Link_Props Riscv_Asm_Props Reg_Alloc_Props Const_Fold_Props Riscv_Params_Props
    Elf_Symtab_Props Struct_Layout_Props Expr_Parse_Props Sym_Scopes_Props Switch_Cases_Props
    Pp_Text_Props Pp_Number_Props Tok_Table_Props Tok_String_Props
begin

text \<open>
  Verification library of the Tiny C Compiler with its 32-bit RISC-V back end (src/, C sources).

  \<^bold>\<open>The program.\<close> tccpp.c turns text into tokens. tccgen.c parses them in one pass and, without a
  syntax tree, drives a stack of values (vtop): an operator takes values off the stack and either
  folds constants or asks the target, riscv32-gen.c, for instructions. Names live in a token table
  with one chain of symbols per token. Instructions go into a section buffer of tccelf.c through the
  emitters of riscv_utils.h and riscv32-asm.c; jumps that are not resolved yet are chained inside the code.
  riscv32-asm.c and tccasm.c assemble inline assembly with the same emitters. tccelf.c keeps the symbol
  tables; at the end relocate_section hands every relocation to riscv32-link.c, which also writes the
  procedure linkage table. lib/libtcc1.c is the runtime library of compiled programs.

  \<^bold>\<open>Common parts.\<close>
  \<^item> Prelude: machine integers as words, the errors (tcc_error, expect, failed asserts, undefined
    behaviour, loops out of fuel) as the left part of a sum, their sequencing, word and list lemmas.
  \<^item> Bytes: little-endian access and the growing buffer of a section (section_realloc, section_add).
  \<^item> RV32_Isa: the instruction set, written from the manual and not from the code: decoder and effect of
    an instruction. It is the specification the generated code is compared with.
  \<^item> Riscv_Imm, Riscv_Encode, Riscv_Run: splitting of constants, encoders against the decoder,
    running short sequences of words.
  \<^item> The locales code_mem (patching words in place) and insn_sink (appending instruction words) are the
    interfaces the components use; each is interpreted on the definitions of the model in the theory
    that provides it.

  \<^bold>\<open>Preprocessor.\<close>
  \<^item> Pp_Text: growing strings (cstr), UTF-8, parse_string with parse_escape_string, and the printing of
    constants in get_tok_str; Pp_Text_Props: strings and one-byte characters read back as printed, and the decoder of UTF-8 accepts
    exactly what the encoder writes.
  \<^item> Pp_Number: parse_number; Pp_Number_Props: integer constants get the value and the type of the C
    standard; two examples of malformed constants that pass.
  \<^item> Tok_Table: tok_alloc with its hash chains, the keywords; Tok_Table_Props: the table is a list of
    distinct spellings.
  \<^item> Tok_String: the arrays of tokens, tok_str_add2 and tok_get; Tok_String_Props: tokens read back as they
    were written, and every number fits its token.

  \<^bold>\<open>Code generator.\<close>
  \<^item> Riscv_Emit: the writers g, o, gen_le32, the format encoders and every mnemonic macro. Riscv_Emit_Props:
    each word decodes to the instruction its macro names, and li leaves the constant.
  \<^item> Value_Stack, Value_Ops: SValue, CType, type_size, and the stack operations vsetc to vset_VT_CMP.
  \<^item> Riscv_Load: ireg, load, store and their parts; Riscv_Load_Props: the code load emits leaves the value
    C gives the stack entry, the code of store writes it and nothing else, for 32-bit values and near
    places; what the code does for unsigned char and short, far locals, wide constants and absolute addresses.
  \<^item> Reg_Alloc: register classes, get_reg, save_reg, temporary locals; Reg_Alloc_Props: the register found
    is free, spilling keeps what every one-word value stands for.
  \<^item> Const_Fold: gen_opic; Const_Fold_Props: folded values are those of the instruction the
    target would run, but for negative operands of TOK_PDIV; simplifications keep the value.
  \<^item> Riscv_Jumps: gjmp, gjmp_cond, gjmp_append, gsym_addr; Riscv_Jumps_Props: lists of jumps keep their
    places, resolved jumps reach a target within 1 MiB, comparisons jump when they hold; what happens
    beyond.
  \<^item> Riscv_Frame: reg_pass, gfunc_prolog, gfunc_epilog, gcall_or_jmp, gfunc_sret, variable-length
    arrays; Riscv_Frame_Props, Riscv_Params_Props: entry and exit fit together for every frame size,
    parameters are stored where the function looks for them.

  \<^bold>\<open>Parser.\<close>
  \<^item> Expr_Parse: the recursive descent and the precedence parser for binary expressions, with && and ||;
    Expr_Parse_Props: they are the same parser, and it comes to an end.
  \<^item> Sym_Scopes: sym_malloc, sym_push, global_identifier_push, sym_pop and the lookups on a heap of
    Sym cells; Sym_Scopes_Props: the table always gives the newest symbol, leaving a scope restores
    every name, and no cell in use is handed out.
  \<^item> Struct_Layout: struct_layout; Struct_Layout_Props: members are disjoint and inside the structure.
  \<^item> Switch_Cases: gcase, gtst_addr and the end of the switch statement; Switch_Cases_Props: every value
    reaches its case or the default if the cases keep their order in the type compared and no range is empty;
    two examples of cases that are missed otherwise.

  \<^bold>\<open>Assembler.\<close>
  \<^item> Link_Syms, Asm_State: symbols behind labels, relocation requests, tokens and labels.
  \<^item> Asm_Expr: asm_expr and its levels; Asm_Expr_Props: it returns, and it reads back every
    printed expression.
  \<^item> Riscv_Asm: operands, all handlers, asm_opcode, clobber lists; Riscv_Asm_Props: what each group of
    instructions assembles to, what is refused, and that earlier code stays.

  \<^bold>\<open>Linking and tables.\<close>
  \<^item> Riscv_Link: code_reloc, gotplt_entry_type, relocate, relocate_section, the PLT; Riscv_Link_Props:
    patched pairs reach their symbols, the range checks, no byte outside the place changes.
  \<^item> Elf_Symtab: put_elf_str, elf_hash, put_elf_sym, find_elf_sym, set_elf_sym, sort_syms;
    Elf_Symtab_Props: the hash table refines a list of symbols, definitions are never lost.

  \<^bold>\<open>Runtime library.\<close>
  \<^item> Lib_Int64: the 64-bit division, shifts and conversions of lib/libtcc1.c; Lib_Int64_Props: they
    compute the 64-bit operations (the division is Knuth's algorithm D).

  \<^bold>\<open>Conventions.\<close> Registers, flags and instruction words are words of the width the C type has, so they wrap
  as in C; sizes and offsets that stay far below the limits of int are integers. Pointers are indices or
  options, and following a null pointer or leaving a buffer is the error MemFault. A function of C that
  changes global state takes the state and returns it with the result.

  \<^bold>\<open>Calls back into the generator.\<close> tccgen.c is one large recursion. Where a modelled function calls a part
  that is not modelled (gv in Value_Ops and Const_Fold, gen_opi and gen_opl in Const_Fold, unary, gen_op
  and the stack operations in Expr_Parse), that part is an argument of the definition; theorems hold for
  every such argument, with what they need of it (unary never adds tokens) as a hypothesis.

  \<^bold>\<open>Fuel.\<close> Loops whose end depends on data take a number of rounds, and running out is the error
  NoReturn: gsym_addr and gjmp_append (the length of the list is enough), asm_expr and expr_infix (the
  number of tokens), find_elf_sym (the number of symbols), sym_pop (the number of symbols popped), the access
  types of a bit-field (five). The walk along a chain of
  tok_alloc takes the number of tokens and one more. The theorems show the bound to be enough. In elf_hash, unsigned long is 32 bits
  wide, as on the 32-bit host the compiler is built for.

  \<^bold>\<open>Not modelled.\<close> The lexer, directives, macro expansion and the allocator of the preprocessor; strtod and ldexp
  of the C library (Pp_Number gives the text they get); declarations, statements, casts, gen_op, gv and
  initialisers of tccgen.c, which have no contract apart from the whole parser; floating point code;
  the argument loops of gfunc_call; bounds checking; output and loading of object files, the driver, running
  in memory and debug information, which are input and output; assembler directives; the other targets and object formats,
  which are not part of this build; the WebAssembly wrapper, which is not C. In Sym_Scopes the
  attributes of a symbol are left out, in Struct_Layout the references of bit-field types.
\<close>

end
